(* ===== verification/Prelude.thy ===== *)
theory Prelude
  imports Main "HOL-Library.Word" "HOL-Library.State_Monad"
begin

text \<open>
  Shared vocabulary of the development: the machine integers of the C++ sources as words, byte
  strings as lists, the big-endian and little-endian splits every codec uses, and the generic
  lemmas on words and lists that the component theories rest on. The collections declared here
  gather the facts of the components: \<open>wabs_simps\<close> what each writer operation appends,
  \<open>reads_intros\<close> what each reader operation consumes, \<open>keeps_intros\<close> that reader operations
  never revive a failed cursor, \<open>wf_simps\<close> the well-formedness predicates.
\<close>

unbundle bit_operations_syntax

named_theorems wabs_simps
named_theorems reads_intros
named_theorems keeps_intros
named_theorems wf_simps

section \<open>Machine integers and byte strings\<close>

type_synonym byte = "8 word"
type_synonym u16 = "16 word"
type_synonym u32 = "32 word"
type_synonym u64 = "64 word"
type_synonym bytes = "byte list"

text \<open>Instants and durations are milliseconds on one monotonic clock.\<close>

type_synonym instant = int
type_synonym duration = int

definition byte_at :: "nat \<Rightarrow> 'a::len word \<Rightarrow> byte" where
  "byte_at s v = ucast (drop_bit s v)"

definition be16 :: "u16 \<Rightarrow> bytes" where
  "be16 v = [byte_at 8 v, byte_at 0 v]"

definition be32 :: "u32 \<Rightarrow> bytes" where
  "be32 v = map (\<lambda>s. byte_at s v) [24, 16, 8, 0]"

definition be64 :: "u64 \<Rightarrow> bytes" where
  "be64 v = map (\<lambda>s. byte_at s v) [56, 48, 40, 32, 24, 16, 8, 0]"

text \<open>One step of \<open>v = v << 8 | b\<close>.\<close>

definition shift_in :: "'a::len word \<Rightarrow> byte \<Rightarrow> 'a word" where
  "shift_in acc b = (push_bit 8 acc) OR (ucast b)"

lemma length_be [simp]: "length (be16 v) = 2" "length (be32 w) = 4" "length (be64 x) = 8"
  by (simp_all add: be16_def be32_def be64_def)

lemma shift_in_step:
  "shift_in (drop_bit (s + 8) v) (byte_at s v) = drop_bit s v"
  unfolding shift_in_def byte_at_def
  by (rule bit_word_eqI) (auto simp: bit_simps add.commute add.left_commute)

lemma drop_bit_all: "LENGTH('a) \<le> n \<Longrightarrow> drop_bit n (v::'a::len word) = 0"
  by (rule bit_word_eqI) (auto simp: bit_simps dest: bit_imp_le_length)

lemma shift_in_be16: "foldl shift_in 0 (be16 v) = v"
proof -
  have "shift_in 0 (byte_at 8 v) = drop_bit 8 v"
    using shift_in_step [of 8 v] by (simp add: drop_bit_all)
  moreover have "shift_in (drop_bit 8 v) (byte_at 0 v) = v"
    using shift_in_step [of 0 v] by simp
  ultimately show ?thesis by (simp add: be16_def)
qed

lemma shift_in_be32: "foldl shift_in 0 (be32 v) = v"
  using shift_in_step [of 24 v] shift_in_step [of 16 v] shift_in_step [of 8 v]
    shift_in_step [of 0 v]
  by (simp add: be32_def drop_bit_all)

lemma shift_in_be64: "foldl shift_in 0 (be64 v) = v"
  using shift_in_step [of 56 v] shift_in_step [of 48 v] shift_in_step [of 40 v]
    shift_in_step [of 32 v] shift_in_step [of 24 v] shift_in_step [of 16 v]
    shift_in_step [of 8 v] shift_in_step [of 0 v]
  by (simp add: be64_def drop_bit_all)

section \<open>Lists\<close>

lemma list_update_take_drop:
  "i < length xs \<Longrightarrow> xs[i := v] = take i xs @ v # drop (Suc i) xs"
  by (rule upd_conv_take_nth_drop)

lemma take_Suc_update:
  "i < length xs \<Longrightarrow> take (Suc i) (xs[i := v]) = take i xs @ [v]"
  by (simp add: take_Suc_conv_app_nth)

lemma length_2_conv: "length xs = 2 \<longleftrightarrow> (\<exists>a b. xs = [a, b])"
  by (auto simp: numeral_2_eq_2 length_Suc_conv)

section \<open>Strings as bytes\<close>

definition byte_of_char :: "char \<Rightarrow> byte" where
  "byte_of_char c = of_nat (of_char c)"

definition char_of_byte :: "byte \<Rightarrow> char" where
  "char_of_byte b = char_of (unat b)"

lemma char_of_byte_of_char [simp]: "char_of_byte (byte_of_char c) = c"
proof -
  have "(of_char c :: nat) < 256" by simp
  then have "unat (of_nat (of_char c) :: byte) = of_char c"
    by (simp add: unat_of_nat take_bit_nat_eq_self)
  then show ?thesis by (simp add: char_of_byte_def byte_of_char_def)
qed

definition bytes_of_string :: "string \<Rightarrow> bytes" where
  "bytes_of_string s = map byte_of_char s"

lemma length_bytes_of_string [simp]: "length (bytes_of_string s) = length s"
  by (simp add: bytes_of_string_def)

lemma map_char_of_byte [simp]: "map char_of_byte (bytes_of_string s) = s"
  by (simp add: bytes_of_string_def comp_def)

lemma take_drop_past:
  assumes "length a = n"
  shows "take (n + k) (a @ b) = a @ take k b" and "drop (n + k) (a @ b) = drop k b"
  using assms by auto

end
