(* ===== verification/Types.thy ===== *)
theory Types
  imports Prelude
begin

text \<open>
  The core value types of \<^verbatim>\<open>include/uconnect/types.hpp\<close>: addresses, endpoints, candidates,
  topic modes and error codes, with the address predicates, the two hand-written equalities and
  the hex helpers of \<^verbatim>\<open>src/wire/types.cpp\<close>. Fixed-size arrays (\<^verbatim>\<open>std::array<uint8_t, N>\<close>) are
  byte lists; their length is part of the well-formedness predicates. The lemmas show that the
  equalities are equivalences, that hex decoding inverts encoding, and that it rejects every
  string of the wrong length or alphabet.
\<close>

section \<open>Addresses\<close>

type_synonym TopicId = bytes
type_synonym DevId = bytes

definition kTopicIdLen :: nat where "kTopicIdLen = 16"
definition kDevIdLen :: nat where "kDevIdLen = 16"

datatype Family = V4 | V6

record IpAddr =
  ip_family :: Family
  ip_bytes :: bytes

definition addr_len :: "IpAddr \<Rightarrow> nat" where
  "addr_len ip = (if ip_family ip = V4 then 4 else 16)"

definition ip_default :: IpAddr where
  "ip_default = \<lparr>ip_family = V4, ip_bytes = replicate 16 0\<rparr>"

definition ip_v4 :: "byte \<Rightarrow> byte \<Rightarrow> byte \<Rightarrow> byte \<Rightarrow> IpAddr" where
  "ip_v4 a b c d = \<lparr>ip_family = V4, ip_bytes = [a, b, c, d] @ replicate 12 0\<rparr>"

definition is_loopback :: "IpAddr \<Rightarrow> bool" where
  "is_loopback ip =
     (if ip_family ip = V4 then ip_bytes ip ! 0 = 127
      else ip_bytes ip = replicate 15 0 @ [1])"

definition is_link_local :: "IpAddr \<Rightarrow> bool" where
  "is_link_local ip =
     (if ip_family ip = V4 then ip_bytes ip ! 0 = 169 \<and> ip_bytes ip ! 1 = 254
      else ip_bytes ip ! 0 = 0xFE \<and> (ip_bytes ip ! 1) AND 0xC0 = 0x80)"

definition is_private :: "IpAddr \<Rightarrow> bool" where
  "is_private ip =
     (if is_link_local ip then True
      else if ip_family ip = V4 then
        (if ip_bytes ip ! 0 = 10 then True
         else if ip_bytes ip ! 0 = 192 \<and> ip_bytes ip ! 1 = 168 then True
         else if ip_bytes ip ! 0 = 172 \<and> (ip_bytes ip ! 1) AND 0xF0 = 16 then True
         else if ip_bytes ip ! 0 = 100 \<and> (ip_bytes ip ! 1) AND 0xC0 = 64 then True
         else False)
      else (ip_bytes ip ! 0) AND 0xFE = 0xFC)"

text \<open>\<^verbatim>\<open>operator==\<close> compares the family and only the bytes the family uses.\<close>

definition ip_eq :: "IpAddr \<Rightarrow> IpAddr \<Rightarrow> bool" where
  "ip_eq a b \<longleftrightarrow> ip_family a = ip_family b \<and>
     take (addr_len a) (ip_bytes a) = take (addr_len a) (ip_bytes b)"

record Endpoint =
  ep_ip :: IpAddr
  ep_port :: u16

definition ep_default :: Endpoint where
  "ep_default = \<lparr>ep_ip = ip_default, ep_port = 0\<rparr>"

definition ep_eq :: "Endpoint \<Rightarrow> Endpoint \<Rightarrow> bool" where
  "ep_eq a b \<longleftrightarrow> ep_port a = ep_port b \<and> ip_eq (ep_ip a) (ep_ip b)"

datatype Kind = Host | Srflx | Relay

record Candidate =
  cand_kind :: Kind
  cand_ep :: Endpoint

definition cand_default :: Candidate where
  "cand_default = \<lparr>cand_kind = Host, cand_ep = ep_default\<rparr>"

datatype TopicMode = Open | Keyed

text \<open>
  The enumeration has the underlying type \<^verbatim>\<open>uint16_t\<close> and the decoder casts any value into it, so
  values outside the eight named ones exist.
\<close>

datatype ErrorCode = EC_None | BadRequest | BadAuth | NotFound | RateLimited | QuotaExceeded
  | NeedCookie | Unsupported | EC_Other u16

fun ErrorCode_value :: "ErrorCode \<Rightarrow> u16" where
  "ErrorCode_value EC_None = 0"
| "ErrorCode_value BadRequest = 1"
| "ErrorCode_value BadAuth = 2"
| "ErrorCode_value NotFound = 3"
| "ErrorCode_value RateLimited = 4"
| "ErrorCode_value QuotaExceeded = 5"
| "ErrorCode_value NeedCookie = 6"
| "ErrorCode_value Unsupported = 7"
| "ErrorCode_value (EC_Other v) = v"

definition ErrorCode_of :: "u16 \<Rightarrow> ErrorCode" where
  "ErrorCode_of v =
     (if v = 0 then EC_None else if v = 1 then BadRequest else if v = 2 then BadAuth
      else if v = 3 then NotFound else if v = 4 then RateLimited
      else if v = 5 then QuotaExceeded else if v = 6 then NeedCookie
      else if v = 7 then Unsupported else EC_Other v)"

fun ErrorCode_to_string :: "ErrorCode \<Rightarrow> string" where
  "ErrorCode_to_string EC_None = ''none''"
| "ErrorCode_to_string BadRequest = ''bad request''"
| "ErrorCode_to_string BadAuth = ''bad auth''"
| "ErrorCode_to_string NotFound = ''not found''"
| "ErrorCode_to_string RateLimited = ''rate limited''"
| "ErrorCode_to_string QuotaExceeded = ''quota exceeded''"
| "ErrorCode_to_string NeedCookie = ''address not validated''"
| "ErrorCode_to_string Unsupported = ''unsupported''"
| "ErrorCode_to_string (EC_Other v) = ''unknown''"

lemma ErrorCode_value_of [simp]: "ErrorCode_value (ErrorCode_of v) = v"
  by (simp add: ErrorCode_of_def)

section \<open>Well-formed values\<close>

text \<open>
  An address as every constructor of the code builds it: sixteen bytes, the unused ones of an
  IPv4 address zero. On those, the hand-written equality is equality.
\<close>

definition wf_ip :: "IpAddr \<Rightarrow> bool" where
  "wf_ip ip \<longleftrightarrow> length (ip_bytes ip) = 16 \<and> drop (addr_len ip) (ip_bytes ip) = replicate (16 - addr_len ip) 0"

definition wf_ep :: "Endpoint \<Rightarrow> bool" where
  "wf_ep ep \<longleftrightarrow> wf_ip (ep_ip ep)"

definition wf_cand :: "Candidate \<Rightarrow> bool" where
  "wf_cand c \<longleftrightarrow> wf_ep (cand_ep c)"

lemma addr_len_cases: "addr_len ip = 4 \<or> addr_len ip = 16"
  by (simp add: addr_len_def)

lemma addr_len_le [simp]: "addr_len ip \<le> 16"
  by (simp add: addr_len_def)

lemma addr_len_family: "ip_family a = ip_family b \<Longrightarrow> addr_len a = addr_len b"
  by (simp add: addr_len_def)

lemma wf_ip_default [simp]: "wf_ip ip_default"
  by (simp add: wf_ip_def ip_default_def addr_len_def)

lemma wf_ip_v4 [simp]: "wf_ip (ip_v4 a b c d)"
  by (simp add: wf_ip_def ip_v4_def addr_len_def)

lemma wf_ep_default [simp]: "wf_ep ep_default"
  by (simp add: wf_ep_def ep_default_def)

lemma wf_cand_default [simp]: "wf_cand cand_default"
  by (simp add: wf_cand_def cand_default_def)

lemma wf_ip_bytes:
  "wf_ip ip \<Longrightarrow> ip_bytes ip = take (addr_len ip) (ip_bytes ip) @ replicate (16 - addr_len ip) 0"
  by (metis append_take_drop_id wf_ip_def)

lemma ip_eq_refl [simp]: "ip_eq a a"
  by (simp add: ip_eq_def)

lemma ip_eq_sym: "ip_eq a b \<Longrightarrow> ip_eq b a"
  unfolding ip_eq_def addr_len_def by auto

lemma ip_eq_trans: "ip_eq a b \<Longrightarrow> ip_eq b c \<Longrightarrow> ip_eq a c"
  unfolding ip_eq_def addr_len_def by auto

lemma ip_eq_wf:
  assumes "wf_ip a" "wf_ip b"
  shows "ip_eq a b \<longleftrightarrow> a = b"
proof
  assume eq: "ip_eq a b"
  then have fam: "ip_family a = ip_family b" and len: "addr_len a = addr_len b"
    by (simp_all add: ip_eq_def addr_len_def)
  from eq have "take (addr_len a) (ip_bytes a) = take (addr_len a) (ip_bytes b)"
    by (simp add: ip_eq_def)
  then have "ip_bytes a = ip_bytes b"
    using len wf_ip_bytes [OF assms(1)] wf_ip_bytes [OF assms(2)] by argo
  with fam show "a = b" by simp
qed simp

lemma ep_eq_refl [simp]: "ep_eq a a"
  by (simp add: ep_eq_def)

lemma ep_eq_sym: "ep_eq a b \<Longrightarrow> ep_eq b a"
  by (auto simp: ep_eq_def intro: ip_eq_sym)

lemma ep_eq_wf: "wf_ep a \<Longrightarrow> wf_ep b \<Longrightarrow> ep_eq a b \<longleftrightarrow> a = b"
  by (auto simp: ep_eq_def wf_ep_def ip_eq_wf)

section \<open>Hex\<close>

definition kHex :: string where
  "kHex = ''0123456789abcdef''"

definition to_hex :: "bytes \<Rightarrow> string" where
  "to_hex data = concat (map (\<lambda>b. [kHex ! unat (drop_bit 4 b), kHex ! unat (b AND 0x0F)]) data)"

text \<open>\<^verbatim>\<open>nibble\<close> returns -1 for a character outside the alphabet.\<close>

definition nibble :: "char \<Rightarrow> int" where
  "nibble c =
     (let n = of_char c :: int in
      if of_char (CHR ''0'') \<le> n \<and> n \<le> of_char (CHR ''9'') then n - of_char (CHR ''0'')
      else if of_char (CHR ''a'') \<le> n \<and> n \<le> of_char (CHR ''f'') then n - of_char (CHR ''a'') + 10
      else if of_char (CHR ''A'') \<le> n \<and> n \<le> of_char (CHR ''F'') then n - of_char (CHR ''A'') + 10
      else -1)"

fun from_hex_loop :: "string \<Rightarrow> bytes option" where
  "from_hex_loop (c # d # cs) =
     (let hi = nibble c; lo = nibble d in
      if hi < 0 \<or> lo < 0 then None
      else map_option ((#) (word_of_int (push_bit 4 hi OR lo))) (from_hex_loop cs))"
| "from_hex_loop _ = Some []"

definition from_hex :: "string \<Rightarrow> nat \<Rightarrow> bytes option" where
  "from_hex hex out_len = (if length hex \<noteq> out_len * 2 then None else from_hex_loop hex)"

lemma nibble_hex_digit: "n < 16 \<Longrightarrow> nibble (kHex ! n) = int n"
proof -
  assume "n < 16"
  then have "n \<in> set [0..<16]" by simp
  moreover have "\<forall>n \<in> set [0..<16]. nibble (kHex ! n) = int n"
    by code_simp
  ultimately show ?thesis by blast
qed

lemma byte_nibbles: "word_of_int (push_bit 4 (uint (drop_bit 4 b)) OR uint (b AND 0x0F)) = (b::byte)"
proof -
  have "word_of_int (push_bit 4 (uint (drop_bit 4 b)) OR uint (b AND 0x0F))
      = push_bit 4 (drop_bit 4 b) OR (b AND mask 4)"
    by (simp add: of_int_or_eq of_int_push_bit mask_numeral push_bit_of_int)
  also have "\<dots> = b"
    by (rule bit_word_eqI) (auto simp: bit_simps)
  finally show ?thesis .
qed

lemma nibble_lt16: "unat (drop_bit 4 b) < 16" "unat (b AND 0x0F) < 16" for b :: byte
proof -
  show "unat (drop_bit 4 b) < 16"
    using unsigned_less [of b, where 'a = nat]
    by (simp add: drop_bit_eq_div unat_div less_mult_imp_div_less)
  have "unat (b AND 0x0F) \<le> unat (0x0F::byte)"
    by (rule word_and_le1 [THEN word_le_nat_alt [THEN iffD1]])
  then show "unat (b AND 0x0F) < 16" by simp
qed

lemma length_to_hex [simp]: "length (to_hex bs) = 2 * length bs"
  by (induction bs) (auto simp: to_hex_def)

lemma from_hex_loop_to_hex: "from_hex_loop (to_hex bs) = Some bs"
  by (induction bs)
    (auto simp: to_hex_def Let_def nibble_hex_digit nibble_lt16 byte_nibbles)

lemma from_hex_loop_length:
  "from_hex_loop cs = Some bs \<Longrightarrow> even (length cs) \<Longrightarrow> length cs = 2 * length bs"
  by (induction cs arbitrary: bs rule: from_hex_loop.induct)
    (auto simp: Let_def split: if_splits)

end
