(* ===== verification/Buffer.thy ===== *)
theory Buffer
  imports Types
begin

text \<open>
  The bounds-checked big-endian cursors of \<^verbatim>\<open>src/wire/buffer.hpp\<close>: \<open>writer\<close> and \<open>reader\<close> carry the
  buffer, the position and the sticky \<^verbatim>\<open>ok_\<close> flag of the classes. Writer operations are state
  transformers, reader operations computations of the state monad. Two abstractions carry the
  codec proofs: \<open>wabs\<close> reads a writer as the bytes written so far (nothing once it failed) and
  every writer operation refines \<open>emit\<close>; \<open>r_at\<close> says which bytes lie ahead of a reader, and
  \<open>reads m bs v\<close> that \<open>m\<close> consumes exactly \<open>bs\<close> and returns \<open>v\<close>. \<open>keeps m\<close> is the sticky failure
  model: no operation moves or revives a failed reader, or leaves the buffer.
\<close>

section \<open>Writer\<close>

record writer =
  w_buf :: bytes
  w_pos :: nat
  w_ok :: bool

definition Writer :: "bytes \<Rightarrow> writer" where
  "Writer buf = \<lparr>w_buf = buf, w_pos = 0, w_ok = True\<rparr>"

definition room :: "nat \<Rightarrow> writer \<Rightarrow> bool \<times> writer" where
  "room n w = (if \<not> w_ok w \<or> w_pos w + n > length (w_buf w)
               then (False, w\<lparr>w_ok := False\<rparr>) else (True, w))"

text \<open>\<^verbatim>\<open>buf_[pos_++] = v\<close>\<close>

definition poke :: "byte \<Rightarrow> writer \<Rightarrow> writer" where
  "poke v w = w\<lparr>w_buf := (w_buf w)[w_pos w := v], w_pos := w_pos w + 1\<rparr>"

definition w_u8 :: "byte \<Rightarrow> writer \<Rightarrow> writer" where
  "w_u8 v w = (case room 1 w of (False, w) \<Rightarrow> w | (True, w) \<Rightarrow> poke v w)"

definition w_u16 :: "u16 \<Rightarrow> writer \<Rightarrow> writer" where
  "w_u16 v w = (case room 2 w of (False, w) \<Rightarrow> w
     | (True, w) \<Rightarrow> poke (ucast v) (poke (ucast (drop_bit 8 v)) w))"

definition w_u32 :: "u32 \<Rightarrow> writer \<Rightarrow> writer" where
  "w_u32 v w = (case room 4 w of (False, w) \<Rightarrow> w
     | (True, w) \<Rightarrow> fold (\<lambda>s. poke (ucast (drop_bit s v))) [24, 16, 8, 0] w)"

definition w_u64 :: "u64 \<Rightarrow> writer \<Rightarrow> writer" where
  "w_u64 v w = (case room 8 w of (False, w) \<Rightarrow> w
     | (True, w) \<Rightarrow> fold (\<lambda>s. poke (ucast (drop_bit s v))) [56, 48, 40, 32, 24, 16, 8, 0] w)"

text \<open>\<^verbatim>\<open>memcpy(buf_.data() + pos_, p, n); pos_ += n\<close>\<close>

definition w_bytes :: "bytes \<Rightarrow> writer \<Rightarrow> writer" where
  "w_bytes p w = (case room (length p) w of (False, w) \<Rightarrow> w
     | (True, w) \<Rightarrow> w\<lparr>w_buf := take (w_pos w) (w_buf w) @ p @ drop (w_pos w + length p) (w_buf w),
                     w_pos := w_pos w + length p\<rparr>)"

definition w_array :: "bytes \<Rightarrow> writer \<Rightarrow> writer" where
  "w_array a w = w_bytes a w"

definition w_varint :: "u64 \<Rightarrow> writer \<Rightarrow> writer" where
  "w_varint v w =
     (if v \<le> 63 then w_u8 (ucast v) w
      else if v \<le> 16383 then w_u16 (ucast v OR 0x4000) w
      else if v \<le> 0x3FFFFFFF then w_u32 (ucast v OR 0x80000000) w
      else if v \<le> 0x3FFFFFFFFFFFFFFF then w_u64 (v OR 0xC000000000000000) w
      else w\<lparr>w_ok := False\<rparr>)"

definition varint_size :: "u64 \<Rightarrow> nat" where
  "varint_size v = (if v \<le> 63 then 1 else if v \<le> 16383 then 2
                    else if v \<le> 0x3FFFFFFF then 4 else 8)"

definition w_blob8 :: "bytes \<Rightarrow> writer \<Rightarrow> writer" where
  "w_blob8 s w = (if length s > 0xFF then w\<lparr>w_ok := False\<rparr>
                  else w_bytes s (w_u8 (of_nat (length s)) w))"

definition w_blob16 :: "bytes \<Rightarrow> writer \<Rightarrow> writer" where
  "w_blob16 s w = (if length s > 0xFFFF then w\<lparr>w_ok := False\<rparr>
                   else w_bytes s (w_u16 (of_nat (length s)) w))"

definition Family_value :: "Family \<Rightarrow> byte" where
  "Family_value f = (case f of V4 \<Rightarrow> 4 | V6 \<Rightarrow> 6)"

definition Kind_value :: "Kind \<Rightarrow> byte" where
  "Kind_value k = (case k of Host \<Rightarrow> 0 | Srflx \<Rightarrow> 1 | Relay \<Rightarrow> 2)"

definition w_endpoint :: "Endpoint \<Rightarrow> writer \<Rightarrow> writer" where
  "w_endpoint ep w =
     (let w = w_u8 (Family_value (ip_family (ep_ip ep))) w;
          w = w_bytes (take (addr_len (ep_ip ep)) (ip_bytes (ep_ip ep))) w
      in w_u16 (ep_port ep) w)"

definition w_candidate :: "Candidate \<Rightarrow> writer \<Rightarrow> writer" where
  "w_candidate c w = w_endpoint (cand_ep c) (w_u8 (Kind_value (cand_kind c)) w)"

definition w_written :: "writer \<Rightarrow> bytes" where
  "w_written w = take (w_pos w) (w_buf w)"

definition patch_u8 :: "nat \<Rightarrow> byte \<Rightarrow> writer \<Rightarrow> writer" where
  "patch_u8 at v w = (if at < w_pos w then w\<lparr>w_buf := (w_buf w)[at := v]\<rparr> else w\<lparr>w_ok := False\<rparr>)"

section \<open>Reader\<close>

record reader =
  r_buf :: bytes
  r_pos :: nat
  r_ok :: bool

definition Reader :: "bytes \<Rightarrow> reader" where
  "Reader buf = \<lparr>r_buf = buf, r_pos = 0, r_ok = True\<rparr>"

definition have_n :: "nat \<Rightarrow> (reader, bool) state" where
  "have_n n = State (\<lambda>r. if \<not> r_ok r \<or> r_pos r + n > length (r_buf r)
                          then (False, r\<lparr>r_ok := False\<rparr>) else (True, r))"

text \<open>\<^verbatim>\<open>buf_[pos_ .. pos_ + n)\<close>, then \<^verbatim>\<open>pos_ += n\<close>; called only after \<^verbatim>\<open>have(n)\<close>.\<close>

definition grab :: "nat \<Rightarrow> (reader, bytes) state" where
  "grab n = State (\<lambda>r. (take n (drop (r_pos r) (r_buf r)), r\<lparr>r_pos := r_pos r + n\<rparr>))"

definition rd_u8 :: "(reader, byte) state" where
  "rd_u8 = do { h \<leftarrow> have_n 1;
     if \<not> h then State_Monad.return 0
     else do { bs \<leftarrow> grab 1; State_Monad.return (bs ! 0) } }"

definition rd_u16 :: "(reader, u16) state" where
  "rd_u16 = do { h \<leftarrow> have_n 2;
     if \<not> h then State_Monad.return 0
     else do { bs \<leftarrow> grab 2;
               State_Monad.return (push_bit 8 (ucast (bs ! 0)) OR ucast (bs ! 1)) } }"

definition rd_u32 :: "(reader, u32) state" where
  "rd_u32 = do { h \<leftarrow> have_n 4;
     if \<not> h then State_Monad.return 0
     else do { bs \<leftarrow> grab 4; State_Monad.return (foldl shift_in 0 bs) } }"

definition rd_u64 :: "(reader, u64) state" where
  "rd_u64 = do { h \<leftarrow> have_n 8;
     if \<not> h then State_Monad.return 0
     else do { bs \<leftarrow> grab 8; State_Monad.return (foldl shift_in 0 bs) } }"

definition rd_bytes :: "nat \<Rightarrow> (reader, bytes) state" where
  "rd_bytes n = do { h \<leftarrow> have_n n; if \<not> h then State_Monad.return [] else grab n }"

definition rd_array :: "nat \<Rightarrow> (reader, bytes) state" where
  "rd_array N = do { s \<leftarrow> rd_bytes N;
     State_Monad.return (if length s = N then s else replicate N 0) }"

definition rd_varint :: "(reader, u64) state" where
  "rd_varint = do { h \<leftarrow> have_n 1;
     if \<not> h then State_Monad.return 0
     else do { r \<leftarrow> State_Monad.get;
       (let first = drop_bit 6 (r_buf r ! r_pos r) in
        if first = 0 then do { v \<leftarrow> rd_u8; State_Monad.return (ucast v) }
        else if first = 1 then do { v \<leftarrow> rd_u16; State_Monad.return (ucast v AND 0x3FFF) }
        else if first = 2 then do { v \<leftarrow> rd_u32; State_Monad.return (ucast v AND 0x3FFFFFFF) }
        else do { v \<leftarrow> rd_u64; State_Monad.return (v AND 0x3FFFFFFFFFFFFFFF) }) } }"

definition rd_blob8 :: "(reader, bytes) state" where
  "rd_blob8 = do { n \<leftarrow> rd_u8; rd_bytes (unat n) }"

definition rd_blob16 :: "(reader, bytes) state" where
  "rd_blob16 = do { n \<leftarrow> rd_u16; rd_bytes (unat n) }"

text \<open>\<^verbatim>\<open>ok_ = false\<close>\<close>

definition rd_fail :: "(reader, unit) state" where
  "rd_fail = State (\<lambda>r. ((), r\<lparr>r_ok := False\<rparr>))"

definition rd_endpoint :: "(reader, Endpoint) state" where
  "rd_endpoint = do { fam \<leftarrow> rd_u8;
     if fam \<noteq> 4 \<and> fam \<noteq> 6 then do { _ \<leftarrow> rd_fail; State_Monad.return ep_default }
     else (let f = (if fam = 4 then V4 else V6);
               n = (if f = V4 then 4 else 16) in
       do { a \<leftarrow> rd_bytes n;
            port \<leftarrow> rd_u16;
            State_Monad.return \<lparr>ep_ip = \<lparr>ip_family = f,
              ip_bytes = (if length a = n then a @ replicate (16 - n) 0 else replicate 16 0)\<rparr>,
              ep_port = port\<rparr> }) }"

definition rd_candidate :: "(reader, Candidate) state" where
  "rd_candidate = do { k \<leftarrow> rd_u8;
     if k > 2 then do { _ \<leftarrow> rd_fail; State_Monad.return cand_default }
     else do { ep \<leftarrow> rd_endpoint;
       State_Monad.return \<lparr>cand_kind = (if k = 0 then Host else if k = 1 then Srflx else Relay),
                           cand_ep = ep\<rparr> } }"

definition rd_ok :: "(reader, bool) state" where
  "rd_ok = State (\<lambda>r. (r_ok r, r))"

definition r_remaining :: "reader \<Rightarrow> nat" where
  "r_remaining r = (if r_ok r then length (r_buf r) - r_pos r else 0)"

definition rd_remaining :: "(reader, nat) state" where
  "rd_remaining = State (\<lambda>r. (r_remaining r, r))"

section \<open>What a writer has written\<close>

definition wabs :: "writer \<Rightarrow> bytes option" where
  "wabs w = (if w_ok w \<and> w_pos w \<le> length (w_buf w) then Some (take (w_pos w) (w_buf w)) else None)"

text \<open>The specification of writing: append, or fail for good when the capacity is exceeded.\<close>

definition emit :: "nat \<Rightarrow> bytes \<Rightarrow> bytes option \<Rightarrow> bytes option" where
  "emit cap bs s = (case s of None \<Rightarrow> None
     | Some c \<Rightarrow> if length c + length bs \<le> cap then Some (c @ bs) else None)"

abbreviation w_cap :: "writer \<Rightarrow> nat" where
  "w_cap w \<equiv> length (w_buf w)"

lemma emit_None [simp]: "emit cap bs None = None"
  by (simp add: emit_def)

lemma emit_emit [simp]: "emit cap b (emit cap a s) = emit cap (a @ b) s"
  by (cases s) (auto simp: emit_def)

lemma emit_Nil [simp]: "emit (w_cap w) [] (wabs w) = wabs w"
  by (auto simp: emit_def wabs_def)

lemma emit_Some: "length c + length bs \<le> cap \<Longrightarrow> emit cap bs (Some c) = Some (c @ bs)"
  by (simp add: emit_def)

lemma room_eq:
  "room n w = (if w_ok w \<and> w_pos w + n \<le> w_cap w then (True, w) else (False, w\<lparr>w_ok := False\<rparr>))"
  by (auto simp: room_def)

lemma wabs_fail [simp]: "wabs (w\<lparr>w_ok := False\<rparr>) = None"
  by (simp add: wabs_def)

lemma poke_simps [simp]:
  "w_cap (poke v w) = w_cap w" "w_pos (poke v w) = w_pos w + 1" "w_ok (poke v w) = w_ok w"
  by (simp_all add: poke_def)

lemma take_poke: "w_pos w < w_cap w \<Longrightarrow> take (Suc (w_pos w)) (w_buf (poke v w)) = take (w_pos w) (w_buf w) @ [v]"
  by (simp add: poke_def take_Suc_update)

lemma fold_poke:
  "w_pos w + length vs \<le> w_cap w \<Longrightarrow>
     w_cap (fold poke vs w) = w_cap w \<and> w_ok (fold poke vs w) = w_ok w \<and>
     w_pos (fold poke vs w) = w_pos w + length vs \<and>
     take (w_pos w + length vs) (w_buf (fold poke vs w)) = take (w_pos w) (w_buf w) @ vs"
proof (induction vs arbitrary: w)
  case (Cons v vs)
  then show ?case
    using Cons.IH [of "poke v w"] by (simp add: take_poke)
qed simp

text \<open>Every scalar store is the same guarded run of single-byte stores.\<close>

definition store :: "bytes \<Rightarrow> writer \<Rightarrow> writer" where
  "store vs w = (case room (length vs) w of (False, w) \<Rightarrow> w | (True, w) \<Rightarrow> fold poke vs w)"

lemma store_cap [simp]: "w_cap (store vs w) = w_cap w"
  using fold_poke [of w vs] by (simp add: store_def room_eq)

lemma wabs_store [simp]: "wabs (store vs w) = emit (w_cap w) vs (wabs w)"
  using fold_poke [of w vs] by (auto simp: store_def room_eq wabs_def emit_def)

lemma w_u8_store: "w_u8 v w = store [v] w"
  by (simp add: w_u8_def store_def room_eq)

lemma w_u16_store: "w_u16 v w = store (be16 v) w"
  unfolding w_u16_def store_def length_be by (simp add: be16_def byte_at_def room_eq)

lemma w_u32_store: "w_u32 v w = store (be32 v) w"
  unfolding w_u32_def store_def length_be by (simp add: be32_def byte_at_def room_eq)

lemma w_u64_store: "w_u64 v w = store (be64 v) w"
  unfolding w_u64_def store_def length_be by (simp add: be64_def byte_at_def room_eq)

lemma w_bytes_cap: "w_cap (w_bytes p w) = w_cap w"
  by (simp add: w_bytes_def room_eq)

lemma wabs_w_bytes: "wabs (w_bytes p w) = emit (w_cap w) p (wabs w)"
  by (auto simp: w_bytes_def room_eq wabs_def emit_def)

lemma w_u_simps [wabs_simps, simp]:
  "w_cap (w_u8 a w) = w_cap w" "wabs (w_u8 a w) = emit (w_cap w) [a] (wabs w)"
  "w_cap (w_u16 b w) = w_cap w" "wabs (w_u16 b w) = emit (w_cap w) (be16 b) (wabs w)"
  "w_cap (w_u32 c w) = w_cap w" "wabs (w_u32 c w) = emit (w_cap w) (be32 c) (wabs w)"
  "w_cap (w_u64 d w) = w_cap w" "wabs (w_u64 d w) = emit (w_cap w) (be64 d) (wabs w)"
  "w_cap (w_bytes p w) = w_cap w" "wabs (w_bytes p w) = emit (w_cap w) p (wabs w)"
  "w_cap (w_array p w) = w_cap w" "wabs (w_array p w) = emit (w_cap w) p (wabs w)"
  by (simp_all only: w_u8_store w_u16_store w_u32_store w_u64_store store_cap wabs_store
      w_array_def w_bytes_cap wabs_w_bytes)

text \<open>The wire form of an endpoint, a candidate and a variable-length integer.\<close>

definition ser_endpoint :: "Endpoint \<Rightarrow> bytes" where
  "ser_endpoint ep = [Family_value (ip_family (ep_ip ep))]
     @ take (addr_len (ep_ip ep)) (ip_bytes (ep_ip ep)) @ be16 (ep_port ep)"

definition ser_candidate :: "Candidate \<Rightarrow> bytes" where
  "ser_candidate c = [Kind_value (cand_kind c)] @ ser_endpoint (cand_ep c)"

definition ser_varint :: "u64 \<Rightarrow> bytes" where
  "ser_varint v =
     (if v \<le> 63 then [ucast v]
      else if v \<le> 16383 then be16 (ucast v OR 0x4000)
      else if v \<le> 0x3FFFFFFF then be32 (ucast v OR 0x80000000)
      else be64 (v OR 0xC000000000000000))"

lemma w_composite_simps [wabs_simps, simp]:
  "w_cap (w_endpoint ep w) = w_cap w"
  "wabs (w_endpoint ep w) = emit (w_cap w) (ser_endpoint ep) (wabs w)"
  "w_cap (w_candidate c w) = w_cap w"
  "wabs (w_candidate c w) = emit (w_cap w) (ser_candidate c) (wabs w)"
  by (simp_all add: w_endpoint_def w_candidate_def ser_endpoint_def ser_candidate_def Let_def)

lemma w_cap_varint [wabs_simps, simp]: "w_cap (w_varint v w) = w_cap w"
  by (simp add: w_varint_def)

lemma wabs_varint:
  "wabs (w_varint v w) = (if v \<le> 0x3FFFFFFFFFFFFFFF then emit (w_cap w) (ser_varint v) (wabs w) else None)"
proof -
  have *: "v \<le> 63 \<Longrightarrow> v \<le> 0x3FFFFFFFFFFFFFFF" "v \<le> 16383 \<Longrightarrow> v \<le> 0x3FFFFFFFFFFFFFFF"
    "v \<le> 0x3FFFFFFF \<Longrightarrow> v \<le> 0x3FFFFFFFFFFFFFFF"
    by (erule order_trans, simp)+
  show ?thesis using * by (auto simp: w_varint_def ser_varint_def)
qed

lemma length_ser_varint: "length (ser_varint v) = varint_size v"
  by (simp add: ser_varint_def varint_size_def)

lemma length_ser_endpoint:
  "wf_ep ep \<Longrightarrow> length (ser_endpoint ep) = 3 + addr_len (ep_ip ep)"
  by (simp add: ser_endpoint_def wf_ep_def wf_ip_def)

lemma length_ser_candidate:
  "wf_cand c \<Longrightarrow> length (ser_candidate c) = 4 + addr_len (ep_ip (cand_ep c))"
  by (simp add: ser_candidate_def wf_cand_def length_ser_endpoint)

text \<open>Writing into a fresh buffer: what comes out is the wire form, or nothing.\<close>

lemma wabs_Writer [simp]: "wabs (Writer buf) = Some []" "w_cap (Writer buf) = length buf"
  by (simp_all add: Writer_def wabs_def)

lemma wabs_written: "wabs w = Some bs \<Longrightarrow> w_ok w \<and> w_written w = bs \<and> w_pos w = length bs"
  by (auto simp: wabs_def w_written_def split: if_splits)

definition w_wf :: "writer \<Rightarrow> bool" where
  "w_wf w \<longleftrightarrow> w_pos w \<le> w_cap w"

lemma w_ok_wabs: "w_wf w \<Longrightarrow> w_ok w \<longleftrightarrow> wabs w \<noteq> None"
  by (simp add: wabs_def w_wf_def)

lemma w_wf_store: "w_wf w \<Longrightarrow> w_wf (store vs w)"
  using fold_poke [of w vs] by (auto simp: store_def room_eq w_wf_def)

lemma w_wf_simps [wabs_simps, simp]:
  "w_wf (Writer buf)" "w_wf w \<Longrightarrow> w_wf (w\<lparr>w_ok := b\<rparr>)"
  "w_wf w \<Longrightarrow> w_wf (w_u8 v8 w)" "w_wf w \<Longrightarrow> w_wf (w_u16 v16 w)"
  "w_wf w \<Longrightarrow> w_wf (w_u32 v32 w)" "w_wf w \<Longrightarrow> w_wf (w_u64 v64 w)"
  "w_wf w \<Longrightarrow> w_wf (w_bytes p w)" "w_wf w \<Longrightarrow> w_wf (w_array p w)"
  by (simp_all add: w_u8_store w_u16_store w_u32_store w_u64_store w_wf_store w_array_def)
    (simp_all add: w_wf_def Writer_def w_bytes_def room_eq)

lemma w_wf_composite [wabs_simps, simp]:
  "w_wf w \<Longrightarrow> w_wf (w_endpoint ep w)" "w_wf w \<Longrightarrow> w_wf (w_candidate c w)"
  "w_wf w \<Longrightarrow> w_wf (w_varint v w)"
  by (simp_all add: w_endpoint_def w_candidate_def w_varint_def Let_def)

section \<open>What a reader consumes\<close>

definition r_at :: "reader \<Rightarrow> bytes \<Rightarrow> bool" where
  "r_at r bs \<longleftrightarrow> r_ok r \<and> r_pos r \<le> length (r_buf r) \<and> drop (r_pos r) (r_buf r) = bs"

definition reads :: "(reader, 'a) state \<Rightarrow> bytes \<Rightarrow> 'a \<Rightarrow> bool" where
  "reads m bs v \<longleftrightarrow> (\<forall>r rest. r_at r (bs @ rest) \<longrightarrow>
     (\<exists>r'. run_state m r = (v, r') \<and> r_at r' rest \<and> r_buf r' = r_buf r))"

lemma r_at_Reader [simp]: "r_at (Reader bs) bs"
  by (simp add: r_at_def Reader_def)

lemma readsD:
  "reads m bs v \<Longrightarrow> r_at r (bs @ rest) \<Longrightarrow>
     \<exists>r'. run_state m r = (v, r') \<and> r_at r' rest \<and> r_buf r' = r_buf r"
  by (simp add: reads_def)

lemma reads_Reader: "reads m bs v \<Longrightarrow> fst (run_state m (Reader (bs @ rest))) = v"
  using readsD [of m bs v "Reader (bs @ rest)" rest] by auto

lemma reads_return [reads_intros]: "reads (State_Monad.return v) [] v"
  by (simp add: reads_def State_Monad.return_def)

lemma reads_returnI: "v = v' \<Longrightarrow> reads (State_Monad.return v) [] v'"
  by (simp add: reads_return)

lemma reads_bind:
  assumes "reads m a v" and "reads (k v) b x"
  shows "reads (m \<bind> k) (a @ b) x"
  unfolding reads_def
proof (intro allI impI)
  fix r rest
  assume "r_at r ((a @ b) @ rest)"
  with assms(1) obtain r1 where 1: "run_state m r = (v, r1)" "r_at r1 (b @ rest)" "r_buf r1 = r_buf r"
    by (auto simp: reads_def)
  from assms(2) 1(2) obtain r2 where "run_state (k v) r1 = (x, r2)" "r_at r2 rest" "r_buf r2 = r_buf r1"
    by (auto simp: reads_def)
  with 1 show "\<exists>r'. run_state (m \<bind> k) r = (x, r') \<and> r_at r' rest \<and> r_buf r' = r_buf r"
    by simp
qed

text \<open>The last step of a decoder: a read whose continuation only returns.\<close>

lemma reads_bind_return: "reads m a v \<Longrightarrow> reads (k v) [] x \<Longrightarrow> reads (m \<bind> k) a x"
  using reads_bind [of m a v k "[]" x] by simp

lemma reads_bind0: "reads m [] v \<Longrightarrow> reads (k v) b x \<Longrightarrow> reads (m \<bind> k) b x"
  using reads_bind [of m "[]" v k b x] by simp

lemma reads_rd_ok [reads_intros]: "reads rd_ok [] True"
  by (simp add: reads_def rd_ok_def r_at_def)

lemma r_at_split:
  assumes "r_at r (bs @ rest)" and "length bs = n"
  shows "r_ok r" "r_pos r + n \<le> length (r_buf r)" "take n (drop (r_pos r) (r_buf r)) = bs"
    "drop (r_pos r + n) (r_buf r) = rest"
proof -
  from assms(1) have d: "drop (r_pos r) (r_buf r) = bs @ rest" and "r_pos r \<le> length (r_buf r)"
    and "r_ok r" by (auto simp: r_at_def)
  from d have "length (r_buf r) - r_pos r = n + length rest"
    using assms(2) by (metis length_append length_drop)
  with \<open>r_pos r \<le> _\<close> show "r_pos r + n \<le> length (r_buf r)" by linarith
  show "r_ok r" by fact
  show "take n (drop (r_pos r) (r_buf r)) = bs" using d assms(2) by simp
  have "drop n (drop (r_pos r) (r_buf r)) = rest" using d assms(2) by simp
  then show "drop (r_pos r + n) (r_buf r) = rest" by (simp add: add.commute)
qed

lemma reads_have_grab:
  assumes "length bs = n" and "f bs = v"
  shows "reads (do { h \<leftarrow> have_n n; if \<not> h then State_Monad.return z
                     else do { b \<leftarrow> grab n; State_Monad.return (f b) } }) bs v"
  unfolding reads_def
proof (intro allI impI)
  fix r rest
  assume "r_at r (bs @ rest)"
  note r_at_split [OF this assms(1)]
  then show "\<exists>r'. run_state (do { h \<leftarrow> have_n n; if \<not> h then State_Monad.return z
      else do { b \<leftarrow> grab n; State_Monad.return (f b) } }) r = (v, r') \<and> r_at r' rest \<and> r_buf r' = r_buf r"
    using assms(2) by (simp add: have_n_def grab_def State_Monad.return_def r_at_def)
qed

lemma reads_rd_bytes: "length bs = n \<Longrightarrow> reads (rd_bytes n) bs bs"
proof -
  assume "length bs = n"
  moreover have "grab n \<bind> State_Monad.return = grab n"
    by (simp add: State_Monad.bind_def State_Monad.return_def grab_def)
  ultimately show ?thesis
    using reads_have_grab [of bs n "\<lambda>b. b" bs "[]"] by (simp add: rd_bytes_def cong: if_cong)
qed

lemma reads_u8: "reads rd_u8 [v] v"
  unfolding rd_u8_def by (rule reads_have_grab) simp_all

lemma reads_u16: "reads rd_u16 (be16 v) v"
  unfolding rd_u16_def
  using shift_in_be16 [of v] by (intro reads_have_grab) (simp_all add: be16_def shift_in_def)

lemma reads_u32: "reads rd_u32 (be32 v) v"
  unfolding rd_u32_def by (rule reads_have_grab) (simp_all add: shift_in_be32)

lemma reads_u64: "reads rd_u64 (be64 v) v"
  unfolding rd_u64_def by (rule reads_have_grab) (simp_all add: shift_in_be64)

lemma reads_array: "length bs = n \<Longrightarrow> reads (rd_array n) bs bs"
  unfolding rd_array_def
  by (rule reads_bind_return [OF reads_rd_bytes]) (auto intro: reads_intros)

lemmas reads_prims = reads_u8 reads_u16 reads_u32 reads_u64 reads_rd_bytes reads_array

lemma reads_endpoint: "wf_ep ep \<Longrightarrow> reads rd_endpoint (ser_endpoint ep) ep"
proof -
  assume wf: "wf_ep ep"
  let ?ip = "ep_ip ep"
  let ?a = "take (addr_len ?ip) (ip_bytes ?ip)"
  from wf have len: "length ?a = addr_len ?ip" and pad: "ip_bytes ?ip = ?a @ replicate (16 - addr_len ?ip) 0"
    by (auto simp: wf_ep_def wf_ip_def intro: wf_ip_bytes)
  have fam: "Family_value (ip_family ?ip) \<noteq> 4 \<and> Family_value (ip_family ?ip) \<noteq> 6 \<longleftrightarrow> False"
    "(if Family_value (ip_family ?ip) = 4 then V4 else V6) = ip_family ?ip"
    "(if ip_family ?ip = V4 then 4 else 16) = addr_len ?ip"
    by (cases "ip_family ?ip"; simp add: Family_value_def addr_len_def)+
  show ?thesis
    unfolding rd_endpoint_def ser_endpoint_def
    apply (rule reads_bind [OF reads_u8])
    apply (simp only: fam if_False Let_def)
    apply (rule reads_bind [OF reads_rd_bytes [OF len]])
    apply (rule reads_bind_return [OF reads_u16])
    using pad len by (auto intro: reads_return simp: reads_def State_Monad.return_def)
qed

lemma reads_candidate: "wf_cand c \<Longrightarrow> reads rd_candidate (ser_candidate c) c"
  unfolding rd_candidate_def ser_candidate_def wf_cand_def
  apply (rule reads_bind [OF reads_u8])
  apply (cases "cand_kind c"; simp add: Kind_value_def; rule reads_bind_return, erule reads_endpoint)
  by (simp_all add: reads_def State_Monad.return_def)

section \<open>Sticky failure\<close>

text \<open>
  No operation moves the cursor backwards, past the end, or on after a failure, and none clears a
  failure.
\<close>

definition r_le :: "reader \<Rightarrow> reader \<Rightarrow> bool" where
  "r_le r r' \<longleftrightarrow> r_buf r' = r_buf r \<and> r_pos r \<le> r_pos r' \<and>
     (r_pos r \<le> length (r_buf r) \<longrightarrow> r_pos r' \<le> length (r_buf r)) \<and>
     (\<not> r_ok r \<longrightarrow> \<not> r_ok r' \<and> r_pos r' = r_pos r)"

definition keeps :: "(reader, 'a) state \<Rightarrow> bool" where
  "keeps m \<longleftrightarrow> (\<forall>r. r_le r (snd (run_state m r)))"

lemma r_le_trans: "r_le a b \<Longrightarrow> r_le b c \<Longrightarrow> r_le a c"
  unfolding r_le_def by auto

lemma keepsI: "(\<And>r. r_le r (snd (run_state m r))) \<Longrightarrow> keeps m"
  by (simp add: keeps_def)

lemma keepsD: "keeps m \<Longrightarrow> run_state m r = (v, r') \<Longrightarrow> r_le r r'"
  by (metis keeps_def snd_conv)

lemma keeps_return [keeps_intros]: "keeps (State_Monad.return v)"
  by (simp add: keeps_def State_Monad.return_def r_le_def)

lemma keeps_bind [keeps_intros]:
  assumes "keeps m" "\<And>v. keeps (k v)"
  shows "keeps (m \<bind> k)"
proof (rule keepsI)
  fix r
  obtain v r1 where 1: "run_state m r = (v, r1)" by fastforce
  obtain x r2 where 2: "run_state (k v) r1 = (x, r2)" by fastforce
  from keepsD [OF assms(1) 1] keepsD [OF assms(2) 2] have "r_le r r2" by (rule r_le_trans)
  with 1 2 show "r_le r (snd (run_state (m \<bind> k) r))" by simp
qed

lemma keeps_if [keeps_intros]: "keeps a \<Longrightarrow> keeps b \<Longrightarrow> keeps (if c then a else b)"
  by simp

lemma keeps_rd_ok [keeps_intros]: "keeps rd_ok"
  by (simp add: keeps_def rd_ok_def r_le_def)

lemma keeps_rd_remaining [keeps_intros]: "keeps rd_remaining"
  by (simp add: keeps_def rd_remaining_def r_le_def)

lemma keeps_rd_fail [keeps_intros]: "keeps rd_fail"
  by (simp add: keeps_def rd_fail_def r_le_def)

lemma keeps_have_grab:
  "keeps (do { h \<leftarrow> have_n n; if \<not> h then State_Monad.return z
               else do { b \<leftarrow> grab n; State_Monad.return (f b) } })"
  by (auto simp: keeps_def r_le_def have_n_def grab_def State_Monad.return_def)

lemma keeps_rd_bytes [keeps_intros]: "keeps (rd_bytes n)"
  by (auto simp: rd_bytes_def keeps_def r_le_def have_n_def grab_def State_Monad.return_def)

lemma keeps_prims [keeps_intros]: "keeps rd_u8" "keeps rd_u16" "keeps rd_u32" "keeps rd_u64"
  unfolding rd_u8_def rd_u16_def rd_u32_def rd_u64_def by (rule keeps_have_grab)+

lemma keeps_array [keeps_intros]: "keeps (rd_array n)"
  unfolding rd_array_def by (intro keeps_intros)

lemma keeps_endpoint [keeps_intros]: "keeps rd_endpoint"
  unfolding rd_endpoint_def Let_def by (intro keeps_intros)

lemma keeps_candidate [keeps_intros]: "keeps rd_candidate"
  unfolding rd_candidate_def by (intro keeps_intros)

lemma keeps_ok: "keeps m \<Longrightarrow> run_state m r = (v, r') \<Longrightarrow> r_ok r' \<Longrightarrow> r_ok r"
  by (auto dest: keepsD simp: r_le_def)

lemma keeps_pos:
  "keeps m \<Longrightarrow> run_state m r = (v, r') \<Longrightarrow> r_pos r \<le> length (r_buf r) \<Longrightarrow>
     r_buf r' = r_buf r \<and> r_pos r \<le> r_pos r' \<and> r_pos r' \<le> length (r_buf r')"
  by (auto dest: keepsD simp: r_le_def)

section \<open>Variable-length integers\<close>

lemma lt_exp_bit: "unat v < 2 ^ k \<Longrightarrow> bit v n \<Longrightarrow> n < k" for v :: "'a::len word"
proof (rule ccontr)
  assume lt: "unat v < 2 ^ k" and b: "bit v n" and "\<not> n < k"
  then have "bit (drop_bit k (unat v)) (n - k)"
    by (simp add: bit_drop_bit_eq bit_unsigned_iff)
  with lt show False by (simp add: drop_bit_eq_div)
qed

lemma varint_bits:
  fixes v :: u64
  shows "v \<le> 63 \<Longrightarrow> bit v n \<Longrightarrow> n < 6"
    and "v \<le> mask 14 \<Longrightarrow> bit v n \<Longrightarrow> n < 14"
    and "v \<le> mask 30 \<Longrightarrow> bit v n \<Longrightarrow> n < 30"
    and "v \<le> mask 62 \<Longrightarrow> bit v n \<Longrightarrow> n < 62"
  by (auto elim!: lt_exp_bit [rotated] simp: word_le_nat_alt mask_numeral)

lemma varint_masks: "(0x3FFF::u64) = mask 14" "(0x3FFFFFFF::u64) = mask 30"
  "(0x3FFFFFFFFFFFFFFF::u64) = mask 62"
  by (simp_all add: mask_numeral)

lemma varint_tags:
  "x OR 0x4000 = set_bit 14 x" "y OR 0x80000000 = set_bit 31 y"
  "z OR 0xC000000000000000 = set_bit 63 (set_bit 62 z)"
  "(1::byte) = set_bit 0 0" "(2::byte) = set_bit 1 0" "(3::byte) = set_bit 1 (set_bit 0 0)"
  for x :: u16 and y :: u32 and z :: u64
  by (simp_all add: set_bit_eq_or or.assoc)

lemma varint_1: "v \<le> 63 \<Longrightarrow> drop_bit 6 (ucast v :: byte) = 0" "v \<le> 63 \<Longrightarrow> ucast (ucast v :: byte) = v"
  for v :: u64
  by (auto intro!: bit_word_eqI simp: bit_simps dest: varint_bits)

lemma varint_2:
  assumes "v \<le> 0x3FFF"
  shows "drop_bit 6 (byte_at 8 (ucast v OR 0x4000 :: u16)) = 1"
    and "ucast (ucast v OR 0x4000 :: u16) AND 0x3FFF = (v::u64)"
  using assms unfolding varint_masks varint_tags byte_at_def
  by (auto intro!: bit_word_eqI simp: bit_simps dest: varint_bits)

lemma varint_4:
  assumes "v \<le> 0x3FFFFFFF"
  shows "drop_bit 6 (byte_at 24 (ucast v OR 0x80000000 :: u32)) = 2"
    and "ucast (ucast v OR 0x80000000 :: u32) AND 0x3FFFFFFF = (v::u64)"
  using assms unfolding varint_masks varint_tags byte_at_def
  by (auto intro!: bit_word_eqI simp: bit_simps dest: varint_bits)

lemma varint_8:
  assumes "v \<le> 0x3FFFFFFFFFFFFFFF"
  shows "drop_bit 6 (byte_at 56 (v OR 0xC000000000000000 :: u64)) = 3"
    and "(v OR 0xC000000000000000) AND 0x3FFFFFFFFFFFFFFF = (v::u64)"
  using assms unfolding varint_masks varint_tags byte_at_def
  by (auto intro!: bit_word_eqI simp: bit_simps dest: varint_bits)

text \<open>The branch the first byte selects, once it is known.\<close>

lemma reads_varint_branch:
  assumes "bs = b # bs'"
    and "reads (let first = drop_bit 6 b in
        if first = 0 then do { v \<leftarrow> rd_u8; State_Monad.return (ucast v) }
        else if first = 1 then do { v \<leftarrow> rd_u16; State_Monad.return (ucast v AND 0x3FFF) }
        else if first = 2 then do { v \<leftarrow> rd_u32; State_Monad.return (ucast v AND 0x3FFFFFFF) }
        else do { v \<leftarrow> rd_u64; State_Monad.return (v AND 0x3FFFFFFFFFFFFFFF) }) bs v"
  shows "reads rd_varint bs v"
  unfolding reads_def
proof (intro allI impI)
  fix r rest
  assume at: "r_at r (bs @ rest)"
  from r_at_split(1-3) [of r "[b]" "bs' @ rest" 1] at assms(1)
  have *: "r_ok r" "r_pos r < length (r_buf r)" "r_buf r ! r_pos r = b"
    by (simp_all add: take_Suc hd_drop_conv_nth)
  from readsD [OF assms(2) at] show "\<exists>r'. run_state rd_varint r = (v, r') \<and> r_at r' rest \<and> r_buf r' = r_buf r"
    using * by (simp add: rd_varint_def have_n_def State_Monad.get_def)
qed

lemma reads_map: "reads m bs w \<Longrightarrow> f w = v \<Longrightarrow> reads (do { x \<leftarrow> m; State_Monad.return (f x) }) bs v"
  by (rule reads_bind_return) (auto intro: reads_intros)

lemma reads_varint:
  assumes "v \<le> 0x3FFFFFFFFFFFFFFF"
  shows "reads rd_varint (ser_varint v) v"
proof -
  consider "v \<le> 63" | "\<not> v \<le> 63" "v \<le> 16383"
    | "\<not> v \<le> 63" "\<not> v \<le> 16383" "v \<le> 0x3FFFFFFF"
    | "\<not> v \<le> 63" "\<not> v \<le> 16383" "\<not> v \<le> 0x3FFFFFFF"
    by blast
  then show ?thesis
  proof cases
    case 1
    then show ?thesis
      by (intro reads_varint_branch [of _ "ucast v" "[]"])
        (simp_all add: ser_varint_def varint_1 reads_map [OF reads_u8])
  next
    case 2
    then show ?thesis
      by (intro reads_varint_branch [of _ "byte_at 8 (ucast v OR 0x4000 :: u16)" "[byte_at 0 (ucast v OR 0x4000 :: u16)]"])
        (simp_all add: ser_varint_def varint_2 reads_map [OF reads_u16], simp add: be16_def)
  next
    case 3
    then show ?thesis
      by (intro reads_varint_branch [of _ "byte_at 24 (ucast v OR 0x80000000 :: u32)" "tl (be32 (ucast v OR 0x80000000))"])
        (simp_all add: ser_varint_def varint_4 reads_map [OF reads_u32], simp add: be32_def)
  next
    case 4
    with assms show ?thesis
      by (intro reads_varint_branch [of _ "byte_at 56 (v OR 0xC000000000000000 :: u64)" "tl (be64 (v OR 0xC000000000000000))"])
        (simp_all add: ser_varint_def varint_8 reads_map [OF reads_u64], simp add: be64_def)
  qed
qed

end
