(* ===== verification/Codec.thy ===== *)
theory Codec
  imports Buffer
begin

text \<open>
  The interface every wire message implements, as a locale: an encoder over \<open>writer\<close>, a decoder
  over \<open>reader\<close>, the wire form of a message and its well-formedness. The laws are what a codec
  promises (the encoder appends exactly the wire form, the decoder consumes exactly the wire form
  of a well-formed message and returns it, never revives a failed cursor, and never answers with
  a message read past the end). The lemmas of the locale are proved once and used at every
  message of \<^verbatim>\<open>src/wire/messages.cpp\<close> and \<^verbatim>\<open>src/wire/control.cpp\<close>. The theory also holds the
  rules for the loops and the capped blobs those codecs share.
\<close>

section \<open>Decoders that answer only after a check\<close>

definition sound :: "(reader, 'a option) state \<Rightarrow> bool" where
  "sound m \<longleftrightarrow> (\<forall>r v r'. run_state m r = (Some v, r') \<longrightarrow> r_ok r')"

lemma sound_return_None [keeps_intros]: "sound (State_Monad.return None)"
  by (simp add: sound_def State_Monad.return_def)

lemma sound_bind: "(\<And>v. sound (k v)) \<Longrightarrow> sound (m \<bind> k)"
  by (auto simp: sound_def split: prod.splits)

lemma sound_if [keeps_intros]: "sound a \<Longrightarrow> sound b \<Longrightarrow> sound (if c then a else b)"
  by simp

lemma sound_option [keeps_intros]:
  "sound a \<Longrightarrow> (\<And>x. sound (b x)) \<Longrightarrow> sound (case o' of None \<Rightarrow> a | Some x \<Rightarrow> b x)"
  by (cases o') auto

lemma sound_ok [keeps_intros]:
  "(\<And>v r r'. run_state (k True) r = (Some v, r') \<Longrightarrow> r_ok r \<Longrightarrow> r_ok r') \<Longrightarrow> sound (k False) \<Longrightarrow>
    sound (rd_ok \<bind> k)"
proof -
  assume t: "\<And>v r r'. run_state (k True) r = (Some v, r') \<Longrightarrow> r_ok r \<Longrightarrow> r_ok r'" and f: "sound (k False)"
  show ?thesis
    unfolding sound_def
  proof (intro allI impI)
    fix r v r'
    assume "run_state (rd_ok \<bind> k) r = (Some v, r')"
    then have "run_state (k (r_ok r)) r = (Some v, r')" by (simp add: rd_ok_def)
    with t f show "r_ok r'" by (cases "r_ok r") (auto simp: sound_def)
  qed
qed

lemma sound_checked: "sound (do { ok \<leftarrow> rd_ok; if \<not> ok then State_Monad.return None else State_Monad.return x })"
  by (auto simp: sound_def rd_ok_def State_Monad.return_def)

lemma sound_then_Some:
  "sound m \<Longrightarrow> sound (do { e \<leftarrow> m; case e of None \<Rightarrow> State_Monad.return None
                                      | Some x \<Rightarrow> State_Monad.return (f x) })"
  by (auto simp: sound_def State_Monad.return_def split: prod.splits option.splits)

lemma keeps_option [keeps_intros]:
  "keeps a \<Longrightarrow> (\<And>x. keeps (b x)) \<Longrightarrow> keeps (case o' of None \<Rightarrow> a | Some x \<Rightarrow> b x)"
  by (cases o') auto

section \<open>Loops\<close>

text \<open>\<^verbatim>\<open>for (i = 0; i < n && r.ok(); ++i) out.push_back(read_one(r))\<close>\<close>

primrec read_loop :: "(reader, 'a) state \<Rightarrow> nat \<Rightarrow> (reader, 'a list) state" where
  "read_loop m 0 = State_Monad.return []"
| "read_loop m (Suc n) = do { ok \<leftarrow> rd_ok;
     if \<not> ok then State_Monad.return []
     else do { x \<leftarrow> m; xs \<leftarrow> read_loop m n; State_Monad.return (x # xs) } }"

text \<open>\<^verbatim>\<open>for (i = 0; i < n; ++i) { auto e = decode(r); if (!e) return nullopt; ... }\<close>\<close>

primrec decode_loop :: "(reader, 'a option) state \<Rightarrow> nat \<Rightarrow> (reader, 'a list option) state" where
  "decode_loop m 0 = State_Monad.return (Some [])"
| "decode_loop m (Suc n) = do { e \<leftarrow> m;
     case e of None \<Rightarrow> State_Monad.return None
     | Some x \<Rightarrow> do { xs \<leftarrow> decode_loop m n; State_Monad.return (map_option ((#) x) xs) } }"

lemma reads_read_loop:
  "(\<And>x. x \<in> set xs \<Longrightarrow> reads m (ser x) x) \<Longrightarrow> reads (read_loop m (length xs)) (concat (map ser xs)) xs"
proof (induction xs)
  case (Cons x xs)
  have "reads (read_loop m (length xs) \<bind> (\<lambda>ys. State_Monad.return (x # ys))) (concat (map ser xs)) (x # xs)"
    by (rule reads_map [where f = "(#) x"]) (use Cons in auto)
  moreover have "reads m (ser x) x" using Cons.prems by simp
  ultimately show ?case
    by (auto intro!: reads_bind0 [OF reads_rd_ok] reads_bind)
qed (auto intro: reads_intros)

lemma reads_decode_loop:
  "(\<And>x. x \<in> set xs \<Longrightarrow> reads m (ser x) (Some x)) \<Longrightarrow>
     reads (decode_loop m (length xs)) (concat (map ser xs)) (Some xs)"
proof (induction xs)
  case (Cons x xs)
  have "reads (decode_loop m (length xs) \<bind> (\<lambda>ys. State_Monad.return (map_option ((#) x) ys)))
      (concat (map ser xs)) (Some (x # xs))"
    by (rule reads_map [where f = "map_option ((#) x)"]) (use Cons in auto)
  moreover have "reads m (ser x) (Some x)" using Cons.prems by simp
  ultimately show ?case
    by (auto intro!: reads_bind)
qed (auto intro: reads_intros)

lemma keeps_read_loop [keeps_intros]: "keeps m \<Longrightarrow> keeps (read_loop m n)"
  by (induction n) (auto intro!: keeps_intros)

lemma keeps_decode_loop [keeps_intros]: "keeps m \<Longrightarrow> keeps (decode_loop m n)"
  by (induction n) (auto intro!: keeps_intros)

lemma decode_loop_sound:
  "sound m \<Longrightarrow> keeps m \<Longrightarrow> run_state (decode_loop m n) r = (Some xs, r') \<Longrightarrow> r_ok r \<Longrightarrow> r_ok r'"
proof (induction n arbitrary: r xs)
  case (Suc n)
  obtain e r1 where 1: "run_state m r = (e, r1)" by fastforce
  with Suc.prems(3) obtain x where x: "e = Some x" by (cases e) (auto simp: State_Monad.return_def)
  obtain ys r2 where 2: "run_state (decode_loop m n) r1 = (ys, r2)" by fastforce
  with Suc.prems(3) 1 x obtain zs where "ys = Some zs" "r' = r2"
    by (auto simp: State_Monad.return_def)
  moreover from Suc.prems(1) 1 x have "r_ok r1" by (auto simp: sound_def)
  ultimately show ?case using Suc.IH [OF Suc.prems(1,2)] 2 by blast
qed (simp add: State_Monad.return_def)

lemma length_read_loop:
  "run_state (read_loop m n) r = (xs, r') \<Longrightarrow> length xs \<le> n"
proof (induction n arbitrary: r xs)
  case (Suc n)
  then show ?case
    by (auto simp: rd_ok_def State_Monad.return_def split: prod.splits if_splits)
qed (simp add: State_Monad.return_def)

lemma length_decode_loop:
  "run_state (decode_loop m n) r = (Some xs, r') \<Longrightarrow> length xs = n"
proof (induction n arbitrary: r xs)
  case (Suc n)
  then show ?case
    by (auto simp: State_Monad.return_def split: prod.splits option.splits)
qed (simp add: State_Monad.return_def)

text \<open>A run of writes, one per element.\<close>

lemma fold_writes:
  assumes "\<And>x w. w_cap (f x w) = w_cap w" "\<And>x w. wabs (f x w) = emit (w_cap w) (g x) (wabs w)"
    "\<And>x w. w_wf w \<Longrightarrow> w_wf (f x w)"
  shows "w_cap (fold f xs w) = w_cap w"
    and "wabs (fold f xs w) = emit (w_cap w) (concat (map g xs)) (wabs w)"
    and "w_wf w \<Longrightarrow> w_wf (fold f xs w)"
proof -
  show cap: "w_cap (fold f xs w) = w_cap w" for w
    by (induction xs arbitrary: w) (auto simp: assms)
  show "wabs (fold f xs w) = emit (w_cap w) (concat (map g xs)) (wabs w)"
    by (induction xs arbitrary: w) (auto simp: assms)
  show "w_wf w \<Longrightarrow> w_wf (fold f xs w)"
    by (induction xs arbitrary: w) (auto simp: assms)
qed

section \<open>The codec interface\<close>

locale wire_codec =
  fixes encode :: "'m \<Rightarrow> writer \<Rightarrow> writer"
    and decode :: "(reader, 'm option) state"
    and ser :: "'m \<Rightarrow> bytes"
    and wf :: "'m \<Rightarrow> bool"
  assumes encode_cap: "w_cap (encode m w) = w_cap w"
    and encode_wabs: "wabs (encode m w) = emit (w_cap w) (ser m) (wabs w)"
    and encode_wf: "w_wf w \<Longrightarrow> w_wf (encode m w)"
    and decode_ser: "wf m \<Longrightarrow> reads decode (ser m) (Some m)"
    and decode_keeps: "keeps decode"
    and decode_sound: "sound decode"
begin

lemma encode_ok_iff: "w_ok (encode m (Writer buf)) \<longleftrightarrow> length (ser m) \<le> length buf"
  by (simp add: w_ok_wabs encode_wf encode_wabs emit_def)

lemma encode_written:
  "length (ser m) \<le> length buf \<Longrightarrow> w_written (encode m (Writer buf)) = ser m"
  using wabs_written [of "encode m (Writer buf)" "ser m"] by (simp add: encode_wabs emit_def)

lemma decode_encode:
  assumes "wf m" "w_ok (encode m (Writer buf))"
  shows "fst (run_state decode (Reader (w_written (encode m (Writer buf)) @ rest))) = Some m"
  using assms by (simp add: encode_ok_iff encode_written reads_Reader [OF decode_ser])

lemma decode_within:
  assumes "run_state decode (Reader bs) = (Some m, r)"
  shows "r_ok r \<and> r_buf r = bs \<and> r_pos r \<le> length bs"
proof -
  have "r_ok r" using assms decode_sound by (auto simp: sound_def)
  moreover have "r_buf r = bs \<and> r_pos r \<le> length bs"
    using keeps_pos [OF decode_keeps assms] by (auto simp: Reader_def)
  ultimately show ?thesis by simp
qed

lemma ser_inj_prefix: "wf a \<Longrightarrow> wf b \<Longrightarrow> ser a @ x = ser b @ y \<Longrightarrow> a = b"
  by (metis decode_ser option.inject reads_Reader)

end

end
