(* ===== verification/Messages.thy ===== *)
theory Messages
  imports Codec
begin

text \<open>
  The wire formats shared by every channel, \<^verbatim>\<open>src/wire/messages.hpp\<close> and
  \<^verbatim>\<open>src/wire/messages.cpp\<close>: the eight-byte header, the message classes, and the encoders and
  decoders of PeerEntry, ResolveOk, TopicSummary, Relayed, RelayData, Error, Probe, ProbeOk and
  Transport, each translated field by field. Each message is an instance of the codec interface
  \<open>wire_codec\<close>; Transport, which takes the rest of its datagram, has its own round trip.
  A message type is its byte: the C++ enumeration has a fixed underlying type and the decoder casts
  any byte of a known class into it.
\<close>

section \<open>Constants\<close>

definition kVersion :: byte where "kVersion = 0x01"
definition kMaxDatagram :: nat where "kMaxDatagram = 1200"
definition kMaxMeta :: nat where "kMaxMeta = 256"
definition kMaxRelayPayload :: nat where "kMaxRelayPayload = 512"
definition kMaxCandidates :: nat where "kMaxCandidates = 8"
definition kLookupDefault :: byte where "kLookupDefault = 30"
definition kLookupMax :: byte where "kLookupMax = 100"
definition kProbeTxnLen :: nat where "kProbeTxnLen = 16"
definition kProbeTagLen :: nat where "kProbeTagLen = 16"
definition kUnlisted :: byte where "kUnlisted = push_bit 0 1"
definition kWantMeta :: byte where "kWantMeta = push_bit 1 1"
definition kStale :: byte where "kStale = push_bit 0 1"

lemmas wire_consts = kVersion_def kMaxDatagram_def kMaxMeta_def kMaxRelayPayload_def
  kMaxCandidates_def kLookupDefault_def kLookupMax_def kProbeTxnLen_def kProbeTagLen_def
  kUnlisted_def kWantMeta_def kStale_def kTopicIdLen_def kDevIdLen_def

type_synonym MsgType = byte

abbreviation (input) "MT_Register \<equiv> 0x01 :: MsgType"
abbreviation (input) "MT_RegisterOk \<equiv> 0x02 :: MsgType"
abbreviation (input) "MT_Keepalive \<equiv> 0x03 :: MsgType"
abbreviation (input) "MT_KeepaliveOk \<equiv> 0x04 :: MsgType"
abbreviation (input) "MT_Update \<equiv> 0x05 :: MsgType"
abbreviation (input) "MT_UpdateOk \<equiv> 0x06 :: MsgType"
abbreviation (input) "MT_Unregister \<equiv> 0x07 :: MsgType"
abbreviation (input) "MT_UnregisterOk \<equiv> 0x08 :: MsgType"
abbreviation (input) "MT_Lookup \<equiv> 0x09 :: MsgType"
abbreviation (input) "MT_LookupOk \<equiv> 0x0A :: MsgType"
abbreviation (input) "MT_Resolve \<equiv> 0x0B :: MsgType"
abbreviation (input) "MT_ResolveOk \<equiv> 0x0C :: MsgType"
abbreviation (input) "MT_Topics \<equiv> 0x0D :: MsgType"
abbreviation (input) "MT_TopicsOk \<equiv> 0x0E :: MsgType"
abbreviation (input) "MT_Stats \<equiv> 0x0F :: MsgType"
abbreviation (input) "MT_StatsOk \<equiv> 0x10 :: MsgType"
abbreviation (input) "MT_Connect \<equiv> 0x11 :: MsgType"
abbreviation (input) "MT_Relayed \<equiv> 0x12 :: MsgType"
abbreviation (input) "MT_Error \<equiv> 0x14 :: MsgType"
abbreviation (input) "MT_RelayAlloc \<equiv> 0x15 :: MsgType"
abbreviation (input) "MT_RelayAllocOk \<equiv> 0x16 :: MsgType"
abbreviation (input) "MT_RelayData \<equiv> 0x17 :: MsgType"
abbreviation (input) "MT_RelayOffer \<equiv> 0x18 :: MsgType"
abbreviation (input) "MT_RelayJoin \<equiv> 0x19 :: MsgType"
abbreviation (input) "MT_RelayJoinOk \<equiv> 0x1A :: MsgType"
abbreviation (input) "MT_WhoAmI \<equiv> 0x1B :: MsgType"
abbreviation (input) "MT_WhoAmIOk \<equiv> 0x1C :: MsgType"
abbreviation (input) "MT_UdpRelayBind \<equiv> 0x1D :: MsgType"
abbreviation (input) "MT_UdpRelayBindOk \<equiv> 0x1E :: MsgType"
abbreviation (input) "MT_Probe \<equiv> 0x20 :: MsgType"
abbreviation (input) "MT_ProbeOk \<equiv> 0x21 :: MsgType"
abbreviation (input) "MT_Transport \<equiv> 0x40 :: MsgType"
abbreviation (input) "MT_Close \<equiv> 0x41 :: MsgType"

datatype MsgClass = MC_Signaling | MC_Probe | MC_Transport | MC_Unknown

definition classify :: "byte \<Rightarrow> MsgClass" where
  "classify type =
     (if type \<ge> 0x01 \<and> type \<le> 0x1F then MC_Signaling
      else if type \<ge> 0x20 \<and> type \<le> 0x2F then MC_Probe
      else if type \<ge> 0x40 \<and> type \<le> 0x4F then MC_Transport
      else MC_Unknown)"

section \<open>Header\<close>

record Header =
  h_type :: MsgType
  h_version :: byte
  h_flags :: byte
  h_txn_id :: u32

definition Header_kSize :: nat where "Header_kSize = 8"

definition Header_encode :: "Header \<Rightarrow> writer \<Rightarrow> writer" where
  "Header_encode h w =
     (let w = w_u8 (h_type h) w;
          w = w_u8 (h_version h) w;
          w = w_u8 (h_flags h) w;
          w = w_u8 0 w
      in w_u32 (h_txn_id h) w)"

definition Header_decode :: "byte \<Rightarrow> (reader, Header option) state" where
  "Header_decode version = do {
     type \<leftarrow> rd_u8; ver \<leftarrow> rd_u8; fl \<leftarrow> rd_u8; _ \<leftarrow> rd_u8; txn \<leftarrow> rd_u32;
     ok \<leftarrow> rd_ok;
     if \<not> ok \<or> ver \<noteq> version then State_Monad.return None
     else if classify type = MC_Unknown then State_Monad.return None
     else State_Monad.return (Some \<lparr>h_type = type, h_version = ver, h_flags = fl, h_txn_id = txn\<rparr>) }"

definition peek_type :: "bytes \<Rightarrow> MsgType option" where
  "peek_type dgram =
     (if length dgram < Header_kSize then None
      else if classify (dgram ! 0) = MC_Unknown then None else Some (dgram ! 0))"

definition ser_Header :: "Header \<Rightarrow> bytes" where
  "ser_Header h = [h_type h] @ [h_version h] @ [h_flags h] @ [0] @ be32 (h_txn_id h)"

definition wf_Header :: "byte \<Rightarrow> Header \<Rightarrow> bool" where
  "wf_Header version h \<longleftrightarrow> h_version h = version \<and> classify (h_type h) \<noteq> MC_Unknown"

section \<open>Shared pieces\<close>

definition read_vec :: "nat \<Rightarrow> (reader, 'a) state \<Rightarrow> (reader, 'a list option) state" where
  "read_vec mx read_one = do { n \<leftarrow> rd_u8;
     if unat n > mx then State_Monad.return None
     else do { out \<leftarrow> read_loop read_one (unat n); ok \<leftarrow> rd_ok;
               if \<not> ok then State_Monad.return None else State_Monad.return (Some out) } }"

definition write_cands :: "Candidate list \<Rightarrow> writer \<Rightarrow> writer" where
  "write_cands c w =
     (let n = (if length c > kMaxCandidates then kMaxCandidates else length c)
      in fold w_candidate (take n c) (w_u8 (of_nat n) w))"

definition write_blob16_capped :: "bytes \<Rightarrow> nat \<Rightarrow> writer \<Rightarrow> writer" where
  "write_blob16_capped v cap w =
     (let n = (if length v > cap then cap else length v)
      in w_bytes (take n v) (w_u16 (of_nat n) w))"

definition read_blob16_capped :: "nat \<Rightarrow> (reader, bytes option) state" where
  "read_blob16_capped cap = do { n \<leftarrow> rd_u16;
     if unat n > cap then State_Monad.return None
     else do { s \<leftarrow> rd_bytes (unat n); ok \<leftarrow> rd_ok;
               if \<not> ok then State_Monad.return None else State_Monad.return (Some s) } }"

section \<open>Directory entries\<close>

record PeerEntry =
  pe_dev_id :: DevId
  pe_age_secs :: u16
  pe_stale :: bool
  pe_cands :: "Candidate list"
  pe_meta :: bytes

definition PeerEntry_encode :: "PeerEntry \<Rightarrow> writer \<Rightarrow> writer" where
  "PeerEntry_encode m w =
     (let w = w_array (pe_dev_id m) w;
          w = w_u16 (pe_age_secs m) w;
          w = w_u8 (if pe_stale m then kStale else 0) w;
          w = write_cands (pe_cands m) w
      in write_blob16_capped (pe_meta m) kMaxMeta w)"

definition encoded_size :: "PeerEntry \<Rightarrow> nat" where
  "encoded_size m =
     (let n = kDevIdLen + 2 + 1 + 1;
          c = (if length (pe_cands m) > kMaxCandidates then kMaxCandidates else length (pe_cands m));
          n = foldl (\<lambda>n i. n + (2 + addr_len (ep_ip (cand_ep (pe_cands m ! i))) + 2)) n [0..<c]
      in n + (2 + (if length (pe_meta m) > kMaxMeta then kMaxMeta else length (pe_meta m))))"

definition PeerEntry_decode :: "(reader, PeerEntry option) state" where
  "PeerEntry_decode = do {
     dev \<leftarrow> rd_array kDevIdLen; age \<leftarrow> rd_u16; fl \<leftarrow> rd_u8;
     cands \<leftarrow> read_vec kMaxCandidates rd_candidate;
     case cands of None \<Rightarrow> State_Monad.return None
     | Some cs \<Rightarrow> do { meta \<leftarrow> read_blob16_capped kMaxMeta;
         case meta of None \<Rightarrow> State_Monad.return None
         | Some mt \<Rightarrow> State_Monad.return (Some \<lparr>pe_dev_id = dev, pe_age_secs = age,
              pe_stale = (fl AND kStale \<noteq> 0), pe_cands = cs, pe_meta = mt\<rparr>) } }"

definition pe_default :: PeerEntry where
  "pe_default = \<lparr>pe_dev_id = replicate 16 0, pe_age_secs = 0, pe_stale = False, pe_cands = [], pe_meta = []\<rparr>"

record ResolveOk =
  ro_found :: bool
  ro_topic :: TopicId
  ro_entry :: PeerEntry

definition ResolveOk_encode :: "ResolveOk \<Rightarrow> writer \<Rightarrow> writer" where
  "ResolveOk_encode m w =
     (let w = w_u8 (if ro_found m then 1 else 0) w in
      if \<not> ro_found m then w
      else PeerEntry_encode (ro_entry m) (w_array (ro_topic m) w))"

definition ResolveOk_decode :: "(reader, ResolveOk option) state" where
  "ResolveOk_decode = do { f \<leftarrow> rd_u8; ok \<leftarrow> rd_ok;
     if \<not> ok then State_Monad.return None
     else if f = 0 then State_Monad.return
       (Some \<lparr>ro_found = False, ro_topic = replicate 16 0, ro_entry = pe_default\<rparr>)
     else do { topic \<leftarrow> rd_array kTopicIdLen; e \<leftarrow> PeerEntry_decode;
       case e of None \<Rightarrow> State_Monad.return None
       | Some e \<Rightarrow> State_Monad.return (Some \<lparr>ro_found = True, ro_topic = topic, ro_entry = e\<rparr>) } }"

record TopicSummary =
  ts_id :: TopicId
  ts_mode :: TopicMode
  ts_peers :: u32
  ts_fresh_peers :: u32

definition TopicMode_value :: "TopicMode \<Rightarrow> byte" where
  "TopicMode_value m = (case m of Open \<Rightarrow> 0 | Keyed \<Rightarrow> 1)"

definition TopicMode_of :: "byte \<Rightarrow> TopicMode" where
  "TopicMode_of v = (if v = 0 then Open else Keyed)"

definition TopicSummary_encode :: "TopicSummary \<Rightarrow> writer \<Rightarrow> writer" where
  "TopicSummary_encode m w =
     (let w = w_array (ts_id m) w;
          w = w_u8 (TopicMode_value (ts_mode m)) w;
          w = w_u32 (ts_peers m) w
      in w_u32 (ts_fresh_peers m) w)"

definition TopicSummary_decode :: "(reader, TopicSummary option) state" where
  "TopicSummary_decode = do { i \<leftarrow> rd_array kTopicIdLen; mode \<leftarrow> rd_u8;
     if mode > TopicMode_value Keyed then State_Monad.return None
     else do { peers \<leftarrow> rd_u32; fresh \<leftarrow> rd_u32; ok \<leftarrow> rd_ok;
       if \<not> ok then State_Monad.return None
       else State_Monad.return (Some \<lparr>ts_id = i, ts_mode = TopicMode_of mode, ts_peers = peers,
              ts_fresh_peers = fresh\<rparr>) } }"

section \<open>Relayed messages\<close>

record Relayed =
  rl_from_dev :: DevId
  rl_payload :: bytes

definition Relayed_encode :: "Relayed \<Rightarrow> writer \<Rightarrow> writer" where
  "Relayed_encode m w = write_blob16_capped (rl_payload m) kMaxRelayPayload (w_array (rl_from_dev m) w)"

definition Relayed_decode :: "(reader, Relayed option) state" where
  "Relayed_decode = do { f \<leftarrow> rd_array kDevIdLen; p \<leftarrow> read_blob16_capped kMaxRelayPayload;
     case p of None \<Rightarrow> State_Monad.return None
     | Some p \<Rightarrow> State_Monad.return (Some \<lparr>rl_from_dev = f, rl_payload = p\<rparr>) }"

record RelayData =
  rd_relay_id :: u64
  rd_payload :: bytes

definition RelayData_encode :: "RelayData \<Rightarrow> writer \<Rightarrow> writer" where
  "RelayData_encode m w = write_blob16_capped (rd_payload m) kMaxDatagram (w_u64 (rd_relay_id m) w)"

definition RelayData_decode :: "(reader, RelayData option) state" where
  "RelayData_decode = do { i \<leftarrow> rd_u64; p \<leftarrow> read_blob16_capped kMaxDatagram;
     case p of None \<Rightarrow> State_Monad.return None
     | Some p \<Rightarrow> State_Monad.return (Some \<lparr>rd_relay_id = i, rd_payload = p\<rparr>) }"

section \<open>Errors\<close>

record Error =
  er_code :: ErrorCode
  er_reason :: string

definition Error_encode :: "Error \<Rightarrow> writer \<Rightarrow> writer" where
  "Error_encode m w =
     (let w = w_u16 (ErrorCode_value (er_code m)) w;
          n = (if length (er_reason m) > 255 then 255 else length (er_reason m));
          w = w_u8 (of_nat n) w
      in w_bytes (take n (bytes_of_string (er_reason m))) w)"

definition Error_decode :: "(reader, Error option) state" where
  "Error_decode = do { c \<leftarrow> rd_u16; s \<leftarrow> rd_blob8; ok \<leftarrow> rd_ok;
     if \<not> ok then State_Monad.return None
     else State_Monad.return (Some \<lparr>er_code = ErrorCode_of c, er_reason = map char_of_byte s\<rparr>) }"

section \<open>Probes and transport\<close>

record Probe =
  pr_txn :: bytes
  pr_tag :: bytes

definition Probe_encode :: "Probe \<Rightarrow> writer \<Rightarrow> writer" where
  "Probe_encode m w = w_array (pr_tag m) (w_array (pr_txn m) w)"

definition Probe_decode :: "(reader, Probe option) state" where
  "Probe_decode = do { txn \<leftarrow> rd_array kProbeTxnLen; tag \<leftarrow> rd_array kProbeTagLen; ok \<leftarrow> rd_ok;
     if \<not> ok then State_Monad.return None
     else State_Monad.return (Some \<lparr>pr_txn = txn, pr_tag = tag\<rparr>) }"

record ProbeOk =
  po_txn :: bytes
  po_mapped :: Endpoint
  po_tag :: bytes

definition ProbeOk_encode :: "ProbeOk \<Rightarrow> writer \<Rightarrow> writer" where
  "ProbeOk_encode m w = w_array (po_tag m) (w_endpoint (po_mapped m) (w_array (po_txn m) w))"

definition ProbeOk_decode :: "(reader, ProbeOk option) state" where
  "ProbeOk_decode = do { txn \<leftarrow> rd_array kProbeTxnLen; mapped \<leftarrow> rd_endpoint;
     tag \<leftarrow> rd_array kProbeTagLen; ok \<leftarrow> rd_ok;
     if \<not> ok then State_Monad.return None
     else State_Monad.return (Some \<lparr>po_txn = txn, po_mapped = mapped, po_tag = tag\<rparr>) }"

record Transport =
  tr_conn_id :: u32
  tr_counter :: u64
  tr_ciphertext :: bytes

definition Transport_encode :: "Transport \<Rightarrow> writer \<Rightarrow> writer" where
  "Transport_encode m w = w_bytes (tr_ciphertext m) (w_u64 (tr_counter m) (w_u32 (tr_conn_id m) w))"

definition Transport_decode :: "(reader, Transport option) state" where
  "Transport_decode = do { c \<leftarrow> rd_u32; n \<leftarrow> rd_u64; ok \<leftarrow> rd_ok;
     if \<not> ok then State_Monad.return None
     else do { len \<leftarrow> rd_remaining; ct \<leftarrow> rd_bytes len;
       State_Monad.return (Some \<lparr>tr_conn_id = c, tr_counter = n, tr_ciphertext = ct\<rparr>) } }"

definition kTransportOverhead :: nat where
  "kTransportOverhead = Header_kSize + 4 + 8 + 16"

section \<open>Wire forms\<close>

definition ser_cands :: "Candidate list \<Rightarrow> bytes" where
  "ser_cands cs = [of_nat (min kMaxCandidates (length cs))] @ concat (map ser_candidate (take kMaxCandidates cs))"

definition ser_blob16 :: "bytes \<Rightarrow> nat \<Rightarrow> bytes" where
  "ser_blob16 v cap = be16 (of_nat (min cap (length v))) @ take cap v"

definition ser_PeerEntry :: "PeerEntry \<Rightarrow> bytes" where
  "ser_PeerEntry m = pe_dev_id m @ be16 (pe_age_secs m) @ [if pe_stale m then kStale else 0]
     @ ser_cands (pe_cands m) @ ser_blob16 (pe_meta m) kMaxMeta"

definition ser_ResolveOk :: "ResolveOk \<Rightarrow> bytes" where
  "ser_ResolveOk m = (if ro_found m then [1] @ ro_topic m @ ser_PeerEntry (ro_entry m) else [0])"

definition ser_TopicSummary :: "TopicSummary \<Rightarrow> bytes" where
  "ser_TopicSummary m = ts_id m @ [TopicMode_value (ts_mode m)] @ be32 (ts_peers m) @ be32 (ts_fresh_peers m)"

definition ser_Relayed :: "Relayed \<Rightarrow> bytes" where
  "ser_Relayed m = rl_from_dev m @ ser_blob16 (rl_payload m) kMaxRelayPayload"

definition ser_RelayData :: "RelayData \<Rightarrow> bytes" where
  "ser_RelayData m = be64 (rd_relay_id m) @ ser_blob16 (rd_payload m) kMaxDatagram"

definition ser_Error :: "Error \<Rightarrow> bytes" where
  "ser_Error m = be16 (ErrorCode_value (er_code m)) @ [of_nat (min 255 (length (er_reason m)))]
     @ take 255 (bytes_of_string (er_reason m))"

definition ser_Probe :: "Probe \<Rightarrow> bytes" where
  "ser_Probe m = pr_txn m @ pr_tag m"

definition ser_ProbeOk :: "ProbeOk \<Rightarrow> bytes" where
  "ser_ProbeOk m = po_txn m @ ser_endpoint (po_mapped m) @ po_tag m"

definition ser_Transport :: "Transport \<Rightarrow> bytes" where
  "ser_Transport m = be32 (tr_conn_id m) @ be64 (tr_counter m) @ tr_ciphertext m"

text \<open>A message as the code builds one: array lengths as declared, lists and blobs within the caps.\<close>

definition wf_PeerEntry :: "PeerEntry \<Rightarrow> bool" where
  "wf_PeerEntry m \<longleftrightarrow> length (pe_dev_id m) = kDevIdLen \<and> length (pe_cands m) \<le> kMaxCandidates
     \<and> list_all wf_cand (pe_cands m) \<and> length (pe_meta m) \<le> kMaxMeta"

definition wf_ResolveOk :: "ResolveOk \<Rightarrow> bool" where
  "wf_ResolveOk m \<longleftrightarrow> (if ro_found m then length (ro_topic m) = kTopicIdLen \<and> wf_PeerEntry (ro_entry m)
     else ro_topic m = replicate 16 0 \<and> ro_entry m = pe_default)"

definition wf_TopicSummary :: "TopicSummary \<Rightarrow> bool" where
  "wf_TopicSummary m \<longleftrightarrow> length (ts_id m) = kTopicIdLen"

definition wf_Relayed :: "Relayed \<Rightarrow> bool" where
  "wf_Relayed m \<longleftrightarrow> length (rl_from_dev m) = kDevIdLen \<and> length (rl_payload m) \<le> kMaxRelayPayload"

definition wf_RelayData :: "RelayData \<Rightarrow> bool" where
  "wf_RelayData m \<longleftrightarrow> length (rd_payload m) \<le> kMaxDatagram"

definition wf_Error :: "Error \<Rightarrow> bool" where
  "wf_Error m \<longleftrightarrow> length (er_reason m) \<le> 255 \<and> ErrorCode_of (ErrorCode_value (er_code m)) = er_code m"

definition wf_Probe :: "Probe \<Rightarrow> bool" where
  "wf_Probe m \<longleftrightarrow> length (pr_txn m) = kProbeTxnLen \<and> length (pr_tag m) = kProbeTagLen"

definition wf_ProbeOk :: "ProbeOk \<Rightarrow> bool" where
  "wf_ProbeOk m \<longleftrightarrow> length (po_txn m) = kProbeTxnLen \<and> wf_ep (po_mapped m) \<and> length (po_tag m) = kProbeTagLen"

lemmas wf_msg_defs = wf_PeerEntry_def wf_ResolveOk_def wf_TopicSummary_def wf_Relayed_def
  wf_RelayData_def wf_Error_def wf_Probe_def wf_ProbeOk_def

section \<open>Encoders write the wire form\<close>

lemma Header_encode_simps [simp]:
  "w_cap (Header_encode h w) = w_cap w"
  "wabs (Header_encode h w) = emit (w_cap w) (ser_Header h) (wabs w)"
  "w_wf w \<Longrightarrow> w_wf (Header_encode h w)"
  by (simp_all add: Header_encode_def ser_Header_def Let_def)

lemma length_ser_Header [simp]: "length (ser_Header h) = 8"
  by (simp add: ser_Header_def)

lemma min_if: "(if length v > n then n else length v) = min n (length v)"
  by (simp add: min_def)

lemma take_min_length: "take (min n (length v)) v = take n v"
  by (metis append_take_drop_id min.commute take_all take_take order_refl)

lemma write_cands_simps [simp]:
  "w_cap (write_cands c w) = w_cap w"
  "wabs (write_cands c w) = emit (w_cap w) (ser_cands c) (wabs w)"
  "w_wf w \<Longrightarrow> w_wf (write_cands c w)"
  by (simp_all add: write_cands_def ser_cands_def Let_def min_if take_min_length
      fold_writes [where f = w_candidate and g = ser_candidate])

lemma write_blob16_simps [simp]:
  "w_cap (write_blob16_capped v cap w) = w_cap w"
  "wabs (write_blob16_capped v cap w) = emit (w_cap w) (ser_blob16 v cap) (wabs w)"
  "w_wf w \<Longrightarrow> w_wf (write_blob16_capped v cap w)"
  by (simp_all add: write_blob16_capped_def ser_blob16_def Let_def min_if take_min_length)

lemma PeerEntry_encode_simps [simp]:
  "w_cap (PeerEntry_encode m w) = w_cap w"
  "wabs (PeerEntry_encode m w) = emit (w_cap w) (ser_PeerEntry m) (wabs w)"
  "w_wf w \<Longrightarrow> w_wf (PeerEntry_encode m w)"
  by (simp_all add: PeerEntry_encode_def ser_PeerEntry_def Let_def)

lemma TopicSummary_encode_simps [simp]:
  "w_cap (TopicSummary_encode t w) = w_cap w"
  "wabs (TopicSummary_encode t w) = emit (w_cap w) (ser_TopicSummary t) (wabs w)"
  "w_wf w \<Longrightarrow> w_wf (TopicSummary_encode t w)"
  by (simp_all add: TopicSummary_encode_def ser_TopicSummary_def Let_def)

lemma Transport_encode_simps [simp]:
  "w_cap (Transport_encode t w) = w_cap w"
  "wabs (Transport_encode t w) = emit (w_cap w) (ser_Transport t) (wabs w)"
  "w_wf w \<Longrightarrow> w_wf (Transport_encode t w)"
  by (simp_all add: Transport_encode_def ser_Transport_def)

lemma ResolveOk_encode_simps [simp]:
  "w_cap (ResolveOk_encode m w) = w_cap w"
  "wabs (ResolveOk_encode m w) = emit (w_cap w) (ser_ResolveOk m) (wabs w)"
  "w_wf w \<Longrightarrow> w_wf (ResolveOk_encode m w)"
  by (simp_all add: ResolveOk_encode_def ser_ResolveOk_def Let_def)

lemma Relayed_encode_simps [simp]:
  "w_cap (Relayed_encode m w) = w_cap w"
  "wabs (Relayed_encode m w) = emit (w_cap w) (ser_Relayed m) (wabs w)"
  "w_wf w \<Longrightarrow> w_wf (Relayed_encode m w)"
  by (simp_all add: Relayed_encode_def ser_Relayed_def )

lemma RelayData_encode_simps [simp]:
  "w_cap (RelayData_encode m w) = w_cap w"
  "wabs (RelayData_encode m w) = emit (w_cap w) (ser_RelayData m) (wabs w)"
  "w_wf w \<Longrightarrow> w_wf (RelayData_encode m w)"
  by (simp_all add: RelayData_encode_def ser_RelayData_def )

lemma Error_encode_simps [simp]:
  "w_cap (Error_encode m w) = w_cap w"
  "wabs (Error_encode m w) = emit (w_cap w) (ser_Error m) (wabs w)"
  "w_wf w \<Longrightarrow> w_wf (Error_encode m w)"
  by (simp_all add: Error_encode_def ser_Error_def Let_def min_def)

lemma Probe_encode_simps [simp]:
  "w_cap (Probe_encode m w) = w_cap w"
  "wabs (Probe_encode m w) = emit (w_cap w) (ser_Probe m) (wabs w)"
  "w_wf w \<Longrightarrow> w_wf (Probe_encode m w)"
  by (simp_all add: Probe_encode_def ser_Probe_def )

lemma ProbeOk_encode_simps [simp]:
  "w_cap (ProbeOk_encode m w) = w_cap w"
  "wabs (ProbeOk_encode m w) = emit (w_cap w) (ser_ProbeOk m) (wabs w)"
  "w_wf w \<Longrightarrow> w_wf (ProbeOk_encode m w)"
  by (simp_all add: ProbeOk_encode_def ser_ProbeOk_def )

section \<open>Decoders consume the wire form\<close>

lemma reads_checked:
  "reads (do { ok \<leftarrow> rd_ok; if \<not> ok then State_Monad.return None else State_Monad.return x }) [] x"
  by (rule reads_bind0 [OF reads_rd_ok]) (simp add: reads_return)

lemma reads_Header:
  assumes "wf_Header version h"
  shows "reads (Header_decode version) (ser_Header h) (Some h)"
  unfolding Header_decode_def ser_Header_def
  apply (rule reads_bind [OF reads_u8])+
  apply (rule reads_bind_return [OF reads_u32])
  apply (rule reads_bind0 [OF reads_rd_ok])
  using assms by (auto simp: wf_Header_def intro: reads_returnI)

lemma unat_of_nat_small: "n < 2 ^ LENGTH('a) \<Longrightarrow> unat (of_nat n :: 'a::len word) = n"
  by (simp add: unat_of_nat take_bit_nat_eq_self)

lemma reads_cands:
  assumes "length cs \<le> kMaxCandidates" "list_all wf_cand cs"
  shows "reads (read_vec kMaxCandidates rd_candidate) (ser_cands cs) (Some cs)"
proof -
  have n: "unat (of_nat (length cs) :: byte) = length cs"
    using assms(1) by (intro unat_of_nat_small) (simp add: wire_consts)
  have r: "reads (read_loop rd_candidate (length cs)) (concat (map ser_candidate cs)) cs"
    using assms(2) by (intro reads_read_loop) (auto simp: list_all_iff intro: reads_candidate)
  show ?thesis
    unfolding read_vec_def ser_cands_def
    apply (rule reads_bind [OF reads_u8])
    using assms(1) n
    by (auto simp: min_absorb2 not_less intro!: reads_bind_return [OF r] reads_checked)
qed

lemma reads_blob16:
  assumes "length v \<le> cap" "cap \<le> 65535"
  shows "reads (read_blob16_capped cap) (ser_blob16 v cap) (Some v)"
proof -
  have n: "unat (of_nat (length v) :: u16) = length v"
    using assms by (intro unat_of_nat_small) simp
  show ?thesis
    unfolding read_blob16_capped_def ser_blob16_def
    apply (rule reads_bind [OF reads_u16])
    using assms(1) n
    by (auto simp: min_absorb2 not_less intro!: reads_bind_return [OF reads_rd_bytes] reads_checked)
qed

lemma stale_flag [simp]: "(if b then kStale else 0) AND kStale \<noteq> 0 \<longleftrightarrow> b"
  by (simp add: wire_consts)

lemma reads_PeerEntry: "wf_PeerEntry m \<Longrightarrow> reads PeerEntry_decode (ser_PeerEntry m) (Some m)"
  unfolding PeerEntry_decode_def ser_PeerEntry_def wf_PeerEntry_def
  apply (elim conjE)
  apply (rule reads_bind [OF reads_array], assumption)
  apply (rule reads_bind [OF reads_u16])
  apply (rule reads_bind [OF reads_u8])
  apply (rule reads_bind [OF reads_cands], assumption, assumption, simp only: option.case)
  apply (rule reads_bind_return [OF reads_blob16], assumption, simp add: wire_consts, simp only: option.case)
  by (rule reads_returnI) simp

lemma keeps_read_vec [keeps_intros]: "keeps m \<Longrightarrow> keeps (read_vec mx m)"
  unfolding read_vec_def by (intro keeps_intros)

lemma keeps_blob16 [keeps_intros]: "keeps (read_blob16_capped cap)"
  unfolding read_blob16_capped_def by (intro keeps_intros)

lemma keeps_PeerEntry [keeps_intros]: "keeps PeerEntry_decode"
  unfolding PeerEntry_decode_def by (intro keeps_intros)

lemma keeps_Header [keeps_intros]: "keeps (Header_decode version)"
  unfolding Header_decode_def by (intro keeps_intros)

lemma sound_Header: "sound (Header_decode version)"
  unfolding Header_decode_def
  by (intro sound_bind sound_ok) (auto simp: State_Monad.return_def sound_def split: if_splits)

lemma sound_read_vec: "sound (read_vec mx m)"
  unfolding read_vec_def by (intro sound_bind sound_if sound_return_None sound_checked)

lemma sound_blob16: "sound (read_blob16_capped cap)"
  unfolding read_blob16_capped_def by (intro sound_bind sound_if sound_return_None sound_checked)

lemma sound_PeerEntry: "sound PeerEntry_decode"
  unfolding PeerEntry_decode_def
  by (intro sound_bind sound_option sound_return_None sound_then_Some sound_blob16)

lemma reads_ResolveOk: "wf_ResolveOk m \<Longrightarrow> reads ResolveOk_decode (ser_ResolveOk m) (Some m)"
proof (cases "ro_found m")
  case True
  assume "wf_ResolveOk m"
  with True have wf: "length (ro_topic m) = kTopicIdLen" "wf_PeerEntry (ro_entry m)"
    by (auto simp: wf_ResolveOk_def)
  have ser: "ser_ResolveOk m = [1] @ ro_topic m @ ser_PeerEntry (ro_entry m)"
    using True by (simp add: ser_ResolveOk_def)
  show ?thesis
    unfolding ResolveOk_decode_def ser
    apply (rule reads_bind [OF reads_u8])
    apply (rule reads_bind0 [OF reads_rd_ok], simp)
    apply (rule reads_bind [OF reads_array [OF wf(1)]])
    apply (rule reads_bind_return [OF reads_PeerEntry [OF wf(2)]], simp only: option.case)
    using True by (intro reads_returnI) simp
next
  case False
  assume "wf_ResolveOk m"
  with False have eq: "m = \<lparr>ro_found = False, ro_topic = replicate 16 0, ro_entry = pe_default\<rparr>"
    by (auto simp: wf_ResolveOk_def)
  then have ser: "ser_ResolveOk m = [0]" by (simp add: ser_ResolveOk_def)
  show ?thesis
    unfolding ResolveOk_decode_def ser
    apply (rule reads_bind_return [OF reads_u8])
    apply (rule reads_bind0 [OF reads_rd_ok])
    using eq by (simp add: reads_return)
qed

lemma TopicMode_value_le [simp]: "TopicMode_value m \<le> 1" "\<not> TopicMode_value Keyed < TopicMode_value m"
  "TopicMode_of (TopicMode_value m) = m"
  by (cases m; simp add: TopicMode_value_def TopicMode_of_def)+

lemma reads_TopicSummary: "wf_TopicSummary m \<Longrightarrow> reads TopicSummary_decode (ser_TopicSummary m) (Some m)"
  unfolding TopicSummary_decode_def ser_TopicSummary_def wf_TopicSummary_def
  apply (rule reads_bind [OF reads_array], assumption)
  apply (rule reads_bind [OF reads_u8])
  apply (simp only: TopicMode_value_le if_False)
  apply (rule reads_bind [OF reads_u32])
  apply (rule reads_bind_return [OF reads_u32])
  apply (rule reads_bind0 [OF reads_rd_ok])
  by (simp, rule reads_returnI) simp

lemma reads_Relayed: "wf_Relayed m \<Longrightarrow> reads Relayed_decode (ser_Relayed m) (Some m)"
  unfolding Relayed_decode_def ser_Relayed_def wf_Relayed_def
  apply (elim conjE, rule reads_bind [OF reads_array], assumption)
  apply (rule reads_bind_return [OF reads_blob16], assumption, simp add: wire_consts, simp only: option.case)
  by (rule reads_returnI) simp

lemma reads_RelayData: "wf_RelayData m \<Longrightarrow> reads RelayData_decode (ser_RelayData m) (Some m)"
  unfolding RelayData_decode_def ser_RelayData_def wf_RelayData_def
  apply (rule reads_bind [OF reads_u64])
  apply (rule reads_bind_return [OF reads_blob16], assumption, simp add: wire_consts, simp only: option.case)
  by (rule reads_returnI) simp

lemma reads_Error: "wf_Error m \<Longrightarrow> reads Error_decode (ser_Error m) (Some m)"
proof -
  assume wf: "wf_Error m"
  then have n: "unat (of_nat (length (er_reason m)) :: byte) = length (er_reason m)"
    by (intro unat_of_nat_small) (simp add: wf_Error_def)
  have blob: "reads rd_blob8 ([of_nat (length (er_reason m))] @ bytes_of_string (er_reason m))
      (bytes_of_string (er_reason m))"
    unfolding rd_blob8_def by (rule reads_bind [OF reads_u8], rule reads_rd_bytes) (simp add: n)
  have ser: "ser_Error m = be16 (ErrorCode_value (er_code m)) @
      ([of_nat (length (er_reason m))] @ bytes_of_string (er_reason m))"
    using wf by (simp add: ser_Error_def wf_Error_def min_absorb2)
  show ?thesis
    unfolding Error_decode_def ser
    apply (rule reads_bind [OF reads_u16])
    apply (rule reads_bind_return [OF blob])
    apply (rule reads_bind0 [OF reads_rd_ok])
    using wf by (auto simp: wf_Error_def intro!: reads_returnI)
qed

lemma reads_Probe: "wf_Probe m \<Longrightarrow> reads Probe_decode (ser_Probe m) (Some m)"
  unfolding Probe_decode_def ser_Probe_def wf_Probe_def
  apply (elim conjE, rule reads_bind [OF reads_array], assumption)
  apply (rule reads_bind_return [OF reads_array], assumption)
  apply (rule reads_bind0 [OF reads_rd_ok])
  by (simp, rule reads_returnI) simp

lemma reads_ProbeOk: "wf_ProbeOk m \<Longrightarrow> reads ProbeOk_decode (ser_ProbeOk m) (Some m)"
  unfolding ProbeOk_decode_def ser_ProbeOk_def wf_ProbeOk_def
  apply (elim conjE, rule reads_bind [OF reads_array], assumption)
  apply (rule reads_bind [OF reads_endpoint], assumption)
  apply (rule reads_bind_return [OF reads_array], assumption)
  apply (rule reads_bind0 [OF reads_rd_ok])
  by (simp, rule reads_returnI) simp

lemma keeps_blob8 [keeps_intros]: "keeps rd_blob8" "keeps rd_blob16"
  unfolding rd_blob8_def rd_blob16_def by (intro keeps_intros)+

section \<open>The messages are codecs\<close>

interpretation header: wire_codec Header_encode "Header_decode v" ser_Header "wf_Header v"
  by unfold_locales (auto intro: reads_Header keeps_Header sound_Header)

interpretation peer_entry: wire_codec PeerEntry_encode PeerEntry_decode ser_PeerEntry wf_PeerEntry
  by unfold_locales (auto intro: reads_PeerEntry keeps_PeerEntry sound_PeerEntry)

interpretation resolve_ok: wire_codec ResolveOk_encode ResolveOk_decode ser_ResolveOk wf_ResolveOk
proof unfold_locales
  show "keeps ResolveOk_decode"
    unfolding ResolveOk_decode_def by (intro keeps_intros)
  show "sound ResolveOk_decode"
    unfolding ResolveOk_decode_def
  proof (rule sound_bind, rule sound_ok)
    fix f :: byte and v r r'
    assume "run_state (if \<not> True then State_Monad.return None
        else if f = 0 then State_Monad.return (Some \<lparr>ro_found = False, ro_topic = replicate 16 0, ro_entry = pe_default\<rparr>)
        else do { topic \<leftarrow> rd_array kTopicIdLen; e \<leftarrow> PeerEntry_decode;
          case e of None \<Rightarrow> State_Monad.return None
          | Some e \<Rightarrow> State_Monad.return (Some \<lparr>ro_found = True, ro_topic = topic, ro_entry = e\<rparr>) }) r = (Some v, r')"
      and "r_ok r"
    then show "r_ok r'"
      using sound_PeerEntry
      by (auto simp: sound_def State_Monad.return_def split: if_splits prod.splits option.splits)
  qed (simp add: sound_return_None)
qed (auto intro: reads_ResolveOk)

interpretation topic_summary: wire_codec TopicSummary_encode TopicSummary_decode ser_TopicSummary wf_TopicSummary
proof unfold_locales
  show "keeps TopicSummary_decode"
    unfolding TopicSummary_decode_def by (intro keeps_intros)
  show "sound TopicSummary_decode"
    unfolding TopicSummary_decode_def by (intro sound_bind sound_if sound_return_None sound_checked)
qed (auto intro: reads_TopicSummary)

interpretation relayed: wire_codec Relayed_encode Relayed_decode ser_Relayed wf_Relayed
proof unfold_locales
  show "keeps Relayed_decode"
    unfolding Relayed_decode_def by (intro keeps_intros)
  show "sound Relayed_decode"
    unfolding Relayed_decode_def by (intro sound_bind [where m = "rd_array _"] sound_then_Some sound_blob16)
qed (auto intro: reads_Relayed)

interpretation relay_data: wire_codec RelayData_encode RelayData_decode ser_RelayData wf_RelayData
proof unfold_locales
  show "keeps RelayData_decode"
    unfolding RelayData_decode_def by (intro keeps_intros)
  show "sound RelayData_decode"
    unfolding RelayData_decode_def by (intro sound_bind [where m = rd_u64] sound_then_Some sound_blob16)
qed (auto intro: reads_RelayData)

interpretation error: wire_codec Error_encode Error_decode ser_Error wf_Error
proof unfold_locales
  show "keeps Error_decode"
    unfolding Error_decode_def by (intro keeps_intros)
  show "sound Error_decode"
    unfolding Error_decode_def by (intro sound_bind sound_checked)
qed (auto intro: reads_Error)

interpretation probe: wire_codec Probe_encode Probe_decode ser_Probe wf_Probe
proof unfold_locales
  show "keeps Probe_decode"
    unfolding Probe_decode_def by (intro keeps_intros)
  show "sound Probe_decode"
    unfolding Probe_decode_def by (intro sound_bind sound_checked)
qed (auto intro: reads_Probe)

interpretation probe_ok: wire_codec ProbeOk_encode ProbeOk_decode ser_ProbeOk wf_ProbeOk
proof unfold_locales
  show "keeps ProbeOk_decode"
    unfolding ProbeOk_decode_def by (intro keeps_intros)
  show "sound ProbeOk_decode"
    unfolding ProbeOk_decode_def by (intro sound_bind sound_checked)
qed (auto intro: reads_ProbeOk)

section \<open>Sizes and the transport envelope\<close>

lemma foldl_add_sum: "foldl (\<lambda>n i. n + f i) (k::nat) xs = k + (\<Sum>i\<leftarrow>xs. f i)"
  by (induction xs arbitrary: k) auto

lemma length_ser_blob16: "length (ser_blob16 v cap) = 2 + min cap (length v)"
  by (simp add: ser_blob16_def min.commute)

lemma length_ser_cands:
  "list_all wf_cand cs \<Longrightarrow> length (ser_cands cs) =
     1 + (\<Sum>c\<leftarrow>take kMaxCandidates cs. 4 + addr_len (ep_ip (cand_ep c)))"
  by (auto simp: ser_cands_def length_concat comp_def list_all_iff
      intro!: arg_cong [where f = sum_list] length_ser_candidate)
    (meson in_set_takeD)

lemma encoded_size_eq:
  assumes "wf_PeerEntry m"
  shows "encoded_size m = length (ser_PeerEntry m)"
proof -
  have n: "length (pe_cands m) \<le> kMaxCandidates" "length (pe_meta m) \<le> kMaxMeta"
    "list_all wf_cand (pe_cands m)" "length (pe_dev_id m) = kDevIdLen"
    using assms by (auto simp: wf_PeerEntry_def)
  have "(\<Sum>i\<leftarrow>[0..<length (pe_cands m)]. 2 + addr_len (ep_ip (cand_ep (pe_cands m ! i))) + 2)
      = (\<Sum>c\<leftarrow>pe_cands m. 4 + addr_len (ep_ip (cand_ep c)))"
    by (rule arg_cong [where f = sum_list], rule map_upt_eqI) simp_all
  moreover have "length (ser_PeerEntry m) = kDevIdLen + 3 + length (ser_cands (pe_cands m))
      + length (ser_blob16 (pe_meta m) kMaxMeta)"
    using n(4) by (simp add: ser_PeerEntry_def)
  moreover have "take kMaxCandidates (pe_cands m) = pe_cands m" using n(1) by simp
  ultimately show ?thesis
    using n(1,2) length_ser_cands [OF n(3)]
    unfolding encoded_size_def length_ser_blob16 Let_def foldl_add_sum by simp
qed

lemma reads_Transport_all:
  assumes "r_at r (ser_Transport m)"
  shows "\<exists>r'. run_state Transport_decode r = (Some m, r') \<and> r_at r' []"
proof -
  obtain r1 where 1: "run_state rd_u32 r = (tr_conn_id m, r1)" "r_at r1 (be64 (tr_counter m) @ tr_ciphertext m)"
    using readsD [OF reads_u32, of r "tr_conn_id m"] assms by (auto simp: ser_Transport_def)
  obtain r2 where 2: "run_state rd_u64 r1 = (tr_counter m, r2)" "r_at r2 (tr_ciphertext m)"
    using readsD [OF reads_u64 1(2)] by auto
  then have ok: "r_ok r2" and rem: "r_remaining r2 = length (tr_ciphertext m)"
    by (auto simp: r_at_def r_remaining_def simp flip: length_drop)
  obtain r3 where 3: "run_state (rd_bytes (length (tr_ciphertext m))) r2 = (tr_ciphertext m, r3)" "r_at r3 []"
    using readsD [OF reads_rd_bytes [OF refl], of r2 "tr_ciphertext m" "[]"] 2(2) by auto
  show ?thesis
    using 1 2 3 ok rem by (simp add: Transport_decode_def rd_ok_def rd_remaining_def State_Monad.return_def)
qed

end
