(* ===== verification/Framing.thy ===== *)
theory Framing
  imports Messages
begin

text \<open>
  The length-prefixed framing of the control connection, \<^verbatim>\<open>ctl::frame\<close> and the class
  \<^verbatim>\<open>FrameReader\<close> of \<^verbatim>\<open>src/wire/control.cpp\<close>, with the loop of
  \<^verbatim>\<open>Rendezvous::read_from\<close> that feeds each chunk read from the socket and takes every complete
  message. \<open>deframe\<close> is the specification: what a whole byte stream means. The theorems show that
  the incremental reader computes it whatever way TCP cuts the stream, and that deframing inverts
  framing.
\<close>

definition kMaxFrame :: nat where "kMaxFrame = 32 * 1024"

definition frame :: "bytes \<Rightarrow> bytes" where
  "frame message =
     (if length message > kMaxFrame \<or> length message > 0xFFFF then []
      else [ucast (drop_bit 8 (of_nat (length message) :: u64)), ucast (of_nat (length message) :: u64)]
           @ message)"

record FrameReader =
  fr_buf :: bytes
  fr_max :: nat
  fr_broken :: bool

definition FrameReader_new :: "nat \<Rightarrow> FrameReader" where
  "FrameReader_new max_frame = \<lparr>fr_buf = [], fr_max = max_frame, fr_broken = False\<rparr>"

text \<open>\<^verbatim>\<open>static_cast<size_t>(buf_[0]) << 8 | buf_[1]\<close>\<close>

definition prefix_len :: "bytes \<Rightarrow> nat" where
  "prefix_len buf = unat (push_bit 8 (ucast (buf ! 0)) OR ucast (buf ! 1) :: u64)"

definition feed :: "bytes \<Rightarrow> FrameReader \<Rightarrow> bool \<times> FrameReader" where
  "feed bs f =
     (if fr_broken f then (False, f)
      else let f = f\<lparr>fr_buf := fr_buf f @ bs\<rparr>;
               f = (if length (fr_buf f) \<ge> 2 \<and> prefix_len (fr_buf f) > fr_max f
                    then f\<lparr>fr_broken := True\<rparr> else f)
           in (\<not> fr_broken f, f))"

definition next_frame :: "FrameReader \<Rightarrow> bytes option \<times> FrameReader" where
  "next_frame f =
     (if fr_broken f \<or> length (fr_buf f) < 2 then (None, f)
      else let len = prefix_len (fr_buf f) in
        if len > fr_max f then (None, f\<lparr>fr_broken := True\<rparr>)
        else if length (fr_buf f) < 2 + len then (None, f)
        else let msg = take len (drop 2 (fr_buf f));
                 f = f\<lparr>fr_buf := drop (2 + len) (fr_buf f)\<rparr>;
                 f = (if length (fr_buf f) \<ge> 2 \<and> prefix_len (fr_buf f) > fr_max f
                      then f\<lparr>fr_broken := True\<rparr> else f)
             in (Some msg, f))"

definition take_rest :: "FrameReader \<Rightarrow> bytes \<times> FrameReader" where
  "take_rest f = (fr_buf f, f\<lparr>fr_buf := []\<rparr>)"

text \<open>Every complete message now in the buffer: the inner loop of \<^verbatim>\<open>read_from\<close>.\<close>

lemma next_frame_shrinks: "next_frame f = (Some m, f') \<Longrightarrow> length (fr_buf f') < length (fr_buf f)"
  by (auto simp: next_frame_def Let_def split: if_splits)

function drain :: "FrameReader \<Rightarrow> bytes list \<times> FrameReader" where
  "drain f = (case next_frame f of (None, f') \<Rightarrow> ([], f')
     | (Some m, f') \<Rightarrow> let (ms, f'') = drain f' in (m # ms, f''))"
  by pat_completeness auto
termination
  by (relation "measure (\<lambda>f. length (fr_buf f))") (auto dest: next_frame_shrinks [OF sym])

declare drain.simps [simp del]

text \<open>The connection's life: chunks in order; a chunk that breaks the framing ends it.\<close>

fun read_stream :: "FrameReader \<Rightarrow> bytes list \<Rightarrow> bytes list \<times> FrameReader" where
  "read_stream f [] = ([], f)"
| "read_stream f (c # cs) = (case feed c f of (False, f') \<Rightarrow> ([], f')
     | (True, f') \<Rightarrow> let (ms, f1) = drain f' in
         (if fr_broken f1 then (ms, f1)
          else let (ms', f2) = read_stream f1 cs in (ms @ ms', f2)))"

section \<open>The meaning of a stream\<close>

text \<open>The messages of a byte stream, what is left of it, and whether it is malformed there.\<close>

function deframe :: "nat \<Rightarrow> bytes \<Rightarrow> bytes list \<times> bytes \<times> bool" where
  "deframe mx b =
     (if length b < 2 then ([], b, False)
      else if prefix_len b > mx then ([], b, True)
      else if length b < 2 + prefix_len b then ([], b, False)
      else let (ms, r, br) = deframe mx (drop (2 + prefix_len b) b)
           in (take (prefix_len b) (drop 2 b) # ms, r, br))"
  by pat_completeness auto
termination
  by (relation "measure (\<lambda>(mx, b). length b)") auto

declare deframe.simps [simp del]

lemma next_frame_max: "next_frame f = (m, f') \<Longrightarrow> fr_max f' = fr_max f"
  by (auto simp: next_frame_def Let_def split: if_splits)

text \<open>A reader that is only broken when its buffer starts with an oversized prefix.\<close>

definition fr_inv :: "FrameReader \<Rightarrow> bool" where
  "fr_inv f \<longleftrightarrow> (fr_broken f \<longrightarrow> length (fr_buf f) \<ge> 2 \<and> prefix_len (fr_buf f) > fr_max f)"

lemma fr_inv_feed: "fr_inv f \<Longrightarrow> fr_inv (snd (feed c f))"
  by (auto simp: fr_inv_def feed_def Let_def)

lemma fr_inv_next: "fr_inv f \<Longrightarrow> fr_inv (snd (next_frame f))"
  by (auto simp: fr_inv_def next_frame_def Let_def)

lemma drain_deframe:
  assumes "fr_inv f"
  shows "drain f = (case deframe (fr_max f) (fr_buf f) of (ms, r, br) \<Rightarrow>
           (ms, f\<lparr>fr_buf := r, fr_broken := br\<rparr>))"
  using assms
proof (induction f rule: drain.induct)
  case (1 f)
  let ?b = "fr_buf f"
  show ?case
  proof (cases "fr_broken f \<or> length ?b < 2 \<or> prefix_len ?b > fr_max f \<or> length ?b < 2 + prefix_len ?b")
    case True
    with 1(2) show ?thesis
      by (subst drain.simps, subst deframe.simps)
        (auto simp: next_frame_def fr_inv_def Let_def)
  next
    case False
    obtain f' where nf: "next_frame f = (Some (take (prefix_len ?b) (drop 2 ?b)), f')"
      using False by (auto simp: next_frame_def Let_def)
    have f': "fr_buf f' = drop (2 + prefix_len ?b) ?b" "fr_max f' = fr_max f"
      "f' = f\<lparr>fr_buf := fr_buf f', fr_broken := fr_broken f'\<rparr>"
      using False nf by (auto simp: next_frame_def Let_def split: if_splits)
    have "fr_inv f'" using fr_inv_next [OF 1(2)] nf by simp
    from 1(1) [OF nf [symmetric] refl this] f' show ?thesis
      using False nf by (subst drain.simps, subst deframe.simps)
        (auto simp: Let_def split: prod.splits)
  qed
qed

lemma prefix_len_append: "length a \<ge> 2 \<Longrightarrow> prefix_len (a @ b) = prefix_len a"
  by (auto simp: prefix_len_def nth_append)

text \<open>More bytes: the messages already there stay, and deframing resumes on what was left.\<close>

lemma deframe_append:
  "deframe mx (a @ b) = (case deframe mx a of (ms, r, br) \<Rightarrow>
     if br then (ms, r @ b, True)
     else case deframe mx (r @ b) of (ms', r', br') \<Rightarrow> (ms @ ms', r', br'))"
proof (induction mx a rule: deframe.induct)
  case (1 mx a)
  show ?case
  proof (cases "length a < 2 \<or> prefix_len a > mx \<or> length a < 2 + prefix_len a")
    case True
    then show ?thesis
      by (auto simp: deframe.simps [of mx a] deframe.simps [of mx "a @ b"] prefix_len_append
          split: prod.splits)
  next
    case False
    then have "deframe mx (drop (2 + prefix_len a) a @ b) =
        (case deframe mx (drop (2 + prefix_len a) a) of (ms, r, br) \<Rightarrow>
          if br then (ms, r @ b, True)
          else case deframe mx (r @ b) of (ms', r', br') \<Rightarrow> (ms @ ms', r', br'))"
      using 1 by simp
    with False show ?thesis
      by (simp add: deframe.simps [of mx a] deframe.simps [of mx "a @ b"] prefix_len_append
          Let_def split: prod.splits)
  qed
qed

lemma deframe_rest_stuck: "deframe mx b = (ms, r, br) \<Longrightarrow> deframe mx r = ([], r, br)"
proof (induction mx b arbitrary: ms rule: deframe.induct)
  case (1 mx b)
  show ?case
  proof (cases "length b < 2 \<or> prefix_len b > mx \<or> length b < 2 + prefix_len b")
    case True
    with 1(2) show ?thesis by (auto simp: deframe.simps [of mx b] deframe.simps [of mx r] split: if_splits)
  next
    case False
    then obtain ms' where "deframe mx (drop (2 + prefix_len b) b) = (ms', r, br)"
      using 1(2) by (subst (asm) deframe.simps) (auto split: prod.splits)
    with 1(1) False show ?thesis by simp
  qed
qed

text \<open>The reader between chunks: unbroken, every complete message taken.\<close>

definition fr_idle :: "FrameReader \<Rightarrow> bool" where
  "fr_idle f \<longleftrightarrow> \<not> fr_broken f \<and> deframe (fr_max f) (fr_buf f) = ([], fr_buf f, False)"

lemma fr_idle_new [simp]: "fr_idle (FrameReader_new n)"
  by (simp add: fr_idle_def FrameReader_new_def deframe.simps)

lemma feed_True:
  "feed c f = (True, f') \<Longrightarrow> \<not> fr_broken f \<and> f' = f\<lparr>fr_buf := fr_buf f @ c\<rparr> \<and> \<not> fr_broken f'"
  by (auto simp: feed_def Let_def split: if_splits)

lemma feed_False:
  "feed c f = (False, f') \<Longrightarrow> \<not> fr_broken f \<Longrightarrow>
     2 \<le> length (fr_buf f @ c) \<and> prefix_len (fr_buf f @ c) > fr_max f \<and> fr_broken f'"
  by (auto simp: feed_def Let_def split: if_splits)

lemma deframe_oversized:
  "2 \<le> length a \<Longrightarrow> prefix_len a > mx \<Longrightarrow> deframe mx (a @ b) = ([], a @ b, True)"
  by (simp add: deframe.simps [of mx "a @ b"] prefix_len_append)

lemma read_stream_deframe:
  assumes "fr_idle f"
  shows "fst (read_stream f cs) = fst (deframe (fr_max f) (fr_buf f @ concat cs)) \<and>
    fr_broken (snd (read_stream f cs)) = snd (snd (deframe (fr_max f) (fr_buf f @ concat cs)))"
  using assms
proof (induction cs arbitrary: f)
  case (Cons c cs)
  let ?b = "fr_buf f @ c"
  obtain ok f' where fd: "feed c f = (ok, f')" by fastforce
  show ?case
  proof (cases ok)
    case False
    with fd feed_False [of c f f'] Cons.prems show ?thesis
      using deframe_oversized [of ?b "fr_max f" "concat cs"] by (auto simp: fr_idle_def)
  next
    case True
    with fd feed_True [of c f f'] have f': "f' = f\<lparr>fr_buf := ?b\<rparr>" "\<not> fr_broken f'"
      by auto
    obtain ms r br where df: "deframe (fr_max f) ?b = (ms, r, br)" by (metis prod_cases3)
    have dr: "drain f' = (ms, f'\<lparr>fr_buf := r, fr_broken := br\<rparr>)"
      using drain_deframe [of f'] f' df by (simp add: fr_inv_def)
    show ?thesis
    proof (cases br)
      case True
      then show ?thesis
        using fd \<open>ok\<close> dr df deframe_append [of "fr_max f" ?b "concat cs"] by simp
    next
      case False
      let ?f1 = "f'\<lparr>fr_buf := r, fr_broken := br\<rparr>"
      have "fr_idle ?f1"
        using deframe_rest_stuck [OF df] False f' by (simp add: fr_idle_def)
      from Cons.IH [OF this] show ?thesis
        using fd \<open>ok\<close> dr df False f' deframe_append [of "fr_max f" ?b "concat cs"]
        by (auto split: prod.splits)
    qed
  qed
qed (auto simp: fr_idle_def)

section \<open>Framing inverts\<close>

lemma length_frame:
  "length m \<le> kMaxFrame \<Longrightarrow> length (frame m) = 2 + length m"
  by (simp add: frame_def kMaxFrame_def)

lemma u16_split: "unat n < 2 ^ 16 \<Longrightarrow>
    push_bit 8 (ucast (ucast (drop_bit 8 n) :: byte)) OR ucast (ucast n :: byte) = n" for n :: u64
  using lt_exp_bit [of n 16] by (intro bit_word_eqI) (fastforce simp: bit_simps)

lemma prefix_len_frame:
  assumes "length m \<le> kMaxFrame"
  shows "prefix_len (frame m @ x) = length m"
proof -
  let ?n = "of_nat (length m) :: u64"
  have lt: "length m < 2 ^ 16" using assms by (simp add: kMaxFrame_def)
  have n: "unat ?n = length m" using lt by (intro unat_of_nat_small) simp
  have "push_bit 8 (ucast (ucast (drop_bit 8 ?n) :: byte)) OR ucast (ucast ?n :: byte) = ?n"
    using lt n by (intro u16_split) simp
  with assms n show ?thesis by (simp add: prefix_len_def frame_def kMaxFrame_def)
qed

lemma deframe_frame:
  assumes "length m \<le> kMaxFrame"
  shows "deframe kMaxFrame (frame m @ x) = (case deframe kMaxFrame x of (ms, r, br) \<Rightarrow> (m # ms, r, br))"
proof -
  have "drop 2 (frame m @ x) = m @ x" "drop (2 + length m) (frame m @ x) = x"
    using assms by (simp_all add: frame_def kMaxFrame_def)
  with assms show ?thesis
    by (subst deframe.simps) (simp add: prefix_len_frame length_frame Let_def split: prod.splits)
qed

lemma deframe_frames:
  "list_all (\<lambda>m. length m \<le> kMaxFrame) ms \<Longrightarrow>
     deframe kMaxFrame (concat (map frame ms) @ x) =
       (case deframe kMaxFrame x of (ms', r, br) \<Rightarrow> (ms @ ms', r, br))"
  by (induction ms) (auto simp: deframe_frame split: prod.splits)

end
