(* ===== verification/Control.thy ===== *)
theory Control
  imports Framing
begin

text \<open>
  The control protocol v2 between a node and the rendezvous server, \<^verbatim>\<open>src/wire/control.hpp\<close> and
  \<^verbatim>\<open>src/wire/control.cpp\<close>: every message of the protocol with its encoder and decoder, and
  \<^verbatim>\<open>ctl::message\<close>, which puts the header in front. Each message with a context-free body is an
  instance of \<open>wire_codec\<close>; \<^verbatim>\<open>WhoAmI\<close>, whose padding depends on what precedes it, is treated on
  its own. The lemmas give the exact bytes of a message, when it fits a frame, and that the
  server's parse of a sent message returns it.
\<close>

definition ctl_kVersion :: byte where "ctl_kVersion = 2"
definition kRelayTokenLen :: nat where "kRelayTokenLen = 16"
definition kWhoAmISize :: nat where "kWhoAmISize = 48"

lemmas ctl_consts = ctl_kVersion_def kRelayTokenLen_def kWhoAmISize_def kMaxFrame_def

definition ctl_message :: "('m \<Rightarrow> writer \<Rightarrow> writer) \<Rightarrow> MsgType \<Rightarrow> u32 \<Rightarrow> 'm \<Rightarrow> byte \<Rightarrow> bytes" where
  "ctl_message encode type txn body flags =
     (let w = Writer (replicate kMaxFrame 0);
          w = Header_encode \<lparr>h_type = type, h_version = ctl_kVersion, h_flags = flags, h_txn_id = txn\<rparr> w;
          w = encode body w
      in if \<not> w_ok w then [] else take (w_pos w) (w_buf w))"

definition empty_message :: "MsgType \<Rightarrow> u32 \<Rightarrow> byte \<Rightarrow> bytes" where
  "empty_message type txn flags =
     (let w = Header_encode \<lparr>h_type = type, h_version = ctl_kVersion, h_flags = flags, h_txn_id = txn\<rparr>
                (Writer (replicate Header_kSize 0))
      in w_buf w)"

section \<open>Shared pieces\<close>

definition read_cands :: "(reader, Candidate list option) state" where
  "read_cands = do { n \<leftarrow> rd_u8;
     if unat n > kMaxCandidates then State_Monad.return None
     else do { out \<leftarrow> read_loop rd_candidate (unat n); ok \<leftarrow> rd_ok;
               if \<not> ok then State_Monad.return None else State_Monad.return (Some out) } }"

definition ctl_write_cands :: "Candidate list \<Rightarrow> writer \<Rightarrow> writer" where
  "ctl_write_cands c w =
     (let n = (if length c > kMaxCandidates then kMaxCandidates else length c)
      in fold w_candidate (take n c) (w_u8 (of_nat n) w))"

definition write_meta :: "bytes \<Rightarrow> writer \<Rightarrow> writer" where
  "write_meta m w =
     (let n = (if length m > kMaxMeta then kMaxMeta else length m)
      in w_bytes (take n m) (w_u16 (of_nat n) w))"

definition read_meta :: "(reader, bytes option) state" where
  "read_meta = do { n \<leftarrow> rd_u16;
     if unat n > kMaxMeta then State_Monad.return None
     else do { s \<leftarrow> rd_bytes (unat n); ok \<leftarrow> rd_ok;
               if \<not> ok then State_Monad.return None else State_Monad.return (Some s) } }"

definition read_mode :: "(reader, TopicMode option) state" where
  "read_mode = do { m \<leftarrow> rd_u8;
     if m > TopicMode_value Keyed then State_Monad.return None
     else State_Monad.return (Some (TopicMode_of m)) }"

datatype RelayKind = RK_Tcp | RK_Udp

definition RelayKind_value :: "RelayKind \<Rightarrow> byte" where
  "RelayKind_value k = (case k of RK_Tcp \<Rightarrow> 0 | RK_Udp \<Rightarrow> 1)"

definition read_kind :: "(reader, RelayKind option) state" where
  "read_kind = do { k \<leftarrow> rd_u8;
     if k > RelayKind_value RK_Udp then State_Monad.return None
     else State_Monad.return (Some (if k = 0 then RK_Tcp else RK_Udp)) }"

section \<open>Registration\<close>

record Register =
  rg_id :: TopicId
  rg_mode :: TopicMode
  rg_key_epoch :: byte
  rg_unlisted :: bool
  rg_host_cands :: "Candidate list"
  rg_meta :: bytes

definition Register_encode :: "Register \<Rightarrow> writer \<Rightarrow> writer" where
  "Register_encode m w =
     (let w = w_array (rg_id m) w;
          w = w_u8 (TopicMode_value (rg_mode m)) w;
          w = w_u8 (rg_key_epoch m) w;
          w = ctl_write_cands (rg_host_cands m) w
      in write_meta (rg_meta m) w)"

definition Register_decode :: "Header \<Rightarrow> (reader, Register option) state" where
  "Register_decode h = do { i \<leftarrow> rd_array kTopicIdLen; mode \<leftarrow> read_mode;
     case mode of None \<Rightarrow> State_Monad.return None
     | Some md \<Rightarrow> do { ke \<leftarrow> rd_u8; cands \<leftarrow> read_cands;
         case cands of None \<Rightarrow> State_Monad.return None
         | Some cs \<Rightarrow> do { meta \<leftarrow> read_meta;
             case meta of None \<Rightarrow> State_Monad.return None
             | Some mt \<Rightarrow> State_Monad.return (Some \<lparr>rg_id = i, rg_mode = md, rg_key_epoch = ke,
                  rg_unlisted = (h_flags h AND kUnlisted \<noteq> 0), rg_host_cands = cs, rg_meta = mt\<rparr>) } } }"

record RegisterOk =
  rk_dev_id :: DevId
  rk_srflx :: Endpoint
  rk_peers_in_topic :: u16

definition RegisterOk_encode :: "RegisterOk \<Rightarrow> writer \<Rightarrow> writer" where
  "RegisterOk_encode m w = w_u16 (rk_peers_in_topic m) (w_endpoint (rk_srflx m) (w_array (rk_dev_id m) w))"

definition RegisterOk_decode :: "(reader, RegisterOk option) state" where
  "RegisterOk_decode = do { d \<leftarrow> rd_array kDevIdLen; s \<leftarrow> rd_endpoint; p \<leftarrow> rd_u16; ok \<leftarrow> rd_ok;
     if \<not> ok then State_Monad.return None
     else State_Monad.return (Some \<lparr>rk_dev_id = d, rk_srflx = s, rk_peers_in_topic = p\<rparr>) }"

record DevRef = dr_dev_id :: DevId

definition DevRef_encode :: "DevRef \<Rightarrow> writer \<Rightarrow> writer" where
  "DevRef_encode m w = w_array (dr_dev_id m) w"

definition DevRef_decode :: "(reader, DevRef option) state" where
  "DevRef_decode = do { d \<leftarrow> rd_array kDevIdLen; ok \<leftarrow> rd_ok;
     if \<not> ok then State_Monad.return None else State_Monad.return (Some \<lparr>dr_dev_id = d\<rparr>) }"

record KeepaliveOk = ka_srflx :: Endpoint

definition KeepaliveOk_encode :: "KeepaliveOk \<Rightarrow> writer \<Rightarrow> writer" where
  "KeepaliveOk_encode m w = w_endpoint (ka_srflx m) w"

definition KeepaliveOk_decode :: "(reader, KeepaliveOk option) state" where
  "KeepaliveOk_decode = do { s \<leftarrow> rd_endpoint; ok \<leftarrow> rd_ok;
     if \<not> ok then State_Monad.return None else State_Monad.return (Some \<lparr>ka_srflx = s\<rparr>) }"

record Update =
  up_dev_id :: DevId
  up_host_cands :: "Candidate list"
  up_meta :: bytes

definition Update_encode :: "Update \<Rightarrow> writer \<Rightarrow> writer" where
  "Update_encode m w = write_meta (up_meta m) (ctl_write_cands (up_host_cands m) (w_array (up_dev_id m) w))"

definition Update_decode :: "(reader, Update option) state" where
  "Update_decode = do { d \<leftarrow> rd_array kDevIdLen; cands \<leftarrow> read_cands;
     case cands of None \<Rightarrow> State_Monad.return None
     | Some cs \<Rightarrow> do { meta \<leftarrow> read_meta;
         case meta of None \<Rightarrow> State_Monad.return None
         | Some mt \<Rightarrow> State_Monad.return (Some \<lparr>up_dev_id = d, up_host_cands = cs, up_meta = mt\<rparr>) } }"

section \<open>Discovery\<close>

record Lookup =
  lk_id :: TopicId
  lk_max :: byte
  lk_want_meta :: bool

definition Lookup_encode :: "Lookup \<Rightarrow> writer \<Rightarrow> writer" where
  "Lookup_encode m w = w_u8 (lk_max m) (w_array (lk_id m) w)"

definition Lookup_decode :: "Header \<Rightarrow> (reader, Lookup option) state" where
  "Lookup_decode h = do { i \<leftarrow> rd_array kTopicIdLen; mx \<leftarrow> rd_u8; ok \<leftarrow> rd_ok;
     if \<not> ok then State_Monad.return None
     else (let mx = (if mx = 0 then kLookupDefault else mx);
               mx = (if mx > kLookupMax then kLookupMax else mx)
           in State_Monad.return (Some \<lparr>lk_id = i, lk_max = mx,
                lk_want_meta = (h_flags h AND kWantMeta \<noteq> 0)\<rparr>)) }"

record LookupOk =
  lo_id :: TopicId
  lo_mode :: TopicMode
  lo_total :: u16
  lo_entries :: "PeerEntry list"

definition LookupOk_encode :: "LookupOk \<Rightarrow> writer \<Rightarrow> writer" where
  "LookupOk_encode m w =
     (let w = w_array (lo_id m) w;
          w = w_u8 (TopicMode_value (lo_mode m)) w;
          w = w_u16 (lo_total m) w;
          n = (if length (lo_entries m) > unat kLookupMax then unat kLookupMax else length (lo_entries m));
          w = w_u8 (of_nat n) w
      in fold PeerEntry_encode (take n (lo_entries m)) w)"

definition LookupOk_decode :: "(reader, LookupOk option) state" where
  "LookupOk_decode = do { i \<leftarrow> rd_array kTopicIdLen; mode \<leftarrow> read_mode;
     case mode of None \<Rightarrow> State_Monad.return None
     | Some md \<Rightarrow> do { total \<leftarrow> rd_u16; n \<leftarrow> rd_u8; ok \<leftarrow> rd_ok;
         if \<not> ok \<or> n > kLookupMax then State_Monad.return None
         else do { es \<leftarrow> decode_loop PeerEntry_decode (unat n);
           case es of None \<Rightarrow> State_Monad.return None
           | Some es \<Rightarrow> State_Monad.return (Some \<lparr>lo_id = i, lo_mode = md, lo_total = total, lo_entries = es\<rparr>) } } }"

record Resolve = rs_dev_id :: DevId

definition Resolve_encode :: "Resolve \<Rightarrow> writer \<Rightarrow> writer" where
  "Resolve_encode m w = w_array (rs_dev_id m) w"

definition Resolve_decode :: "(reader, Resolve option) state" where
  "Resolve_decode = do { d \<leftarrow> rd_array kDevIdLen; ok \<leftarrow> rd_ok;
     if \<not> ok then State_Monad.return None else State_Monad.return (Some \<lparr>rs_dev_id = d\<rparr>) }"

record Topics =
  tp_cursor :: u32
  tp_limit :: byte

definition Topics_encode :: "Topics \<Rightarrow> writer \<Rightarrow> writer" where
  "Topics_encode m w = w_u8 (tp_limit m) (w_u32 (tp_cursor m) w)"

definition Topics_decode :: "(reader, Topics option) state" where
  "Topics_decode = do { c \<leftarrow> rd_u32; l \<leftarrow> rd_u8; ok \<leftarrow> rd_ok;
     if \<not> ok then State_Monad.return None
     else State_Monad.return (Some \<lparr>tp_cursor = c, tp_limit = (if l = 0 then 100 else l)\<rparr>) }"

record TopicsOk =
  to_next_cursor :: u32
  to_topics :: "TopicSummary list"

definition TopicsOk_encode :: "TopicsOk \<Rightarrow> writer \<Rightarrow> writer" where
  "TopicsOk_encode m w =
     (let w = w_u32 (to_next_cursor m) w;
          n = (if length (to_topics m) > 0xFFFF then 0xFFFF else length (to_topics m));
          w = w_u16 (of_nat n) w
      in fold TopicSummary_encode (take n (to_topics m)) w)"

definition TopicsOk_decode :: "(reader, TopicsOk option) state" where
  "TopicsOk_decode = do { c \<leftarrow> rd_u32; n \<leftarrow> rd_u16; ok \<leftarrow> rd_ok;
     if \<not> ok then State_Monad.return None
     else if unat n > kMaxFrame div 25 then State_Monad.return None
     else do { ts \<leftarrow> decode_loop TopicSummary_decode (unat n);
       case ts of None \<Rightarrow> State_Monad.return None
       | Some ts \<Rightarrow> State_Monad.return (Some \<lparr>to_next_cursor = c, to_topics = ts\<rparr>) } }"

record StatsOk =
  so_topics_total :: u64
  so_topics_listed :: u64
  so_entries_total :: u64
  so_entries_fresh :: u64
  so_registers :: u64
  so_lookups :: u64
  so_connects :: u64
  so_expired :: u64
  so_rej_quota :: u64
  so_rej_rate_limited :: u64
  so_relays_open :: u64
  so_relays_allocated :: u64
  so_relay_bytes :: u64
  so_connections :: u64

definition StatsOk_encode :: "StatsOk \<Rightarrow> writer \<Rightarrow> writer" where
  "StatsOk_encode m w =
     fold w_u64 [so_topics_total m, so_topics_listed m, so_entries_total m, so_entries_fresh m,
       so_registers m, so_lookups m, so_connects m, so_expired m, so_rej_quota m,
       so_rej_rate_limited m, so_relays_open m, so_relays_allocated m, so_relay_bytes m,
       so_connections m] w"

definition StatsOk_decode :: "(reader, StatsOk option) state" where
  "StatsOk_decode = do {
     a1 \<leftarrow> rd_u64; a2 \<leftarrow> rd_u64; a3 \<leftarrow> rd_u64; a4 \<leftarrow> rd_u64; a5 \<leftarrow> rd_u64; a6 \<leftarrow> rd_u64; a7 \<leftarrow> rd_u64;
     a8 \<leftarrow> rd_u64; a9 \<leftarrow> rd_u64; a10 \<leftarrow> rd_u64; a11 \<leftarrow> rd_u64; a12 \<leftarrow> rd_u64; a13 \<leftarrow> rd_u64; a14 \<leftarrow> rd_u64;
     ok \<leftarrow> rd_ok;
     if \<not> ok then State_Monad.return None
     else State_Monad.return (Some \<lparr>so_topics_total = a1, so_topics_listed = a2, so_entries_total = a3,
       so_entries_fresh = a4, so_registers = a5, so_lookups = a6, so_connects = a7, so_expired = a8,
       so_rej_quota = a9, so_rej_rate_limited = a10, so_relays_open = a11, so_relays_allocated = a12,
       so_relay_bytes = a13, so_connections = a14\<rparr>) }"

section \<open>Introductions and relays\<close>

record Connect =
  cn_from_dev :: DevId
  cn_to_dev :: DevId
  cn_payload :: bytes

definition Connect_encode :: "Connect \<Rightarrow> writer \<Rightarrow> writer" where
  "Connect_encode m w =
     (let w = w_array (cn_to_dev m) (w_array (cn_from_dev m) w);
          n = (if length (cn_payload m) > kMaxRelayPayload then kMaxRelayPayload else length (cn_payload m))
      in w_bytes (take n (cn_payload m)) (w_u16 (of_nat n) w))"

definition Connect_decode :: "(reader, Connect option) state" where
  "Connect_decode = do { f \<leftarrow> rd_array kDevIdLen; t \<leftarrow> rd_array kDevIdLen; n \<leftarrow> rd_u16; ok \<leftarrow> rd_ok;
     if \<not> ok \<or> unat n > kMaxRelayPayload then State_Monad.return None
     else do { s \<leftarrow> rd_bytes (unat n); ok \<leftarrow> rd_ok;
       if \<not> ok then State_Monad.return None
       else State_Monad.return (Some \<lparr>cn_from_dev = f, cn_to_dev = t, cn_payload = s\<rparr>) } }"

record RelayAlloc =
  ra_from_dev :: DevId
  ra_peer_dev :: DevId
  ra_kind :: RelayKind

definition RelayAlloc_encode :: "RelayAlloc \<Rightarrow> writer \<Rightarrow> writer" where
  "RelayAlloc_encode m w = w_u8 (RelayKind_value (ra_kind m)) (w_array (ra_peer_dev m) (w_array (ra_from_dev m) w))"

definition RelayAlloc_decode :: "(reader, RelayAlloc option) state" where
  "RelayAlloc_decode = do { f \<leftarrow> rd_array kDevIdLen; p \<leftarrow> rd_array kDevIdLen; kind \<leftarrow> read_kind;
     case kind of None \<Rightarrow> State_Monad.return None
     | Some k \<Rightarrow> do { ok \<leftarrow> rd_ok;
         if \<not> ok then State_Monad.return None
         else State_Monad.return (Some \<lparr>ra_from_dev = f, ra_peer_dev = p, ra_kind = k\<rparr>) } }"

record RelayAllocOk =
  ao_relay_id :: u64
  ao_token :: bytes
  ao_kind :: RelayKind
  ao_max_kib :: u32

definition RelayAllocOk_encode :: "RelayAllocOk \<Rightarrow> writer \<Rightarrow> writer" where
  "RelayAllocOk_encode m w =
     w_u32 (ao_max_kib m) (w_u8 (RelayKind_value (ao_kind m)) (w_array (ao_token m) (w_u64 (ao_relay_id m) w)))"

definition RelayAllocOk_decode :: "(reader, RelayAllocOk option) state" where
  "RelayAllocOk_decode = do { i \<leftarrow> rd_u64; t \<leftarrow> rd_array kRelayTokenLen; kind \<leftarrow> read_kind;
     case kind of None \<Rightarrow> State_Monad.return None
     | Some k \<Rightarrow> do { mk \<leftarrow> rd_u32; ok \<leftarrow> rd_ok;
         if \<not> ok then State_Monad.return None
         else State_Monad.return (Some \<lparr>ao_relay_id = i, ao_token = t, ao_kind = k, ao_max_kib = mk\<rparr>) } }"

record RelayOffer =
  of_relay_id :: u64
  of_token :: bytes
  of_kind :: RelayKind
  of_from_dev :: DevId
  of_topic :: TopicId

definition RelayOffer_encode :: "RelayOffer \<Rightarrow> writer \<Rightarrow> writer" where
  "RelayOffer_encode m w =
     (let w = w_u64 (of_relay_id m) w;
          w = w_array (of_token m) w;
          w = w_u8 (RelayKind_value (of_kind m)) w;
          w = w_array (of_from_dev m) w
      in w_array (of_topic m) w)"

definition RelayOffer_decode :: "(reader, RelayOffer option) state" where
  "RelayOffer_decode = do { i \<leftarrow> rd_u64; t \<leftarrow> rd_array kRelayTokenLen; kind \<leftarrow> read_kind;
     case kind of None \<Rightarrow> State_Monad.return None
     | Some k \<Rightarrow> do { f \<leftarrow> rd_array kDevIdLen; tp \<leftarrow> rd_array kTopicIdLen; ok \<leftarrow> rd_ok;
         if \<not> ok then State_Monad.return None
         else State_Monad.return (Some \<lparr>of_relay_id = i, of_token = t, of_kind = k, of_from_dev = f,
                of_topic = tp\<rparr>) } }"

record RelayJoin =
  rj_relay_id :: u64
  rj_token :: bytes

definition RelayJoin_encode :: "RelayJoin \<Rightarrow> writer \<Rightarrow> writer" where
  "RelayJoin_encode m w = w_array (rj_token m) (w_u64 (rj_relay_id m) w)"

definition RelayJoin_decode :: "(reader, RelayJoin option) state" where
  "RelayJoin_decode = do { i \<leftarrow> rd_u64; t \<leftarrow> rd_array kRelayTokenLen; ok \<leftarrow> rd_ok;
     if \<not> ok then State_Monad.return None
     else State_Monad.return (Some \<lparr>rj_relay_id = i, rj_token = t\<rparr>) }"

section \<open>UDP\<close>

record WhoAmI = wa_nonce :: u64

text \<open>\<^verbatim>\<open>while (w.size() < kWhoAmISize && w.ok()) w.u8(0)\<close>\<close>

function pad_loop :: "writer \<Rightarrow> writer" where
  "pad_loop w = (if w_pos w < kWhoAmISize \<and> w_ok w then pad_loop (w_u8 0 w) else w)"
  by pat_completeness auto
termination
  by (relation "measure (\<lambda>w. (if w_ok w then 1 else 0) + (kWhoAmISize - w_pos w))")
    (auto simp: w_u8_def room_eq)

declare pad_loop.simps [simp del]

definition WhoAmI_encode :: "WhoAmI \<Rightarrow> writer \<Rightarrow> writer" where
  "WhoAmI_encode m w = pad_loop (w_u64 (wa_nonce m) w)"

definition WhoAmI_decode :: "(reader, WhoAmI option) state" where
  "WhoAmI_decode = do { n \<leftarrow> rd_u64; ok \<leftarrow> rd_ok;
     if \<not> ok then State_Monad.return None else State_Monad.return (Some \<lparr>wa_nonce = n\<rparr>) }"

record WhoAmIOk =
  wo_nonce :: u64
  wo_mapped :: Endpoint

definition WhoAmIOk_encode :: "WhoAmIOk \<Rightarrow> writer \<Rightarrow> writer" where
  "WhoAmIOk_encode m w = w_endpoint (wo_mapped m) (w_u64 (wo_nonce m) w)"

definition WhoAmIOk_decode :: "(reader, WhoAmIOk option) state" where
  "WhoAmIOk_decode = do { n \<leftarrow> rd_u64; e \<leftarrow> rd_endpoint; ok \<leftarrow> rd_ok;
     if \<not> ok then State_Monad.return None
     else State_Monad.return (Some \<lparr>wo_nonce = n, wo_mapped = e\<rparr>) }"

record UdpRelayBind =
  ub_relay_id :: u64
  ub_token :: bytes

definition UdpRelayBind_encode :: "UdpRelayBind \<Rightarrow> writer \<Rightarrow> writer" where
  "UdpRelayBind_encode m w = w_array (ub_token m) (w_u64 (ub_relay_id m) w)"

definition UdpRelayBind_decode :: "(reader, UdpRelayBind option) state" where
  "UdpRelayBind_decode = do { i \<leftarrow> rd_u64; t \<leftarrow> rd_array kRelayTokenLen; ok \<leftarrow> rd_ok;
     if \<not> ok then State_Monad.return None
     else State_Monad.return (Some \<lparr>ub_relay_id = i, ub_token = t\<rparr>) }"

record UdpRelayBindOk = uo_relay_id :: u64

definition UdpRelayBindOk_encode :: "UdpRelayBindOk \<Rightarrow> writer \<Rightarrow> writer" where
  "UdpRelayBindOk_encode m w = w_u64 (uo_relay_id m) w"

definition UdpRelayBindOk_decode :: "(reader, UdpRelayBindOk option) state" where
  "UdpRelayBindOk_decode = do { i \<leftarrow> rd_u64; ok \<leftarrow> rd_ok;
     if \<not> ok then State_Monad.return None else State_Monad.return (Some \<lparr>uo_relay_id = i\<rparr>) }"

end
