(* ===== verification/Control_Codecs.thy ===== *)
theory Control_Codecs
  imports Control
begin

text \<open>
  The messages of the control protocol are codecs: the wire form and the well-formedness of each,
  and the interpretation of \<open>wire_codec\<close> on the translated encoder and decoder. The rule
  collections \<open>reads_rules\<close> and \<open>sound_rules\<close> run through a decoder field by field. At the end,
  \<^verbatim>\<open>ctl::message\<close> for any codec, and the padding of \<^verbatim>\<open>WhoAmI\<close>.
\<close>

section \<open>Field-by-field rules\<close>

lemma reads_bind_Some:
  "reads m a (Some v) \<Longrightarrow> reads (k v) b x \<Longrightarrow>
     reads (m \<bind> (\<lambda>o'. case o' of None \<Rightarrow> n | Some y \<Rightarrow> k y)) (a @ b) x"
  using reads_bind [of m a "Some v" "\<lambda>o'. case o' of None \<Rightarrow> n | Some y \<Rightarrow> k y" b x] by simp

lemma reads_bind_Some_last:
  "reads m a (Some v) \<Longrightarrow> reads (k v) [] x \<Longrightarrow>
     reads (m \<bind> (\<lambda>o'. case o' of None \<Rightarrow> n | Some y \<Rightarrow> k y)) a x"
  using reads_bind_Some [of m a v k "[]" x n] by simp

lemma reads_checkedI:
  "v = m \<Longrightarrow> reads (do { ok \<leftarrow> rd_ok; if \<not> ok then State_Monad.return None
                                       else State_Monad.return (Some v) }) [] (Some m)"
  using reads_checked [of "Some v"] by simp

lemma read_cands_eq: "read_cands = read_vec kMaxCandidates rd_candidate"
  by (simp add: read_cands_def read_vec_def)

lemma read_meta_eq: "read_meta = read_blob16_capped kMaxMeta"
  by (simp add: read_meta_def read_blob16_capped_def)

lemma reads_ctl_cands:
  "length cs \<le> kMaxCandidates \<Longrightarrow> list_all wf_cand cs \<Longrightarrow> reads read_cands (ser_cands cs) (Some cs)"
  unfolding read_cands_eq by (rule reads_cands)

lemma reads_meta: "length v \<le> kMaxMeta \<Longrightarrow> reads read_meta (ser_blob16 v kMaxMeta) (Some v)"
  unfolding read_meta_eq by (rule reads_blob16) (simp_all add: wire_consts)

lemma reads_mode: "reads read_mode [TopicMode_value m] (Some m)"
  unfolding read_mode_def by (rule reads_bind_return [OF reads_u8]) (simp add: reads_return)

lemma reads_kind: "reads read_kind [RelayKind_value k] (Some k)"
  unfolding read_kind_def
  by (rule reads_bind_return [OF reads_u8]) (cases k; simp add: reads_return RelayKind_value_def)

lemma keeps_pieces [keeps_intros]: "keeps read_cands" "keeps read_meta" "keeps read_mode" "keeps read_kind"
  unfolding read_cands_def read_meta_def read_mode_def read_kind_def by (intro keeps_intros)+

lemma sound_meta: "sound read_meta"
  unfolding read_meta_eq by (rule sound_blob16)

lemma ctl_write_simps [simp]:
  "w_cap (ctl_write_cands c w) = w_cap w"
  "wabs (ctl_write_cands c w) = emit (w_cap w) (ser_cands c) (wabs w)"
  "w_wf w \<Longrightarrow> w_wf (ctl_write_cands c w)"
  "w_cap (write_meta v w) = w_cap w"
  "wabs (write_meta v w) = emit (w_cap w) (ser_blob16 v kMaxMeta) (wabs w)"
  "w_wf w \<Longrightarrow> w_wf (write_meta v w)"
  using write_cands_simps [where c = c and w = w]
    write_blob16_simps [where v = v and cap = kMaxMeta and w = w]
  by (simp_all add: ctl_write_cands_def write_cands_def write_meta_def write_blob16_capped_def)

lemmas reads_rules =
  reads_bind [OF reads_u8] reads_bind [OF reads_u16] reads_bind [OF reads_u32] reads_bind [OF reads_u64]
  reads_bind_Some [OF reads_mode] reads_bind_Some [OF reads_kind]
  reads_bind_Some [OF reads_ctl_cands] reads_bind_Some [OF reads_meta]
  reads_bind [OF reads_endpoint] reads_bind [OF reads_array]
  reads_bind_return [OF reads_u8] reads_bind_return [OF reads_u16] reads_bind_return [OF reads_u32]
  reads_bind_return [OF reads_u64]
  reads_bind_Some_last [OF reads_kind] reads_bind_Some_last [OF reads_ctl_cands]
  reads_bind_Some_last [OF reads_meta]
  reads_bind_return [OF reads_endpoint] reads_bind_return [OF reads_array]
  reads_checkedI reads_returnI

lemmas sound_rules = sound_checked sound_return_None sound_then_Some sound_meta
  sound_bind [where m = rd_u8] sound_bind [where m = rd_u16] sound_bind [where m = rd_u32]
  sound_bind [where m = rd_u64] sound_bind [where m = "rd_array _"] sound_bind [where m = rd_endpoint]
  sound_bind [where m = read_mode] sound_bind [where m = read_kind] sound_bind [where m = read_cands]
  sound_option

section \<open>Flat messages\<close>

definition ser_RegisterOk :: "RegisterOk \<Rightarrow> bytes" where
  "ser_RegisterOk m = rk_dev_id m @ ser_endpoint (rk_srflx m) @ be16 (rk_peers_in_topic m)"

definition wf_RegisterOk :: "RegisterOk \<Rightarrow> bool" where
  "wf_RegisterOk m \<longleftrightarrow> length (rk_dev_id m) = kDevIdLen \<and> wf_ep (rk_srflx m)"

definition ser_DevRef :: "DevRef \<Rightarrow> bytes" where
  "ser_DevRef m = dr_dev_id m"

definition wf_DevRef :: "DevRef \<Rightarrow> bool" where
  "wf_DevRef m \<longleftrightarrow> length (dr_dev_id m) = kDevIdLen"

definition ser_KeepaliveOk :: "KeepaliveOk \<Rightarrow> bytes" where
  "ser_KeepaliveOk m = ser_endpoint (ka_srflx m)"

definition wf_KeepaliveOk :: "KeepaliveOk \<Rightarrow> bool" where
  "wf_KeepaliveOk m \<longleftrightarrow> wf_ep (ka_srflx m)"

definition ser_Resolve :: "Resolve \<Rightarrow> bytes" where
  "ser_Resolve m = rs_dev_id m"

definition wf_Resolve :: "Resolve \<Rightarrow> bool" where
  "wf_Resolve m \<longleftrightarrow> length (rs_dev_id m) = kDevIdLen"

definition ser_StatsOk :: "StatsOk \<Rightarrow> bytes" where
  "ser_StatsOk m = be64 (so_topics_total m) @ be64 (so_topics_listed m) @ be64 (so_entries_total m)
     @ be64 (so_entries_fresh m) @ be64 (so_registers m) @ be64 (so_lookups m) @ be64 (so_connects m)
     @ be64 (so_expired m) @ be64 (so_rej_quota m) @ be64 (so_rej_rate_limited m) @ be64 (so_relays_open m)
     @ be64 (so_relays_allocated m) @ be64 (so_relay_bytes m) @ be64 (so_connections m)"

definition wf_StatsOk :: "StatsOk \<Rightarrow> bool" where
  "wf_StatsOk m \<longleftrightarrow> True"

definition ser_RelayAlloc :: "RelayAlloc \<Rightarrow> bytes" where
  "ser_RelayAlloc m = ra_from_dev m @ ra_peer_dev m @ [RelayKind_value (ra_kind m)]"

definition wf_RelayAlloc :: "RelayAlloc \<Rightarrow> bool" where
  "wf_RelayAlloc m \<longleftrightarrow> length (ra_from_dev m) = kDevIdLen \<and> length (ra_peer_dev m) = kDevIdLen"

definition ser_RelayAllocOk :: "RelayAllocOk \<Rightarrow> bytes" where
  "ser_RelayAllocOk m = be64 (ao_relay_id m) @ ao_token m @ [RelayKind_value (ao_kind m)] @ be32 (ao_max_kib m)"

definition wf_RelayAllocOk :: "RelayAllocOk \<Rightarrow> bool" where
  "wf_RelayAllocOk m \<longleftrightarrow> length (ao_token m) = kRelayTokenLen"

definition ser_RelayOffer :: "RelayOffer \<Rightarrow> bytes" where
  "ser_RelayOffer m = be64 (of_relay_id m) @ of_token m @ [RelayKind_value (of_kind m)] @ of_from_dev m @ of_topic m"

definition wf_RelayOffer :: "RelayOffer \<Rightarrow> bool" where
  "wf_RelayOffer m \<longleftrightarrow> length (of_token m) = kRelayTokenLen \<and> length (of_from_dev m) = kDevIdLen
     \<and> length (of_topic m) = kTopicIdLen"

definition ser_RelayJoin :: "RelayJoin \<Rightarrow> bytes" where
  "ser_RelayJoin m = be64 (rj_relay_id m) @ rj_token m"

definition wf_RelayJoin :: "RelayJoin \<Rightarrow> bool" where
  "wf_RelayJoin m \<longleftrightarrow> length (rj_token m) = kRelayTokenLen"

definition ser_WhoAmIOk :: "WhoAmIOk \<Rightarrow> bytes" where
  "ser_WhoAmIOk m = be64 (wo_nonce m) @ ser_endpoint (wo_mapped m)"

definition wf_WhoAmIOk :: "WhoAmIOk \<Rightarrow> bool" where
  "wf_WhoAmIOk m \<longleftrightarrow> wf_ep (wo_mapped m)"

definition ser_UdpRelayBind :: "UdpRelayBind \<Rightarrow> bytes" where
  "ser_UdpRelayBind m = be64 (ub_relay_id m) @ ub_token m"

definition wf_UdpRelayBind :: "UdpRelayBind \<Rightarrow> bool" where
  "wf_UdpRelayBind m \<longleftrightarrow> length (ub_token m) = kRelayTokenLen"

definition ser_UdpRelayBindOk :: "UdpRelayBindOk \<Rightarrow> bytes" where
  "ser_UdpRelayBindOk m = be64 (uo_relay_id m)"

definition wf_UdpRelayBindOk :: "UdpRelayBindOk \<Rightarrow> bool" where
  "wf_UdpRelayBindOk m \<longleftrightarrow> True"

definition ser_Update :: "Update \<Rightarrow> bytes" where
  "ser_Update m = up_dev_id m @ ser_cands (up_host_cands m) @ ser_blob16 (up_meta m) kMaxMeta"

definition wf_Update :: "Update \<Rightarrow> bool" where
  "wf_Update m \<longleftrightarrow> length (up_dev_id m) = kDevIdLen \<and> length (up_host_cands m) \<le> kMaxCandidates
     \<and> list_all wf_cand (up_host_cands m) \<and> length (up_meta m) \<le> kMaxMeta"

interpretation register_ok: wire_codec RegisterOk_encode RegisterOk_decode ser_RegisterOk wf_RegisterOk
proof unfold_locales
  show "wf_RegisterOk m \<Longrightarrow> reads RegisterOk_decode (ser_RegisterOk m) (Some m)" for m
    unfolding RegisterOk_decode_def ser_RegisterOk_def wf_RegisterOk_def by (intro reads_rules) simp_all
  show "keeps RegisterOk_decode"
    unfolding RegisterOk_decode_def by (intro keeps_intros)
  show "sound RegisterOk_decode"
    unfolding RegisterOk_decode_def by (intro sound_rules)
qed (simp_all add: RegisterOk_encode_def ser_RegisterOk_def Let_def)

interpretation dev_ref: wire_codec DevRef_encode DevRef_decode ser_DevRef wf_DevRef
proof unfold_locales
  show "wf_DevRef m \<Longrightarrow> reads DevRef_decode (ser_DevRef m) (Some m)" for m
    unfolding DevRef_decode_def ser_DevRef_def wf_DevRef_def by (intro reads_rules) simp_all
  show "keeps DevRef_decode"
    unfolding DevRef_decode_def by (intro keeps_intros)
  show "sound DevRef_decode"
    unfolding DevRef_decode_def by (intro sound_rules)
qed (simp_all add: DevRef_encode_def ser_DevRef_def Let_def)

interpretation keepalive_ok: wire_codec KeepaliveOk_encode KeepaliveOk_decode ser_KeepaliveOk wf_KeepaliveOk
proof unfold_locales
  show "wf_KeepaliveOk m \<Longrightarrow> reads KeepaliveOk_decode (ser_KeepaliveOk m) (Some m)" for m
    unfolding KeepaliveOk_decode_def ser_KeepaliveOk_def wf_KeepaliveOk_def by (intro reads_rules) simp_all
  show "keeps KeepaliveOk_decode"
    unfolding KeepaliveOk_decode_def by (intro keeps_intros)
  show "sound KeepaliveOk_decode"
    unfolding KeepaliveOk_decode_def by (intro sound_rules)
qed (simp_all add: KeepaliveOk_encode_def ser_KeepaliveOk_def Let_def)

interpretation resolve: wire_codec Resolve_encode Resolve_decode ser_Resolve wf_Resolve
proof unfold_locales
  show "wf_Resolve m \<Longrightarrow> reads Resolve_decode (ser_Resolve m) (Some m)" for m
    unfolding Resolve_decode_def ser_Resolve_def wf_Resolve_def by (intro reads_rules) simp_all
  show "keeps Resolve_decode"
    unfolding Resolve_decode_def by (intro keeps_intros)
  show "sound Resolve_decode"
    unfolding Resolve_decode_def by (intro sound_rules)
qed (simp_all add: Resolve_encode_def ser_Resolve_def Let_def)

interpretation stats_ok: wire_codec StatsOk_encode StatsOk_decode ser_StatsOk wf_StatsOk
proof unfold_locales
  show "wf_StatsOk m \<Longrightarrow> reads StatsOk_decode (ser_StatsOk m) (Some m)" for m
    unfolding StatsOk_decode_def ser_StatsOk_def wf_StatsOk_def by (intro reads_rules) simp_all
  show "keeps StatsOk_decode"
    unfolding StatsOk_decode_def by (intro keeps_intros)
  show "sound StatsOk_decode"
    unfolding StatsOk_decode_def by (intro sound_rules)
qed (simp_all add: StatsOk_encode_def ser_StatsOk_def Let_def)

interpretation relay_alloc_msg: wire_codec RelayAlloc_encode RelayAlloc_decode ser_RelayAlloc wf_RelayAlloc
proof unfold_locales
  show "wf_RelayAlloc m \<Longrightarrow> reads RelayAlloc_decode (ser_RelayAlloc m) (Some m)" for m
    unfolding RelayAlloc_decode_def ser_RelayAlloc_def wf_RelayAlloc_def by (intro reads_rules) simp_all
  show "keeps RelayAlloc_decode"
    unfolding RelayAlloc_decode_def by (intro keeps_intros)
  show "sound RelayAlloc_decode"
    unfolding RelayAlloc_decode_def by (intro sound_rules)
qed (simp_all add: RelayAlloc_encode_def ser_RelayAlloc_def Let_def)

interpretation relay_alloc_ok: wire_codec RelayAllocOk_encode RelayAllocOk_decode ser_RelayAllocOk wf_RelayAllocOk
proof unfold_locales
  show "wf_RelayAllocOk m \<Longrightarrow> reads RelayAllocOk_decode (ser_RelayAllocOk m) (Some m)" for m
    unfolding RelayAllocOk_decode_def ser_RelayAllocOk_def wf_RelayAllocOk_def by (intro reads_rules) simp_all
  show "keeps RelayAllocOk_decode"
    unfolding RelayAllocOk_decode_def by (intro keeps_intros)
  show "sound RelayAllocOk_decode"
    unfolding RelayAllocOk_decode_def by (intro sound_rules)
qed (simp_all add: RelayAllocOk_encode_def ser_RelayAllocOk_def Let_def)

interpretation relay_offer: wire_codec RelayOffer_encode RelayOffer_decode ser_RelayOffer wf_RelayOffer
proof unfold_locales
  show "wf_RelayOffer m \<Longrightarrow> reads RelayOffer_decode (ser_RelayOffer m) (Some m)" for m
    unfolding RelayOffer_decode_def ser_RelayOffer_def wf_RelayOffer_def by (intro reads_rules) simp_all
  show "keeps RelayOffer_decode"
    unfolding RelayOffer_decode_def by (intro keeps_intros)
  show "sound RelayOffer_decode"
    unfolding RelayOffer_decode_def by (intro sound_rules)
qed (simp_all add: RelayOffer_encode_def ser_RelayOffer_def Let_def)

interpretation relay_join: wire_codec RelayJoin_encode RelayJoin_decode ser_RelayJoin wf_RelayJoin
proof unfold_locales
  show "wf_RelayJoin m \<Longrightarrow> reads RelayJoin_decode (ser_RelayJoin m) (Some m)" for m
    unfolding RelayJoin_decode_def ser_RelayJoin_def wf_RelayJoin_def by (intro reads_rules) simp_all
  show "keeps RelayJoin_decode"
    unfolding RelayJoin_decode_def by (intro keeps_intros)
  show "sound RelayJoin_decode"
    unfolding RelayJoin_decode_def by (intro sound_rules)
qed (simp_all add: RelayJoin_encode_def ser_RelayJoin_def Let_def)

interpretation who_am_i_ok: wire_codec WhoAmIOk_encode WhoAmIOk_decode ser_WhoAmIOk wf_WhoAmIOk
proof unfold_locales
  show "wf_WhoAmIOk m \<Longrightarrow> reads WhoAmIOk_decode (ser_WhoAmIOk m) (Some m)" for m
    unfolding WhoAmIOk_decode_def ser_WhoAmIOk_def wf_WhoAmIOk_def by (intro reads_rules) simp_all
  show "keeps WhoAmIOk_decode"
    unfolding WhoAmIOk_decode_def by (intro keeps_intros)
  show "sound WhoAmIOk_decode"
    unfolding WhoAmIOk_decode_def by (intro sound_rules)
qed (simp_all add: WhoAmIOk_encode_def ser_WhoAmIOk_def Let_def)

interpretation udp_relay_bind: wire_codec UdpRelayBind_encode UdpRelayBind_decode ser_UdpRelayBind wf_UdpRelayBind
proof unfold_locales
  show "wf_UdpRelayBind m \<Longrightarrow> reads UdpRelayBind_decode (ser_UdpRelayBind m) (Some m)" for m
    unfolding UdpRelayBind_decode_def ser_UdpRelayBind_def wf_UdpRelayBind_def by (intro reads_rules) simp_all
  show "keeps UdpRelayBind_decode"
    unfolding UdpRelayBind_decode_def by (intro keeps_intros)
  show "sound UdpRelayBind_decode"
    unfolding UdpRelayBind_decode_def by (intro sound_rules)
qed (simp_all add: UdpRelayBind_encode_def ser_UdpRelayBind_def Let_def)

interpretation udp_relay_bind_ok: wire_codec UdpRelayBindOk_encode UdpRelayBindOk_decode ser_UdpRelayBindOk wf_UdpRelayBindOk
proof unfold_locales
  show "wf_UdpRelayBindOk m \<Longrightarrow> reads UdpRelayBindOk_decode (ser_UdpRelayBindOk m) (Some m)" for m
    unfolding UdpRelayBindOk_decode_def ser_UdpRelayBindOk_def wf_UdpRelayBindOk_def by (intro reads_rules) simp_all
  show "keeps UdpRelayBindOk_decode"
    unfolding UdpRelayBindOk_decode_def by (intro keeps_intros)
  show "sound UdpRelayBindOk_decode"
    unfolding UdpRelayBindOk_decode_def by (intro sound_rules)
qed (simp_all add: UdpRelayBindOk_encode_def ser_UdpRelayBindOk_def Let_def)

interpretation update: wire_codec Update_encode Update_decode ser_Update wf_Update
proof unfold_locales
  show "wf_Update m \<Longrightarrow> reads Update_decode (ser_Update m) (Some m)" for m
    unfolding Update_decode_def ser_Update_def wf_Update_def by (intro reads_rules) simp_all
  show "keeps Update_decode"
    unfolding Update_decode_def by (intro keeps_intros)
  show "sound Update_decode"
    unfolding Update_decode_def by (intro sound_rules)
qed (simp_all add: Update_encode_def ser_Update_def Let_def)

section \<open>Messages with flags, clamps and loops\<close>

definition ser_Register :: "Register \<Rightarrow> bytes" where
  "ser_Register m = rg_id m @ [TopicMode_value (rg_mode m)] @ [rg_key_epoch m]
     @ ser_cands (rg_host_cands m) @ ser_blob16 (rg_meta m) kMaxMeta"

text \<open>Whether the topic is hidden travels in the header's flags, not in the body.\<close>

definition wf_Register :: "Header \<Rightarrow> Register \<Rightarrow> bool" where
  "wf_Register h m \<longleftrightarrow> length (rg_id m) = kTopicIdLen \<and> length (rg_host_cands m) \<le> kMaxCandidates
     \<and> list_all wf_cand (rg_host_cands m) \<and> length (rg_meta m) \<le> kMaxMeta
     \<and> rg_unlisted m = (h_flags h AND kUnlisted \<noteq> 0)"

interpretation register: wire_codec Register_encode "Register_decode h" ser_Register "wf_Register h"
proof unfold_locales
  show "wf_Register h m \<Longrightarrow> reads (Register_decode h) (ser_Register m) (Some m)" for m
    unfolding Register_decode_def ser_Register_def wf_Register_def by (intro reads_rules) simp_all
  show "keeps (Register_decode h)"
    unfolding Register_decode_def by (intro keeps_intros)
  show "sound (Register_decode h)"
    unfolding Register_decode_def by (intro sound_rules)
qed (simp_all add: Register_encode_def ser_Register_def Let_def)

definition ser_Lookup :: "Lookup \<Rightarrow> bytes" where
  "ser_Lookup m = lk_id m @ [lk_max m]"

definition wf_Lookup :: "Header \<Rightarrow> Lookup \<Rightarrow> bool" where
  "wf_Lookup h m \<longleftrightarrow> length (lk_id m) = kTopicIdLen \<and> lk_max m \<noteq> 0 \<and> lk_max m \<le> kLookupMax
     \<and> lk_want_meta m = (h_flags h AND kWantMeta \<noteq> 0)"

interpretation lookup: wire_codec Lookup_encode "Lookup_decode h" ser_Lookup "wf_Lookup h"
proof unfold_locales
  show "wf_Lookup h m \<Longrightarrow> reads (Lookup_decode h) (ser_Lookup m) (Some m)" for m
    unfolding Lookup_decode_def ser_Lookup_def wf_Lookup_def Let_def by (intro reads_rules) auto
  show "keeps (Lookup_decode h)"
    unfolding Lookup_decode_def Let_def by (intro keeps_intros)
  show "sound (Lookup_decode h)"
    unfolding Lookup_decode_def Let_def by (intro sound_rules)
qed (simp_all add: Lookup_encode_def ser_Lookup_def)

text \<open>Whatever count the request names, the decoded one is between 1 and the ceiling.\<close>

lemma Lookup_decode_clamped:
  assumes "run_state (Lookup_decode h) r = (Some m, r')"
  shows "1 \<le> lk_max m \<and> lk_max m \<le> kLookupMax"
proof -
  obtain i r1 where 1: "run_state (rd_array kTopicIdLen) r = (i, r1)" by fastforce
  obtain mx r2 where 2: "run_state rd_u8 r1 = (mx, r2)" by fastforce
  have "lk_max m = (let mx = (if mx = 0 then kLookupDefault else mx) in if mx > kLookupMax then kLookupMax else mx)"
    using assms 1 2 by (auto simp: Lookup_decode_def rd_ok_def Let_def State_Monad.return_def split: if_splits)
  moreover have "mx \<noteq> 0 \<Longrightarrow> 1 \<le> mx" by (simp add: word_le_nat_alt unat_gt_0 Suc_le_eq)
  ultimately show ?thesis by (auto simp: wire_consts Let_def split: if_splits)
qed

definition ser_Topics :: "Topics \<Rightarrow> bytes" where
  "ser_Topics m = be32 (tp_cursor m) @ [tp_limit m]"

definition wf_Topics :: "Topics \<Rightarrow> bool" where
  "wf_Topics m \<longleftrightarrow> tp_limit m \<noteq> 0"

interpretation topics: wire_codec Topics_encode Topics_decode ser_Topics wf_Topics
proof unfold_locales
  show "wf_Topics m \<Longrightarrow> reads Topics_decode (ser_Topics m) (Some m)" for m
    unfolding Topics_decode_def ser_Topics_def wf_Topics_def by (intro reads_rules) simp_all
  show "keeps Topics_decode"
    unfolding Topics_decode_def by (intro keeps_intros)
  show "sound Topics_decode"
    unfolding Topics_decode_def by (intro sound_rules)
qed (simp_all add: Topics_encode_def ser_Topics_def)

definition ser_LookupOk :: "LookupOk \<Rightarrow> bytes" where
  "ser_LookupOk m = lo_id m @ [TopicMode_value (lo_mode m)] @ be16 (lo_total m)
     @ [of_nat (min 100 (length (lo_entries m)))] @ concat (map ser_PeerEntry (take 100 (lo_entries m)))"

definition wf_LookupOk :: "LookupOk \<Rightarrow> bool" where
  "wf_LookupOk m \<longleftrightarrow> length (lo_id m) = kTopicIdLen \<and> length (lo_entries m) \<le> 100
     \<and> list_all wf_PeerEntry (lo_entries m)"

lemma sound_after_loop:
  assumes "sound m" "keeps m"
  shows "sound (do { ok \<leftarrow> rd_ok; if \<not> ok \<or> c then State_Monad.return None
     else do { es \<leftarrow> decode_loop m n; case es of None \<Rightarrow> State_Monad.return None
            | Some es \<Rightarrow> State_Monad.return (f es) } })"
  using decode_loop_sound [OF assms]
  by (auto simp: sound_def rd_ok_def State_Monad.return_def split: if_splits prod.splits option.splits)

interpretation lookup_ok: wire_codec LookupOk_encode LookupOk_decode ser_LookupOk wf_LookupOk
proof unfold_locales
  show "wf_LookupOk m \<Longrightarrow> reads LookupOk_decode (ser_LookupOk m) (Some m)" for m
  proof -
    assume wf: "wf_LookupOk m"
    then have n: "unat (of_nat (length (lo_entries m)) :: byte) = length (lo_entries m)"
      by (intro unat_of_nat_small) (simp add: wf_LookupOk_def)
    have le: "\<not> kLookupMax < of_nat (length (lo_entries m))"
      using wf n by (simp add: wf_LookupOk_def word_less_nat_alt wire_consts)
    have loop: "reads (decode_loop PeerEntry_decode (length (lo_entries m)))
        (concat (map ser_PeerEntry (lo_entries m))) (Some (lo_entries m))"
      using wf by (intro reads_decode_loop reads_PeerEntry) (simp add: wf_LookupOk_def list_all_iff)
    have ser: "ser_LookupOk m = lo_id m @ [TopicMode_value (lo_mode m)] @ be16 (lo_total m)
        @ [of_nat (length (lo_entries m))] @ concat (map ser_PeerEntry (lo_entries m))"
      using wf by (simp add: ser_LookupOk_def wf_LookupOk_def min_absorb2)
    show ?thesis
      unfolding LookupOk_decode_def ser
      apply (intro reads_bind [OF reads_array] reads_bind_Some [OF reads_mode] reads_bind [OF reads_u16]
          reads_bind [OF reads_u8] reads_bind0 [OF reads_rd_ok])
      using wf le loop n
      by (auto simp: wf_LookupOk_def intro!: reads_bind_Some_last reads_returnI)
  qed
  show "keeps LookupOk_decode"
    unfolding LookupOk_decode_def by (intro keeps_intros)
  show "sound LookupOk_decode"
    unfolding LookupOk_decode_def
    by (intro sound_bind [where m = "rd_array _"] sound_bind [where m = read_mode] sound_option
        sound_bind [where m = rd_u16] sound_bind [where m = rd_u8] sound_after_loop
        sound_return_None sound_PeerEntry keeps_PeerEntry)
qed (simp_all add: LookupOk_encode_def ser_LookupOk_def Let_def min_def wire_consts
      fold_writes [where f = PeerEntry_encode and g = ser_PeerEntry])

definition ser_TopicsOk :: "TopicsOk \<Rightarrow> bytes" where
  "ser_TopicsOk m = be32 (to_next_cursor m) @ be16 (of_nat (min 0xFFFF (length (to_topics m))))
     @ concat (map ser_TopicSummary (take 0xFFFF (to_topics m)))"

definition wf_TopicsOk :: "TopicsOk \<Rightarrow> bool" where
  "wf_TopicsOk m \<longleftrightarrow> length (to_topics m) \<le> kMaxFrame div 25 \<and> list_all wf_TopicSummary (to_topics m)"

interpretation topics_ok: wire_codec TopicsOk_encode TopicsOk_decode ser_TopicsOk wf_TopicsOk
proof unfold_locales
  show "wf_TopicsOk m \<Longrightarrow> reads TopicsOk_decode (ser_TopicsOk m) (Some m)" for m
  proof -
    assume wf: "wf_TopicsOk m"
    then have le: "length (to_topics m) \<le> kMaxFrame div 25" by (simp add: wf_TopicsOk_def)
    then have n: "unat (of_nat (length (to_topics m)) :: u16) = length (to_topics m)"
      by (intro unat_of_nat_small) (simp add: kMaxFrame_def)
    have loop: "reads (decode_loop TopicSummary_decode (length (to_topics m)))
        (concat (map ser_TopicSummary (to_topics m))) (Some (to_topics m))"
      using wf by (intro reads_decode_loop reads_TopicSummary) (simp add: wf_TopicsOk_def list_all_iff)
    have ser: "ser_TopicsOk m = be32 (to_next_cursor m) @ be16 (of_nat (length (to_topics m)))
        @ concat (map ser_TopicSummary (to_topics m))"
      using le by (simp add: ser_TopicsOk_def kMaxFrame_def min_absorb2)
    show ?thesis
      unfolding TopicsOk_decode_def ser
      apply (intro reads_bind [OF reads_u32] reads_bind [OF reads_u16] reads_bind0 [OF reads_rd_ok])
      using le loop n by (auto intro!: reads_bind_Some_last reads_returnI)
  qed
  show "keeps TopicsOk_decode"
    unfolding TopicsOk_decode_def by (intro keeps_intros topic_summary.decode_keeps)
  show "sound TopicsOk_decode"
    using decode_loop_sound [OF topic_summary.decode_sound topic_summary.decode_keeps]
    by (auto simp: TopicsOk_decode_def sound_def rd_ok_def State_Monad.return_def
        split: if_splits prod.splits option.splits)
qed (simp_all add: TopicsOk_encode_def ser_TopicsOk_def Let_def min_def
      fold_writes [where f = TopicSummary_encode and g = ser_TopicSummary])

definition ser_Connect :: "Connect \<Rightarrow> bytes" where
  "ser_Connect m = cn_from_dev m @ cn_to_dev m @ ser_blob16 (cn_payload m) kMaxRelayPayload"

definition wf_Connect :: "Connect \<Rightarrow> bool" where
  "wf_Connect m \<longleftrightarrow> length (cn_from_dev m) = kDevIdLen \<and> length (cn_to_dev m) = kDevIdLen
     \<and> length (cn_payload m) \<le> kMaxRelayPayload"

interpretation connect: wire_codec Connect_encode Connect_decode ser_Connect wf_Connect
proof unfold_locales
  show "wf_Connect m \<Longrightarrow> reads Connect_decode (ser_Connect m) (Some m)" for m
  proof -
    assume wf: "wf_Connect m"
    then have le: "length (cn_payload m) \<le> kMaxRelayPayload" by (simp add: wf_Connect_def)
    then have n: "unat (of_nat (length (cn_payload m)) :: u16) = length (cn_payload m)"
      by (intro unat_of_nat_small) (simp add: wire_consts)
    have ser: "ser_Connect m = cn_from_dev m @ cn_to_dev m @ be16 (of_nat (length (cn_payload m))) @ cn_payload m"
      using le by (simp add: ser_Connect_def ser_blob16_def min_absorb2)
    show ?thesis
      unfolding Connect_decode_def ser
      apply (intro reads_bind [OF reads_array] reads_bind [OF reads_u16] reads_bind0 [OF reads_rd_ok])
      using wf le n
      by (auto simp: wf_Connect_def not_less intro!: reads_bind_return [OF reads_rd_bytes] reads_checkedI)
  qed
  show "keeps Connect_decode"
    unfolding Connect_decode_def by (intro keeps_intros)
  show "sound Connect_decode"
    unfolding Connect_decode_def by (intro sound_bind sound_if sound_return_None sound_checked)
qed (simp_all add: Connect_encode_def ser_Connect_def ser_blob16_def Let_def min_def)

section \<open>Header and body\<close>

definition ctl_header :: "MsgType \<Rightarrow> u32 \<Rightarrow> byte \<Rightarrow> Header" where
  "ctl_header type txn flags = \<lparr>h_type = type, h_version = ctl_kVersion, h_flags = flags, h_txn_id = txn\<rparr>"

lemma wf_ctl_header [simp]: "wf_Header ctl_kVersion (ctl_header t n f) \<longleftrightarrow> classify t \<noteq> MC_Unknown"
  by (simp add: wf_Header_def ctl_header_def)

lemma ctl_header_sel [simp]: "h_type (ctl_header t n f) = t" "h_txn_id (ctl_header t n f) = n"
  "h_flags (ctl_header t n f) = f"
  by (simp_all add: ctl_header_def)

context wire_codec
begin

lemma message_bytes:
  "ctl_message encode t n m fl =
     (if 8 + length (ser m) \<le> kMaxFrame then ser_Header (ctl_header t n fl) @ ser m else [])"
proof -
  let ?w = "encode m (Header_encode (ctl_header t n fl) (Writer (replicate kMaxFrame 0)))"
  have w: "wabs ?w = emit kMaxFrame (ser_Header (ctl_header t n fl) @ ser m) (Some [])" "w_wf ?w"
    by (simp_all add: encode_wabs encode_wf)
  then show ?thesis
    using w_ok_wabs [OF w(2)] wabs_written [of ?w]
    by (auto simp: ctl_message_def ctl_header_def Let_def emit_def w_written_def split: if_splits)
qed

lemma length_message: "length (ctl_message encode t n m fl) \<le> kMaxFrame"
  by (simp add: message_bytes kMaxFrame_def)

lemma parse_message:
  assumes "wf m" "classify t \<noteq> MC_Unknown" "8 + length (ser m) \<le> kMaxFrame"
  shows "\<exists>r r'. run_state (Header_decode ctl_kVersion) (Reader (ctl_message encode t n m fl)) =
      (Some (ctl_header t n fl), r) \<and> run_state decode r = (Some m, r') \<and> r_ok r'"
proof -
  have "r_at (Reader (ctl_message encode t n m fl)) (ser_Header (ctl_header t n fl) @ ser m @ [])"
    using assms(3) by (simp add: message_bytes)
  with readsD [OF reads_Header] assms(2) obtain r where
    1: "run_state (Header_decode ctl_kVersion) (Reader (ctl_message encode t n m fl)) = (Some (ctl_header t n fl), r)"
    "r_at r (ser m @ [])"
    by (metis wf_ctl_header)
  from readsD [OF decode_ser [OF assms(1)] 1(2)] 1(1) show ?thesis
    by (auto simp: r_at_def)
qed

end

lemma empty_message_bytes: "empty_message t n fl = ser_Header (ctl_header t n fl)"
proof -
  let ?w = "Header_encode (ctl_header t n fl) (Writer (replicate Header_kSize 0))"
  have "wabs ?w = Some (ser_Header (ctl_header t n fl))"
    by (simp add: emit_def Header_kSize_def)
  from wabs_written [OF this] have "w_written ?w = ser_Header (ctl_header t n fl)" "w_pos ?w = 8"
    by simp_all
  moreover have "length (w_buf ?w) = 8" by (simp add: Header_kSize_def)
  ultimately show ?thesis
    by (simp add: empty_message_def ctl_header_def w_written_def)
qed

section \<open>The padded request\<close>

lemma pad_loop_bytes:
  assumes "wabs w = Some c" "kWhoAmISize \<le> w_cap w"
  shows "wabs (pad_loop w) = Some (c @ replicate (kWhoAmISize - length c) 0) \<and> w_cap (pad_loop w) = w_cap w"
  using assms
proof (induction w arbitrary: c rule: pad_loop.induct)
  case (1 w)
  from wabs_written [OF 1(2)] have w: "w_ok w" "w_pos w = length c" by auto
  show ?case
  proof (cases "length c < kWhoAmISize")
    case True
    have u: "wabs (w_u8 0 w) = Some (c @ [0])" "w_cap (w_u8 0 w) = w_cap w"
      using 1(2,3) True by (simp_all add: emit_def)
    have "kWhoAmISize - length c = Suc (kWhoAmISize - length (c @ [0]))"
      using True by simp
    with 1(1) [OF _ u(1)] u(2) 1(3) w True show ?thesis
      by (subst pad_loop.simps) (simp add: pad_loop.simps [of w])
  next
    case False
    with w 1(2) show ?thesis by (subst pad_loop.simps) (simp add: pad_loop.simps [of w])
  qed
qed

lemma WhoAmI_message:
  "ctl_message WhoAmI_encode t n m fl =
     ser_Header (ctl_header t n fl) @ be64 (wa_nonce m) @ replicate 32 0"
proof -
  let ?w0 = "Header_encode (ctl_header t n fl) (Writer (replicate kMaxFrame 0))"
  let ?w1 = "w_u64 (wa_nonce m) ?w0"
  have "wabs ?w1 = Some (ser_Header (ctl_header t n fl) @ be64 (wa_nonce m))" "w_cap ?w1 = kMaxFrame"
    by (simp_all add: emit_def kMaxFrame_def)
  from pad_loop_bytes [OF this(1)] this(2)
  have "wabs (WhoAmI_encode m ?w0) = Some (ser_Header (ctl_header t n fl) @ be64 (wa_nonce m) @ replicate 32 0)"
    by (simp add: WhoAmI_encode_def ctl_consts)
  from wabs_written [OF this] show ?thesis
    by (auto simp: ctl_message_def ctl_header_def w_written_def)
qed

end
