(* ===== verification/Primitives.thy ===== *)
theory Primitives
  imports Prelude
begin

text \<open>
  What the primitives of \<^verbatim>\<open>src/crypto\<close> share: the lengths of \<^verbatim>\<open>primitives.hpp\<close>, little-endian loads
  and stores, and the comparison \<^verbatim>\<open>ct_equal\<close> of \<^verbatim>\<open>random.cpp\<close>, shown to decide equality.
\<close>

definition kHashLen :: nat where "kHashLen = 32"
definition kBlockLen :: nat where "kBlockLen = 64"
definition kDhLen :: nat where "kDhLen = 32"
definition kTagLen :: nat where "kTagLen = 16"
definition kKeyLen :: nat where "kKeyLen = 32"

lemmas crypto_consts [simp] = kHashLen_def kBlockLen_def kDhLen_def kTagLen_def kKeyLen_def

definition load32_le :: "bytes \<Rightarrow> nat \<Rightarrow> u32" where
  "load32_le p i = ucast (p ! i) OR push_bit 8 (ucast (p ! (i + 1)))
     OR push_bit 16 (ucast (p ! (i + 2))) OR push_bit 24 (ucast (p ! (i + 3)))"

definition store32_le :: "u32 \<Rightarrow> bytes" where
  "store32_le v = [ucast v, ucast (drop_bit 8 v), ucast (drop_bit 16 v), ucast (drop_bit 24 v)]"

definition store64_le :: "u64 \<Rightarrow> bytes" where
  "store64_le v = map (\<lambda>i. ucast (drop_bit (i * 8) v)) [0..<8]"

lemma length_stores [simp]: "length (store32_le v) = 4" "length (store64_le w) = 8"
  by (simp_all add: store32_le_def store64_le_def)

lemma length_concat_store32 [simp]: "length (concat (map store32_le xs)) = 4 * length xs"
  by (induction xs) simp_all

lemma store64_le_bit: "i < 8 \<Longrightarrow> j < 8 \<Longrightarrow> bit (store64_le v ! i) j = bit v (i * 8 + j)"
  by (simp add: store64_le_def bit_simps)

lemma store64_le_inj: "store64_le v = store64_le w \<longleftrightarrow> v = w"
proof
  assume eq: "store64_le v = store64_le w"
  show "v = w"
  proof (rule bit_word_eqI)
    fix n assume "n < LENGTH(64)"
    then have "n div 8 < 8" "n mod 8 < 8" by auto
    from store64_le_bit [OF this, of v] store64_le_bit [OF this, of w] eq
    show "bit v n = bit w n" by simp
  qed
qed simp

text \<open>\<open>diff\<close> is the accumulator of the loop of \<^verbatim>\<open>ct_equal\<close>.\<close>

fun ct_diff :: "byte \<Rightarrow> bytes \<Rightarrow> bytes \<Rightarrow> byte" where
  "ct_diff diff (a # as) (b # bs) = ct_diff (diff OR (a XOR b)) as bs"
| "ct_diff diff _ _ = diff"

definition ct_equal :: "bytes \<Rightarrow> bytes \<Rightarrow> bool" where
  "ct_equal a b \<longleftrightarrow> length a = length b \<and> ct_diff 0 a b = 0"

lemma word_or_zero_iff: "(x :: byte) OR y = 0 \<longleftrightarrow> x = 0 \<and> y = 0"
  by (auto simp: bit_eq_iff bit_simps)

lemma word_xor_zero_iff: "(x :: byte) XOR y = 0 \<longleftrightarrow> x = y"
  by (auto simp: bit_eq_iff bit_simps)

lemma ct_diff_zero:
  "length a = length b \<Longrightarrow> ct_diff d a b = 0 \<longleftrightarrow> d = 0 \<and> a = b"
  by (induction d a b rule: ct_diff.induct) (auto simp: word_or_zero_iff word_xor_zero_iff)

lemma ct_equal_iff [simp]: "ct_equal a b \<longleftrightarrow> a = b"
  by (auto simp: ct_equal_def ct_diff_zero)

text \<open>The XOR of two strings, byte by byte, up to the shorter one.\<close>

lemma map2_xor_xor:
  "length ks \<ge> length xs \<Longrightarrow> map2 (XOR) (map2 (XOR) xs ks) ks = (xs :: bytes)"
proof (induction xs arbitrary: ks)
  case (Cons x xs)
  then show ?case by (cases ks) (simp_all add: xor.assoc)
qed simp

end
