(* ===== verification/Blake2s.thy ===== *)
theory Blake2s
  imports Primitives
begin

text \<open>
  BLAKE2s-256, \<^verbatim>\<open>src/crypto/blake2s.cpp\<close>. The last block of the input must not be compressed before
  \<^verbatim>\<open>finish\<close>, so \<^verbatim>\<open>update\<close> keeps up to a full block back. The lemmas show that the digest does not
  depend on how the input is cut into updates, that it always has 32 bytes, and that a finished
  object stays finished.
\<close>

definition kIV :: "u32 list" where
  "kIV = [0x6A09E667, 0xBB67AE85, 0x3C6EF372, 0xA54FF53A,
          0x510E527F, 0x9B05688C, 0x1F83D9AB, 0x5BE0CD19]"

definition kSigma :: "nat list list" where
  "kSigma =
    [[0, 1, 2, 3, 4, 5, 6, 7, 8, 9, 10, 11, 12, 13, 14, 15],
     [14, 10, 4, 8, 9, 15, 13, 6, 1, 12, 0, 2, 11, 7, 5, 3],
     [11, 8, 12, 0, 5, 2, 15, 13, 10, 14, 3, 6, 7, 1, 9, 4],
     [7, 9, 3, 1, 13, 12, 11, 14, 2, 6, 5, 10, 4, 0, 15, 8],
     [9, 0, 5, 7, 2, 4, 10, 15, 14, 1, 11, 12, 6, 8, 3, 13],
     [2, 12, 6, 10, 0, 11, 8, 3, 4, 13, 7, 5, 15, 14, 1, 9],
     [12, 5, 1, 15, 14, 13, 4, 10, 0, 7, 6, 3, 9, 2, 8, 11],
     [13, 11, 7, 14, 12, 1, 3, 9, 5, 0, 15, 4, 8, 6, 2, 10],
     [6, 15, 14, 9, 11, 3, 0, 8, 12, 2, 13, 7, 1, 4, 10, 5],
     [10, 2, 8, 4, 7, 6, 1, 5, 15, 11, 9, 14, 3, 12, 13, 0]]"

definition rotr32 :: "u32 \<Rightarrow> nat \<Rightarrow> u32" where
  "rotr32 x n = drop_bit n x OR push_bit (32 - n) x"

record Blake2s =
  b_h :: "u32 list"
  b_buf :: bytes
  b_buf_len :: nat
  b_counter :: u64
  b_out_len :: nat
  b_done :: bool

definition blake2s_G :: "nat \<Rightarrow> nat \<Rightarrow> nat \<Rightarrow> nat \<Rightarrow> u32 \<Rightarrow> u32 \<Rightarrow> u32 list \<Rightarrow> u32 list" where
  "blake2s_G a b c d x y v =
     (let v = v[a := v ! a + v ! b + x]; v = v[d := rotr32 (v ! d XOR v ! a) 16];
          v = v[c := v ! c + v ! d]; v = v[b := rotr32 (v ! b XOR v ! c) 12];
          v = v[a := v ! a + v ! b + y]; v = v[d := rotr32 (v ! d XOR v ! a) 8];
          v = v[c := v ! c + v ! d]
      in v[b := rotr32 (v ! b XOR v ! c) 7])"

definition blake2s_round :: "u32 list \<Rightarrow> nat list \<Rightarrow> u32 list \<Rightarrow> u32 list" where
  "blake2s_round m s v =
     (let v = blake2s_G 0 4 8 12 (m ! (s ! 0)) (m ! (s ! 1)) v;
          v = blake2s_G 1 5 9 13 (m ! (s ! 2)) (m ! (s ! 3)) v;
          v = blake2s_G 2 6 10 14 (m ! (s ! 4)) (m ! (s ! 5)) v;
          v = blake2s_G 3 7 11 15 (m ! (s ! 6)) (m ! (s ! 7)) v;
          v = blake2s_G 0 5 10 15 (m ! (s ! 8)) (m ! (s ! 9)) v;
          v = blake2s_G 1 6 11 12 (m ! (s ! 10)) (m ! (s ! 11)) v;
          v = blake2s_G 2 7 8 13 (m ! (s ! 12)) (m ! (s ! 13)) v
      in blake2s_G 3 4 9 14 (m ! (s ! 14)) (m ! (s ! 15)) v)"

text \<open>\<^verbatim>\<open>compress\<close> reads \<^verbatim>\<open>counter_\<close> and the block, and changes \<^verbatim>\<open>h_\<close> alone.\<close>

definition compress_h :: "u32 list \<Rightarrow> u64 \<Rightarrow> bytes \<Rightarrow> bool \<Rightarrow> u32 list" where
  "compress_h h counter block fin =
     (let m = map (\<lambda>i. load32_le block (i * 4)) [0..<16];
          v = h @ kIV;
          v = v[12 := v ! 12 XOR ucast counter];
          v = v[13 := v ! 13 XOR ucast (drop_bit 32 counter)];
          v = (if fin then v[14 := NOT (v ! 14)] else v);
          v = fold (blake2s_round m) kSigma v
      in map (\<lambda>i. h ! i XOR (v ! i XOR v ! (i + 8))) [0..<8])"

definition Blake2s_compress :: "bytes \<Rightarrow> bool \<Rightarrow> Blake2s \<Rightarrow> Blake2s" where
  "Blake2s_compress block fin st = st\<lparr>b_h := compress_h (b_h st) (b_counter st) block fin\<rparr>"

text \<open>\<^verbatim>\<open>memcpy(buf_.data() + buf_len_, p, n)\<close>\<close>

definition buf_put :: "bytes \<Rightarrow> Blake2s \<Rightarrow> Blake2s" where
  "buf_put p st = st\<lparr>b_buf := take (b_buf_len st) (b_buf st) @ p @ drop (b_buf_len st + length p) (b_buf st)\<rparr>"

function update_loop :: "bytes \<Rightarrow> Blake2s \<Rightarrow> bytes \<times> Blake2s" where
  "update_loop p st =
     (if length p > kBlockLen then
        update_loop (drop kBlockLen p)
          (Blake2s_compress (take kBlockLen p) False (st\<lparr>b_counter := b_counter st + of_nat kBlockLen\<rparr>))
      else (p, st))"
  by pat_completeness auto
termination
  by (relation "measure (\<lambda>(p, st). length p)") auto

declare update_loop.simps [simp del]

definition update_store :: "bytes \<times> Blake2s \<Rightarrow> Blake2s" where
  "update_store ps = (case ps of (p, st) \<Rightarrow> (buf_put p st)\<lparr>b_buf_len := b_buf_len st + length p\<rparr>)"

definition Blake2s_update :: "bytes \<Rightarrow> Blake2s \<Rightarrow> Blake2s" where
  "Blake2s_update p st =
     (if p = [] then st
      else update_store
        (if b_buf_len st + length p > kBlockLen then
           (let fill = kBlockLen - b_buf_len st;
                st = buf_put (take fill p) st;
                st = st\<lparr>b_counter := b_counter st + of_nat kBlockLen\<rparr>;
                st = (Blake2s_compress (b_buf st) False st)\<lparr>b_buf_len := 0\<rparr>
            in update_loop (drop fill p) st)
         else (p, st)))"

text \<open>The constructor; the key, when there is one, is a full first block.\<close>

definition Blake2s_new :: "bytes \<Rightarrow> nat \<Rightarrow> Blake2s" where
  "Blake2s_new key out_len =
     (let h = kIV[0 := kIV ! 0 XOR (0x01010000 XOR push_bit 8 (of_nat (length key)) XOR of_nat out_len)];
          st = \<lparr>b_h = h, b_buf = replicate kBlockLen 0, b_buf_len = 0, b_counter = 0,
                b_out_len = out_len, b_done = False\<rparr>
      in if key \<noteq> [] then Blake2s_update (key @ replicate (kBlockLen - length key) 0) st else st)"

text \<open>\<^verbatim>\<open>finish(out)\<close>: nothing is written the second time.\<close>

definition Blake2s_finish_into :: "bytes \<Rightarrow> Blake2s \<Rightarrow> bytes \<times> Blake2s" where
  "Blake2s_finish_into out st =
     (if b_done st then (out, st)
      else let st = st\<lparr>b_done := True, b_counter := b_counter st + of_nat (b_buf_len st)\<rparr>;
               st = st\<lparr>b_buf := take (b_buf_len st) (b_buf st) @ replicate (kBlockLen - b_buf_len st) 0\<rparr>;
               st = Blake2s_compress (b_buf st) True st;
               full = concat (map store32_le (b_h st));
               n = (if length out < b_out_len st then length out else b_out_len st)
           in (take n full @ drop n out, st\<lparr>b_buf := replicate kBlockLen 0\<rparr>))"

definition Blake2s_finish :: "Blake2s \<Rightarrow> bytes" where
  "Blake2s_finish st = fst (Blake2s_finish_into (replicate kHashLen 0) st)"

definition Blake2s_hash :: "bytes \<Rightarrow> bytes" where
  "Blake2s_hash inp = Blake2s_finish (Blake2s_update inp (Blake2s_new [] kHashLen))"

definition Blake2s_mac :: "bytes \<Rightarrow> bytes \<Rightarrow> bytes" where
  "Blake2s_mac key msg = Blake2s_finish (Blake2s_update msg (Blake2s_new key kHashLen))"

section \<open>Streaming\<close>

text \<open>The reference: what is absorbed, with up to a full block held back.\<close>

function absorb :: "u32 list \<Rightarrow> u64 \<Rightarrow> bytes \<Rightarrow> u32 list \<times> u64 \<times> bytes" where
  "absorb h c xs =
     (if length xs > 64 then absorb (compress_h h (c + 64) (take 64 xs) False) (c + 64) (drop 64 xs)
      else (h, c, xs))"
  by pat_completeness auto
termination
  by (relation "measure (\<lambda>(h, c, xs). length xs)") auto

declare absorb.simps [simp del]

definition b_pending :: "Blake2s \<Rightarrow> bytes" where
  "b_pending st = take (b_buf_len st) (b_buf st)"

definition b_view :: "Blake2s \<Rightarrow> u32 list \<times> u64 \<times> bytes" where
  "b_view st = (b_h st, b_counter st, b_pending st)"

definition b_wf :: "Blake2s \<Rightarrow> bool" where
  "b_wf st \<longleftrightarrow> length (b_h st) = 8 \<and> length (b_buf st) = 64 \<and> b_buf_len st \<le> 64 \<and> \<not> b_done st
     \<and> b_out_len st \<le> 32"

lemma length_compress_h [simp]: "length (compress_h h c b f) = 8"
  by (simp add: compress_h_def Let_def)

lemma absorb_short: "length xs \<le> 64 \<Longrightarrow> absorb h c xs = (h, c, xs)"
  by (simp add: absorb.simps)

lemma absorb_append:
  "absorb h c xs = (h', c', r) \<Longrightarrow> absorb h' c' (r @ ys) = absorb h c (xs @ ys)"
proof (induction h c xs rule: absorb.induct)
  case (1 h c xs)
  show ?case
  proof (cases "length xs > 64")
    case True
    with 1 show ?thesis
      by (simp add: absorb.simps [of h c xs] absorb.simps [of h c "xs @ ys"])
  qed (use 1 in \<open>simp add: absorb_short\<close>)
qed

lemma update_loop_absorb:
  assumes "b_wf st" "b_buf_len st = 0"
  shows "b_wf (update_store (update_loop p st)) \<and> b_view (update_store (update_loop p st)) = absorb (b_h st) (b_counter st) p
    \<and> b_out_len (update_store (update_loop p st)) = b_out_len st"
  using assms
proof (induction p st rule: update_loop.induct)
  case (1 p st)
  show ?case
  proof (cases "length p > 64")
    case True
    with 1 show ?thesis
      by (simp add: update_loop.simps [of p st] absorb.simps [of _ _ p] b_wf_def Blake2s_compress_def)
  next
    case False
    with 1(2,3) show ?thesis
      by (simp add: update_loop.simps [of p st] absorb_short update_store_def b_wf_def b_view_def
          b_pending_def buf_put_def)
  qed
qed

lemma update_absorb:
  assumes wf: "b_wf st"
  shows "b_wf (Blake2s_update p st) \<and> b_view (Blake2s_update p st) = absorb (b_h st) (b_counter st) (b_pending st @ p)
    \<and> b_out_len (Blake2s_update p st) = b_out_len st"
proof -
  let ?l = "b_buf_len st"
  have l: "?l \<le> 64" "length (b_buf st) = 64" "length (b_h st) = 8" using wf by (auto simp: b_wf_def)
  have pend: "length (b_pending st) = ?l" using l by (simp add: b_pending_def)
  consider "p = []" | "p \<noteq> []" "?l + length p \<le> 64" | "p \<noteq> []" "?l + length p > 64" by linarith
  then show ?thesis
  proof cases
    case 1
    then show ?thesis using wf pend l by (simp add: Blake2s_update_def b_view_def absorb_short)
  next
    case 2
    then show ?thesis using wf pend l
      by (simp add: Blake2s_update_def update_store_def absorb_short b_view_def b_pending_def buf_put_def b_wf_def)
  next
    case 3
    let ?f = "64 - ?l"
    let ?blk = "b_pending st @ take ?f p"
    define st1 where "st1 = st\<lparr>b_buf := ?blk, b_counter := b_counter st + 64,
      b_h := compress_h (b_h st) (b_counter st + 64) ?blk False, b_buf_len := 0\<rparr>"
    have blk: "length ?blk = 64" using 3 pend l by simp
    have put: "b_buf (buf_put (take ?f p) st) = ?blk"
      using 3 l by (simp add: buf_put_def b_pending_def)
    have upd: "Blake2s_update p st = update_store (update_loop (drop ?f p) st1)"
      using 3 put by (simp add: Blake2s_update_def Let_def Blake2s_compress_def st1_def) (simp add: buf_put_def)
    have wf1: "b_wf st1" "b_buf_len st1 = 0" using wf blk by (simp_all add: b_wf_def st1_def)
    have "b_pending st @ p = ?blk @ drop ?f p" by simp
    then have "absorb (b_h st) (b_counter st) (b_pending st @ p) = absorb (b_h st1) (b_counter st1) (drop ?f p)"
      using blk 3 l pend by (subst absorb.simps) (simp add: st1_def)
    then show ?thesis using update_loop_absorb [OF wf1, of "drop ?f p"] by (simp add: upd st1_def)
  qed
qed

lemma update_update:
  assumes "b_wf st"
  shows "b_wf (Blake2s_update b (Blake2s_update a st)) \<and> b_view (Blake2s_update b (Blake2s_update a st)) = b_view (Blake2s_update (a @ b) st)"
proof -
  have A: "b_wf (Blake2s_update a st)" "b_view (Blake2s_update a st) = absorb (b_h st) (b_counter st) (b_pending st @ a)"
    using update_absorb [OF assms] by auto
  then have "absorb (b_h st) (b_counter st) (b_pending st @ a)
    = (b_h (Blake2s_update a st), b_counter (Blake2s_update a st), b_pending (Blake2s_update a st))" by (simp add: b_view_def)
  from absorb_append [OF this, of b] show ?thesis
    using update_absorb [OF A(1), of b] update_absorb [OF assms, of "a @ b"] by simp
qed

lemma finish_view:
  assumes "b_wf a" "b_wf b" "b_view a = b_view b" "b_out_len a = b_out_len b"
  shows "Blake2s_finish a = Blake2s_finish b"
proof -
  have l: "b_buf_len s = length (b_pending s)" if "b_wf s" for s
    using that by (simp add: b_wf_def b_pending_def)
  have e: "b_buf_len a = b_buf_len b" "take (b_buf_len a) (b_buf a) = take (b_buf_len b) (b_buf b)"
    "b_h a = b_h b" "b_counter a = b_counter b"
    using assms(3) l [OF assms(1)] l [OF assms(2)] unfolding b_view_def prod.inject
    by (metis, metis b_pending_def, metis, metis)
  have nd: "\<not> b_done a" "\<not> b_done b" using assms(1,2) by (simp_all add: b_wf_def)
  show ?thesis
    unfolding Blake2s_finish_def Blake2s_finish_into_def using nd assms(4) e by (simp add: Blake2s_compress_def Let_def)
qed

lemma finish_update_append:
  "b_wf st \<Longrightarrow> Blake2s_finish (Blake2s_update b (Blake2s_update a st)) = Blake2s_finish (Blake2s_update (a @ b) st)"
  using update_update [of st b a] update_absorb [of st a] update_absorb [of st "a @ b"]
    update_absorb [of "Blake2s_update a st" b]
  by (intro finish_view) auto

lemma b_wf_new: "length key \<le> 64 \<Longrightarrow> n \<le> 32 \<Longrightarrow> b_wf (Blake2s_new key n)"
  using update_absorb by (auto simp: Blake2s_new_def Let_def b_wf_def kIV_def)

lemma update_wf: "b_wf st \<Longrightarrow> b_wf (Blake2s_update p st)"
  using update_absorb by blast

lemma length_Blake2s_finish [simp]: "length (Blake2s_finish st) = 32"
proof -
  have "n \<le> 32 \<Longrightarrow> length (take n (concat (map store32_le (compress_h h c b f)) :: bytes)) = n" for n h c b f
    by simp
  then show ?thesis by (simp add: Blake2s_finish_def Blake2s_finish_into_def Let_def Blake2s_compress_def)
qed

lemma length_Blake2s_hash [simp]: "length (Blake2s_hash x) = 32" and length_Blake2s_mac [simp]: "length (Blake2s_mac k x) = 32"
  by (simp_all add: Blake2s_hash_def Blake2s_mac_def)

lemma finish_twice: "Blake2s_finish_into out (snd (Blake2s_finish_into out' st)) = (out, snd (Blake2s_finish_into out' st))"
  by (simp add: Blake2s_finish_into_def Let_def Blake2s_compress_def)

end
