(* ===== verification/Maps.thy ===== *)
theory Maps
  imports Prelude "HOL-Library.Mapping" "HOL-Library.AList_Mapping" "HOL-Library.List_Lexorder" "HOL-Library.Product_Lexorder"
begin

text \<open>
  The containers of the server: hash maps and ordered maps as \<open>mapping\<close>s, the counting maps behind its
  quotas, and the law that an incremented and decremented map counts a finite set by a key.
\<close>

abbreviation get :: "'k \<Rightarrow> ('k, 'v) mapping \<Rightarrow> 'v option" where
  "get k m \<equiv> Mapping.lookup m k"

abbreviation put :: "'k \<Rightarrow> 'v \<Rightarrow> ('k, 'v) mapping \<Rightarrow> ('k, 'v) mapping" where
  "put k v m \<equiv> Mapping.update k v m"

abbreviation del :: "'k \<Rightarrow> ('k, 'v) mapping \<Rightarrow> ('k, 'v) mapping" where
  "del k m \<equiv> Mapping.delete k m"

text \<open>\<^verbatim>\<open>m[k]++\<close> and \<^verbatim>\<open>decrement(m, k)\<close>\<close>

definition increment :: "'k \<Rightarrow> ('k, nat) mapping \<Rightarrow> ('k, nat) mapping" where
  "increment k m = put k ((case get k m of None \<Rightarrow> 0 | Some n \<Rightarrow> n) + 1) m"

definition decrement :: "'k \<Rightarrow> ('k, nat) mapping \<Rightarrow> ('k, nat) mapping" where
  "decrement k m = (case get k m of None \<Rightarrow> m | Some n \<Rightarrow> if n \<le> 1 then del k m else put k (n - 1) m)"

lemma get_put [simp]: "get k' (put k v m) = (if k = k' then Some v else get k' m)"
  by (simp add: Mapping.lookup_update')

lemma get_del [simp]: "get k' (del k m) = (if k = k' then None else get k' m)"
  by (cases "k = k'") simp_all

lemma in_keys: "k \<in> Mapping.keys m \<longleftrightarrow> (\<exists>v. get k m = Some v)"
  by (auto simp: Mapping.keys_dom_lookup)

lemma get_None_keys: "get k m = None \<longleftrightarrow> k \<notin> Mapping.keys m"
  by (auto simp: Mapping.keys_dom_lookup)

lemma keys_put [simp]: "Mapping.keys (put k v m) = insert k (Mapping.keys m)"
  by (auto simp: in_keys)

lemma keys_del [simp]: "Mapping.keys (del k m) = Mapping.keys m - {k}"
  by (auto simp: in_keys)

lemma size_card: "finite (Mapping.keys m) \<Longrightarrow> Mapping.size m = card (Mapping.keys m)"
  by (simp add: Mapping.size_def)

lemma ordered_keys_set: "finite (Mapping.keys m) \<Longrightarrow> set (Mapping.ordered_keys m) = Mapping.keys m"
  by (simp add: Mapping.ordered_keys_def)

lemma ordered_keys_sorted: "sorted (Mapping.ordered_keys m) \<and> distinct (Mapping.ordered_keys m)"
  by (simp add: Mapping.ordered_keys_def)

section \<open>Counting maps\<close>

definition counts :: "('k, nat) mapping \<Rightarrow> 'a set \<Rightarrow> ('a \<Rightarrow> 'k) \<Rightarrow> bool" where
  "counts m S f \<longleftrightarrow> finite S \<and>
     (\<forall>k. get k m = (let n = card {x \<in> S. f x = k} in if n = 0 then None else Some n))"

lemma counts_empty [simp]: "counts Mapping.empty {} f"
  by (simp add: counts_def)

lemma counts_get:
  "counts m S f \<Longrightarrow> (case get k m of None \<Rightarrow> 0 | Some n \<Rightarrow> n) = card {x \<in> S. f x = k}"
  by (simp add: counts_def Let_def)

lemma counts_cong:
  "S = T \<Longrightarrow> (\<And>x. x \<in> T \<Longrightarrow> f x = g x) \<Longrightarrow> counts m S f \<longleftrightarrow> counts m T g"
proof -
  assume "S = T" "\<And>x. x \<in> T \<Longrightarrow> f x = g x"
  then have "{x \<in> S. f x = k} = {x \<in> T. g x = k}" for k by auto
  with \<open>S = T\<close> show ?thesis by (simp add: counts_def)
qed

lemma counts_insert:
  assumes "counts m S f" "x \<notin> S"
  shows "counts (increment (f x) m) (insert x S) f"
proof -
  have fin: "finite S" using assms(1) by (simp add: counts_def)
  have "{y \<in> insert x S. f y = k} = (if f x = k then insert x {y \<in> S. f y = k} else {y \<in> S. f y = k})" for k
    by auto
  moreover have "card (insert x {y \<in> S. f y = k}) = Suc (card {y \<in> S. f y = k})" for k
    using assms(2) fin by simp
  ultimately show ?thesis
    using assms(1) fin counts_get [OF assms(1)]
    by (auto simp: counts_def increment_def Let_def)
qed

lemma counts_remove:
  assumes "counts m S f" "x \<in> S"
  shows "counts (decrement (f x) m) (S - {x}) f"
proof -
  have fin: "finite S" and m: "\<And>k. get k m = (if card {y \<in> S. f y = k} = 0 then None else Some (card {y \<in> S. f y = k}))"
    using assms(1) by (auto simp: counts_def Let_def)
  have "{y \<in> S - {x}. f y = k} = (if f x = k then {y \<in> S. f y = k} - {x} else {y \<in> S. f y = k})" for k
    by auto
  then have c: "card {y \<in> S - {x}. f y = k}
      = (if f x = k then card {y \<in> S. f y = k} - 1 else card {y \<in> S. f y = k})" for k
    using assms(2) by simp
  have "card {y \<in> S. f y = f x} > 0" using assms(2) fin by (auto simp: card_gt_0_iff)
  then have "get k (decrement (f x) m)
      = (if card {y \<in> S - {x}. f y = k} = 0 then None else Some (card {y \<in> S - {x}. f y = k}))" for k
    unfolding c by (auto simp: decrement_def m simp del: card_0_eq card_gt_0_iff)
  then show ?thesis using fin by (simp add: counts_def Let_def)
qed

end
