(* ===== verification/Registry.thy ===== *)
theory Registry
  imports Control Blake2s Maps
begin

text \<open>
  The state of the rendezvous server, \<^verbatim>\<open>server/registry.*\<close>: records, topics and relay bindings, each
  owned by a connection. Hash maps and ordered maps are \<open>mapping\<close>s; where the code walks a hash map,
  whose order the standard leaves open, the model walks its keys in order. Time is in milliseconds.
  What the random source returns is an argument. \<open>rg_fault\<close> records a call of \<^verbatim>\<open>unordered_map::at\<close>
  on a missing key, where the code would throw.
\<close>

type_synonym ConnKey = u64
type_synonym RelayId = u64
type_synonym IpKey = "Family \<times> bytes"

record RegistryConfig =
  rc_stale_after :: duration
  rc_max_per_ip_per_topic :: nat
  rc_max_per_ip_total :: nat
  rc_max_entries :: nat
  rc_max_topics :: nat
  rc_relay_enabled :: bool
  rc_relay_expiry :: duration
  rc_max_relays :: nat
  rc_max_relays_per_ip :: nat
  rc_relay_max_bytes :: u64

definition RegistryConfig_default :: RegistryConfig where
  "RegistryConfig_default = \<lparr>rc_stale_after = 45000, rc_max_per_ip_per_topic = 16, rc_max_per_ip_total = 256,
     rc_max_entries = 1000000, rc_max_topics = 100000, rc_relay_enabled = True, rc_relay_expiry = 90000,
     rc_max_relays = 4096, rc_max_relays_per_ip = 8, rc_relay_max_bytes = 32 * 1024 * 1024\<rparr>"

record RegistryStats =
  st_topics_total :: u64
  st_topics_listed :: u64
  st_entries_total :: u64
  st_entries_fresh :: u64
  st_registers :: u64
  st_lookups :: u64
  st_connects :: u64
  st_expired :: u64
  st_rej_quota :: u64
  st_relays_open :: u64
  st_relays_allocated :: u64
  st_relay_bytes :: u64

definition RegistryStats_zero :: RegistryStats where
  "RegistryStats_zero = \<lparr>st_topics_total = 0, st_topics_listed = 0, st_entries_total = 0, st_entries_fresh = 0,
     st_registers = 0, st_lookups = 0, st_connects = 0, st_expired = 0, st_rej_quota = 0, st_relays_open = 0,
     st_relays_allocated = 0, st_relay_bytes = 0\<rparr>"

record Entry =
  en_dev_id :: DevId
  en_topic_id :: TopicId
  en_bound_addr :: Endpoint
  en_host_cands :: "Candidate list"
  en_meta :: bytes
  en_owner :: ConnKey
  en_last_seen :: instant
  en_key_epoch :: byte
  en_mode :: TopicMode

definition Entry_default :: Entry where
  "Entry_default = \<lparr>en_dev_id = replicate kDevIdLen 0, en_topic_id = replicate kTopicIdLen 0,
     en_bound_addr = ep_default, en_host_cands = [], en_meta = [], en_owner = 0, en_last_seen = 0,
     en_key_epoch = 0, en_mode = Open\<rparr>"

record TopicState =
  tst_mode :: TopicMode
  tst_listed :: bool
  tst_members :: "DevId list"
  tst_pos :: "(DevId, nat) mapping"
  tst_per_ip :: "(IpKey, nat) mapping"
  tst_order :: u32
  tst_fresh :: u32

definition TopicState_default :: TopicState where
  "TopicState_default = \<lparr>tst_mode = Open, tst_listed = True, tst_members = [], tst_pos = Mapping.empty,
     tst_per_ip = Mapping.empty, tst_order = 0, tst_fresh = 0\<rparr>"

text \<open>The arrays of two of a binding are pairs, side 0 first.\<close>

record Relay =
  ry_id :: RelayId
  ry_kind :: RelayKind
  ry_topic :: TopicId
  ry_dev :: "DevId \<times> DevId"
  ry_owner :: "ConnKey \<times> ConnKey"
  ry_token :: "bytes \<times> bytes"
  ry_udp :: "Endpoint option \<times> Endpoint option"
  ry_counted_ip :: IpKey
  ry_last_seen :: instant
  ry_bytes :: u64
  ry_exhausted :: bool

definition side :: "bool \<Rightarrow> 'a \<times> 'a \<Rightarrow> 'a" where
  "side one p = (if one then snd p else fst p)"

definition set_side :: "bool \<Rightarrow> 'a \<Rightarrow> 'a \<times> 'a \<Rightarrow> 'a \<times> 'a" where
  "set_side one v p = (if one then (fst p, v) else (v, snd p))"

record Registry =
  rg_cfg :: RegistryConfig
  rg_secret :: bytes
  rg_stats :: RegistryStats
  rg_by_dev :: "(DevId, Entry) mapping"
  rg_topics :: "(TopicId, TopicState) mapping"
  rg_per_ip_total :: "(IpKey, nat) mapping"
  rg_by_owner :: "(ConnKey, DevId list) mapping"
  rg_listing :: "(u32, TopicId) mapping"
  rg_next_order :: u32
  rg_fresh_order :: "(instant \<times> DevId, TopicId) mapping"
  rg_relays :: "(RelayId, Relay) mapping"
  rg_relays_per_ip :: "(IpKey, nat) mapping"
  rg_fault :: bool

definition Registry_new :: "RegistryConfig \<Rightarrow> bytes \<Rightarrow> Registry" where
  "Registry_new cfg secret = \<lparr>rg_cfg = cfg, rg_secret = secret, rg_stats = RegistryStats_zero,
     rg_by_dev = Mapping.empty, rg_topics = Mapping.empty, rg_per_ip_total = Mapping.empty,
     rg_by_owner = Mapping.empty, rg_listing = Mapping.empty, rg_next_order = 1,
     rg_fresh_order = Mapping.empty, rg_relays = Mapping.empty, rg_relays_per_ip = Mapping.empty,
     rg_fault = False\<rparr>"

definition ip_key :: "Endpoint \<Rightarrow> IpKey" where
  "ip_key ep = (ip_family (ep_ip ep), ip_bytes (ep_ip ep))"

definition kDevIdInfo :: string where "kDevIdInfo = ''uconnect:v2:devid''"

definition append_endpoint :: "Endpoint \<Rightarrow> bytes" where
  "append_endpoint ep = [Family_value (ip_family (ep_ip ep))] @ take (addr_len (ep_ip ep)) (ip_bytes (ep_ip ep))
     @ [ucast (drop_bit 8 (ep_port ep)), ucast (ep_port ep)]"

definition derive_dev_id :: "TopicId \<Rightarrow> Endpoint \<Rightarrow> Registry \<Rightarrow> DevId" where
  "derive_dev_id topic ep r =
     take kDevIdLen (Blake2s_mac (rg_secret r) (bytes_of_string kDevIdInfo @ topic @ append_endpoint ep))"

section \<open>Freshness\<close>

definition is_fresh :: "Registry \<Rightarrow> Entry \<Rightarrow> instant \<Rightarrow> bool" where
  "is_fresh r e now \<longleftrightarrow> now - en_last_seen e < rc_stale_after (rg_cfg r)"

text \<open>\<^verbatim>\<open>topics_.at(t).fresh += d\<close>\<close>

definition add_fresh :: "u32 \<Rightarrow> TopicId \<Rightarrow> Registry \<Rightarrow> Registry" where
  "add_fresh d t r = (case get t (rg_topics r) of
       None \<Rightarrow> r\<lparr>rg_fault := True\<rparr>
     | Some ts \<Rightarrow> r\<lparr>rg_topics := put t (ts\<lparr>tst_fresh := tst_fresh ts + d\<rparr>) (rg_topics r)\<rparr>)"

definition add_entries_fresh :: "u64 \<Rightarrow> Registry \<Rightarrow> Registry" where
  "add_entries_fresh d r = r\<lparr>rg_stats := (rg_stats r)\<lparr>st_entries_fresh := st_entries_fresh (rg_stats r) + d\<rparr>\<rparr>"

definition forget_fresh :: "Entry \<Rightarrow> Registry \<Rightarrow> Registry" where
  "forget_fresh e r =
     (if get (en_last_seen e, en_dev_id e) (rg_fresh_order r) \<noteq> None then
        (let r = r\<lparr>rg_fresh_order := del (en_last_seen e, en_dev_id e) (rg_fresh_order r)\<rparr>;
             r = add_fresh (- 1) (en_topic_id e) r
         in add_entries_fresh (- 1) r)
      else r)"

text \<open>
  \<^verbatim>\<open>mark_fresh\<close> of the record stored under its id: the entry with its new time goes back into the map.
\<close>

definition mark_fresh :: "Entry \<Rightarrow> instant \<Rightarrow> Registry \<Rightarrow> Registry" where
  "mark_fresh e now r =
     (let r = forget_fresh e r;
          e = e\<lparr>en_last_seen := now\<rparr>;
          r = r\<lparr>rg_by_dev := put (en_dev_id e) e (rg_by_dev r)\<rparr>;
          r = (if get (now, en_dev_id e) (rg_fresh_order r) = None
               then r\<lparr>rg_fresh_order := put (now, en_dev_id e) (en_topic_id e) (rg_fresh_order r)\<rparr> else r);
          r = add_fresh 1 (en_topic_id e) r
      in add_entries_fresh 1 r)"

text \<open>The loop of \<^verbatim>\<open>expire_fresh\<close> erases from the front of the ordered map.\<close>

fun expire_loop :: "(instant \<times> DevId) list \<Rightarrow> instant \<Rightarrow> Registry \<Rightarrow> Registry" where
  "expire_loop [] now r = r"
| "expire_loop (k # ks) now r =
     (if now - fst k < rc_stale_after (rg_cfg r) then r
      else case get k (rg_fresh_order r) of
          None \<Rightarrow> expire_loop ks now r
        | Some t \<Rightarrow>
            let r = add_fresh (- 1) t r;
                r = add_entries_fresh (- 1) r
            in expire_loop ks now (r\<lparr>rg_fresh_order := del k (rg_fresh_order r)\<rparr>))"

definition expire_fresh :: "instant \<Rightarrow> Registry \<Rightarrow> Registry" where
  "expire_fresh now r = expire_loop (Mapping.ordered_keys (rg_fresh_order r)) now r"

section \<open>Records\<close>

record RegisterResult =
  rr_code :: ErrorCode
  rr_dev_id :: DevId
  rr_srflx :: Endpoint
  rr_peers_in_topic :: u16

definition bump_rej_quota :: "Registry \<Rightarrow> Registry" where
  "bump_rej_quota r = r\<lparr>rg_stats := (rg_stats r)\<lparr>st_rej_quota := st_rej_quota (rg_stats r) + 1\<rparr>\<rparr>"

definition over :: "'k \<Rightarrow> ('k, nat) mapping \<Rightarrow> nat \<Rightarrow> bool" where
  "over k m limit = (case get k m of None \<Rightarrow> False | Some n \<Rightarrow> n \<ge> limit)"

definition owner_list :: "ConnKey \<Rightarrow> Registry \<Rightarrow> DevId list" where
  "owner_list owner r = (case get owner (rg_by_owner r) of None \<Rightarrow> [] | Some l \<Rightarrow> l)"

text \<open>A record of another connection under this id is taken over.\<close>

definition take_over :: "DevId \<Rightarrow> ConnKey \<Rightarrow> Registry \<Rightarrow> Registry" where
  "take_over dev owner r = (case get dev (rg_by_dev r) of
       None \<Rightarrow> r
     | Some e \<Rightarrow>
         if en_owner e = owner then r
         else (let r = r\<lparr>rg_by_owner := put (en_owner e) (removeAll dev (owner_list (en_owner e) r)) (rg_by_owner r)\<rparr>;
                   r = r\<lparr>rg_by_dev := put dev (e\<lparr>en_owner := owner\<rparr>) (rg_by_dev r)\<rparr>
               in r\<lparr>rg_by_owner := put owner (owner_list owner r @ [dev]) (rg_by_owner r)\<rparr>))"

definition quota_exceeded :: "TopicId \<Rightarrow> IpKey \<Rightarrow> Registry \<Rightarrow> bool" where
  "quota_exceeded topic ik r \<longleftrightarrow>
     Mapping.size (rg_by_dev r) \<ge> rc_max_entries (rg_cfg r)
     \<or> over ik (rg_per_ip_total r) (rc_max_per_ip_total (rg_cfg r))
     \<or> (case get topic (rg_topics r) of
          Some ts \<Rightarrow> over ik (tst_per_ip ts) (rc_max_per_ip_per_topic (rg_cfg r))
        | None \<Rightarrow> Mapping.size (rg_topics r) \<ge> rc_max_topics (rg_cfg r))"

definition topic_at :: "TopicId \<Rightarrow> Registry \<Rightarrow> TopicState" where
  "topic_at t r = (case get t (rg_topics r) of None \<Rightarrow> TopicState_default | Some ts \<Rightarrow> ts)"

definition join_topic :: "DevId \<Rightarrow> Register \<Rightarrow> IpKey \<Rightarrow> ConnKey \<Rightarrow> Registry \<Rightarrow> Registry" where
  "join_topic dev msg ik owner r =
     (let ts = topic_at (rg_id msg) r;
          (ts, r) = (if tst_members ts = []
            then (ts\<lparr>tst_mode := rg_mode msg, tst_order := rg_next_order r\<rparr>,
                  r\<lparr>rg_next_order := rg_next_order r + 1,
                    rg_listing := put (rg_next_order r) (rg_id msg) (rg_listing r)\<rparr>)
            else (ts, r));
          ts = ts\<lparr>tst_pos := put dev (length (tst_members ts)) (tst_pos ts),
                  tst_members := tst_members ts @ [dev], tst_per_ip := increment ik (tst_per_ip ts)\<rparr>
      in r\<lparr>rg_topics := put (rg_id msg) ts (rg_topics r),
           rg_per_ip_total := increment ik (rg_per_ip_total r),
           rg_by_owner := put owner (owner_list owner r @ [dev]) (rg_by_owner r)\<rparr>)"

text \<open>The second half: the record is written, and the topic hidden when the message asks for it.\<close>

definition write_entry :: "DevId \<Rightarrow> Register \<Rightarrow> Endpoint \<Rightarrow> ConnKey \<Rightarrow> instant \<Rightarrow> Registry \<Rightarrow> Registry" where
  "write_entry dev msg src owner now r =
     (let e = (case get dev (rg_by_dev r) of None \<Rightarrow> Entry_default | Some e \<Rightarrow> e);
          e = e\<lparr>en_dev_id := dev, en_topic_id := rg_id msg, en_bound_addr := src,
                en_host_cands := rg_host_cands msg, en_meta := rg_meta msg, en_owner := owner,
                en_key_epoch := rg_key_epoch msg, en_mode := rg_mode msg\<rparr>;
          r = mark_fresh e now r;
          ts = topic_at (rg_id msg) r
      in if rg_unlisted msg
         then r\<lparr>rg_topics := put (rg_id msg) (ts\<lparr>tst_listed := False\<rparr>) (rg_topics r),
                rg_listing := del (tst_order ts) (rg_listing r)\<rparr>
         else r\<lparr>rg_topics := put (rg_id msg) ts (rg_topics r)\<rparr>)"

definition register_entry ::
  "Register \<Rightarrow> Endpoint \<Rightarrow> ConnKey \<Rightarrow> instant \<Rightarrow> Registry \<Rightarrow> RegisterResult \<times> Registry" where
  "register_entry msg src owner now r =
     (let dev = derive_dev_id (rg_id msg) src r;
          out = \<lparr>rr_code = EC_None, rr_dev_id = dev, rr_srflx = src, rr_peers_in_topic = 0\<rparr>;
          existing = get dev (rg_by_dev r);
          r = take_over dev owner r
      in if existing = None \<and> quota_exceeded (rg_id msg) (ip_key src) r
         then (out\<lparr>rr_code := QuotaExceeded\<rparr>, bump_rej_quota r)
         else
           (let r = (if existing = None then join_topic dev msg (ip_key src) owner r else r);
                r = write_entry dev msg src owner now r
            in (out\<lparr>rr_peers_in_topic := of_nat (min (length (tst_members (topic_at (rg_id msg) r))) 0xFFFF)\<rparr>,
                r\<lparr>rg_stats := (rg_stats r)\<lparr>st_registers := st_registers (rg_stats r) + 1\<rparr>\<rparr>)))"

definition refresh :: "DevId \<Rightarrow> ConnKey \<Rightarrow> instant \<Rightarrow> Registry \<Rightarrow> ErrorCode \<times> Registry" where
  "refresh dev owner now r = (case get dev (rg_by_dev r) of
       None \<Rightarrow> (NotFound, r)
     | Some e \<Rightarrow> if en_owner e \<noteq> owner then (BadAuth, r) else (EC_None, mark_fresh e now r))"

definition update_entry :: "Update \<Rightarrow> ConnKey \<Rightarrow> instant \<Rightarrow> Registry \<Rightarrow> ErrorCode \<times> Registry" where
  "update_entry msg owner now r = (case get (up_dev_id msg) (rg_by_dev r) of
       None \<Rightarrow> (NotFound, r)
     | Some e \<Rightarrow>
         if en_owner e \<noteq> owner then (BadAuth, r)
         else (EC_None, mark_fresh (e\<lparr>en_host_cands := up_host_cands msg, en_meta := up_meta msg\<rparr>) now r))"

text \<open>Swap the last member into the place of the one that leaves, and pop.\<close>

definition leave_topic :: "DevId \<Rightarrow> IpKey \<Rightarrow> TopicState \<Rightarrow> TopicState" where
  "leave_topic dev ik t =
     (let t = (case get dev (tst_pos t) of
            None \<Rightarrow> t
          | Some idx \<Rightarrow>
              (let last_i = length (tst_members t) - 1;
                   t = (if idx \<noteq> last_i then
                          (let moved = tst_members t ! last_i
                           in t\<lparr>tst_members := (tst_members t)[idx := moved], tst_pos := put moved idx (tst_pos t)\<rparr>)
                        else t)
               in t\<lparr>tst_members := butlast (tst_members t), tst_pos := del dev (tst_pos t)\<rparr>))
      in t\<lparr>tst_per_ip := decrement ik (tst_per_ip t)\<rparr>)"

definition erase_entry :: "DevId \<Rightarrow> Registry \<Rightarrow> Registry" where
  "erase_entry dev r = (case get dev (rg_by_dev r) of
       None \<Rightarrow> r
     | Some e \<Rightarrow>
         (let r = forget_fresh e r;
              ik = ip_key (en_bound_addr e);
              r = (case get (en_topic_id e) (rg_topics r) of
                   None \<Rightarrow> r
                 | Some t \<Rightarrow>
                     (let t = leave_topic dev ik t in
                      if tst_members t = []
                      then r\<lparr>rg_listing := del (tst_order t) (rg_listing r), rg_topics := del (en_topic_id e) (rg_topics r)\<rparr>
                      else r\<lparr>rg_topics := put (en_topic_id e) t (rg_topics r)\<rparr>))
          in r\<lparr>rg_per_ip_total := decrement ik (rg_per_ip_total r), rg_by_dev := del dev (rg_by_dev r)\<rparr>))"

definition unregister :: "DevId \<Rightarrow> ConnKey \<Rightarrow> Registry \<Rightarrow> ErrorCode \<times> Registry" where
  "unregister dev owner r = (case get dev (rg_by_dev r) of
       None \<Rightarrow> (NotFound, r)
     | Some e \<Rightarrow>
         if en_owner e \<noteq> owner then (BadAuth, r)
         else (let l = removeAll dev (owner_list owner r);
                   r = r\<lparr>rg_by_owner := (if l = [] then del owner (rg_by_owner r) else put owner l (rg_by_owner r))\<rparr>
               in (EC_None, erase_entry dev r)))"

definition release_relay :: "RelayId \<Rightarrow> Registry \<Rightarrow> Registry" where
  "release_relay rid r = (case get rid (rg_relays r) of
       None \<Rightarrow> r
     | Some rl \<Rightarrow> r\<lparr>rg_relays_per_ip := decrement (ry_counted_ip rl) (rg_relays_per_ip r),
                    rg_relays := del rid (rg_relays r)\<rparr>)"

definition relays_where :: "(Relay \<Rightarrow> bool) \<Rightarrow> Registry \<Rightarrow> RelayId list" where
  "relays_where P r = filter (\<lambda>rid. case get rid (rg_relays r) of None \<Rightarrow> False | Some rl \<Rightarrow> P rl)
     (Mapping.ordered_keys (rg_relays r))"

definition drop_owner :: "ConnKey \<Rightarrow> Registry \<Rightarrow> nat \<times> Registry" where
  "drop_owner owner r =
     (let devs = owner_list owner r;
          r = fold erase_entry devs r;
          r = r\<lparr>rg_by_owner := del owner (rg_by_owner r)\<rparr>;
          r = fold release_relay
                (relays_where (\<lambda>rl. fst (ry_owner rl) = owner \<or> snd (ry_owner rl) = owner) r) r
      in (length devs,
          r\<lparr>rg_stats := (rg_stats r)\<lparr>st_expired := st_expired (rg_stats r) + of_nat (length devs)\<rparr>\<rparr>))"

section \<open>Queries\<close>

text \<open>
  What one call draws from its random source: a shuffle of the indices, the indices of the sampling
  loop, the relay ids, and the two tokens of a binding.
\<close>

record Draws =
  dw_shuffle :: "nat list"
  dw_indices :: "nat list"
  dw_ids :: "RelayId list"
  dw_tokens :: "bytes \<times> bytes"

text \<open>Whole seconds of a negative age clamp to 0 whichever way the division rounds.\<close>

definition to_entry :: "Registry \<Rightarrow> Entry \<Rightarrow> bool \<Rightarrow> instant \<Rightarrow> PeerEntry" where
  "to_entry r e want_meta now =
     \<lparr>pe_dev_id = en_dev_id e,
      pe_age_secs = of_int (max 0 (min 0xFFFF ((now - en_last_seen e) div 1000))),
      pe_stale = (\<not> is_fresh r e now),
      pe_cands = take kMaxCandidates (\<lparr>cand_kind = Srflx, cand_ep = en_bound_addr e\<rparr> # en_host_cands e),
      pe_meta = (if want_meta then en_meta e else [])\<rparr>"

record LookupResult =
  lr_entries :: "PeerEntry list"
  lr_total :: u16
  lr_mode :: TopicMode

text \<open>Draw until \<open>want\<close> different indices were seen; \<open>None\<close> when the draws given do not reach that.\<close>

fun draw_distinct :: "nat \<Rightarrow> nat list \<Rightarrow> nat list \<Rightarrow> nat list option" where
  "draw_distinct want picked ds =
     (if length picked \<ge> want then Some picked
      else case ds of
          [] \<Rightarrow> None
        | i # ds' \<Rightarrow> draw_distinct want (if i \<in> set picked then picked else picked @ [i]) ds')"

declare draw_distinct.simps [simp del]

definition pick_indices :: "nat \<Rightarrow> nat \<Rightarrow> Draws \<Rightarrow> nat list option" where
  "pick_indices n want dw =
     (if want = n then Some [0..<n]
      else if n < want * 4 then Some (take want (dw_shuffle dw))
      else draw_distinct want [] (dw_indices dw))"

definition found_entries :: "Registry \<Rightarrow> DevId list \<Rightarrow> nat list \<Rightarrow> Entry list" where
  "found_entries r members picked = List.map_filter (\<lambda>i. get (members ! i) (rg_by_dev r)) picked"

definition bump_lookups :: "Registry \<Rightarrow> Registry" where
  "bump_lookups r = r\<lparr>rg_stats := (rg_stats r)\<lparr>st_lookups := st_lookups (rg_stats r) + 1\<rparr>\<rparr>"

definition clamp_max :: "byte \<Rightarrow> byte" where
  "clamp_max m = (let m = (if m = 0 then kLookupDefault else m) in if m > kLookupMax then kLookupMax else m)"

definition lookup ::
  "TopicId \<Rightarrow> byte \<Rightarrow> bool \<Rightarrow> instant \<Rightarrow> Draws \<Rightarrow> Registry \<Rightarrow> (LookupResult \<times> Registry) option" where
  "lookup topic m want_meta now dw r =
     (let r = bump_lookups r in
      case get topic (rg_topics r) of
        None \<Rightarrow> Some (\<lparr>lr_entries = [], lr_total = 0, lr_mode = Open\<rparr>, r)
      | Some t \<Rightarrow>
          (let n = length (tst_members t);
               want = min (unat (clamp_max m)) n
           in case pick_indices n want dw of
                None \<Rightarrow> None
              | Some picked \<Rightarrow>
                  (let es = found_entries r (tst_members t) picked;
                       fresh = filter (\<lambda>e. is_fresh r e now) es;
                       stale = filter (\<lambda>e. \<not> is_fresh r e now) es
                   in Some (\<lparr>lr_entries = map (\<lambda>e. to_entry r e want_meta now) fresh
                                        @ map (\<lambda>e. to_entry r e want_meta now) stale,
                             lr_total = of_nat (min n 0xFFFF), lr_mode = tst_mode t\<rparr>, r))))"

definition resolve :: "DevId \<Rightarrow> instant \<Rightarrow> Registry \<Rightarrow> (TopicId \<times> PeerEntry) option" where
  "resolve dev now r = (case get dev (rg_by_dev r) of
       None \<Rightarrow> None
     | Some e \<Rightarrow> Some (en_topic_id e, to_entry r e True now))"

record TopicsResult =
  tr_topics :: "TopicSummary list"
  tr_next_cursor :: u32

definition summary :: "TopicId \<Rightarrow> TopicState \<Rightarrow> TopicSummary" where
  "summary i t = \<lparr>ts_id = i, ts_mode = tst_mode t, ts_peers = of_nat (length (tst_members t)),
                  ts_fresh_peers = tst_fresh t\<rparr>"

text \<open>The loop over the listing from the cursor; the result is what was collected and where it stopped.\<close>

fun list_loop :: "Registry \<Rightarrow> nat \<Rightarrow> TopicSummary list \<Rightarrow> u32 list \<Rightarrow> TopicSummary list \<times> u32" where
  "list_loop r limit out [] = (out, 0)"
| "list_loop r limit out (k # ks) =
     (if length out \<ge> limit then (out, k)
      else case get k (rg_listing r) of
          None \<Rightarrow> list_loop r limit out ks
        | Some i \<Rightarrow> (case get i (rg_topics r) of
              None \<Rightarrow> list_loop r limit out ks
            | Some t \<Rightarrow> if \<not> tst_listed t then list_loop r limit out ks
                        else list_loop r limit (out @ [summary i t]) ks))"

definition list_topics :: "u32 \<Rightarrow> byte \<Rightarrow> instant \<Rightarrow> Registry \<Rightarrow> TopicsResult \<times> Registry" where
  "list_topics cursor limit now r =
     (let r = expire_fresh now r;
          limit = (if limit = 0 then 100 else limit);
          (out, next) = list_loop r (unat limit) []
                          (filter (\<lambda>k. k \<ge> cursor) (Mapping.ordered_keys (rg_listing r)))
      in (\<lparr>tr_topics = out, tr_next_cursor = next\<rparr>, r))"

definition connect_target :: "DevId \<Rightarrow> DevId \<Rightarrow> ConnKey \<Rightarrow> Registry \<Rightarrow> ConnKey option \<times> Registry" where
  "connect_target fdev tdev owner r =
     (case (get fdev (rg_by_dev r), get tdev (rg_by_dev r)) of
        (Some f, Some t) \<Rightarrow>
          if en_owner f \<noteq> owner then (None, r)
          else if en_topic_id f \<noteq> en_topic_id t then (None, r)
          else (Some (en_owner t),
                r\<lparr>rg_stats := (rg_stats r)\<lparr>st_connects := st_connects (rg_stats r) + 1\<rparr>\<rparr>)
      | _ \<Rightarrow> (None, r))"

section \<open>Relays\<close>

record RelayGrant =
  gr_code :: ErrorCode
  gr_id :: RelayId
  gr_token :: bytes
  gr_peer_token :: bytes
  gr_peer_owner :: ConnKey
  gr_topic :: TopicId
  gr_max_kib :: u32

definition grant_none :: "Registry \<Rightarrow> ErrorCode \<Rightarrow> RelayGrant" where
  "grant_none r code = \<lparr>gr_code = code, gr_id = 0, gr_token = replicate kRelayTokenLen 0,
     gr_peer_token = replicate kRelayTokenLen 0, gr_peer_owner = 0, gr_topic = replicate kTopicIdLen 0,
     gr_max_kib = ucast (rc_relay_max_bytes (rg_cfg r) div 1024)\<rparr>"

definition grant_of :: "Registry \<Rightarrow> bool \<Rightarrow> Relay \<Rightarrow> RelayGrant" where
  "grant_of r one rl = (grant_none r EC_None)\<lparr>gr_id := ry_id rl, gr_token := side one (ry_token rl),
     gr_peer_token := side (\<not> one) (ry_token rl), gr_peer_owner := side (\<not> one) (ry_owner rl),
     gr_topic := ry_topic rl\<rparr>"

text \<open>The side of a binding a pair of devices asks for: the second test wins, as in the code.\<close>

definition pair_side :: "DevId \<Rightarrow> DevId \<Rightarrow> Relay \<Rightarrow> bool option" where
  "pair_side fdev peer rl =
     (if snd (ry_dev rl) = fdev \<and> fst (ry_dev rl) = peer then Some True
      else if fst (ry_dev rl) = fdev \<and> snd (ry_dev rl) = peer then Some False
      else None)"

definition existing_relay :: "DevId \<Rightarrow> DevId \<Rightarrow> RelayKind \<Rightarrow> Registry \<Rightarrow> RelayId option" where
  "existing_relay fdev peer kind r =
     List.find (\<lambda>_. True) (relays_where (\<lambda>rl. ry_kind rl = kind \<and> pair_side fdev peer rl \<noteq> None) r)"

text \<open>\<open>None\<close>: the ids given were all zero or taken.\<close>

definition relay_new ::
  "Entry \<Rightarrow> Entry \<Rightarrow> RelayKind \<Rightarrow> ConnKey \<Rightarrow> IpKey \<Rightarrow> instant \<Rightarrow> Draws \<Rightarrow> Registry \<Rightarrow> Relay option" where
  "relay_new f p kind owner ik now dw r =
     (case List.find (\<lambda>i. i \<noteq> 0 \<and> get i (rg_relays r) = None) (dw_ids dw) of
        None \<Rightarrow> None
      | Some i \<Rightarrow> Some \<lparr>ry_id = i, ry_kind = kind, ry_topic = en_topic_id f,
          ry_dev = (en_dev_id f, en_dev_id p), ry_owner = (owner, en_owner p), ry_token = dw_tokens dw,
          ry_udp = (None, None), ry_counted_ip = ik, ry_last_seen = now, ry_bytes = 0, ry_exhausted = False\<rparr>)"

definition relay_alloc ::
  "DevId \<Rightarrow> DevId \<Rightarrow> RelayKind \<Rightarrow> ConnKey \<Rightarrow> Endpoint \<Rightarrow> instant \<Rightarrow> Draws \<Rightarrow> Registry
   \<Rightarrow> (RelayGrant \<times> Registry) option" where
  "relay_alloc fdev peer kind owner src now dw r =
     (if \<not> rc_relay_enabled (rg_cfg r) then Some (grant_none r Unsupported, r)
      else case (get fdev (rg_by_dev r), get peer (rg_by_dev r)) of
        (Some f, Some p) \<Rightarrow>
          if en_owner f \<noteq> owner then Some (grant_none r BadAuth, r)
          else if en_topic_id f \<noteq> en_topic_id p then Some (grant_none r BadRequest, r)
          else (case existing_relay fdev peer kind r of
              Some i \<Rightarrow> (case get i (rg_relays r) of
                  None \<Rightarrow> None
                | Some rl \<Rightarrow>
                    if ry_exhausted rl then Some (grant_none r QuotaExceeded, bump_rej_quota r)
                    else Some (grant_of r (pair_side fdev peer rl = Some True) rl,
                               r\<lparr>rg_relays := put i (rl\<lparr>ry_last_seen := now\<rparr>) (rg_relays r)\<rparr>))
            | None \<Rightarrow>
                if Mapping.size (rg_relays r) \<ge> rc_max_relays (rg_cfg r)
                   \<or> over (ip_key src) (rg_relays_per_ip r) (rc_max_relays_per_ip (rg_cfg r))
                then Some (grant_none r QuotaExceeded, bump_rej_quota r)
                else (case relay_new (f\<lparr>en_dev_id := fdev\<rparr>) (p\<lparr>en_dev_id := peer\<rparr>) kind owner (ip_key src) now dw r of
                    None \<Rightarrow> None
                  | Some rl \<Rightarrow>
                      Some (grant_of r False rl,
                            r\<lparr>rg_relays := put (ry_id rl) rl (rg_relays r),
                              rg_relays_per_ip := increment (ip_key src) (rg_relays_per_ip r),
                              rg_stats := (rg_stats r)\<lparr>st_relays_allocated := st_relays_allocated (rg_stats r) + 1\<rparr>\<rparr>)))
      | _ \<Rightarrow> Some (grant_none r NotFound, r))"

definition relay_side :: "RelayId \<Rightarrow> bytes \<Rightarrow> RelayKind option \<Rightarrow> Registry \<Rightarrow> bool option" where
  "relay_side rid token kind r = (case get rid (rg_relays r) of
       None \<Rightarrow> None
     | Some rl \<Rightarrow>
         if (case kind of None \<Rightarrow> False | Some k \<Rightarrow> ry_kind rl \<noteq> k) then None
         else if ct_equal (fst (ry_token rl)) token then Some False
         else if ct_equal (snd (ry_token rl)) token then Some True
         else None)"

definition relay_charge :: "RelayId \<Rightarrow> u64 \<Rightarrow> instant \<Rightarrow> Registry \<Rightarrow> bool \<times> Registry" where
  "relay_charge rid bytes now r = (case get rid (rg_relays r) of
       None \<Rightarrow> (False, r)
     | Some rl \<Rightarrow>
         if ry_exhausted rl \<or> ry_bytes rl + bytes > rc_relay_max_bytes (rg_cfg r)
         then (False, bump_rej_quota (r\<lparr>rg_relays := put rid (rl\<lparr>ry_exhausted := True\<rparr>) (rg_relays r)\<rparr>))
         else (True, r\<lparr>rg_relays := put rid (rl\<lparr>ry_bytes := ry_bytes rl + bytes, ry_last_seen := now\<rparr>) (rg_relays r),
                       rg_stats := (rg_stats r)\<lparr>st_relay_bytes := st_relay_bytes (rg_stats r) + bytes\<rparr>\<rparr>))"

definition udp_bind :: "RelayId \<Rightarrow> bytes \<Rightarrow> Endpoint \<Rightarrow> instant \<Rightarrow> Registry \<Rightarrow> bool \<times> Registry" where
  "udp_bind rid token src now r = (case get rid (rg_relays r) of
       None \<Rightarrow> (False, r)
     | Some rl \<Rightarrow>
         if ry_kind rl \<noteq> RK_Udp then (False, r)
         else (case relay_side rid token None r of
             None \<Rightarrow> (False, r)
           | Some one \<Rightarrow>
               (True, r\<lparr>rg_relays := put rid (rl\<lparr>ry_udp := set_side one (Some src) (ry_udp rl), ry_last_seen := now\<rparr>)
                                        (rg_relays r)\<rparr>)))"

definition bound_to :: "Endpoint \<Rightarrow> Endpoint option \<Rightarrow> bool" where
  "bound_to src b = (case b of None \<Rightarrow> False | Some e \<Rightarrow> ep_eq e src)"

definition udp_from :: "Endpoint \<Rightarrow> Relay \<Rightarrow> bool option" where
  "udp_from src rl = (if bound_to src (fst (ry_udp rl)) then Some False
                      else if bound_to src (snd (ry_udp rl)) then Some True else None)"

definition udp_forward :: "RelayId \<Rightarrow> Endpoint \<Rightarrow> u64 \<Rightarrow> instant \<Rightarrow> Registry \<Rightarrow> Endpoint option \<times> Registry" where
  "udp_forward rid src bytes now r = (case get rid (rg_relays r) of
       None \<Rightarrow> (None, r)
     | Some rl \<Rightarrow>
         if ry_kind rl \<noteq> RK_Udp then (None, r)
         else (case udp_from src rl of
             None \<Rightarrow> (None, r)
           | Some one \<Rightarrow> (case side (\<not> one) (ry_udp rl) of
               None \<Rightarrow> (None, r)
             | Some dst \<Rightarrow>
                 (let (ok, r) = relay_charge rid bytes now r
                  in (if ok then Some dst else None, r)))))"

definition relay_close :: "RelayId \<Rightarrow> Registry \<Rightarrow> Registry" where
  "relay_close rid r = release_relay rid r"

section \<open>Maintenance\<close>

definition sweep :: "instant \<Rightarrow> Registry \<Rightarrow> Registry" where
  "sweep now r =
     (let r = expire_fresh now r
      in fold release_relay (relays_where (\<lambda>rl. now - ry_last_seen rl \<ge> rc_relay_expiry (rg_cfg r)) r) r)"

definition stats :: "instant \<Rightarrow> Registry \<Rightarrow> RegistryStats \<times> Registry" where
  "stats now r =
     (let r = expire_fresh now r
      in ((rg_stats r)\<lparr>st_topics_total := of_nat (Mapping.size (rg_topics r)),
                       st_entries_total := of_nat (Mapping.size (rg_by_dev r)),
                       st_topics_listed := of_nat (Mapping.size (rg_listing r)),
                       st_relays_open := of_nat (Mapping.size (rg_relays r))\<rparr>, r))"

end
