(* ===== verification/Registry_Inv.thy ===== *)
theory Registry_Inv
  imports Registry
begin

text \<open>
  The invariant of the registry. What its maps say about a record is projected to \<open>ent\<close> (topic,
  address, owner) and to the \<open>shape\<close> of a topic (everything but its fresh counter); membership, quota,
  ownership and the listing are invariants of these projections, which the bookkeeping of freshness
  leaves alone. The freshness invariant ties the ordered map and the counters to the records.
\<close>

declare split_paired_All [simp del] split_paired_Ex [simp del]

type_synonym ent_map = "DevId \<rightharpoonup> TopicId \<times> IpKey \<times> ConnKey"
type_synonym topic_map = "TopicId \<rightharpoonup> TopicState"

definition ent :: "Registry \<Rightarrow> ent_map" where
  "ent r = (\<lambda>d. map_option (\<lambda>e. (en_topic_id e, ip_key (en_bound_addr e), en_owner e)) (get d (rg_by_dev r)))"

definition unfresh :: "TopicState \<Rightarrow> TopicState" where
  "unfresh ts = ts\<lparr>tst_fresh := 0\<rparr>"

definition shape :: "Registry \<Rightarrow> topic_map" where
  "shape r = (\<lambda>t. map_option unfresh (get t (rg_topics r)))"

lemma unfresh_simps [simp]:
  "tst_members (unfresh ts) = tst_members ts" "tst_pos (unfresh ts) = tst_pos ts"
  "tst_per_ip (unfresh ts) = tst_per_ip ts" "tst_listed (unfresh ts) = tst_listed ts"
  "tst_order (unfresh ts) = tst_order ts" "tst_mode (unfresh ts) = tst_mode ts"
  "unfresh (ts\<lparr>tst_fresh := f\<rparr>) = unfresh ts" "unfresh (unfresh ts) = unfresh ts"
  by (simp_all add: unfresh_def)

lemma dom_ent: "dom (ent r) = Mapping.keys (rg_by_dev r)"
  by (auto simp: ent_def in_keys)

lemma dom_shape: "dom (shape r) = Mapping.keys (rg_topics r)"
  by (auto simp: shape_def in_keys)

section \<open>The invariant of the projections\<close>

definition members_ok :: "TopicState \<Rightarrow> bool" where
  "members_ok ts \<longleftrightarrow> distinct (tst_members ts) \<and>
     (\<forall>d i. get d (tst_pos ts) = Some i \<longleftrightarrow> i < length (tst_members ts) \<and> tst_members ts ! i = d)"

definition in_topic :: "ent_map \<Rightarrow> TopicId \<Rightarrow> DevId set" where
  "in_topic E t = {d. \<exists>i ow. E d = Some (t, i, ow)}"

definition owned_by :: "ent_map \<Rightarrow> ConnKey \<Rightarrow> DevId set" where
  "owned_by E ow = {d. \<exists>t i. E d = Some (t, i, ow)}"

definition ip_of :: "ent_map \<Rightarrow> DevId \<Rightarrow> IpKey" where
  "ip_of E d = fst (snd (the (E d)))"

definition member_inv :: "ent_map \<Rightarrow> topic_map \<Rightarrow> bool" where
  "member_inv E T \<longleftrightarrow> finite (dom E) \<and> finite (dom T)
     \<and> (\<forall>t ts. T t = Some ts \<longrightarrow> members_ok ts \<and> tst_members ts \<noteq> [] \<and> set (tst_members ts) = in_topic E t)
     \<and> (\<forall>t. T t = None \<longrightarrow> in_topic E t = {})"

definition quota_inv :: "RegistryConfig \<Rightarrow> (IpKey, nat) mapping \<Rightarrow> ent_map \<Rightarrow> topic_map \<Rightarrow> bool" where
  "quota_inv cfg tot E T \<longleftrightarrow> counts tot (dom E) (ip_of E)
     \<and> (\<forall>t ts. T t = Some ts \<longrightarrow> counts (tst_per_ip ts) (in_topic E t) (ip_of E))
     \<and> card (dom E) \<le> rc_max_entries cfg \<and> card (dom T) \<le> rc_max_topics cfg
     \<and> (\<forall>k. card {d \<in> dom E. ip_of E d = k} \<le> max 1 (rc_max_per_ip_total cfg))
     \<and> (\<forall>t k. card {d \<in> in_topic E t. ip_of E d = k} \<le> max 1 (rc_max_per_ip_per_topic cfg))"

definition owner_inv :: "(ConnKey \<Rightarrow> DevId list) \<Rightarrow> ent_map \<Rightarrow> bool" where
  "owner_inv ol E \<longleftrightarrow> (\<forall>ow. distinct (ol ow) \<and> set (ol ow) = owned_by E ow)"

definition listing_inv :: "(u32, TopicId) mapping \<Rightarrow> u32 \<Rightarrow> topic_map \<Rightarrow> bool" where
  "listing_inv L next T \<longleftrightarrow>
     (\<forall>k t. get k L = Some t \<longleftrightarrow> (\<exists>ts. T t = Some ts \<and> tst_listed ts \<and> tst_order ts = k))
     \<and> (\<forall>t ts. T t = Some ts \<longrightarrow> tst_order ts < next \<and> 0 < tst_order ts)
     \<and> (\<forall>t t' a b. T t = Some a \<longrightarrow> T t' = Some b \<longrightarrow> tst_order a = tst_order b \<longrightarrow> t = t')"

lemma member_inv_topic:
  "member_inv E T \<Longrightarrow> E d = Some (t, i, ow) \<Longrightarrow> \<exists>ts. T t = Some ts"
  by (cases "T t") (auto simp: member_inv_def in_topic_def)

lemma member_inv_same:
  assumes "member_inv E T" "T t = Some ts" "tst_members ts' = tst_members ts" "tst_pos ts' = tst_pos ts"
  shows "member_inv E (T(t \<mapsto> ts'))"
proof -
  have "members_ok ts \<and> tst_members ts \<noteq> [] \<and> set (tst_members ts) = in_topic E t"
    using assms(1,2) by (simp add: member_inv_def)
  then have "members_ok ts' \<and> tst_members ts' \<noteq> [] \<and> set (tst_members ts') = in_topic E t"
    using assms(3,4) by (simp add: members_ok_def)
  then show ?thesis using assms(1) by (simp add: member_inv_def)
qed

lemma quota_inv_same:
  assumes "quota_inv cfg tot E T" "T t = Some ts" "tst_per_ip ts' = tst_per_ip ts"
  shows "quota_inv cfg tot E (T(t \<mapsto> ts'))"
proof -
  have "counts (tst_per_ip ts) (in_topic E t) (ip_of E)" "dom (T(t \<mapsto> ts')) = dom T"
    using assms(1,2) by (auto simp: quota_inv_def)
  then show ?thesis using assms(1,3) by (simp add: quota_inv_def)
qed

lemma in_topic_upd:
  "in_topic (E(d \<mapsto> (t, i, ow))) t' = (if t = t' then insert d (in_topic E t') else in_topic E t' - {d})"
  by (auto simp: in_topic_def)

lemma owned_by_upd:
  "owned_by (E(d \<mapsto> (t, i, ow))) ow' = (if ow = ow' then insert d (owned_by E ow') else owned_by E ow' - {d})"
  by (auto simp: owned_by_def)

lemma in_topic_del: "in_topic (E(d := None)) t = in_topic E t - {d}"
  by (auto simp: in_topic_def)

lemma owned_by_del: "owned_by (E(d := None)) ow = owned_by E ow - {d}"
  by (auto simp: owned_by_def)

lemma in_topic_dom: "in_topic E t \<subseteq> dom E"
  by (auto simp: in_topic_def)

lemma ip_of_upd: "ip_of (E(d \<mapsto> (t, i, ow))) d' = (if d = d' then i else ip_of E d')"
  by (simp add: ip_of_def)

lemma ip_of_del: "d \<noteq> d' \<Longrightarrow> ip_of (E(d := None)) d' = ip_of E d'"
  by (simp add: ip_of_def)

section \<open>A record joins its topic\<close>

definition joined :: "DevId \<Rightarrow> IpKey \<Rightarrow> TopicState \<Rightarrow> TopicState" where
  "joined dev ik ts = ts\<lparr>tst_pos := put dev (length (tst_members ts)) (tst_pos ts),
     tst_members := tst_members ts @ [dev], tst_per_ip := increment ik (tst_per_ip ts)\<rparr>"

lemma members_ok_joined:
  assumes "members_ok ts" "dev \<notin> set (tst_members ts)"
  shows "members_ok (joined dev ik ts)"
proof -
  have "get dev (tst_pos ts) = None"
    using assms by (metis members_ok_def nth_mem option.exhaust)
  then show ?thesis
    using assms by (auto simp: members_ok_def joined_def nth_append less_Suc_eq)
qed

lemma member_inv_join:
  assumes "member_inv E T" "dev \<notin> dom E"
    and ts: "T t = Some ts \<or> (T t = None \<and> tst_members ts = [] \<and> members_ok ts)"
    and ts': "tst_members ts' = tst_members (joined dev ik ts)" "tst_pos ts' = tst_pos (joined dev ik ts)"
  shows "member_inv (E(dev \<mapsto> (t, i, ow))) (T(t \<mapsto> ts'))"
proof -
  have inT: "in_topic E t = {}" if "T t = None"
    using assms(1) that by (simp add: member_inv_def)
  have mem: "members_ok ts" "set (tst_members ts) = in_topic E t"
    using ts assms(1) inT by (auto simp: member_inv_def)
  have "dev \<notin> in_topic E t'" for t' using assms(2) by (auto simp: in_topic_def)
  moreover have "members_ok ts'"
    using members_ok_joined [OF mem(1), of dev ik] mem(2) calculation ts' by (simp add: members_ok_def)
  moreover have "set (tst_members ts') = insert dev (in_topic E t)" "tst_members ts' \<noteq> []"
    using ts' mem(2) by (auto simp: joined_def)
  ultimately show ?thesis
    using assms(1) by (auto simp: member_inv_def in_topic_upd)
qed

lemma counts_insert_upd:
  assumes "counts m S (ip_of E)" "dev \<notin> S"
  shows "counts (increment i m) (insert dev S) (ip_of (E(dev \<mapsto> (t, i, ow))))"
proof -
  have "counts m S (ip_of (E(dev \<mapsto> (t, i, ow))))"
    using assms by (subst counts_cong [of S S _ "ip_of E"]) (auto simp: ip_of_upd)
  from counts_insert [OF this assms(2)] show ?thesis by (simp add: ip_of_upd)
qed

lemma card_ip_insert:
  assumes "finite S" "dev \<notin> S"
  shows "card {d \<in> insert dev S. ip_of (E(dev \<mapsto> (t, i, ow))) d = k}
       = card {d \<in> S. ip_of E d = k} + (if i = k then 1 else 0)"
proof -
  have "{d \<in> insert dev S. ip_of (E(dev \<mapsto> (t, i, ow))) d = k}
      = (if i = k then insert dev {d \<in> S. ip_of E d = k} else {d \<in> S. ip_of E d = k})"
    using assms(2) by (auto simp: ip_of_upd)
  then show ?thesis using assms by simp
qed

lemma not_over_counts:
  "counts m S f \<Longrightarrow> \<not> over k m limit \<Longrightarrow> card {x \<in> S. f x = k} + 1 \<le> max 1 limit"
  using counts_get [of m S f k] by (auto simp: over_def split: option.splits)

lemma quota_inv_join:
  assumes q: "quota_inv cfg tot E T" and mi: "member_inv E T" and new: "dev \<notin> dom E"
    and room: "card (dom E) < rc_max_entries cfg" "\<not> over i tot (rc_max_per_ip_total cfg)"
    and ts: "T t = Some ts \<and> \<not> over i (tst_per_ip ts) (rc_max_per_ip_per_topic cfg)
             \<or> (T t = None \<and> tst_per_ip ts = Mapping.empty \<and> card (dom T) < rc_max_topics cfg)"
    and ts': "tst_per_ip ts' = increment i (tst_per_ip ts)"
  shows "quota_inv cfg (increment i tot) (E(dev \<mapsto> (t, i, ow))) (T(t \<mapsto> ts'))"
proof -
  let ?E = "E(dev \<mapsto> (t, i, ow))"
  have inT: "in_topic E t = {}" if "T t = None"
    using mi that by (simp add: member_inv_def)
  have fin: "finite (dom E)" "finite (dom T)" "finite (in_topic E t')" for t'
    using mi finite_subset [OF in_topic_dom] by (auto simp: member_inv_def)
  have nin: "dev \<notin> in_topic E t'" for t' using new by (auto simp: in_topic_def)
  have cts: "counts (tst_per_ip ts) (in_topic E t) (ip_of E)"
    using ts q inT by (auto simp: quota_inv_def)
  have tots: "counts tot (dom E) (ip_of E)" using q by (simp add: quota_inv_def)
  have 1: "counts (increment i tot) (dom ?E) (ip_of ?E)"
    using counts_insert_upd [OF tots new] by simp
  have 2: "counts (tst_per_ip ts') (in_topic ?E t) (ip_of ?E)"
    using counts_insert_upd [OF cts nin] ts' by (simp add: in_topic_upd)
  have 3: "counts (tst_per_ip x) (in_topic ?E t') (ip_of ?E)" if "T t' = Some x" "t' \<noteq> t" for t' x
  proof -
    have "counts (tst_per_ip x) (in_topic E t') (ip_of E)" using q that by (simp add: quota_inv_def)
    then show ?thesis
      using nin that by (subst counts_cong [of _ "in_topic E t'" _ "ip_of E"]) (auto simp: in_topic_upd ip_of_upd)
  qed
  have 4: "card (dom ?E) \<le> rc_max_entries cfg" "card (dom (T(t \<mapsto> ts'))) \<le> rc_max_topics cfg"
    using q room(1) new fin(1,2) ts by (auto simp: quota_inv_def card_insert_if)
  have 5: "card {d \<in> dom ?E. ip_of ?E d = k} \<le> max 1 (rc_max_per_ip_total cfg)" for k
    using card_ip_insert [OF fin(1) new, of E t i ow k] not_over_counts [OF tots room(2)] q
    by (cases "i = k") (auto simp: quota_inv_def)
  have 6: "card {d \<in> in_topic ?E t'. ip_of ?E d = k} \<le> max 1 (rc_max_per_ip_per_topic cfg)" for t' k
  proof (cases "t' = t")
    case True
    have "card {d \<in> in_topic E t. ip_of E d = k} + (if i = k then 1 else 0) \<le> max 1 (rc_max_per_ip_per_topic cfg)"
      using ts not_over_counts [OF cts, of i] inT q by (cases "i = k") (auto simp: quota_inv_def)
    then show ?thesis
      using card_ip_insert [OF fin(3) nin, of t E t i ow k] True by (simp add: in_topic_upd)
  next
    case False
    have "{d \<in> in_topic ?E t'. ip_of ?E d = k} = {d \<in> in_topic E t'. ip_of E d = k}"
      using False nin by (auto simp: in_topic_upd ip_of_upd)
    then show ?thesis using q by (simp add: quota_inv_def)
  qed
  show ?thesis unfolding quota_inv_def using 1 2 3 4 5 6 by auto
qed

lemma owner_inv_join:
  assumes "owner_inv ol E" "dev \<notin> dom E"
  shows "owner_inv (ol(ow := ol ow @ [dev])) (E(dev \<mapsto> (t, i, ow)))"
proof -
  have "dev \<notin> owned_by E o'" for o' using assms(2) by (auto simp: owned_by_def)
  then show ?thesis using assms(1) by (auto simp: owner_inv_def owned_by_upd)
qed

lemma listing_inv_join_old:
  assumes "listing_inv L next T" "T t = Some ts"
    and "tst_order ts' = tst_order ts" "tst_listed ts' = tst_listed ts"
  shows "listing_inv L next (T(t \<mapsto> ts'))"
  using assms by (auto simp: listing_inv_def)

lemma listing_inv_join_new:
  assumes inv: "listing_inv L next T" and new: "T t = None" and room: "unat next + 1 < 2 ^ 32"
    and pos: "0 < next" and ts': "tst_order ts' = next" "tst_listed ts'"
  shows "listing_inv (put next t L) (next + 1) (T(t \<mapsto> ts'))"
proof -
  have nx: "next < next + 1"
    using room by (simp add: word_less_nat_alt unat_add_lem [THEN iffD1])
  have old: "tst_order x < next \<and> 0 < tst_order x" if "T t' = Some x" for t' x
    using inv that by (simp add: listing_inv_def)
  have fresh: "tst_order x \<noteq> next" "tst_order x < next + 1" if "T t' = Some x" for t' x
    using old [OF that] nx by auto
  have 1: "\<forall>k t'. get k (put next t L) = Some t' \<longleftrightarrow>
      (\<exists>ts. (T(t \<mapsto> ts')) t' = Some ts \<and> tst_listed ts \<and> tst_order ts = k)"
    using inv fresh(1) new ts' by (auto simp: listing_inv_def)
  have 2: "\<forall>t' ts. (T(t \<mapsto> ts')) t' = Some ts \<longrightarrow> tst_order ts < next + 1 \<and> 0 < tst_order ts"
    using old fresh(2) nx pos ts' by auto
  have 3: "t1 = t2" if "(T(t \<mapsto> ts')) t1 = Some a" "(T(t \<mapsto> ts')) t2 = Some b" "tst_order a = tst_order b"
    for t1 t2 a b
    using that inv fresh(1) ts'(1) by (auto simp: listing_inv_def split: if_splits)
  show ?thesis unfolding listing_inv_def using 1 2 3 by blast
qed

lemma listing_inv_hide:
  assumes "listing_inv L next T" "T t = Some ts" "tst_order ts' = tst_order ts" "\<not> tst_listed ts'"
  shows "listing_inv (del (tst_order ts) L) next (T(t \<mapsto> ts'))"
  using assms by (auto simp: listing_inv_def)

section \<open>A record changes hands\<close>

text \<open>The owner of a record changes, or nothing of its projection does.\<close>

lemma member_inv_rewrite:
  "member_inv E T \<Longrightarrow> E d = Some (t, i, ow0) \<Longrightarrow> member_inv (E(d \<mapsto> (t, i, ow))) T"
proof -
  assume a: "member_inv E T" "E d = Some (t, i, ow0)"
  have "in_topic (E(d \<mapsto> (t, i, ow))) t' = in_topic E t'" for t'
    using a(2) by (auto simp: in_topic_def)
  then show ?thesis using a by (simp add: member_inv_def)
qed

lemma quota_inv_rewrite:
  "quota_inv cfg tot E T \<Longrightarrow> E d = Some (t, i, ow0) \<Longrightarrow> quota_inv cfg tot (E(d \<mapsto> (t, i, ow))) T"
proof -
  assume a: "quota_inv cfg tot E T" "E d = Some (t, i, ow0)"
  have 1: "in_topic (E(d \<mapsto> (t, i, ow))) t' = in_topic E t'" for t' using a(2) by (auto simp: in_topic_def)
  have 2: "ip_of (E(d \<mapsto> (t, i, ow))) = ip_of E" using a(2) by (auto simp: ip_of_def)
  have "dom (E(d \<mapsto> (t, i, ow))) = dom E" using a(2) by auto
  then show ?thesis using a(1) unfolding quota_inv_def 1 2 by simp
qed

lemma owner_inv_rewrite:
  assumes "owner_inv ol E" "E d = Some (t, i, ow0)" "ow0 \<noteq> ow"
  shows "owner_inv (ol(ow0 := removeAll d (ol ow0), ow := ol ow @ [d])) (E(d \<mapsto> (t, i, ow)))"
proof -
  have "d \<notin> owned_by E o'" if "o' \<noteq> ow0" for o' using assms(2) that by (auto simp: owned_by_def)
  then show ?thesis
    using assms(1,3) by (auto simp: owner_inv_def owned_by_upd distinct_removeAll)
qed

section \<open>A record leaves\<close>

lemma leave_members:
  assumes ok: "members_ok ts" and d: "d \<in> set (tst_members ts)"
  shows "members_ok (leave_topic d ik ts)"
    and "set (tst_members (leave_topic d ik ts)) = set (tst_members ts) - {d}"
proof -
  let ?m = "tst_members ts" and ?l = "length (tst_members ts) - 1"
  obtain idx where idx: "idx < length ?m" "?m ! idx = d" using d by (auto simp: in_set_conv_nth)
  then have pos: "get d (tst_pos ts) = Some idx" using ok by (simp add: members_ok_def)
  have dis: "distinct ?m" and posiff: "\<And>d i. get d (tst_pos ts) = Some i \<longleftrightarrow> i < length ?m \<and> ?m ! i = d"
    using ok by (auto simp: members_ok_def)
  define m' where "m' = butlast (?m[idx := ?m ! ?l])"
  have mem: "tst_members (leave_topic d ik ts) = m'"
  proof (cases "idx = ?l")
    case True
    have "?m[idx := ?m ! idx] = ?m" by simp
    then have "m' = butlast ?m" using True by (simp add: m'_def)
    then show ?thesis using pos True by (simp add: leave_topic_def Let_def)
  qed (use pos in \<open>simp add: leave_topic_def Let_def m'_def\<close>)
  have p: "tst_pos (leave_topic d ik ts) = del d (if idx = ?l then tst_pos ts else put (?m ! ?l) idx (tst_pos ts))"
    using pos by (simp add: leave_topic_def Let_def)
  have len: "length m' = ?l" by (simp add: m'_def)
  have nth: "m' ! i = (if i = idx then ?m ! ?l else ?m ! i)" if "i < ?l" for i
    using that idx by (simp add: m'_def nth_butlast nth_list_update)
  have dist: "distinct m'"
  proof -
    have "m' ! i \<noteq> m' ! j" if "i < ?l" "j < ?l" "i \<noteq> j" for i j
      using that idx dis by (auto simp: nth nth_eq_iff_index_eq)
    then show ?thesis by (simp add: distinct_conv_nth len)
  qed
  have setm: "set m' = set ?m - {d}"
  proof (intro equalityI subsetI)
    fix x assume "x \<in> set m'"
    then obtain i where i: "i < ?l" "x = m' ! i" by (auto simp: in_set_conv_nth len)
    then show "x \<in> set ?m - {d}"
      using idx dis by (cases "i = idx") (auto simp: nth nth_eq_iff_index_eq)
  next
    fix x assume x: "x \<in> set ?m - {d}"
    then obtain i where i: "i < length ?m" "x = ?m ! i" by (auto simp: in_set_conv_nth)
    show "x \<in> set m'"
    proof (cases "i = ?l")
      case True
      then have "idx < ?l" using x i idx by (cases "idx = ?l") auto
      then show ?thesis using nth [of idx] i True len by (metis nth_mem)
    next
      case False
      then have "i < ?l" "i \<noteq> idx" using x i idx by auto
      then show ?thesis using nth [of i] i len by (metis nth_mem)
    qed
  qed
  have "get x (tst_pos (leave_topic d ik ts)) = Some i \<longleftrightarrow> i < length m' \<and> m' ! i = x" for x i
  proof -
    have last: "?l < length ?m" using idx by linarith
    show ?thesis
      using idx dis last unfolding p len
      by (cases "i < ?l") (auto simp: posiff nth nth_eq_iff_index_eq)
  qed
  with dist show "members_ok (leave_topic d ik ts)" by (simp add: members_ok_def mem)
  show "set (tst_members (leave_topic d ik ts)) = set ?m - {d}" by (simp add: mem setm)
qed

lemma leave_simps [simp]:
  "tst_per_ip (leave_topic d ik ts) = decrement ik (tst_per_ip ts)"
  "tst_order (leave_topic d ik ts) = tst_order ts"
  "tst_listed (leave_topic d ik ts) = tst_listed ts"
  "tst_mode (leave_topic d ik ts) = tst_mode ts"
  "tst_fresh (leave_topic d ik ts) = tst_fresh ts"
  "tst_members (leave_topic d ik (unfresh ts)) = tst_members (leave_topic d ik ts)"
  "unfresh (leave_topic d ik ts) = leave_topic d ik (unfresh ts)"
  by (simp_all add: leave_topic_def Let_def unfresh_def split: option.split)

definition left :: "DevId \<Rightarrow> IpKey \<Rightarrow> TopicState \<Rightarrow> TopicState option" where
  "left d ik ts = (let ts' = leave_topic d ik ts in if tst_members ts' = [] then None else Some ts')"

lemma member_inv_leave:
  assumes mi: "member_inv E T" and d: "E d = Some (t, i, ow)" and t: "T t = Some ts"
  shows "member_inv (E(d := None)) (T(t := left d ik ts))"
proof -
  have ts: "members_ok ts" "set (tst_members ts) = in_topic E t" "d \<in> in_topic E t"
    using assms by (auto simp: member_inv_def in_topic_def)
  note lm = leave_members [OF ts(1), of d ik, unfolded ts(2), OF ts(3)]
  have oth: "in_topic E t' - {d} = in_topic E t'" if "t' \<noteq> t" for t'
    using d that by (auto simp: in_topic_def)
  have 1: "finite (dom (E(d := None)))" "finite (dom (T(t := left d ik ts)))"
    using mi by (auto simp: member_inv_def)
  have 2: "members_ok x \<and> tst_members x \<noteq> [] \<and> set (tst_members x) = in_topic (E(d := None)) t'"
    if "(T(t := left d ik ts)) t' = Some x" for t' x
    using that lm mi oth by (auto simp: in_topic_del member_inv_def left_def Let_def split: if_splits)
  have 3: "in_topic (E(d := None)) t' = {}" if "(T(t := left d ik ts)) t' = None" for t'
  proof (cases "t' = t")
    case True
    then show ?thesis using that lm(2) by (auto simp: in_topic_del left_def Let_def split: if_splits)
  next
    case False
    then show ?thesis using that mi by (simp add: in_topic_del member_inv_def)
  qed
  show ?thesis unfolding member_inv_def using 1 2 3 by blast
qed

lemma counts_remove_upd:
  assumes "counts m S (ip_of E)" "d \<in> S" "ip_of E d = i"
  shows "counts (decrement i m) (S - {d}) (ip_of (E(d := None)))"
proof -
  have "counts (decrement i m) (S - {d}) (ip_of E)" using counts_remove [OF assms(1,2)] assms(3) by simp
  then show ?thesis by (subst counts_cong [of _ "S - {d}" _ "ip_of E"]) (auto simp: ip_of_del)
qed

lemma quota_inv_leave:
  assumes q: "quota_inv cfg tot E T" and mi: "member_inv E T"
    and d: "E d = Some (t, i, ow)" and t: "T t = Some ts"
  shows "quota_inv cfg (decrement i tot) (E(d := None)) (T(t := left d i ts))"
proof -
  let ?E = "E(d := None)" and ?T = "T(t := left d i ts)"
  have ip: "ip_of E d = i" using d by (simp add: ip_of_def)
  have fin: "finite (dom E)" "finite (dom T)" using mi by (auto simp: member_inv_def)
  have ints: "d \<in> in_topic E t" "d \<in> dom E" using d by (auto simp: in_topic_def)
  have 1: "counts (decrement i tot) (dom ?E) (ip_of ?E)"
    using counts_remove_upd [OF _ ints(2) ip, of tot] q by (simp add: quota_inv_def)
  have 2: "counts (tst_per_ip x) (in_topic ?E t') (ip_of ?E)" if "?T t' = Some x" for t' x
  proof (cases "t' = t")
    case True
    then have "x = leave_topic d i ts" using that by (auto simp: left_def Let_def split: if_splits)
    then show ?thesis
      using counts_remove_upd [OF _ ints(1) ip, of "tst_per_ip ts"] q t True by (simp add: quota_inv_def in_topic_del)
  next
    case False
    then have "counts (tst_per_ip x) (in_topic E t') (ip_of E)" using that q by (simp add: quota_inv_def)
    moreover have nin: "d \<notin> in_topic E t'" using d False by (simp add: in_topic_def)
    have "counts (tst_per_ip x) (in_topic ?E t') (ip_of ?E) = counts (tst_per_ip x) (in_topic E t') (ip_of E)"
    proof (rule counts_cong)
      show "in_topic ?E t' = in_topic E t'" using nin by (simp add: in_topic_del)
      show "ip_of ?E y = ip_of E y" if "y \<in> in_topic E t'" for y using nin that by (subst ip_of_del) auto
    qed
    ultimately show ?thesis by simp
  qed
  have "dom ?T \<subseteq> dom T" using t by auto
  then have 3: "card (dom ?E) \<le> card (dom E)" "card (dom ?T) \<le> card (dom T)"
    using fin by (auto intro: card_mono)
  have sub: "card {x \<in> S - {d}. ip_of ?E x = k} \<le> card {x \<in> S. ip_of E x = k}" if "finite S" for S k
    using that by (auto intro!: card_mono simp: ip_of_del)
  have fint: "finite (in_topic E t')" for t' using fin(1) finite_subset [OF in_topic_dom] by blast
  have 4: "card {x \<in> dom ?E. ip_of ?E x = k} \<le> max 1 (rc_max_per_ip_total cfg)" for k
  proof -
    have "card {x \<in> dom E. ip_of E x = k} \<le> max 1 (rc_max_per_ip_total cfg)"
      using q unfolding quota_inv_def by blast
    with sub [OF fin(1), of k] show ?thesis by simp
  qed
  have 5: "card {x \<in> in_topic ?E t'. ip_of ?E x = k} \<le> max 1 (rc_max_per_ip_per_topic cfg)" for t' k
  proof -
    have "card {x \<in> in_topic E t'. ip_of E x = k} \<le> max 1 (rc_max_per_ip_per_topic cfg)"
      using q unfolding quota_inv_def by blast
    with sub [OF fint, of t' k] show ?thesis unfolding in_topic_del by simp
  qed
  have 6: "card (dom ?E) \<le> rc_max_entries cfg" "card (dom ?T) \<le> rc_max_topics cfg"
    using 3 q unfolding quota_inv_def by linarith+
  show ?thesis unfolding quota_inv_def using 1 2 4 5 6 by blast
qed

lemma owner_inv_leave:
  assumes "owner_inv ol E" "E d = Some (t, i, ow)"
  shows "owner_inv (ol(ow := removeAll d (ol ow))) (E(d := None))"
proof -
  have "d \<notin> owned_by E o'" if "o' \<noteq> ow" for o' using assms(2) that by (auto simp: owned_by_def)
  then show ?thesis using assms(1) by (auto simp: owner_inv_def owned_by_del distinct_removeAll)
qed

lemma listing_inv_leave:
  assumes inv: "listing_inv L next T" and t: "T t = Some ts"
  shows "listing_inv (if left d ik ts = None then del (tst_order ts) L else L) next (T(t := left d ik ts))"
proof (cases "left d ik ts")
  case None
  then show ?thesis using assms by (auto simp: listing_inv_def)
next
  case (Some x)
  then have "x = leave_topic d ik ts" by (auto simp: left_def Let_def split: if_splits)
  then show ?thesis using Some listing_inv_join_old [OF inv t, of x] by simp
qed

section \<open>What the operations do to the projections\<close>

definition ids_ok :: "Registry \<Rightarrow> bool" where
  "ids_ok r \<longleftrightarrow> (\<forall>d e. get d (rg_by_dev r) = Some e \<longrightarrow> en_dev_id e = d)"

definition core_inv :: "Registry \<Rightarrow> bool" where
  "core_inv r \<longleftrightarrow> member_inv (ent r) (shape r) \<and> quota_inv (rg_cfg r) (rg_per_ip_total r) (ent r) (shape r)
     \<and> owner_inv (\<lambda>ow. owner_list ow r) (ent r) \<and> listing_inv (rg_listing r) (rg_next_order r) (shape r)
     \<and> 0 < rg_next_order r"

text \<open>Everything but the fresh bookkeeping and the statistics.\<close>

definition core where
  "core r = (rg_cfg r, rg_secret r, ent r, shape r, rg_per_ip_total r, rg_by_owner r, rg_listing r,
             rg_next_order r, rg_relays r, rg_relays_per_ip r)"

lemma coreD:
  assumes "core r = core s"
  shows "rg_cfg r = rg_cfg s" "rg_secret r = rg_secret s" "ent r = ent s" "shape r = shape s"
    "rg_per_ip_total r = rg_per_ip_total s" "rg_by_owner r = rg_by_owner s" "rg_listing r = rg_listing s"
    "rg_next_order r = rg_next_order s" "rg_relays r = rg_relays s" "rg_relays_per_ip r = rg_relays_per_ip s"
    "owner_list ow r = owner_list ow s" "core_inv r = core_inv s"
  using assms by (simp_all add: core_def owner_list_def core_inv_def)

lemma shape_put: "shape (r\<lparr>rg_topics := put t ts (rg_topics r)\<rparr>) = (shape r)(t \<mapsto> unfresh ts)"
  by (auto simp: shape_def)

lemma ent_put: "ent (r\<lparr>rg_by_dev := put d e (rg_by_dev r)\<rparr>)
    = (ent r)(d \<mapsto> (en_topic_id e, ip_key (en_bound_addr e), en_owner e))"
  by (auto simp: ent_def)

lemma add_fresh_simps [simp]:
  "rg_by_dev (add_fresh n t r) = rg_by_dev r" "rg_fresh_order (add_fresh n t r) = rg_fresh_order r"
  "rg_stats (add_fresh n t r) = rg_stats r" "core (add_fresh n t r) = core r"
proof -
  show "core (add_fresh n t r) = core r"
  proof (cases "get t (rg_topics r)")
    case (Some ts)
    have "shape (add_fresh n t r) = shape r"
      using Some by (auto simp: add_fresh_def shape_put) (auto simp: shape_def)
    moreover have "ent (add_fresh n t r) = ent r" using Some by (simp add: add_fresh_def ent_def)
    ultimately show ?thesis using Some by (simp add: core_def add_fresh_def)
  qed (simp add: add_fresh_def core_def ent_def shape_def)
qed (auto simp: add_fresh_def split: option.split)

lemma core_frame [simp]:
  "core (r\<lparr>rg_stats := st\<rparr>) = core r" "core (r\<lparr>rg_fresh_order := fo\<rparr>) = core r"
  "core (r\<lparr>rg_fault := b\<rparr>) = core r"
  by (simp_all add: core_def ent_def shape_def)

lemma add_entries_fresh_simps [simp]:
  "rg_by_dev (add_entries_fresh n r) = rg_by_dev r" "rg_topics (add_entries_fresh n r) = rg_topics r"
  "rg_fresh_order (add_entries_fresh n r) = rg_fresh_order r" "rg_fault (add_entries_fresh n r) = rg_fault r"
  "core (add_entries_fresh n r) = core r"
  by (simp_all add: add_entries_fresh_def)

lemma forget_fresh_simps [simp]:
  "rg_by_dev (forget_fresh e r) = rg_by_dev r" "core (forget_fresh e r) = core r"
  by (simp_all add: forget_fresh_def Let_def)

lemma mark_fresh_by_dev [simp]:
  "rg_by_dev (mark_fresh e now r) = put (en_dev_id e) (e\<lparr>en_last_seen := now\<rparr>) (rg_by_dev r)"
  by (simp add: mark_fresh_def Let_def)

lemma core_put_dev:
  "rg_by_dev r = m \<Longrightarrow> core (r\<lparr>rg_by_dev := put d e m\<rparr>)
   = (rg_cfg r, rg_secret r, (ent r)(d \<mapsto> (en_topic_id e, ip_key (en_bound_addr e), en_owner e)), shape r,
      rg_per_ip_total r, rg_by_owner r, rg_listing r, rg_next_order r, rg_relays r, rg_relays_per_ip r)"
  by (auto simp: core_def ent_def shape_def)

lemma mark_fresh_core:
  "core (mark_fresh e now r)
   = (rg_cfg r, rg_secret r, (ent r)(en_dev_id e \<mapsto> (en_topic_id e, ip_key (en_bound_addr e), en_owner e)), shape r,
      rg_per_ip_total r, rg_by_owner r, rg_listing r, rg_next_order r, rg_relays r, rg_relays_per_ip r)"
  using coreD [OF forget_fresh_simps(2) [of e r]] by (simp add: mark_fresh_def Let_def core_put_dev)

lemma mark_fresh_fields:
  "ent (mark_fresh e now r) = (ent r)(en_dev_id e \<mapsto> (en_topic_id e, ip_key (en_bound_addr e), en_owner e))"
  "shape (mark_fresh e now r) = shape r" "rg_cfg (mark_fresh e now r) = rg_cfg r"
  "rg_secret (mark_fresh e now r) = rg_secret r"
  "rg_per_ip_total (mark_fresh e now r) = rg_per_ip_total r" "rg_by_owner (mark_fresh e now r) = rg_by_owner r"
  "rg_listing (mark_fresh e now r) = rg_listing r" "rg_next_order (mark_fresh e now r) = rg_next_order r"
  "rg_relays (mark_fresh e now r) = rg_relays r" "rg_relays_per_ip (mark_fresh e now r) = rg_relays_per_ip r"
  "owner_list ow (mark_fresh e now r) = owner_list ow r"
  using mark_fresh_core [of e now r] by (simp_all add: core_def owner_list_def)

lemma ids_ok_mark_fresh: "ids_ok r \<Longrightarrow> ids_ok (mark_fresh e now r)"
  by (auto simp: ids_ok_def)

lemma expire_loop_simps [simp]:
  "rg_by_dev (expire_loop ks now r) = rg_by_dev r \<and> core (expire_loop ks now r) = core r"
  by (induction ks arbitrary: r) (auto simp: Let_def split: option.split)

lemma expire_fresh_simps [simp]:
  "rg_by_dev (expire_fresh now r) = rg_by_dev r" "core (expire_fresh now r) = core r"
  by (simp_all add: expire_fresh_def)

lemma core_inv_mark_fresh:
  assumes "core_inv r" "ent r (en_dev_id e) = Some (en_topic_id e, ip_key (en_bound_addr e), en_owner e)"
  shows "core_inv (mark_fresh e now r)"
proof -
  have "(ent r)(en_dev_id e \<mapsto> (en_topic_id e, ip_key (en_bound_addr e), en_owner e)) = ent r"
    using assms(2) by auto
  then show ?thesis using assms(1) by (simp add: core_inv_def mark_fresh_fields)
qed

section \<open>Registering\<close>

text \<open>
  The id of a record is a truncated MAC of topic and address: the invariant needs that the record a
  registration finds under its id is one of the same topic and address.
\<close>

definition no_collision :: "TopicId \<Rightarrow> Endpoint \<Rightarrow> Registry \<Rightarrow> bool" where
  "no_collision t src r \<longleftrightarrow> (case get (derive_dev_id t src r) (rg_by_dev r) of
       None \<Rightarrow> True | Some e \<Rightarrow> en_topic_id e = t \<and> ip_key (en_bound_addr e) = ip_key src)"

text \<open>The invariant with the record of \<open>dev\<close> as it will be written.\<close>

definition pre_inv :: "ent_map \<Rightarrow> Registry \<Rightarrow> bool" where
  "pre_inv E r \<longleftrightarrow> member_inv E (shape r) \<and> quota_inv (rg_cfg r) (rg_per_ip_total r) E (shape r)
     \<and> owner_inv (\<lambda>ow. owner_list ow r) E \<and> listing_inv (rg_listing r) (rg_next_order r) (shape r)
     \<and> 0 < rg_next_order r"

lemma core_inv_pre: "core_inv r \<longleftrightarrow> pre_inv (ent r) r"
  by (simp add: core_inv_def pre_inv_def)

lemma take_over_other:
  assumes "get dev (rg_by_dev r) = Some e" "en_owner e \<noteq> ow"
  shows "ent (take_over dev ow r) = (ent r)(dev \<mapsto> (en_topic_id e, ip_key (en_bound_addr e), ow))"
    "(\<lambda>o'. owner_list o' (take_over dev ow r))
     = (\<lambda>o'. owner_list o' r)(en_owner e := removeAll dev (owner_list (en_owner e) r), ow := owner_list ow r @ [dev])"
    "shape (take_over dev ow r) = shape r" "rg_cfg (take_over dev ow r) = rg_cfg r"
    "rg_per_ip_total (take_over dev ow r) = rg_per_ip_total r" "rg_listing (take_over dev ow r) = rg_listing r"
    "rg_next_order (take_over dev ow r) = rg_next_order r"
  using assms by (auto simp: take_over_def Let_def ent_def shape_def owner_list_def)

lemma core_inv_take_over:
  assumes "core_inv r"
  shows "core_inv (take_over dev ow r)"
proof (cases "get dev (rg_by_dev r)")
  case None
  then show ?thesis using assms by (simp add: take_over_def)
next
  case (Some e)
  show ?thesis
  proof (cases "en_owner e = ow")
    case False
    have E: "ent r dev = Some (en_topic_id e, ip_key (en_bound_addr e), en_owner e)"
      using Some by (simp add: ent_def)
    show ?thesis
      using assms member_inv_rewrite [where E = "ent r", OF _ E, of "shape r" ow]
        quota_inv_rewrite [where E = "ent r", OF _ E, of "rg_cfg r" "rg_per_ip_total r" "shape r" ow]
        owner_inv_rewrite [where E = "ent r" and ol = "\<lambda>o'. owner_list o' r", OF _ E False]
      unfolding core_inv_def take_over_other [OF Some False] by blast
  qed (use Some assms in \<open>simp add: take_over_def\<close>)
qed

lemma join_topic_fields:
  "rg_by_dev (join_topic dev msg ik ow r) = rg_by_dev r" "ent (join_topic dev msg ik ow r) = ent r"
  "rg_cfg (join_topic dev msg ik ow r) = rg_cfg r" "rg_fresh_order (join_topic dev msg ik ow r) = rg_fresh_order r"
  "rg_stats (join_topic dev msg ik ow r) = rg_stats r" "rg_fault (join_topic dev msg ik ow r) = rg_fault r"
  "rg_relays (join_topic dev msg ik ow r) = rg_relays r" "rg_relays_per_ip (join_topic dev msg ik ow r) = rg_relays_per_ip r"
  "rg_secret (join_topic dev msg ik ow r) = rg_secret r"
  "rg_per_ip_total (join_topic dev msg ik ow r) = increment ik (rg_per_ip_total r)"
  "(\<lambda>o'. owner_list o' (join_topic dev msg ik ow r)) = (\<lambda>o'. owner_list o' r)(ow := owner_list ow r @ [dev])"
  by (auto simp: join_topic_def Let_def ent_def owner_list_def split: prod.split)

lemma join_topic_old:
  assumes "get (rg_id msg) (rg_topics r) = Some ts" "tst_members ts \<noteq> []"
  shows "rg_topics (join_topic dev msg ik ow r) = put (rg_id msg) (joined dev ik ts) (rg_topics r)"
    "rg_listing (join_topic dev msg ik ow r) = rg_listing r"
    "rg_next_order (join_topic dev msg ik ow r) = rg_next_order r"
  using assms by (auto simp: join_topic_def Let_def topic_at_def joined_def)

lemma join_topic_new:
  assumes "get (rg_id msg) (rg_topics r) = None"
  shows "rg_topics (join_topic dev msg ik ow r)
      = put (rg_id msg) (joined dev ik (TopicState_default\<lparr>tst_mode := rg_mode msg, tst_order := rg_next_order r\<rparr>))
          (rg_topics r)"
    "rg_listing (join_topic dev msg ik ow r) = put (rg_next_order r) (rg_id msg) (rg_listing r)"
    "rg_next_order (join_topic dev msg ik ow r) = rg_next_order r + 1"
  using assms by (auto simp: join_topic_def Let_def topic_at_def joined_def TopicState_default_def)

lemma joined_simps [simp]:
  "tst_per_ip (joined dev ik ts) = increment ik (tst_per_ip ts)"
  "tst_order (joined dev ik ts) = tst_order ts" "tst_listed (joined dev ik ts) = tst_listed ts"
  "tst_fresh (joined dev ik ts) = tst_fresh ts" "tst_mode (joined dev ik ts) = tst_mode ts"
  "tst_members (joined dev ik ts) = tst_members ts @ [dev]"
  "unfresh (joined dev ik ts) = joined dev ik (unfresh ts)"
  by (simp_all add: joined_def unfresh_def)

lemma pre_inv_join:
  assumes inv: "core_inv r" and new: "get dev (rg_by_dev r) = None"
    and room: "unat (rg_next_order r) + 1 < 2 ^ 32" and q: "\<not> quota_exceeded (rg_id msg) ik r"
  shows "pre_inv ((ent r)(dev \<mapsto> (rg_id msg, ik, ow))) (join_topic dev msg ik ow r)"
proof -
  note I = inv [unfolded core_inv_def]
  have dev: "dev \<notin> dom (ent r)" using new by (auto simp: ent_def)
  have ent: "card (dom (ent r)) < rc_max_entries (rg_cfg r)" "\<not> over ik (rg_per_ip_total r) (rc_max_per_ip_total (rg_cfg r))"
    using q I by (auto simp: quota_exceeded_def dom_ent Mapping.size_def member_inv_def)
  have own: "owner_inv (\<lambda>o'. owner_list o' (join_topic dev msg ik ow r)) ((ent r)(dev \<mapsto> (rg_id msg, ik, ow)))"
    using owner_inv_join [of "\<lambda>o'. owner_list o' r", OF _ dev] I by (simp add: join_topic_fields)
  show ?thesis
  proof (cases "get (rg_id msg) (rg_topics r)")
    case None
    define ts where "ts = TopicState_default\<lparr>tst_mode := rg_mode msg, tst_order := rg_next_order r\<rparr>"
    have shp: "shape (join_topic dev msg ik ow r) = (shape r)(rg_id msg \<mapsto> joined dev ik (unfresh ts))"
      using join_topic_new [OF None] by (auto simp: shape_def ts_def)
    have t0: "shape r (rg_id msg) = None" using None by (simp add: shape_def)
    have tsm: "tst_members ts = []" "members_ok (unfresh ts)" "tst_per_ip ts = Mapping.empty" "tst_listed ts"
      "tst_order ts = rg_next_order r"
      by (auto simp: ts_def TopicState_default_def members_ok_def)
    have tops: "card (dom (shape r)) < rc_max_topics (rg_cfg r)"
      using q None I by (auto simp: quota_exceeded_def dom_shape Mapping.size_def member_inv_def split: if_splits)
    have "member_inv ((ent r)(dev \<mapsto> (rg_id msg, ik, ow))) (shape (join_topic dev msg ik ow r))"
      unfolding shp using member_inv_join [OF _ dev, of "shape r" "rg_id msg" "unfresh ts"] I t0 tsm by simp
    moreover have "quota_inv (rg_cfg r) (increment ik (rg_per_ip_total r)) ((ent r)(dev \<mapsto> (rg_id msg, ik, ow)))
        (shape (join_topic dev msg ik ow r))"
      unfolding shp using quota_inv_join [OF _ _ dev ent, of "shape r" "rg_id msg" "unfresh ts"] I t0 tsm tops by simp
    moreover have "listing_inv (put (rg_next_order r) (rg_id msg) (rg_listing r)) (rg_next_order r + 1)
        (shape (join_topic dev msg ik ow r))"
      unfolding shp using listing_inv_join_new [where T = "shape r", OF _ t0 room] I tsm by simp
    moreover have "0 < rg_next_order r + 1"
      using room by (simp add: word_less_nat_alt unat_add_lem [THEN iffD1])
    ultimately show ?thesis using own by (simp add: pre_inv_def join_topic_fields join_topic_new [OF None])
  next
    case (Some ts)
    have t0: "shape r (rg_id msg) = Some (unfresh ts)" using Some by (simp add: shape_def)
    have ne: "tst_members ts \<noteq> []" using I t0 unfolding member_inv_def by (metis unfresh_simps(1))
    have shp: "shape (join_topic dev msg ik ow r) = (shape r)(rg_id msg \<mapsto> joined dev ik (unfresh ts))"
      using join_topic_old [OF Some ne] by (auto simp: shape_def)
    have nov: "\<not> over ik (tst_per_ip ts) (rc_max_per_ip_per_topic (rg_cfg r))"
      using q Some by (simp add: quota_exceeded_def)
    have "member_inv ((ent r)(dev \<mapsto> (rg_id msg, ik, ow))) (shape (join_topic dev msg ik ow r))"
      unfolding shp using member_inv_join [OF _ dev, of "shape r" "rg_id msg" "unfresh ts"] I t0 by simp
    moreover have "quota_inv (rg_cfg r) (increment ik (rg_per_ip_total r)) ((ent r)(dev \<mapsto> (rg_id msg, ik, ow)))
        (shape (join_topic dev msg ik ow r))"
      unfolding shp using quota_inv_join [OF _ _ dev ent, of "shape r" "rg_id msg" "unfresh ts"] I t0 nov by simp
    moreover have "listing_inv (rg_listing r) (rg_next_order r) (shape (join_topic dev msg ik ow r))"
      unfolding shp using listing_inv_join_old [where T = "shape r", OF _ t0] I by simp
    ultimately show ?thesis using own I by (simp add: pre_inv_def join_topic_fields join_topic_old [OF Some ne])
  qed
qed

definition written :: "DevId \<Rightarrow> Register \<Rightarrow> Endpoint \<Rightarrow> ConnKey \<Rightarrow> Registry \<Rightarrow> Entry" where
  "written dev msg src ow r =
     (case get dev (rg_by_dev r) of None \<Rightarrow> Entry_default | Some e \<Rightarrow> e)
       \<lparr>en_dev_id := dev, en_topic_id := rg_id msg, en_bound_addr := src, en_host_cands := rg_host_cands msg,
        en_meta := rg_meta msg, en_owner := ow, en_key_epoch := rg_key_epoch msg, en_mode := rg_mode msg\<rparr>"

lemma written_simps [simp]:
  "en_dev_id (written dev msg src ow r) = dev" "en_topic_id (written dev msg src ow r) = rg_id msg"
  "en_bound_addr (written dev msg src ow r) = src" "en_owner (written dev msg src ow r) = ow"
  "en_meta (written dev msg src ow r) = rg_meta msg"
  "en_host_cands (written dev msg src ow r) = rg_host_cands msg"
  by (simp_all add: written_def)

definition hide_topic :: "TopicId \<Rightarrow> Registry \<Rightarrow> Registry" where
  "hide_topic t r = r\<lparr>rg_topics := put t ((topic_at t r)\<lparr>tst_listed := False\<rparr>) (rg_topics r),
                      rg_listing := del (tst_order (topic_at t r)) (rg_listing r)\<rparr>"

lemma write_entry_eq:
  assumes "get (rg_id msg) (rg_topics (mark_fresh (written dev msg src ow r) now r)) \<noteq> None"
  shows "write_entry dev msg src ow now r
   = (if rg_unlisted msg then hide_topic (rg_id msg) (mark_fresh (written dev msg src ow r) now r)
      else mark_fresh (written dev msg src ow r) now r)"
proof -
  have "put t (topic_at t s) (rg_topics s) = rg_topics s" if "get t (rg_topics s) \<noteq> None" for t s
    using that by (intro mapping_eqI) (auto simp: topic_at_def)
  then show ?thesis
    using assms by (simp add: write_entry_def Let_def hide_topic_def written_def)
qed

lemma hide_topic_fields:
  assumes "get t (rg_topics r) = Some ts"
  shows "rg_by_dev (hide_topic t r) = rg_by_dev r" "ent (hide_topic t r) = ent r"
    "shape (hide_topic t r) = (shape r)(t \<mapsto> (unfresh ts)\<lparr>tst_listed := False\<rparr>)"
    "rg_listing (hide_topic t r) = del (tst_order ts) (rg_listing r)"
    "rg_cfg (hide_topic t r) = rg_cfg r" "rg_per_ip_total (hide_topic t r) = rg_per_ip_total r"
    "owner_list ow (hide_topic t r) = owner_list ow r" "rg_next_order (hide_topic t r) = rg_next_order r"
  using assms by (auto simp: hide_topic_def ent_def shape_def owner_list_def topic_at_def unfresh_def)

lemma core_inv_hide:
  assumes inv: "core_inv r" and t: "get t (rg_topics r) = Some ts"
  shows "core_inv (hide_topic t r)"
proof -
  let ?h = "(unfresh ts)\<lparr>tst_listed := False\<rparr>"
  have sh: "shape r t = Some (unfresh ts)" using t by (simp add: shape_def)
  have "member_inv (ent r) ((shape r)(t \<mapsto> ?h))"
    "quota_inv (rg_cfg r) (rg_per_ip_total r) (ent r) ((shape r)(t \<mapsto> ?h))"
    using inv member_inv_same [where T = "shape r", OF _ sh, of _ ?h]
      quota_inv_same [where T = "shape r", OF _ sh, of _ _ _ ?h] by (simp_all add: core_inv_def)
  moreover have "listing_inv (del (tst_order ts) (rg_listing r)) (rg_next_order r) ((shape r)(t \<mapsto> ?h))"
    using listing_inv_hide [where T = "shape r", OF _ sh, of _ _ ?h] inv by (simp add: core_inv_def)
  ultimately show ?thesis using inv by (simp add: core_inv_def hide_topic_fields [OF t])
qed

lemma core_inv_write_entry:
  assumes "pre_inv ((ent r)(dev \<mapsto> (rg_id msg, ip_key src, ow))) r"
  shows "core_inv (write_entry dev msg src ow now r)"
proof -
  let ?r = "mark_fresh (written dev msg src ow r) now r"
  have inv: "core_inv ?r" using assms by (simp add: core_inv_def pre_inv_def mark_fresh_fields)
  have "ent ?r dev = Some (rg_id msg, ip_key src, ow)" by (simp add: mark_fresh_fields)
  then obtain x where "shape ?r (rg_id msg) = Some x"
    using inv member_inv_topic unfolding core_inv_def by blast
  then obtain ts where ts: "get (rg_id msg) (rg_topics ?r) = Some ts" by (auto simp: shape_def)
  then show ?thesis using inv core_inv_hide [OF inv ts] by (simp add: write_entry_eq)
qed

lemma core_inv_register:
  assumes inv: "core_inv r" and nc: "no_collision (rg_id msg) src r"
    and room: "unat (rg_next_order r) + 1 < 2 ^ 32"
  shows "core_inv (snd (register_entry msg src ow now r))"
proof -
  define dev where "dev = derive_dev_id (rg_id msg) src r"
  have st: "core_inv (s\<lparr>rg_stats := x\<rparr>) = core_inv s" for s x by (rule coreD) simp
  show ?thesis
  proof (cases "get dev (rg_by_dev r)")
    case None
    then have "take_over dev ow r = r" by (simp add: take_over_def)
    then show ?thesis
      using None inv core_inv_write_entry pre_inv_join [OF inv None room]
      by (simp add: register_entry_def Let_def dev_def [symmetric] bump_rej_quota_def st join_topic_fields)
  next
    case (Some e)
    then have e: "en_topic_id e = rg_id msg" "ip_key (en_bound_addr e) = ip_key src"
      using nc by (auto simp: no_collision_def dev_def)
    have "ent (take_over dev ow r) dev = Some (rg_id msg, ip_key src, ow)"
      using Some e take_over_other [OF Some] by (cases "en_owner e = ow") (auto simp: take_over_def ent_def)
    then have "(ent (take_over dev ow r))(dev \<mapsto> (rg_id msg, ip_key src, ow)) = ent (take_over dev ow r)" by auto
    then have "pre_inv ((ent (take_over dev ow r))(dev \<mapsto> (rg_id msg, ip_key src, ow))) (take_over dev ow r)"
      using core_inv_take_over [OF inv, of dev ow] by (simp add: core_inv_pre)
    from core_inv_write_entry [OF this] show ?thesis
      using Some by (simp add: register_entry_def Let_def dev_def [symmetric] st)
  qed
qed

section \<open>The other operations on records\<close>

lemma ent_get: "get d (rg_by_dev r) = Some e \<Longrightarrow>
    ent r d = Some (en_topic_id e, ip_key (en_bound_addr e), en_owner e)"
  by (simp add: ent_def)

lemma core_inv_refresh:
  assumes "core_inv r" "ids_ok r"
  shows "core_inv (snd (refresh d ow now r))"
  using assms core_inv_mark_fresh [OF assms(1)]
  by (auto simp: refresh_def ids_ok_def ent_get split: option.split)

lemma core_inv_update:
  assumes "core_inv r" "ids_ok r"
  shows "core_inv (snd (update_entry msg ow now r))"
  using assms core_inv_mark_fresh [OF assms(1)]
  by (auto simp: update_entry_def ids_ok_def ent_get split: option.split)

text \<open>Erasing a record, up to the owner lists, which its callers change.\<close>

lemma erase_entry_fields:
  assumes "get d (rg_by_dev r) = Some e" "get (en_topic_id e) (rg_topics r) = Some ts"
  shows "ent (erase_entry d r) = (ent r)(d := None)"
    "shape (erase_entry d r) = (shape r)(en_topic_id e := left d (ip_key (en_bound_addr e)) (unfresh ts))"
    "rg_per_ip_total (erase_entry d r) = decrement (ip_key (en_bound_addr e)) (rg_per_ip_total r)"
    "rg_by_owner (erase_entry d r) = rg_by_owner r" "rg_cfg (erase_entry d r) = rg_cfg r"
    "rg_next_order (erase_entry d r) = rg_next_order r"
    "rg_listing (erase_entry d r) = (if left d (ip_key (en_bound_addr e)) (unfresh ts) = None
        then del (tst_order ts) (rg_listing r) else rg_listing r)"
    "rg_by_dev (erase_entry d r) = del d (rg_by_dev r)"
    "rg_relays (erase_entry d r) = rg_relays r" "rg_relays_per_ip (erase_entry d r) = rg_relays_per_ip r"
proof -
  note F = coreD [OF forget_fresh_simps(2) [of e r]]
  obtain ts' where ts': "get (en_topic_id e) (rg_topics (forget_fresh e r)) = Some ts'" "unfresh ts' = unfresh ts"
    using fun_cong [OF F(4), of "en_topic_id e"] assms(2) by (auto simp: shape_def)
  have o: "tst_order ts' = tst_order ts" using ts'(2) by (metis unfresh_simps(5))
  have m: "(tst_members (leave_topic d i ts') = []) = (left d i (unfresh ts) = None)" for i
    using leave_simps(6) [of d i ts', symmetric] by (simp add: left_def Let_def ts'(2))
  have l: "unfresh (leave_topic d i ts') = leave_topic d i (unfresh ts)" for i using ts'(2) by simp
  show "ent (erase_entry d r) = (ent r)(d := None)"
    using assms ts' by (auto simp: erase_entry_def Let_def ent_def)
  show "shape (erase_entry d r) = (shape r)(en_topic_id e := left d (ip_key (en_bound_addr e)) (unfresh ts))"
  proof -
    have "shape (forget_fresh e r) = shape r" by (rule F(4))
    then show ?thesis
      using assms(1) ts'(1) m [of "ip_key (en_bound_addr e)"] l
      by (auto simp: erase_entry_def Let_def shape_def left_def fun_eq_iff)
  qed
  note eq = erase_entry_def Let_def assms(1) ts'(1)
  show "rg_listing (erase_entry d r) = (if left d (ip_key (en_bound_addr e)) (unfresh ts) = None
      then del (tst_order ts) (rg_listing r) else rg_listing r)"
    by (simp add: eq m o F)
qed (simp_all add: erase_entry_def Let_def assms(1) coreD [OF forget_fresh_simps(2)] split: option.split)

text \<open>The invariant with the owner lists \<open>ol\<close>.\<close>

definition inv_with :: "(ConnKey \<Rightarrow> DevId list) \<Rightarrow> Registry \<Rightarrow> bool" where
  "inv_with ol r \<longleftrightarrow> member_inv (ent r) (shape r) \<and> quota_inv (rg_cfg r) (rg_per_ip_total r) (ent r) (shape r)
     \<and> owner_inv ol (ent r) \<and> listing_inv (rg_listing r) (rg_next_order r) (shape r) \<and> 0 < rg_next_order r"

lemma core_inv_with: "core_inv r \<longleftrightarrow> inv_with (\<lambda>ow. owner_list ow r) r"
  by (simp add: core_inv_def inv_with_def)

lemma topic_exists:
  assumes "member_inv (ent r) (shape r)" "get d (rg_by_dev r) = Some e"
  obtains ts where "get (en_topic_id e) (rg_topics r) = Some ts"
  using member_inv_topic [OF assms(1) ent_get [OF assms(2)]] by (auto simp: shape_def)

lemma erase_step:
  assumes inv: "inv_with ol r" and d: "get d (rg_by_dev r) = Some e"
  shows "inv_with (ol(en_owner e := removeAll d (ol (en_owner e)))) (erase_entry d r)"
proof -
  have mi: "member_inv (ent r) (shape r)" using inv by (simp add: inv_with_def)
  obtain ts where ts: "get (en_topic_id e) (rg_topics r) = Some ts" using topic_exists [OF mi d] .
  have sh: "shape r (en_topic_id e) = Some (unfresh ts)" using ts by (simp add: shape_def)
  note E = ent_get [OF d]
  have o: "tst_order (unfresh ts) = tst_order ts" by simp
  show ?thesis
    unfolding inv_with_def erase_entry_fields [OF d ts]
    using inv member_inv_leave [OF mi E sh] quota_inv_leave [OF _ mi E sh]
      owner_inv_leave [where E = "ent r", OF _ E] listing_inv_leave [where T = "shape r", OF _ sh]
    unfolding inv_with_def o by blast
qed

lemma erase_one:
  assumes inv: "inv_with (ol(ow := d # ds)) r"
  shows "inv_with (ol(ow := ds)) (erase_entry d r) \<and> ent (erase_entry d r) = (ent r)(d := None)
    \<and> rg_by_owner (erase_entry d r) = rg_by_owner r \<and> rg_relays (erase_entry d r) = rg_relays r
    \<and> rg_relays_per_ip (erase_entry d r) = rg_relays_per_ip r \<and> rg_cfg (erase_entry d r) = rg_cfg r"
proof -
  have own: "set (d # ds) = owned_by (ent r) ow" and dis: "distinct (d # ds)"
    using inv unfolding inv_with_def owner_inv_def by (metis fun_upd_same)+
  have "d \<in> owned_by (ent r) ow" using own by auto
  then obtain t i where "ent r d = Some (t, i, ow)" unfolding owned_by_def by blast
  then obtain e where e: "get d (rg_by_dev r) = Some e" "en_owner e = ow" by (auto simp: ent_def)
  have mi: "member_inv (ent r) (shape r)" using inv by (simp add: inv_with_def)
  obtain ts where ts: "get (en_topic_id e) (rg_topics r) = Some ts" using topic_exists [OF mi e(1)] .
  have "(ol(ow := d # ds))(ow := removeAll d ((ol(ow := d # ds)) ow)) = ol(ow := ds)"
    using dis by (simp add: removeAll_id)
  then have "inv_with (ol(ow := ds)) (erase_entry d r)"
    using erase_step [OF inv e(1)] unfolding e(2) by metis
  then show ?thesis using erase_entry_fields [OF e(1) ts] by simp
qed

lemma erase_fold:
  assumes "inv_with (ol(ow := ds)) r"
  shows "inv_with (ol(ow := [])) (fold erase_entry ds r)
    \<and> ent (fold erase_entry ds r) = (\<lambda>d. if d \<in> set ds then None else ent r d)
    \<and> rg_by_owner (fold erase_entry ds r) = rg_by_owner r
    \<and> rg_relays (fold erase_entry ds r) = rg_relays r
    \<and> rg_relays_per_ip (fold erase_entry ds r) = rg_relays_per_ip r
    \<and> rg_cfg (fold erase_entry ds r) = rg_cfg r"
  using assms
proof (induction ds arbitrary: r)
  case (Cons d ds)
  note one = erase_one [OF Cons.prems]
  from Cons.IH [OF one [THEN conjunct1]] show ?case using one by (auto simp: fun_eq_iff)
qed simp

lemma owner_list_upd:
  "(\<lambda>o'. owner_list o' (r\<lparr>rg_by_owner := put ow l (rg_by_owner r)\<rparr>)) = (\<lambda>o'. owner_list o' r)(ow := l)"
  "(\<lambda>o'. owner_list o' (r\<lparr>rg_by_owner := del ow (rg_by_owner r)\<rparr>)) = (\<lambda>o'. owner_list o' r)(ow := [])"
  by (auto simp: owner_list_def)

lemma inv_with_by_owner: "inv_with ol (r\<lparr>rg_by_owner := x\<rparr>) = inv_with ol r"
proof -
  have "ent (r\<lparr>rg_by_owner := x\<rparr>) = ent r" "shape (r\<lparr>rg_by_owner := x\<rparr>) = shape r"
    by (simp_all add: ent_def shape_def)
  then show ?thesis by (simp add: inv_with_def)
qed

lemma core_inv_unregister:
  assumes inv: "core_inv r"
  shows "core_inv (snd (unregister d ow r))"
proof (cases "\<exists>e. get d (rg_by_dev r) = Some e \<and> en_owner e = ow")
  case True
  then obtain e where e: "get d (rg_by_dev r) = Some e" "en_owner e = ow" by blast
  define l where "l = removeAll d (owner_list ow r)"
  define r' where "r' = r\<lparr>rg_by_owner := (if l = [] then del ow (rg_by_owner r) else put ow l (rg_by_owner r))\<rparr>"
  have un: "snd (unregister d ow r) = erase_entry d r'"
    using e by (simp add: unregister_def Let_def l_def r'_def)
  have ol: "(\<lambda>o'. owner_list o' r') = (\<lambda>o'. owner_list o' r)(ow := l)"
    by (simp add: r'_def owner_list_upd)
  have i: "inv_with (\<lambda>o'. owner_list o' r) r'" "get d (rg_by_dev r') = Some e"
    using inv e by (simp_all add: core_inv_with r'_def inv_with_by_owner)
  have "rg_by_owner (erase_entry d r') = rg_by_owner r'"
  proof -
    obtain ts where "get (en_topic_id e) (rg_topics r') = Some ts"
      using topic_exists [OF _ i(2)] i(1) by (auto simp: inv_with_def)
    then show ?thesis using erase_entry_fields(4) [OF i(2)] by blast
  qed
  then have "(\<lambda>o'. owner_list o' (erase_entry d r')) = (\<lambda>o'. owner_list o' r)(ow := l)"
    using ol by (simp add: owner_list_def)
  then show ?thesis using erase_step [OF i] e(2) unfolding un core_inv_with l_def by simp
qed (use inv in \<open>auto simp: unregister_def split: option.split\<close>)

section \<open>Relay bindings\<close>

text \<open>Two bindings for one kind and pair of devices, in either order\<close>

definition same_pair :: "Relay \<Rightarrow> Relay \<Rightarrow> bool" where
  "same_pair a b \<longleftrightarrow> ry_kind a = ry_kind b
     \<and> (ry_dev a = ry_dev b \<or> ry_dev a = (snd (ry_dev b), fst (ry_dev b)))"

definition pairs_unique :: "(RelayId, Relay) mapping \<Rightarrow> bool" where
  "pairs_unique m \<longleftrightarrow> (\<forall>i j a b. get i m = Some a \<longrightarrow> get j m = Some b \<longrightarrow> same_pair a b \<longrightarrow> i = j)"

lemma pairs_unique_put:
  assumes "pairs_unique m" "get i m = Some rl" "ry_kind rl' = ry_kind rl" "ry_dev rl' = ry_dev rl"
  shows "pairs_unique (put i rl' m)"
proof -
  have "same_pair rl' b = same_pair rl b" "same_pair b rl' = same_pair b rl" for b
    using assms(3,4) by (simp_all add: same_pair_def)
  then show ?thesis using assms(1,2) unfolding pairs_unique_def get_put by (metis option.inject)
qed

lemma pairs_unique_new:
  assumes "pairs_unique m" "\<And>j b. get j m = Some b \<Longrightarrow> \<not> same_pair rl b"
  shows "pairs_unique (put i rl m)"
proof -
  have "same_pair b rl = same_pair rl b" for b by (auto simp: same_pair_def)
  then show ?thesis using assms unfolding pairs_unique_def get_put by (metis option.inject)
qed

lemma pairs_unique_del: "pairs_unique m \<Longrightarrow> pairs_unique (del i m)"
  unfolding pairs_unique_def get_del by (metis option.distinct(1))

definition relay_inv :: "Registry \<Rightarrow> bool" where
  "relay_inv r \<longleftrightarrow> (\<forall>i rl. get i (rg_relays r) = Some rl \<longrightarrow> ry_id rl = i \<and> i \<noteq> 0
       \<and> ry_bytes rl \<le> rc_relay_max_bytes (rg_cfg r))
     \<and> counts (rg_relays_per_ip r) (Mapping.keys (rg_relays r)) (\<lambda>i. ry_counted_ip (the (get i (rg_relays r))))
     \<and> card (Mapping.keys (rg_relays r)) \<le> rc_max_relays (rg_cfg r)
     \<and> (\<forall>k. card {i \<in> Mapping.keys (rg_relays r). ry_counted_ip (the (get i (rg_relays r))) = k}
            \<le> max 1 (rc_max_relays_per_ip (rg_cfg r)))
     \<and> pairs_unique (rg_relays r)"

lemma relay_inv_cong:
  assumes "rg_relays r = rg_relays s" "rg_relays_per_ip r = rg_relays_per_ip s" "rg_cfg r = rg_cfg s"
  shows "relay_inv r = relay_inv s"
  using assms by (simp add: relay_inv_def)

lemma relay_finite: "relay_inv r \<Longrightarrow> finite (Mapping.keys (rg_relays r))"
  by (simp add: relay_inv_def counts_def)

text \<open>A binding is rewritten, keeping its id, kind, devices and the address it is counted under.\<close>

lemma relay_inv_put:
  assumes inv: "relay_inv r" and i: "get i (rg_relays r) = Some rl"
    and same: "ry_id rl' = ry_id rl" "ry_kind rl' = ry_kind rl" "ry_dev rl' = ry_dev rl"
      "ry_counted_ip rl' = ry_counted_ip rl"
    and b: "ry_bytes rl' \<le> rc_relay_max_bytes (rg_cfg r)"
  shows "relay_inv (r\<lparr>rg_relays := put i rl' (rg_relays r)\<rparr>)"
proof -
  have keys: "insert i (Mapping.keys (rg_relays r)) = Mapping.keys (rg_relays r)"
    using i by (auto simp: in_keys)
  have ip: "ry_counted_ip (the (get j (put i rl' (rg_relays r)))) = ry_counted_ip (the (get j (rg_relays r)))" for j
    using i same by (cases "i = j") auto
  have "\<forall>j rl. get j (put i rl' (rg_relays r)) = Some rl \<longrightarrow> ry_id rl = j \<and> j \<noteq> 0
       \<and> ry_bytes rl \<le> rc_relay_max_bytes (rg_cfg r)"
    using inv i same b by (auto simp: relay_inv_def)
  moreover have "pairs_unique (put i rl' (rg_relays r))"
    using pairs_unique_put [OF _ i] inv same by (simp add: relay_inv_def)
  ultimately show ?thesis
    using inv unfolding relay_inv_def by (simp add: keys ip del: get_put)
qed

lemma release_relay_fields:
  "rg_relays (release_relay i r) = del i (rg_relays r)" "rg_cfg (release_relay i r) = rg_cfg r"
  "rg_by_dev (release_relay i r) = rg_by_dev r" "rg_topics (release_relay i r) = rg_topics r"
  "rg_by_owner (release_relay i r) = rg_by_owner r" "rg_fault (release_relay i r) = rg_fault r"
  "rg_listing (release_relay i r) = rg_listing r" "rg_stats (release_relay i r) = rg_stats r"
  "rg_fresh_order (release_relay i r) = rg_fresh_order r" "rg_next_order (release_relay i r) = rg_next_order r"
  "rg_per_ip_total (release_relay i r) = rg_per_ip_total r" "rg_secret (release_relay i r) = rg_secret r"
  by (auto simp: release_relay_def split: option.split intro: mapping_eqI)

lemma relay_inv_release:
  assumes inv: "relay_inv r"
  shows "relay_inv (release_relay i r)"
proof (cases "get i (rg_relays r)")
  case None
  then show ?thesis using inv by (simp add: release_relay_def)
next
  case (Some rl)
  let ?ip = "\<lambda>i. ry_counted_ip (the (get i (rg_relays r)))"
  let ?ip' = "\<lambda>j. ry_counted_ip (the (get j (del i (rg_relays r))))"
  let ?K = "Mapping.keys (rg_relays r)"
  have i: "i \<in> ?K" "?ip i = ry_counted_ip rl" using Some by (auto simp: in_keys)
  have fin: "finite ?K" using relay_finite [OF inv] .
  have "counts (decrement (?ip i) (rg_relays_per_ip r)) (?K - {i}) ?ip"
    using counts_remove [of "rg_relays_per_ip r" ?K ?ip i] i(1) inv unfolding relay_inv_def by blast
  then have 1: "counts (decrement (ry_counted_ip rl) (rg_relays_per_ip r)) (?K - {i}) ?ip'"
    unfolding i(2) by (subst counts_cong [of _ "?K - {i}" _ ?ip]) auto
  have "{j \<in> ?K - {i}. ?ip' j = k} \<subseteq> {j \<in> ?K. ?ip j = k}" for k by auto
  then have 2: "card {j \<in> ?K - {i}. ?ip' j = k} \<le> card {j \<in> ?K. ?ip j = k}" for k
    using fin by (intro card_mono) auto
  have 3: "card (?K - {i}) \<le> card ?K" using fin by (intro card_mono) auto
  have 4: "card ?K \<le> rc_max_relays (rg_cfg r)" "\<And>k. card {j \<in> ?K. ?ip j = k} \<le> max 1 (rc_max_relays_per_ip (rg_cfg r))"
    using inv by (simp_all add: relay_inv_def)
  have "rg_relays_per_ip (release_relay i r) = decrement (ry_counted_ip rl) (rg_relays_per_ip r)"
    using Some by (simp add: release_relay_def)
  moreover have "\<forall>j rl. get j (del i (rg_relays r)) = Some rl \<longrightarrow> ry_id rl = j \<and> j \<noteq> 0
      \<and> ry_bytes rl \<le> rc_relay_max_bytes (rg_cfg r)" "pairs_unique (del i (rg_relays r))"
    using inv pairs_unique_del by (auto simp: relay_inv_def)
  ultimately show ?thesis
    unfolding relay_inv_def release_relay_fields keys_del
    using 1 order_trans [OF 2 4(2)] order_trans [OF 3 4(1)] by simp
qed

lemma relays_where_iff:
  assumes "finite (Mapping.keys (rg_relays r))"
  shows "i \<in> set (relays_where P r) \<longleftrightarrow> (\<exists>rl. get i (rg_relays r) = Some rl \<and> P rl)"
  using assms by (auto simp: relays_where_def ordered_keys_set in_keys split: option.splits)

lemma release_fold:
  "(relay_inv r \<longrightarrow> relay_inv (fold release_relay is r))
   \<and> (\<forall>j. get j (rg_relays (fold release_relay is r)) = (if j \<in> set is then None else get j (rg_relays r)))
   \<and> rg_by_dev (fold release_relay is r) = rg_by_dev r \<and> rg_topics (fold release_relay is r) = rg_topics r
   \<and> rg_by_owner (fold release_relay is r) = rg_by_owner r \<and> rg_fault (fold release_relay is r) = rg_fault r
   \<and> rg_listing (fold release_relay is r) = rg_listing r \<and> rg_stats (fold release_relay is r) = rg_stats r
   \<and> rg_fresh_order (fold release_relay is r) = rg_fresh_order r
   \<and> rg_next_order (fold release_relay is r) = rg_next_order r
   \<and> rg_per_ip_total (fold release_relay is r) = rg_per_ip_total r \<and> rg_cfg (fold release_relay is r) = rg_cfg r
   \<and> rg_secret (fold release_relay is r) = rg_secret r"
  by (induction "is" arbitrary: r) (auto simp: relay_inv_release release_relay_fields)

lemmas release_fold_fields = release_fold [THEN conjunct2]

lemma existing_relay_Some:
  assumes "existing_relay f p k r = Some i" "finite (Mapping.keys (rg_relays r))"
  obtains rl where "get i (rg_relays r) = Some rl" "ry_kind rl = k" "pair_side f p rl \<noteq> None"
proof -
  have "i \<in> set (relays_where (\<lambda>rl. ry_kind rl = k \<and> pair_side f p rl \<noteq> None) r)"
    using assms(1) unfolding existing_relay_def find_Some_iff by (metis nth_mem)
  then show thesis using that relays_where_iff [OF assms(2)] by auto
qed

lemma existing_relay_None:
  assumes "existing_relay f p k r = None" "finite (Mapping.keys (rg_relays r))" "get i (rg_relays r) = Some rl"
    "ry_kind rl = k"
  shows "pair_side f p rl = None"
proof (rule ccontr)
  assume "pair_side f p rl \<noteq> None"
  then have "i \<in> set (relays_where (\<lambda>rl. ry_kind rl = k \<and> pair_side f p rl \<noteq> None) r)"
    using assms relays_where_iff [OF assms(2)] by auto
  then show False using assms(1) by (auto simp: existing_relay_def find_None_iff)
qed

lemma relay_inv_insert:
  assumes inv: "relay_inv r" and i: "get i (rg_relays r) = None" "ry_id rl = i" "i \<noteq> 0" "ry_bytes rl = 0"
    and pr: "\<And>j b. get j (rg_relays r) = Some b \<Longrightarrow> \<not> same_pair rl b"
    and room: "card (Mapping.keys (rg_relays r)) < rc_max_relays (rg_cfg r)"
      "\<not> over (ry_counted_ip rl) (rg_relays_per_ip r) (rc_max_relays_per_ip (rg_cfg r))"
  shows "relay_inv (r\<lparr>rg_relays := put i rl (rg_relays r),
      rg_relays_per_ip := increment (ry_counted_ip rl) (rg_relays_per_ip r)\<rparr>)"
proof -
  let ?ip = "\<lambda>j. ry_counted_ip (the (get j (rg_relays r)))"
  let ?ip' = "\<lambda>j. ry_counted_ip (the (get j (put i rl (rg_relays r))))"
  let ?K = "Mapping.keys (rg_relays r)"
  have fin: "finite ?K" using relay_finite [OF inv] .
  have nin: "i \<notin> ?K" using i(1) by (simp add: get_None_keys)
  have c: "counts (rg_relays_per_ip r) ?K ?ip" using inv by (simp add: relay_inv_def)
  then have "counts (rg_relays_per_ip r) ?K ?ip'"
    using nin by (subst counts_cong [of ?K ?K _ ?ip]) auto
  from counts_insert [OF this nin]
  have 1: "counts (increment (ry_counted_ip rl) (rg_relays_per_ip r)) (insert i ?K) ?ip'" by simp
  have "{j \<in> insert i ?K. ?ip' j = k}
      = (if ry_counted_ip rl = k then insert i {j \<in> ?K. ?ip j = k} else {j \<in> ?K. ?ip j = k})" for k
    using nin by auto
  then have card: "card {j \<in> insert i ?K. ?ip' j = k}
      = card {j \<in> ?K. ?ip j = k} + (if ry_counted_ip rl = k then 1 else 0)" for k
    using fin nin by simp
  have old: "card {j \<in> ?K. ?ip j = k} \<le> max 1 (rc_max_relays_per_ip (rg_cfg r))" for k
    using inv unfolding relay_inv_def by blast
  have 2: "card {j \<in> insert i ?K. ?ip' j = k} \<le> max 1 (rc_max_relays_per_ip (rg_cfg r))" for k
    using old [of k] not_over_counts [OF c room(2)] unfolding card by auto
  have "\<forall>j rl'. get j (put i rl (rg_relays r)) = Some rl' \<longrightarrow> ry_id rl' = j \<and> j \<noteq> 0
      \<and> ry_bytes rl' \<le> rc_relay_max_bytes (rg_cfg r)"
    using inv i by (auto simp: relay_inv_def)
  moreover have "pairs_unique (put i rl (rg_relays r))"
    using pairs_unique_new [OF _ pr] inv by (simp add: relay_inv_def)
  ultimately show ?thesis
    unfolding relay_inv_def using 1 2 fin nin room(1) by (simp del: get_put)
qed

lemma relay_inv_alloc:
  assumes inv: "relay_inv r" and res: "relay_alloc f p k ow src now dw r = Some (g, r')"
  shows "relay_inv r'"
proof -
  note fin = relay_finite [OF inv]
  have bump: "relay_inv (bump_rej_quota r) = relay_inv r" by (rule relay_inv_cong) (simp_all add: bump_rej_quota_def)
  show ?thesis
  proof (cases "\<exists>fe pe. get f (rg_by_dev r) = Some fe \<and> get p (rg_by_dev r) = Some pe
      \<and> rc_relay_enabled (rg_cfg r) \<and> en_owner fe = ow \<and> en_topic_id fe = en_topic_id pe")
    case False
    then show ?thesis using inv res by (auto simp: relay_alloc_def split: option.splits if_splits)
  next
    case True
    then obtain fe pe where e: "get f (rg_by_dev r) = Some fe" "get p (rg_by_dev r) = Some pe"
      "rc_relay_enabled (rg_cfg r)" "en_owner fe = ow" "en_topic_id fe = en_topic_id pe" by blast
    show ?thesis
    proof (cases "existing_relay f p k r")
      case (Some i)
      obtain rl where rl: "get i (rg_relays r) = Some rl" using existing_relay_Some [OF Some fin] by metis
      have "ry_bytes rl \<le> rc_relay_max_bytes (rg_cfg r)" using inv rl by (simp add: relay_inv_def)
      then show ?thesis
        using res e Some rl inv bump relay_inv_put [OF inv rl, of "rl\<lparr>ry_last_seen := now\<rparr>"]
        by (auto simp: relay_alloc_def split: if_splits)
    next
      case None
      have free: "\<not> same_pair rl b"
        if "get j (rg_relays r) = Some b" "ry_dev rl = (f, p)" "ry_kind rl = k" for j b rl
      proof
        assume "same_pair rl b"
        then have "ry_kind b = k" "pair_side f p b \<noteq> None"
          using that by (auto simp: same_pair_def pair_side_def prod_eq_iff)
        then show False using existing_relay_None [OF None fin that(1)] by simp
      qed
      show ?thesis
      proof (cases "relay_new (fe\<lparr>en_dev_id := f\<rparr>) (pe\<lparr>en_dev_id := p\<rparr>) k ow (ip_key src) now dw r")
        case N: None
        then show ?thesis using res e None inv bump by (auto simp: relay_alloc_def split: if_splits)
      next
        case (Some rl)
        then have rl: "get (ry_id rl) (rg_relays r) = None" "ry_id rl \<noteq> 0" "ry_bytes rl = 0"
          "ry_dev rl = (f, p)" "ry_kind rl = k" "ry_counted_ip rl = ip_key src"
          by (auto simp: relay_new_def find_Some_iff split: option.splits)
        have "relay_inv (s\<lparr>rg_stats := x\<rparr>) = relay_inv s" for s x by (rule relay_inv_cong) simp_all
        then show ?thesis
          using res e None Some inv bump fin relay_inv_insert [OF inv rl(1) refl rl(2,3) free [OF _ rl(4,5)]] rl(6)
          by (auto simp: relay_alloc_def Mapping.size_def split: if_splits)
      qed
    qed
  qed
qed

end
