(* ===== verification/Registry_Fresh.thy ===== *)
theory Registry_Fresh
  imports Registry_Inv
begin

text \<open>
  Freshness. The ordered map \<^verbatim>\<open>fresh_order_\<close> holds one key per counted record; the counters of the
  topics and of the statistics count its keys, modulo their width, and no lookup of a missing topic
  occurs. With a clock that does not run backwards, the records it does not hold are stale, so that
  after \<^verbatim>\<open>expire_fresh\<close> it holds exactly the fresh ones.
\<close>

definition fresh_keys :: "(instant \<times> DevId, TopicId) mapping \<Rightarrow> TopicId \<Rightarrow> (instant \<times> DevId) set" where
  "fresh_keys fo tp = {k. get k fo = Some tp}"

definition fresh_ok :: "Registry \<Rightarrow> bool" where
  "fresh_ok r \<longleftrightarrow> \<not> rg_fault r \<and> finite (Mapping.keys (rg_fresh_order r))
     \<and> (\<forall>t d tp. get (t, d) (rg_fresh_order r) = Some tp
          \<longrightarrow> (\<exists>e. get d (rg_by_dev r) = Some e \<and> en_last_seen e = t \<and> en_topic_id e = tp))
     \<and> (\<forall>tp ts. get tp (rg_topics r) = Some ts \<longrightarrow> tst_fresh ts = of_nat (card (fresh_keys (rg_fresh_order r) tp)))
     \<and> st_entries_fresh (rg_stats r) = of_nat (card (Mapping.keys (rg_fresh_order r)))"

definition fresh_cover :: "instant \<Rightarrow> Registry \<Rightarrow> bool" where
  "fresh_cover clock r \<longleftrightarrow> (\<forall>d e. get d (rg_by_dev r) = Some e
     \<longrightarrow> get (en_last_seen e, d) (rg_fresh_order r) \<noteq> None \<or> \<not> is_fresh r e clock)"

lemma fresh_keys_sub: "fresh_keys fo tp \<subseteq> Mapping.keys fo"
  by (auto simp: fresh_keys_def in_keys)

lemma fresh_keys_put:
  "get k fo = None \<Longrightarrow> fresh_keys (put k tp fo) tp' = (if tp = tp' then insert k (fresh_keys fo tp') else fresh_keys fo tp')"
  by (auto simp: fresh_keys_def)

lemma fresh_keys_del:
  "get k fo = Some tp \<Longrightarrow> fresh_keys (del k fo) tp' = (if tp = tp' then fresh_keys fo tp' - {k} else fresh_keys fo tp')"
  by (auto simp: fresh_keys_def)

lemma of_nat_card_remove:
  "finite A \<Longrightarrow> x \<in> A \<Longrightarrow> (of_nat (card (A - {x})) :: 'a::len word) = of_nat (card A) - 1"
  by (metis card_Suc_Diff1 add_diff_cancel_left' of_nat_Suc)

lemma of_nat_card_insert:
  "finite A \<Longrightarrow> x \<notin> A \<Longrightarrow> (of_nat (card (insert x A)) :: 'a::len word) = of_nat (card A) + 1"
  by (simp add: add.commute)

lemma add_fresh_topics:
  assumes "get t (rg_topics r) = Some ts"
  shows "rg_topics (add_fresh n t r) = put t (ts\<lparr>tst_fresh := tst_fresh ts + n\<rparr>) (rg_topics r)"
    "rg_fault (add_fresh n t r) = rg_fault r"
  using assms by (simp_all add: add_fresh_def)

text \<open>One key goes: the step \<open>forget_fresh\<close> and the loop of \<open>expire_fresh\<close> share.\<close>

definition drop_key :: "instant \<times> DevId \<Rightarrow> TopicId \<Rightarrow> Registry \<Rightarrow> Registry" where
  "drop_key k tp r = add_entries_fresh (- 1) (add_fresh (- 1) tp (r\<lparr>rg_fresh_order := del k (rg_fresh_order r)\<rparr>))"

lemma drop_key_simps [simp]:
  "rg_by_dev (drop_key k tp r) = rg_by_dev r" "core (drop_key k tp r) = core r"
  "rg_fresh_order (drop_key k tp r) = del k (rg_fresh_order r)"
  by (simp_all add: drop_key_def)

lemma drop_key_cfg [simp]: "rg_cfg (drop_key k tp r) = rg_cfg r"
  by (rule coreD) simp

lemma drop_key_loop:
  "(add_entries_fresh (- 1) (add_fresh (- 1) tp r))\<lparr>rg_fresh_order := del k (rg_fresh_order r)\<rparr>
   = drop_key k tp r"
  by (cases r) (simp add: drop_key_def add_fresh_def add_entries_fresh_def split: option.split)

lemma drop_key_ok:
  assumes ok: "fresh_ok r" and k: "get k (rg_fresh_order r) = Some tp" and t: "get tp (rg_topics r) \<noteq> None"
  shows "fresh_ok (drop_key k tp r)"
proof -
  let ?fo = "rg_fresh_order r"
  obtain ts where ts: "get tp (rg_topics r) = Some ts" using t by blast
  let ?r = "r\<lparr>rg_fresh_order := del k ?fo\<rparr>"
  have ts': "get tp (rg_topics ?r) = Some ts" using ts by simp
  have fin: "finite (Mapping.keys ?fo)" using ok by (simp add: fresh_ok_def)
  have ft: "finite (fresh_keys ?fo t')" for t' using fin finite_subset [OF fresh_keys_sub] by blast
  have kin: "k \<in> Mapping.keys ?fo" "k \<in> fresh_keys ?fo tp" using k by (auto simp: in_keys fresh_keys_def)
  have c: "(of_nat (card (fresh_keys (del k ?fo) t')) :: u32) = of_nat (card (fresh_keys ?fo t')) - (if tp = t' then 1 else 0)" for t'
    using of_nat_card_remove [OF ft kin(2)] by (cases "tp = t'") (simp_all add: fresh_keys_del [OF k])
  have "tst_fresh x = of_nat (card (fresh_keys (del k ?fo) t'))" if "get t' (rg_topics (drop_key k tp r)) = Some x" for t' x
    using that ok ts
    by (auto simp: c drop_key_def add_fresh_topics [OF ts'] fresh_ok_def split: if_splits)
  moreover have "st_entries_fresh (rg_stats (drop_key k tp r)) = of_nat (card (Mapping.keys (del k ?fo)))"
    using ok
    by (simp add: of_nat_card_remove [OF fin kin(1)] drop_key_def add_entries_fresh_def fresh_ok_def)
  moreover have "\<not> rg_fault (drop_key k tp r)"
    using ok by (simp add: drop_key_def add_fresh_topics [OF ts'] fresh_ok_def)
  ultimately show ?thesis using ok fin by (auto simp: fresh_ok_def)
qed

lemma forget_fresh_drop:
  assumes "fresh_ok r" "get d (rg_by_dev r) = Some e" "en_dev_id e' = d" "en_last_seen e' = en_last_seen e"
    "en_topic_id e' = en_topic_id e"
  shows "forget_fresh e' r = (if get (en_last_seen e, d) (rg_fresh_order r) = None then r
                              else drop_key (en_last_seen e, d) (en_topic_id e) r)"
  using assms by (auto simp: forget_fresh_def drop_key_def Let_def)

lemma forget_fresh_none: "get (en_last_seen e, en_dev_id e) (rg_fresh_order r) = None \<Longrightarrow> forget_fresh e r = r"
  by (simp add: forget_fresh_def)

text \<open>The topic of every counted record exists.\<close>

definition topics_exist :: "Registry \<Rightarrow> bool" where
  "topics_exist r \<longleftrightarrow> (\<forall>d e. get d (rg_by_dev r) = Some e \<longrightarrow> get (en_topic_id e) (rg_topics r) \<noteq> None)"

lemma core_inv_topics: "core_inv r \<Longrightarrow> topics_exist r"
  by (auto simp: core_inv_def topics_exist_def elim: topic_exists)

lemma forget_fresh_ok:
  assumes ok: "fresh_ok r" and tx: "topics_exist r" and d: "get d (rg_by_dev r) = Some e" and e': "en_dev_id e' = d" "en_last_seen e' = en_last_seen e"
    "en_topic_id e' = en_topic_id e"
  shows "fresh_ok (forget_fresh e' r)" "get (t, d) (rg_fresh_order (forget_fresh e' r)) = None"
    "\<And>d' t. d' \<noteq> d \<Longrightarrow> get (t, d') (rg_fresh_order (forget_fresh e' r)) = get (t, d') (rg_fresh_order r)"
proof -
  have k: "get (t, d) (rg_fresh_order r) = Some tp \<Longrightarrow> t = en_last_seen e \<and> tp = en_topic_id e" for t tp
    using ok d unfolding fresh_ok_def by fastforce
  have t: "get (en_topic_id e) (rg_topics r) \<noteq> None" using tx d by (simp add: topics_exist_def)
  note F = forget_fresh_drop [OF ok d e']
  show "fresh_ok (forget_fresh e' r)"
  proof (cases "get (en_last_seen e, d) (rg_fresh_order r)")
    case (Some tp)
    then have "tp = en_topic_id e" using k by blast
    then show ?thesis unfolding F using Some drop_key_ok [OF ok _ t] by simp
  qed (simp add: F ok)
  show "get (t, d) (rg_fresh_order (forget_fresh e' r)) = None"
    unfolding F using k by (cases "get (t, d) (rg_fresh_order r)") auto
  show "get (t, d') (rg_fresh_order (forget_fresh e' r)) = get (t, d') (rg_fresh_order r)" if "d' \<noteq> d" for d' t
    unfolding F using that by simp
qed

lemma add_key_ok:
  assumes ok: "fresh_ok r" and no: "\<And>t. get (t, d) (rg_fresh_order r) = None"
    and ts: "get (en_topic_id e) (rg_topics r) = Some ts" and e: "en_dev_id e = d" "en_last_seen e = now"
  shows "fresh_ok (add_entries_fresh 1 (add_fresh 1 (en_topic_id e)
      (r\<lparr>rg_by_dev := put d e (rg_by_dev r), rg_fresh_order := put (now, d) (en_topic_id e) (rg_fresh_order r)\<rparr>)))"
    (is "fresh_ok (add_entries_fresh 1 (add_fresh 1 _ ?r))")
proof -
  let ?fo = "rg_fresh_order r" and ?k = "(now, d)"
  have ts': "get (en_topic_id e) (rg_topics ?r) = Some ts" using ts by simp
  have fin: "finite (Mapping.keys ?fo)" using ok by (simp add: fresh_ok_def)
  have ft: "finite (fresh_keys ?fo t')" for t' using fin finite_subset [OF fresh_keys_sub] by blast
  have kin: "?k \<notin> Mapping.keys ?fo" "?k \<notin> fresh_keys ?fo t'" for t'
    using no by (auto simp: in_keys fresh_keys_def)
  have c: "(of_nat (card (fresh_keys (put ?k (en_topic_id e) ?fo) t')) :: u32)
      = of_nat (card (fresh_keys ?fo t')) + (if en_topic_id e = t' then 1 else 0)" for t'
    using of_nat_card_insert [OF ft kin(2)] by (cases "en_topic_id e = t'") (simp_all add: fresh_keys_put no)
  let ?s = "add_entries_fresh 1 (add_fresh 1 (en_topic_id e) ?r)"
  have 1: "tst_fresh x = of_nat (card (fresh_keys (rg_fresh_order ?s) t'))" if "get t' (rg_topics ?s) = Some x" for t' x
    using that ok ts by (auto simp: c add_fresh_topics [OF ts'] fresh_ok_def split: if_splits)
  have 2: "st_entries_fresh (rg_stats ?s) = of_nat (card (Mapping.keys (rg_fresh_order ?s)))"
    using ok by (simp add: of_nat_card_insert [OF fin kin(1)] add_entries_fresh_def fresh_ok_def)
  have 3: "\<not> rg_fault ?s" using ok by (simp add: add_fresh_topics [OF ts'] fresh_ok_def)
  have 4: "\<exists>e'. get d' (rg_by_dev ?s) = Some e' \<and> en_last_seen e' = t \<and> en_topic_id e' = tp"
    if "get (t, d') (rg_fresh_order ?s) = Some tp" for t d' tp
    using that ok no e by (cases "d' = d") (auto simp: fresh_ok_def split: if_splits)
  show ?thesis unfolding fresh_ok_def using 1 2 3 4 fin by auto
qed

lemma fresh_okD:
  "fresh_ok r \<Longrightarrow> get (t, d) (rg_fresh_order r) = Some tp \<Longrightarrow>
   \<exists>e. get d (rg_by_dev r) = Some e \<and> en_last_seen e = t \<and> en_topic_id e = tp"
  by (simp add: fresh_ok_def)

lemma forget_fresh_any:
  assumes ok: "fresh_ok r" and tx: "topics_exist r"
    and same: "\<And>e0. get (en_dev_id e) (rg_by_dev r) = Some e0 \<Longrightarrow>
      en_last_seen e = en_last_seen e0 \<and> en_topic_id e = en_topic_id e0"
  shows "fresh_ok (forget_fresh e r)"
    and "get (t, en_dev_id e) (rg_fresh_order (forget_fresh e r)) = None"
    and "d' \<noteq> en_dev_id e \<Longrightarrow> get (t, d') (rg_fresh_order (forget_fresh e r)) = get (t, d') (rg_fresh_order r)"
proof -
  have "fresh_ok (forget_fresh e r) \<and> get (t, en_dev_id e) (rg_fresh_order (forget_fresh e r)) = None
    \<and> (d' \<noteq> en_dev_id e \<longrightarrow> get (t, d') (rg_fresh_order (forget_fresh e r)) = get (t, d') (rg_fresh_order r))"
  proof (cases "get (en_dev_id e) (rg_by_dev r)")
    case None
    then have "get (t, en_dev_id e) (rg_fresh_order r) = None" for t
      using fresh_okD [OF ok, of t "en_dev_id e"] by (cases "get (t, en_dev_id e) (rg_fresh_order r)") auto
    then show ?thesis using ok by (simp add: forget_fresh_none)
  next
    case (Some e0)
    then show ?thesis using forget_fresh_ok [OF ok tx Some refl] same [OF Some] by simp
  qed
  then show "fresh_ok (forget_fresh e r)"
    "get (t, en_dev_id e) (rg_fresh_order (forget_fresh e r)) = None"
    "d' \<noteq> en_dev_id e \<Longrightarrow> get (t, d') (rg_fresh_order (forget_fresh e r)) = get (t, d') (rg_fresh_order r)"
    by simp_all
qed

lemma mark_fresh_ok:
  assumes ok: "fresh_ok r" and tx: "topics_exist r"
    and t: "get (en_topic_id e) (rg_topics r) \<noteq> None"
    and same: "\<And>e0. get (en_dev_id e) (rg_by_dev r) = Some e0 \<Longrightarrow>
      en_last_seen e = en_last_seen e0 \<and> en_topic_id e = en_topic_id e0"
  shows "fresh_ok (mark_fresh e now r)"
    and "get (now, en_dev_id e) (rg_fresh_order (mark_fresh e now r)) = Some (en_topic_id e)"
    and "\<And>d' t. d' \<noteq> en_dev_id e \<Longrightarrow>
      get (t, d') (rg_fresh_order (mark_fresh e now r)) = get (t, d') (rg_fresh_order r)"
proof -
  let ?d = "en_dev_id e"
  note F = forget_fresh_any [OF ok tx same]
  have "shape (forget_fresh e r) = shape r" by (rule coreD) simp
  moreover have "shape r (en_topic_id e) \<noteq> None" using t by (simp add: shape_def)
  ultimately have "shape (forget_fresh e r) (en_topic_id e) \<noteq> None" by simp
  then obtain ts where ts: "get (en_topic_id e) (rg_topics (forget_fresh e r)) = Some ts" by (auto simp: shape_def)
  have eq: "mark_fresh e now r = add_entries_fresh 1 (add_fresh 1 (en_topic_id (e\<lparr>en_last_seen := now\<rparr>))
      (forget_fresh e r\<lparr>rg_by_dev := put ?d (e\<lparr>en_last_seen := now\<rparr>) (rg_by_dev (forget_fresh e r)),
         rg_fresh_order := put (now, ?d) (en_topic_id (e\<lparr>en_last_seen := now\<rparr>)) (rg_fresh_order (forget_fresh e r))\<rparr>))"
    using F(2) by (simp add: mark_fresh_def Let_def)
  show "fresh_ok (mark_fresh e now r)"
    unfolding eq using ts by (intro add_key_ok F) simp_all
  show "get (now, ?d) (rg_fresh_order (mark_fresh e now r)) = Some (en_topic_id e)"
    unfolding eq by simp
  show "get (t, d') (rg_fresh_order (mark_fresh e now r)) = get (t, d') (rg_fresh_order r)" if "d' \<noteq> ?d" for d' t
    unfolding eq using F(3) [OF _ that] that by simp
qed

section \<open>Expiry\<close>

lemma expire_loop_ok:
  assumes "fresh_ok r" "topics_exist r" "sorted ks" "distinct ks" "set ks = Mapping.keys (rg_fresh_order r)"
  shows "fresh_ok (expire_loop ks now r)
    \<and> (\<forall>k. get k (rg_fresh_order (expire_loop ks now r))
        = (if now - fst k < rc_stale_after (rg_cfg r) then get k (rg_fresh_order r) else None))"
  using assms
proof (induction ks arbitrary: r)
  case Nil
  then have "get k (rg_fresh_order r) = None" for k by (simp add: get_None_keys)
  then show ?case using Nil by simp
next
  case (Cons k ks)
  show ?case
  proof (cases "now - fst k < rc_stale_after (rg_cfg r)")
    case True
    have "now - fst k' < rc_stale_after (rg_cfg r)" if "k' \<in> Mapping.keys (rg_fresh_order r)" for k'
    proof -
      have "k \<le> k'" using that Cons.prems(3,5) by auto
      then have "fst k \<le> fst k'" by (auto simp: less_eq_prod_def)
      then show ?thesis using True by linarith
    qed
    then have "get k' (rg_fresh_order r) = None" if "\<not> now - fst k' < rc_stale_after (rg_cfg r)" for k'
      using that by (metis get_None_keys)
    then show ?thesis using True Cons.prems(1) by simp
  next
    case False
    have "k \<in> Mapping.keys (rg_fresh_order r)" using Cons.prems(5) by auto
    then obtain tp where tp: "get k (rg_fresh_order r) = Some tp" by (auto simp: in_keys)
    then obtain e where "get (snd k) (rg_by_dev r) = Some e" "en_topic_id e = tp"
      using fresh_okD [OF Cons.prems(1), of "fst k" "snd k"] by auto
    then have t: "get tp (rg_topics r) \<noteq> None" using Cons.prems(2) by (auto simp: topics_exist_def)
    have eq: "expire_loop (k # ks) now r = expire_loop ks now (drop_key k tp r)"
      using False tp by (simp add: Let_def drop_key_loop)
    have "shape (drop_key k tp r) = shape r" by (rule coreD) simp
    then have "(get t (rg_topics (drop_key k tp r)) = None) = (get t (rg_topics r) = None)" for t
      by (metis (no_types, lifting) option.map_disc_iff shape_def)
    then have tx: "topics_exist (drop_key k tp r)" using Cons.prems(2) by (simp add: topics_exist_def)
    have keys: "set ks = Mapping.keys (rg_fresh_order (drop_key k tp r))"
      using Cons.prems(4,5) by auto
    show ?thesis
      unfolding eq using Cons.IH [OF drop_key_ok [OF Cons.prems(1) tp t] tx _ _ keys] Cons.prems(3,4) False
      by (auto simp: Mapping.lookup_delete)
  qed
qed

lemma expire_fresh_ok:
  assumes "fresh_ok r" "topics_exist r"
  shows "fresh_ok (expire_fresh now r)"
    and "get k (rg_fresh_order (expire_fresh now r))
        = (if now - fst k < rc_stale_after (rg_cfg r) then get k (rg_fresh_order r) else None)"
proof -
  have "set (Mapping.ordered_keys (rg_fresh_order r)) = Mapping.keys (rg_fresh_order r)"
    using assms(1) by (intro ordered_keys_set) (simp add: fresh_ok_def)
  note L = expire_loop_ok [OF assms ordered_keys_sorted [THEN conjunct1] ordered_keys_sorted [THEN conjunct2] this, of now]
  show "fresh_ok (expire_fresh now r)" using L by (simp add: expire_fresh_def)
  show "get k (rg_fresh_order (expire_fresh now r))
        = (if now - fst k < rc_stale_after (rg_cfg r) then get k (rg_fresh_order r) else None)"
    using L by (simp add: expire_fresh_def)
qed

lemma expire_fresh_cover:
  assumes "fresh_ok r" "topics_exist r" "fresh_cover clock r" "clock \<le> now"
  shows "fresh_cover now (expire_fresh now r)"
proof -
  have cfg: "rg_cfg (expire_fresh now r) = rg_cfg r" by (rule coreD) simp
  show ?thesis
    using assms(3,4) by (fastforce simp: fresh_cover_def is_fresh_def cfg expire_fresh_ok(2) [OF assms(1,2)])
qed

text \<open>After expiry the counter of a topic is the number of its fresh records.\<close>

definition fresh_members :: "Registry \<Rightarrow> TopicId \<Rightarrow> instant \<Rightarrow> DevId set" where
  "fresh_members r tp now = {d. \<exists>e. get d (rg_by_dev r) = Some e \<and> en_topic_id e = tp \<and> is_fresh r e now}"

lemma fresh_counter:
  assumes ok: "fresh_ok r" and tx: "topics_exist r" and cov: "fresh_cover clock r" "clock \<le> now"
    and ts: "get tp (rg_topics (expire_fresh now r)) = Some ts"
  shows "tst_fresh ts = of_nat (card (fresh_members r tp now))"
proof -
  let ?fo = "rg_fresh_order (expire_fresh now r)"
  have "bij_betw snd (fresh_keys ?fo tp) (fresh_members r tp now)"
  proof (rule bij_betwI')
    fix a b assume "a \<in> fresh_keys ?fo tp" "b \<in> fresh_keys ?fo tp"
    then have "get a (rg_fresh_order r) = Some tp" "get b (rg_fresh_order r) = Some tp"
      by (auto simp: fresh_keys_def expire_fresh_ok(2) [OF ok tx] split: if_splits)
    then show "(snd a = snd b) = (a = b)"
      using fresh_okD [OF ok, of "fst a" "snd a" tp] fresh_okD [OF ok, of "fst b" "snd b" tp]
      by (auto simp: prod_eq_iff)
  next
    fix a assume "a \<in> fresh_keys ?fo tp"
    then have "get a (rg_fresh_order r) = Some tp" "now - fst a < rc_stale_after (rg_cfg r)"
      by (auto simp: fresh_keys_def expire_fresh_ok(2) [OF ok tx] split: if_splits)
    then show "snd a \<in> fresh_members r tp now"
      using fresh_okD [OF ok, of "fst a" "snd a" tp] by (auto simp: fresh_members_def is_fresh_def)
  next
    fix d assume "d \<in> fresh_members r tp now"
    then obtain e where e: "get d (rg_by_dev r) = Some e" "en_topic_id e = tp" "is_fresh r e now"
      by (auto simp: fresh_members_def)
    then have "is_fresh r e clock" using cov(2) by (simp add: is_fresh_def)
    then obtain tp' where k: "get (en_last_seen e, d) (rg_fresh_order r) = Some tp'"
      using cov(1) e(1) by (auto simp: fresh_cover_def)
    have "tp' = tp" using fresh_okD [OF ok k] e by auto
    with k have "(en_last_seen e, d) \<in> fresh_keys ?fo tp"
      using e(3) by (simp add: fresh_keys_def expire_fresh_ok(2) [OF ok tx] is_fresh_def)
    then show "\<exists>k\<in>fresh_keys ?fo tp. d = snd k" by force
  qed
  then have "card (fresh_keys ?fo tp) = card (fresh_members r tp now)" by (rule bij_betw_same_card)
  then show ?thesis using expire_fresh_ok(1) [OF ok tx, of now] ts by (simp add: fresh_ok_def)
qed

end
