(* ===== verification/Transitions.thy ===== *)
theory Transitions
  imports Prelude
begin

text \<open>
  Runs of a component: its inputs one after the other, each accepted under a guard, a step that has no
  result ending the run, and the states the component can reach. \<open>guarded_system\<close> is the contract of a
  component with an invariant: every guarded step keeps it, hence every guarded run and every
  reachable state has it. \<open>total_system\<close> adds that every guarded step has a result.
\<close>

fun run :: "('i \<Rightarrow> 's \<Rightarrow> 's option) \<Rightarrow> 'i list \<Rightarrow> 's \<Rightarrow> 's option" where
  "run step [] s = Some s"
| "run step (i # is) s = (case step i s of None \<Rightarrow> None | Some s' \<Rightarrow> run step is s')"

fun run_ok :: "('i \<Rightarrow> 's \<Rightarrow> 's option) \<Rightarrow> ('i \<Rightarrow> 's \<Rightarrow> bool) \<Rightarrow> 'i list \<Rightarrow> 's \<Rightarrow> bool" where
  "run_ok step ok [] s = True"
| "run_ok step ok (i # is) s = (ok i s \<and> (case step i s of None \<Rightarrow> True | Some s' \<Rightarrow> run_ok step ok is s'))"

lemma run_append: "run step (xs @ ys) s = (case run step xs s of None \<Rightarrow> None | Some s' \<Rightarrow> run step ys s')"
  by (induction xs arbitrary: s) (auto split: option.split)

inductive reach :: "('i \<Rightarrow> 's \<Rightarrow> 's option) \<Rightarrow> ('i \<Rightarrow> 's \<Rightarrow> bool) \<Rightarrow> ('s \<Rightarrow> bool) \<Rightarrow> 's \<Rightarrow> bool"
  for step ok init where
  start: "init s \<Longrightarrow> reach step ok init s"
| step: "reach step ok init s \<Longrightarrow> ok i s \<Longrightarrow> step i s = Some s' \<Longrightarrow> reach step ok init s'"

text \<open>The reachable states are those at the end of guarded runs.\<close>

lemma run_reach:
  "reach step ok init s \<Longrightarrow> run_ok step ok is s \<Longrightarrow> run step is s = Some s' \<Longrightarrow> reach step ok init s'"
  by (induction "is" arbitrary: s) (auto split: option.splits intro: reach.step)

lemma run_ok_append:
  "run_ok step ok (xs @ ys) s \<longleftrightarrow> run_ok step ok xs s \<and> (case run step xs s of None \<Rightarrow> True | Some s' \<Rightarrow> run_ok step ok ys s')"
  by (induction xs arbitrary: s) (auto split: option.split)

lemma reach_run:
  "reach step ok init s \<Longrightarrow> \<exists>is s0. init s0 \<and> run_ok step ok is s0 \<and> run step is s0 = Some s"
proof (induction rule: reach.induct)
  case (start s)
  then show ?case by (intro exI [of _ "[]"]) auto
next
  case (step s i s')
  then obtain ys s0 where "init s0" "run_ok step ok ys s0" "run step ys s0 = Some s" by blast
  then show ?case using step.hyps by (intro exI [of _ "ys @ [i]"] exI [of _ s0]) (simp add: run_append run_ok_append)
qed

locale guarded_system =
  fixes step :: "'i \<Rightarrow> 's \<Rightarrow> 's option" and ok :: "'i \<Rightarrow> 's \<Rightarrow> bool" and inv :: "'s \<Rightarrow> bool"
  assumes preserved: "inv s \<Longrightarrow> ok i s \<Longrightarrow> step i s = Some s' \<Longrightarrow> inv s'"
begin

lemma run_inv: "inv s \<Longrightarrow> run_ok step ok is s \<Longrightarrow> run step is s = Some s' \<Longrightarrow> inv s'"
  by (induction "is" arbitrary: s) (auto split: option.splits intro: preserved)

lemma reach_inv:
  assumes "reach step ok init s" "\<And>s. init s \<Longrightarrow> inv s"
  shows "inv s"
  using assms by (induction rule: reach.induct) (auto intro: preserved)

end

text \<open>A system in which, under the invariant, every guarded step has a result.\<close>

locale total_system = guarded_system +
  assumes progress: "inv s \<Longrightarrow> ok i s \<Longrightarrow> step i s \<noteq> None"
begin

lemma run_total:
  assumes "inv s" "run_ok step ok is s"
  shows "\<exists>s'. run step is s = Some s'"
  using assms
proof (induction "is" arbitrary: s)
  case (Cons i is')
  then obtain s1 where "step i s = Some s1" using progress by fastforce
  then show ?case using Cons preserved by auto
qed simp

end

end
