(* ===== verification/Registry_Laws.thy ===== *)
theory Registry_Laws
  imports Registry_Fresh Transitions
begin

text \<open>
  The registry as a transition system: its operations as inputs, the invariant every operation keeps,
  and what follows from it.
\<close>

definition fresh_inv :: "instant \<Rightarrow> Registry \<Rightarrow> bool" where
  "fresh_inv clock r \<longleftrightarrow> fresh_ok r \<and> fresh_cover clock r"

definition reg_inv :: "instant \<Rightarrow> Registry \<Rightarrow> bool" where
  "reg_inv clock r \<longleftrightarrow> core_inv r \<and> ids_ok r \<and> relay_inv r \<and> fresh_inv clock r"

section \<open>Freshness through the operations\<close>

lemma fresh_ok_frame:
  assumes ok: "fresh_ok r" and tx: "topics_exist r"
    and same: "rg_fault s = rg_fault r" "rg_fresh_order s = rg_fresh_order r"
      "st_entries_fresh (rg_stats s) = st_entries_fresh (rg_stats r)"
    and dev: "\<And>t d e. get (t, d) (rg_fresh_order r) \<noteq> None \<Longrightarrow> get d (rg_by_dev r) = Some e \<Longrightarrow>
      \<exists>e'. get d (rg_by_dev s) = Some e' \<and> en_last_seen e' = en_last_seen e \<and> en_topic_id e' = en_topic_id e"
    and tops: "\<And>tp ts. get tp (rg_topics s) = Some ts \<Longrightarrow>
      tst_fresh ts = (case get tp (rg_topics r) of None \<Rightarrow> 0 | Some ts0 \<Rightarrow> tst_fresh ts0)"
  shows "fresh_ok s"
proof -
  have "fresh_keys (rg_fresh_order r) tp = {}" if "get tp (rg_topics r) = None" for tp
  proof -
    have "get (t, d) (rg_fresh_order r) \<noteq> Some tp" for t d
      using fresh_okD [OF ok, of t d tp] tx that unfolding topics_exist_def by metis
    then show ?thesis by (auto simp: fresh_keys_def)
  qed
  then have "tst_fresh ts = of_nat (card (fresh_keys (rg_fresh_order r) tp))" if "get tp (rg_topics s) = Some ts" for tp ts
    using tops [OF that] ok by (auto simp: fresh_ok_def split: option.splits)
  moreover have "\<exists>e. get d (rg_by_dev s) = Some e \<and> en_last_seen e = t \<and> en_topic_id e = tp"
    if "get (t, d) (rg_fresh_order r) = Some tp" for t d tp
    using fresh_okD [OF ok that] dev [of t d] that by fastforce
  ultimately show ?thesis using ok same by (simp add: fresh_ok_def)
qed

lemma fresh_cover_frame:
  assumes "fresh_cover clock r" "rg_cfg s = rg_cfg r"
    and "\<And>d e. get d (rg_by_dev s) = Some e \<Longrightarrow>
      (\<exists>e0. get d (rg_by_dev r) = Some e0 \<and> en_last_seen e = en_last_seen e0
        \<and> (get (en_last_seen e, d) (rg_fresh_order r) \<noteq> None \<longrightarrow> get (en_last_seen e, d) (rg_fresh_order s) \<noteq> None))
      \<or> get (en_last_seen e, d) (rg_fresh_order s) \<noteq> None"
    and "clock \<le> now"
  shows "fresh_cover now s"
  unfolding fresh_cover_def
proof (intro allI impI)
  fix d e assume "get d (rg_by_dev s) = Some e"
  from assms(3) [OF this] show "get (en_last_seen e, d) (rg_fresh_order s) \<noteq> None \<or> \<not> is_fresh s e now"
    using assms(1,2,4) by (fastforce simp: fresh_cover_def is_fresh_def)
qed

lemma fresh_inv_mark:
  assumes inv: "fresh_inv clock r" and tx: "topics_exist r" and le: "clock \<le> now"
    and t: "get (en_topic_id e) (rg_topics r) \<noteq> None"
    and same: "\<And>e0. get (en_dev_id e) (rg_by_dev r) = Some e0 \<Longrightarrow>
      en_last_seen e = en_last_seen e0 \<and> en_topic_id e = en_topic_id e0"
  shows "fresh_inv now (mark_fresh e now r)"
proof -
  have ok: "fresh_ok r" and cov: "fresh_cover clock r" using inv by (simp_all add: fresh_inv_def)
  note M = mark_fresh_ok [OF ok tx t same]
  have "fresh_cover now (mark_fresh e now r)"
    by (rule fresh_cover_frame [OF cov _ _ le]) (use M(2,3) in \<open>auto simp: mark_fresh_fields split: if_splits\<close>)
  with M(1) show ?thesis by (simp add: fresh_inv_def)
qed

lemma fresh_inv_same:
  assumes "fresh_inv clock r" "clock \<le> now" "rg_cfg s = rg_cfg r"
    "rg_fault s = rg_fault r" "rg_fresh_order s = rg_fresh_order r"
    "st_entries_fresh (rg_stats s) = st_entries_fresh (rg_stats r)"
    "rg_by_dev s = rg_by_dev r" "rg_topics s = rg_topics r"
  shows "fresh_inv now s"
  using assms by (fastforce simp: fresh_inv_def fresh_ok_def fresh_cover_def is_fresh_def)

lemma fresh_inv_expire:
  assumes "fresh_inv clock r" "topics_exist r" "clock \<le> now"
  shows "fresh_inv now (expire_fresh now r)"
  using assms expire_fresh_ok(1) expire_fresh_cover unfolding fresh_inv_def by blast

lemma fresh_inv_take_over:
  assumes "fresh_inv clock r" "topics_exist r"
  shows "fresh_inv clock (take_over dev ow r)"
proof -
  let ?s = "take_over dev ow r"
  have d: "get d (rg_by_dev ?s) = Some e \<longleftrightarrow> (\<exists>e0. get d (rg_by_dev r) = Some e0
      \<and> e = (if d = dev then e0\<lparr>en_owner := ow\<rparr> else e0))" for d e
    by (auto simp: take_over_def Let_def split: option.split)
  have f: "rg_fault ?s = rg_fault r" "rg_fresh_order ?s = rg_fresh_order r" "rg_stats ?s = rg_stats r"
    "rg_topics ?s = rg_topics r" "rg_cfg ?s = rg_cfg r"
    by (auto simp: take_over_def Let_def split: option.split)
  have ok: "fresh_ok r" using assms(1) by (simp add: fresh_inv_def)
  have "fresh_ok ?s"
    by (rule fresh_ok_frame [OF ok assms(2)]) (auto simp: f d split: option.split)
  moreover have "fresh_cover clock ?s"
    by (rule fresh_cover_frame [of clock r]) (use assms(1) in \<open>auto simp: f d fresh_inv_def\<close>)
  ultimately show ?thesis by (simp add: fresh_inv_def)
qed

lemma fresh_inv_join:
  assumes "fresh_inv clock r" "topics_exist r" "core_inv r"
  shows "fresh_inv clock (join_topic dev msg ik ow r)"
proof -
  let ?s = "join_topic dev msg ik ow r"
  have ok: "fresh_ok r" using assms(1) by (simp add: fresh_inv_def)
  have ne: "tst_members ts \<noteq> []" if "get t (rg_topics r) = Some ts" for t ts
    using assms(3) that unfolding core_inv_def member_inv_def shape_def
    by (metis option.simps(9) unfresh_simps(1))
  have "tst_fresh ts = (case get tp (rg_topics r) of None \<Rightarrow> 0 | Some ts0 \<Rightarrow> tst_fresh ts0)"
    if "get tp (rg_topics ?s) = Some ts" for tp ts
  proof (cases "get (rg_id msg) (rg_topics r)")
    case None
    then show ?thesis using that
      by (auto simp: join_topic_new [OF None] TopicState_default_def split: if_splits)
  next
    case (Some ts0)
    then show ?thesis using that by (auto simp: join_topic_old [OF Some ne [OF Some]] split: if_splits)
  qed
  then have "fresh_ok ?s"
    by (intro fresh_ok_frame [OF ok assms(2)]) (auto simp: join_topic_fields)
  moreover have "fresh_cover clock ?s"
    by (rule fresh_cover_frame [of clock r]) (use assms(1) in \<open>auto simp: join_topic_fields fresh_inv_def\<close>)
  ultimately show ?thesis by (simp add: fresh_inv_def)
qed

lemma topic_shape_iff: "get t (rg_topics r) \<noteq> None \<longleftrightarrow> shape r t \<noteq> None"
  by (simp add: shape_def)

lemma topics_exist_mark:
  assumes "topics_exist r" "get (en_topic_id e) (rg_topics r) \<noteq> None"
  shows "topics_exist (mark_fresh e now r)"
  using assms unfolding topics_exist_def topic_shape_iff mark_fresh_fields by auto

lemma fresh_inv_hide:
  assumes "fresh_inv clock r" "topics_exist r" "get t (rg_topics r) = Some ts"
  shows "fresh_inv clock (hide_topic t r)"
proof -
  have ok: "fresh_ok r" using assms(1) by (simp add: fresh_inv_def)
  have "fresh_ok (hide_topic t r)"
    by (rule fresh_ok_frame [OF ok assms(2)]) (use assms(3) in \<open>auto simp: hide_topic_def topic_at_def split: option.split if_splits\<close>)
  moreover have "fresh_cover clock (hide_topic t r)"
    by (rule fresh_cover_frame [of clock r]) (use assms(1) in \<open>auto simp: hide_topic_def fresh_inv_def\<close>)
  ultimately show ?thesis by (simp add: fresh_inv_def)
qed

lemma fresh_inv_write:
  assumes inv: "fresh_inv clock r" and tx: "topics_exist r" and le: "clock \<le> now"
    and t: "get (rg_id msg) (rg_topics r) \<noteq> None"
    and same: "\<And>e0. get dev (rg_by_dev r) = Some e0 \<Longrightarrow> en_topic_id e0 = rg_id msg"
  shows "fresh_inv now (write_entry dev msg src ow now r)"
proof -
  let ?w = "written dev msg src ow r"
  have t': "get (en_topic_id ?w) (rg_topics r) \<noteq> None" using t by simp
  have M: "fresh_inv now (mark_fresh ?w now r)"
    by (rule fresh_inv_mark [OF inv tx le t']) (use same in \<open>auto simp: written_def\<close>)
  have "get (rg_id msg) (rg_topics (mark_fresh ?w now r)) \<noteq> None"
    using t unfolding topic_shape_iff mark_fresh_fields .
  then obtain ts where ts: "get (rg_id msg) (rg_topics (mark_fresh ?w now r)) = Some ts" by blast
  show ?thesis
    using M fresh_inv_hide [OF M topics_exist_mark [OF tx t'] ts] ts by (simp add: write_entry_eq)
qed

lemma fresh_inv_register:
  assumes inv: "fresh_inv clock r" and ci: "core_inv r" and nc: "no_collision (rg_id msg) src r" and le: "clock \<le> now"
  shows "fresh_inv now (snd (register_entry msg src ow now r))"
proof -
  define dev where "dev = derive_dev_id (rg_id msg) src r"
  note tx = core_inv_topics [OF ci]
  have st: "fresh_inv now (s\<lparr>rg_stats := (rg_stats s)\<lparr>st_registers := x\<rparr>\<rparr>)" if "fresh_inv now s" for s x
    using that by (rule fresh_inv_same) simp_all
  show ?thesis
  proof (cases "get dev (rg_by_dev r)")
    case None
    then have to: "take_over dev ow r = r" by (simp add: take_over_def)
    let ?j = "join_topic dev msg (ip_key src) ow r"
    have "get (rg_id msg) (rg_topics ?j) \<noteq> None" "topics_exist ?j"
      using tx by (auto simp: join_topic_def Let_def topics_exist_def split: prod.split)
    then have "fresh_inv now (write_entry dev msg src ow now ?j)"
      using None by (intro fresh_inv_write [OF fresh_inv_join [OF inv tx ci] _ le]) (auto simp: join_topic_fields)
    moreover have "fresh_inv now (bump_rej_quota r)"
      using inv le by (rule fresh_inv_same) (simp_all add: bump_rej_quota_def)
    ultimately show ?thesis
      using None to st by (simp add: register_entry_def Let_def dev_def [symmetric])
  next
    case (Some e)
    then have e: "en_topic_id e = rg_id msg" using nc by (auto simp: no_collision_def dev_def)
    let ?j = "take_over dev ow r"
    note ci' = core_inv_take_over [OF ci, of dev ow]
    have dv: "\<exists>e0. get dev (rg_by_dev ?j) = Some e0 \<and> en_topic_id e0 = rg_id msg"
      using Some e by (auto simp: take_over_def Let_def)
    then have "get (rg_id msg) (rg_topics ?j) \<noteq> None"
      using core_inv_topics [OF ci'] unfolding topics_exist_def by metis
    then have "fresh_inv now (write_entry dev msg src ow now ?j)"
      using dv by (intro fresh_inv_write [OF fresh_inv_take_over [OF inv tx] core_inv_topics [OF ci'] le]) auto
    then show ?thesis using Some st by (simp add: register_entry_def Let_def dev_def [symmetric])
  qed
qed

lemma fresh_inv_erase:
  assumes inv: "fresh_inv clock r" and ci: "inv_with ol r" and ids: "ids_ok r"
  shows "fresh_inv clock (erase_entry d r)"
proof (cases "get d (rg_by_dev r)")
  case None
  then show ?thesis using inv by (simp add: erase_entry_def)
next
  case (Some e)
  have mi: "member_inv (ent r) (shape r)" using ci by (simp add: inv_with_def)
  have tx: "topics_exist r" using mi unfolding topics_exist_def by (metis topic_exists option.distinct(1))
  have ok: "fresh_ok r" using inv by (simp add: fresh_inv_def)
  have ed: "en_dev_id e = d" using ids Some by (simp add: ids_ok_def)
  let ?f = "forget_fresh e r" and ?s = "erase_entry d r"
  note F = forget_fresh_ok [OF ok tx Some ed refl refl]
  have fs: "rg_fault ?s = rg_fault ?f" "rg_fresh_order ?s = rg_fresh_order ?f" "rg_stats ?s = rg_stats ?f"
    "rg_by_dev ?s = del d (rg_by_dev r)" "rg_cfg ?s = rg_cfg r"
    using Some coreD(1) [OF forget_fresh_simps(2) [of e r]]
    by (auto simp: erase_entry_def Let_def split: option.split)
  have "shape ?f = shape r" by (rule coreD) simp
  then have txf: "topics_exist ?f" using tx unfolding topics_exist_def topic_shape_iff by simp
  have "tst_fresh ts = (case get tp (rg_topics ?f) of None \<Rightarrow> 0 | Some ts0 \<Rightarrow> tst_fresh ts0)"
    if "get tp (rg_topics ?s) = Some ts" for tp ts
    using that Some by (auto simp: erase_entry_def Let_def split: option.splits if_splits)
  then have "fresh_ok ?s"
    using F(2) by (intro fresh_ok_frame [OF F(1) txf]) (auto simp: fs)
  moreover have "fresh_cover clock ?s"
    by (rule fresh_cover_frame [of clock r]) (use inv F(3) in \<open>auto simp: fs fresh_inv_def split: if_splits\<close>)
  ultimately show ?thesis by (simp add: fresh_inv_def)
qed

lemma ids_ok_erase: "ids_ok r \<Longrightarrow> ids_ok (erase_entry d r)"
  by (auto simp: erase_entry_def ids_ok_def Let_def split: option.split)

lemma ids_ok_register:
  assumes "ids_ok r"
  shows "ids_ok (snd (register_entry msg src ow now r))"
proof -
  have w: "rg_by_dev (write_entry dev msg src ow now s)
      = put dev ((written dev msg src ow s)\<lparr>en_last_seen := now\<rparr>) (rg_by_dev s)" for dev s
    by (simp add: write_entry_def Let_def written_def)
  have "ids_ok (take_over dev ow r)" for dev
    using assms by (auto simp: take_over_def Let_def ids_ok_def split: option.split)
  then show ?thesis
    by (auto simp: register_entry_def Let_def ids_ok_def w bump_rej_quota_def join_topic_fields)
qed

lemma relay_frame_register:
  "rg_relays (snd (register_entry msg src ow now r)) = rg_relays r"
  "rg_relays_per_ip (snd (register_entry msg src ow now r)) = rg_relays_per_ip r"
  "rg_cfg (snd (register_entry msg src ow now r)) = rg_cfg r"
  "rg_secret (snd (register_entry msg src ow now r)) = rg_secret r"
proof -
  have w: "rg_relays (write_entry dev msg src ow now s) = rg_relays s"
    "rg_relays_per_ip (write_entry dev msg src ow now s) = rg_relays_per_ip s"
    "rg_cfg (write_entry dev msg src ow now s) = rg_cfg s"
    "rg_secret (write_entry dev msg src ow now s) = rg_secret s" for dev s
    by (simp_all add: write_entry_def Let_def mark_fresh_fields)
  have t: "rg_relays (take_over dev ow r) = rg_relays r" "rg_relays_per_ip (take_over dev ow r) = rg_relays_per_ip r"
    "rg_cfg (take_over dev ow r) = rg_cfg r" "rg_secret (take_over dev ow r) = rg_secret r" for dev
    by (auto simp: take_over_def Let_def split: option.split)
  show "rg_relays (snd (register_entry msg src ow now r)) = rg_relays r"
    "rg_relays_per_ip (snd (register_entry msg src ow now r)) = rg_relays_per_ip r"
    "rg_cfg (snd (register_entry msg src ow now r)) = rg_cfg r"
    "rg_secret (snd (register_entry msg src ow now r)) = rg_secret r"
    by (simp_all add: register_entry_def Let_def w t bump_rej_quota_def join_topic_fields)
qed

section \<open>Every operation keeps the invariant\<close>

lemma reg_inv_new: "reg_inv 0 (Registry_new cfg secret)"
  by (simp add: reg_inv_def core_inv_def member_inv_def quota_inv_def owner_inv_def listing_inv_def ids_ok_def
      relay_inv_def pairs_unique_def fresh_inv_def fresh_ok_def fresh_cover_def Registry_new_def ent_def shape_def
      in_topic_def owned_by_def owner_list_def dom_def RegistryStats_zero_def)

lemma reg_inv_register:
  assumes "reg_inv clock r" "clock \<le> now" "no_collision (rg_id msg) src r" "unat (rg_next_order r) + 1 < 2 ^ 32"
  shows "reg_inv now (snd (register_entry msg src ow now r))"
  using assms core_inv_register [of r msg src] ids_ok_register [of r] fresh_inv_register [of clock r msg src now]
    relay_inv_cong [OF relay_frame_register(1-3), of msg src ow now r] by (simp add: reg_inv_def)

lemma reg_inv_mark:
  assumes inv: "reg_inv clock r" and le: "clock \<le> now" and d: "get d (rg_by_dev r) = Some e"
    and e': "en_dev_id e' = d" "en_topic_id e' = en_topic_id e" "en_bound_addr e' = en_bound_addr e"
      "en_owner e' = en_owner e" "en_last_seen e' = en_last_seen e"
  shows "reg_inv now (mark_fresh e' now r)"
proof -
  have ci: "core_inv r" and fi: "fresh_inv clock r" using inv by (simp_all add: reg_inv_def)
  have "ent r (en_dev_id e') = Some (en_topic_id e', ip_key (en_bound_addr e'), en_owner e')"
    using d e' by (simp add: ent_get)
  then have "core_inv (mark_fresh e' now r)" by (rule core_inv_mark_fresh [OF ci])
  moreover have "get (en_topic_id e') (rg_topics r) \<noteq> None"
    using core_inv_topics [OF ci] d e' unfolding topics_exist_def by metis
  then have "fresh_inv now (mark_fresh e' now r)"
    using d e' by (intro fresh_inv_mark [OF fi core_inv_topics [OF ci] le]) auto
  moreover have "relay_inv (mark_fresh e' now r) = relay_inv r"
    by (rule relay_inv_cong) (simp_all add: mark_fresh_fields)
  ultimately show ?thesis using inv ids_ok_mark_fresh by (simp add: reg_inv_def)
qed

text \<open>A change of the statistics that leaves the fresh counter, and of the relays.\<close>

lemma reg_inv_frame:
  assumes "reg_inv clock r" "clock \<le> now" "core s = core r"
    "rg_fault s = rg_fault r" "rg_fresh_order s = rg_fresh_order r"
    "st_entries_fresh (rg_stats s) = st_entries_fresh (rg_stats r)"
    "rg_by_dev s = rg_by_dev r" "rg_topics s = rg_topics r"
  shows "reg_inv now s"
proof -
  note c = coreD [OF assms(3)]
  have "relay_inv s = relay_inv r" by (rule relay_inv_cong) (rule c)+
  moreover have "fresh_inv now s"
    by (rule fresh_inv_same [of clock r]) (use assms c(1) in \<open>simp_all add: reg_inv_def\<close>)
  ultimately show ?thesis using assms(1,7) c(12) by (simp add: reg_inv_def ids_ok_def)
qed

lemma reg_inv_later: "reg_inv clock r \<Longrightarrow> clock \<le> now \<Longrightarrow> reg_inv now r"
  by (rule reg_inv_frame) simp_all

lemma reg_inv_relays:
  assumes "reg_inv clock r" "clock \<le> now" "relay_inv s"
    and s: "s = r\<lparr>rg_relays := m, rg_relays_per_ip := p, rg_stats := st\<rparr>"
      "st_entries_fresh st = st_entries_fresh (rg_stats r)"
  shows "reg_inv now s"
proof -
  have "core_inv s = core_inv r"
    unfolding s by (simp add: core_inv_def ent_def shape_def owner_list_def)
  moreover have "fresh_inv now s"
    by (rule fresh_inv_same [of clock r]) (use assms(1,2) s in \<open>simp_all add: reg_inv_def\<close>)
  ultimately show ?thesis using assms(1,3) s by (simp add: reg_inv_def ids_ok_def)
qed

lemma reg_ids: "reg_inv clock r \<Longrightarrow> get d (rg_by_dev r) = Some e \<Longrightarrow> en_dev_id e = d"
  by (simp add: reg_inv_def ids_ok_def)

lemma reg_inv_refresh:
  assumes "reg_inv clock r" "clock \<le> now"
  shows "reg_inv now (snd (refresh d ow now r))"
proof (cases "get d (rg_by_dev r)")
  case (Some e)
  have "reg_inv now (mark_fresh e now r)"
    by (rule reg_inv_mark [OF assms Some reg_ids [OF assms(1) Some]]) simp_all
  then show ?thesis using reg_inv_later [OF assms] by (simp add: refresh_def Some)
qed (use reg_inv_later [OF assms] in \<open>simp add: refresh_def\<close>)

lemma reg_inv_update:
  assumes "reg_inv clock r" "clock \<le> now"
  shows "reg_inv now (snd (update_entry msg ow now r))"
proof (cases "get (up_dev_id msg) (rg_by_dev r)")
  case (Some e)
  have "reg_inv now (mark_fresh (e\<lparr>en_host_cands := up_host_cands msg, en_meta := up_meta msg\<rparr>) now r)"
    by (rule reg_inv_mark [OF assms Some]) (simp_all add: reg_ids [OF assms(1) Some])
  then show ?thesis using reg_inv_later [OF assms] by (simp add: update_entry_def Some)
qed (use reg_inv_later [OF assms] in \<open>simp add: update_entry_def\<close>)

lemma reg_inv_expire:
  assumes "reg_inv clock r" "clock \<le> now"
  shows "reg_inv now (expire_fresh now r)"
proof -
  have ci: "core_inv r" using assms(1) by (simp add: reg_inv_def)
  note c = coreD [OF expire_fresh_simps(2) [of now r]]
  have "relay_inv (expire_fresh now r) = relay_inv r" by (rule relay_inv_cong) (rule c)+
  moreover have "fresh_inv now (expire_fresh now r)"
    by (rule fresh_inv_expire [of clock]) (use assms core_inv_topics [OF ci] in \<open>simp_all add: reg_inv_def\<close>)
  ultimately show ?thesis using assms(1) c(12) by (simp add: reg_inv_def ids_ok_def)
qed

lemma fresh_inv_by_owner: "fresh_inv clock (r\<lparr>rg_by_owner := x\<rparr>) = fresh_inv clock r"
  by (simp add: fresh_inv_def fresh_ok_def fresh_cover_def is_fresh_def)

lemma reg_inv_unregister:
  assumes inv: "reg_inv clock r"
  shows "reg_inv clock (snd (unregister d ow r))"
proof -
  have ci: "core_inv (snd (unregister d ow r))" using inv by (intro core_inv_unregister) (simp add: reg_inv_def)
  show ?thesis
  proof (cases "\<exists>e. get d (rg_by_dev r) = Some e \<and> en_owner e = ow")
    case True
    then obtain x where un: "snd (unregister d ow r) = erase_entry d (r\<lparr>rg_by_owner := x\<rparr>)"
      by (auto simp: unregister_def Let_def)
    let ?r = "r\<lparr>rg_by_owner := x\<rparr>"
    have i: "inv_with (\<lambda>ow. owner_list ow r) ?r" "ids_ok ?r" "fresh_inv clock ?r"
      using inv by (simp_all add: reg_inv_def core_inv_with inv_with_by_owner ids_ok_def fresh_inv_by_owner)
    obtain e where e: "get d (rg_by_dev ?r) = Some e" using True by auto
    then obtain ts where ts: "get (en_topic_id e) (rg_topics ?r) = Some ts"
      using topic_exists i(1) unfolding inv_with_def by metis
    have "relay_inv (erase_entry d ?r) = relay_inv r"
      by (rule relay_inv_cong) (simp_all add: erase_entry_fields [OF e ts])
    then show ?thesis
      using ci inv fresh_inv_erase [OF i(3,1,2)] ids_ok_erase [OF i(2)] unfolding un by (simp add: reg_inv_def)
  next
    case False
    then show ?thesis using inv by (auto simp: unregister_def split: option.split)
  qed
qed

lemma erase_keeps:
  assumes "inv_with (ol(ow := ds)) r" "ids_ok r" "fresh_inv clock r"
  shows "ids_ok (fold erase_entry ds r) \<and> fresh_inv clock (fold erase_entry ds r)"
  using assms
proof (induction ds arbitrary: r)
  case (Cons d ds)
  show ?case
    using Cons.IH [OF erase_one [OF Cons.prems(1), THEN conjunct1] ids_ok_erase [OF Cons.prems(2)]
        fresh_inv_erase [OF Cons.prems(3,1,2)]] by simp
qed simp

text \<open>A closed connection: its records and its bindings go, the rest stays.\<close>

lemma drop_owner_spec:
  assumes inv: "reg_inv clock r"
  shows "reg_inv clock (snd (drop_owner ow r))"
    and "ent (snd (drop_owner ow r)) d = (if d \<in> owned_by (ent r) ow then None else ent r d)"
    and "get i (rg_relays (snd (drop_owner ow r)))
      = (case get i (rg_relays r) of None \<Rightarrow> None
         | Some rl \<Rightarrow> if fst (ry_owner rl) = ow \<or> snd (ry_owner rl) = ow then None else Some rl)"
    and "fst (drop_owner ow r) = card (owned_by (ent r) ow)"
proof -
  define ds where "ds = owner_list ow r"
  define r1 where "r1 = fold erase_entry ds r"
  define r2 where "r2 = r1\<lparr>rg_by_owner := del ow (rg_by_owner r1)\<rparr>"
  let ?P = "\<lambda>rl. fst (ry_owner rl) = ow \<or> snd (ry_owner rl) = ow"
  define r3 where "r3 = fold release_relay (relays_where ?P r2) r2"
  have r4: "snd (drop_owner ow r) = r3\<lparr>rg_stats := (rg_stats r3)\<lparr>st_expired := st_expired (rg_stats r3) + of_nat (length ds)\<rparr>\<rparr>"
    by (simp add: drop_owner_def Let_def ds_def r1_def r2_def r3_def)
  have I: "core_inv r" "ids_ok r" "relay_inv r" "fresh_inv clock r" using inv by (simp_all add: reg_inv_def)
  have own: "set ds = owned_by (ent r) ow" "distinct ds" using I(1) by (simp_all add: ds_def core_inv_def owner_inv_def)
  have i0: "inv_with ((\<lambda>o'. owner_list o' r)(ow := ds)) r"
  proof -
    have "(\<lambda>o'. owner_list o' r)(ow := ds) = (\<lambda>o'. owner_list o' r)" by (auto simp: ds_def)
    then show ?thesis using I(1) by (simp add: core_inv_with)
  qed
  note E = erase_fold [OF i0, folded r1_def] and K = erase_keeps [OF i0 I(2,4), folded r1_def]
  have ol2: "(\<lambda>o'. owner_list o' r2) = (\<lambda>o'. owner_list o' r)(ow := [])"
    using E by (auto simp: r2_def owner_list_def fun_eq_iff)
  have i2: "core_inv r2" "ids_ok r2" "fresh_inv clock r2" "relay_inv r2"
  proof -
    show "core_inv r2" unfolding core_inv_with ol2 using E by (simp add: r2_def inv_with_by_owner)
    show "ids_ok r2" "fresh_inv clock r2" using K by (simp_all add: r2_def ids_ok_def fresh_inv_by_owner)
    have "relay_inv r2 = relay_inv r" using E by (intro relay_inv_cong) (simp_all add: r2_def)
    then show "relay_inv r2" using I(3) by simp
  qed
  note R = release_fold [of r2 "relays_where ?P r2", folded r3_def]
  have ent2: "ent r2 = ent r1" by (simp add: r2_def ent_def)
  have ent3: "ent r3 = ent r2" "shape r3 = shape r2" using R by (simp_all add: ent_def shape_def)
  have "reg_inv clock r3"
  proof -
    have "core_inv r3" using i2(1) R ent3 by (simp add: core_inv_def owner_list_def)
    moreover have "fresh_inv clock r3"
      by (rule fresh_inv_same [OF i2(3)]) (use R in simp_all)
    ultimately show ?thesis using i2(2,4) R by (simp add: reg_inv_def ids_ok_def)
  qed
  then show "reg_inv clock (snd (drop_owner ow r))"
    unfolding r4 by (rule reg_inv_frame) simp_all
  show "ent (snd (drop_owner ow r)) d = (if d \<in> owned_by (ent r) ow then None else ent r d)"
    using E own(1) ent2 ent3(1) unfolding r4 by (simp add: coreD(3) [OF core_frame(1)])
  have "rg_relays r2 = rg_relays r" using E by (simp add: r2_def)
  then show "get i (rg_relays (snd (drop_owner ow r)))
      = (case get i (rg_relays r) of None \<Rightarrow> None
         | Some rl \<Rightarrow> if fst (ry_owner rl) = ow \<or> snd (ry_owner rl) = ow then None else Some rl)"
    using R relays_where_iff [OF relay_finite [OF i2(4)], of i ?P] unfolding r4
    by (auto split: option.split)
  show "fst (drop_owner ow r) = card (owned_by (ent r) ow)"
  proof -
    have "fst (drop_owner ow r) = length ds" by (simp add: drop_owner_def Let_def ds_def)
    then show ?thesis using own distinct_card [OF own(2)] by simp
  qed
qed

lemma relay_inv_bump: "relay_inv (bump_rej_quota r) = relay_inv r"
  by (rule relay_inv_cong) (simp_all add: bump_rej_quota_def)

lemma relay_inv_charge:
  assumes inv: "relay_inv r"
  shows "relay_inv (snd (relay_charge i n now r))"
proof (cases "get i (rg_relays r)")
  case (Some rl)
  have b: "ry_bytes rl \<le> rc_relay_max_bytes (rg_cfg r)" using inv Some by (simp add: relay_inv_def)
  have "relay_inv (s\<lparr>rg_stats := x\<rparr>) = relay_inv s" for s x by (rule relay_inv_cong) simp_all
  then show ?thesis
    using b relay_inv_put [OF inv Some, of "rl\<lparr>ry_exhausted := True\<rparr>"]
      relay_inv_put [OF inv Some, of "rl\<lparr>ry_bytes := ry_bytes rl + n, ry_last_seen := now\<rparr>"]
    by (auto simp: relay_charge_def Some relay_inv_bump not_less)
qed (simp add: relay_charge_def inv)

lemma relay_inv_bind:
  assumes inv: "relay_inv r"
  shows "relay_inv (snd (udp_bind i tk src now r))"
proof (cases "get i (rg_relays r)")
  case (Some rl)
  have b: "ry_bytes rl \<le> rc_relay_max_bytes (rg_cfg r)" using inv Some by (simp add: relay_inv_def)
  show ?thesis
    using inv b relay_inv_put [OF inv Some, of "rl\<lparr>ry_udp := u, ry_last_seen := now\<rparr>" for u]
    by (auto simp: udp_bind_def Some split: option.split)
qed (simp add: udp_bind_def inv)

lemma relay_charge_frame:
  "\<exists>m st. snd (relay_charge i n now r) = r\<lparr>rg_relays := m, rg_relays_per_ip := rg_relays_per_ip r, rg_stats := st\<rparr>
     \<and> st_entries_fresh st = st_entries_fresh (rg_stats r)"
proof (cases "get i (rg_relays r)")
  case None
  then show ?thesis by (intro exI [of _ "rg_relays r"] exI [of _ "rg_stats r"]) (simp add: relay_charge_def)
qed (cases r, auto simp: relay_charge_def bump_rej_quota_def)

lemma udp_bind_frame:
  "\<exists>m. snd (udp_bind i tk src now r) = r\<lparr>rg_relays := m, rg_relays_per_ip := rg_relays_per_ip r, rg_stats := rg_stats r\<rparr>"
  by (cases r) (auto simp: udp_bind_def intro: exI [of _ "rg_relays r"] split: option.split)

lemma reg_inv_charge: "reg_inv clock r \<Longrightarrow> clock \<le> now \<Longrightarrow> reg_inv now (snd (relay_charge i n now r))"
  using relay_charge_frame [of i n now r] reg_inv_relays [of clock r now] relay_inv_charge [of r]
  unfolding reg_inv_def by metis

lemma reg_inv_bind: "reg_inv clock r \<Longrightarrow> clock \<le> now \<Longrightarrow> reg_inv now (snd (udp_bind i tk src now r))"
  using udp_bind_frame [of i tk src now r] reg_inv_relays [of clock r now] relay_inv_bind [of r]
  unfolding reg_inv_def by metis

lemma udp_forward_state:
  "snd (udp_forward i src n now r) = r \<or> snd (udp_forward i src n now r) = snd (relay_charge i n now r)"
  by (auto simp: udp_forward_def split: option.split prod.split)

lemma reg_inv_forward: "reg_inv clock r \<Longrightarrow> clock \<le> now \<Longrightarrow> reg_inv now (snd (udp_forward i src n now r))"
  using udp_forward_state [of i src n now r] reg_inv_charge [of clock r now] reg_inv_later [of clock r now] by metis

lemma release_fold_frame:
  "\<exists>m p. fold release_relay is r = r\<lparr>rg_relays := m, rg_relays_per_ip := p, rg_stats := rg_stats r\<rparr>"
  using release_fold [of r "is"]
  by (intro exI [of _ "rg_relays (fold release_relay is r)"] exI [of _ "rg_relays_per_ip (fold release_relay is r)"]
      Registry.equality) simp_all

lemma reg_inv_release_fold: "reg_inv clock r \<Longrightarrow> reg_inv clock (fold release_relay is r)"
  using release_fold_frame [of "is" r] reg_inv_relays [of clock r clock] release_fold [of r "is"]
  unfolding reg_inv_def by (metis order_refl)

lemma reg_inv_close: "reg_inv clock r \<Longrightarrow> reg_inv clock (relay_close i r)"
  using reg_inv_release_fold [of clock r "[i]"] by (simp add: relay_close_def)

lemma reg_inv_sweep: "reg_inv clock r \<Longrightarrow> clock \<le> now \<Longrightarrow> reg_inv now (sweep now r)"
  using reg_inv_expire reg_inv_release_fold by (simp add: sweep_def Let_def)

lemma relay_alloc_frame:
  assumes "relay_alloc f p k ow src now dw r = Some (g, r')"
  shows "\<exists>m q st. r' = r\<lparr>rg_relays := m, rg_relays_per_ip := q, rg_stats := st\<rparr>
     \<and> st_entries_fresh st = st_entries_fresh (rg_stats r)"
  using assms by (cases r) (auto simp: relay_alloc_def bump_rej_quota_def split: option.splits if_splits)

lemma reg_inv_alloc:
  "reg_inv clock r \<Longrightarrow> clock \<le> now \<Longrightarrow> relay_alloc f p k ow src now dw r = Some (g, r') \<Longrightarrow> reg_inv now r'"
  using relay_alloc_frame [of f p k ow src now dw r g r'] reg_inv_relays [of clock r now r']
    relay_inv_alloc [of r f p k ow src now dw g r'] unfolding reg_inv_def by metis

lemma reg_inv_connect: "reg_inv clock r \<Longrightarrow> clock \<le> now \<Longrightarrow> reg_inv now (snd (connect_target f t ow r))"
  using reg_inv_later [of clock r now] reg_inv_frame [of clock r now "snd (connect_target f t ow r)"]
  by (auto simp: connect_target_def split: option.split)

lemma reg_inv_lookup:
  assumes "reg_inv clock r" "clock \<le> now" "lookup t m w now dw r = Some (x, r')"
  shows "reg_inv now r'"
proof -
  have "r' = bump_lookups r" using assms(3) by (auto simp: lookup_def Let_def split: option.splits)
  then show ?thesis using reg_inv_frame [OF assms(1,2), of r'] by (simp add: bump_lookups_def)
qed

lemma reg_inv_list: "reg_inv clock r \<Longrightarrow> clock \<le> now \<Longrightarrow> reg_inv now (snd (list_topics c l now r))"
  using reg_inv_expire by (simp add: list_topics_def Let_def split: prod.split)

lemma reg_inv_stats: "reg_inv clock r \<Longrightarrow> clock \<le> now \<Longrightarrow> reg_inv now (snd (stats now r))"
  using reg_inv_expire by (simp add: stats_def Let_def)

end
