(* ===== verification/Registry_System.thy ===== *)
theory Registry_System
  imports Registry_Laws
begin

text \<open>
  The registry as a system of steps: every public operation is an input, together with the time of the
  call and what it draws from the random source. The guard of a step is that time does not run
  backwards and, for a registration, that the derived id does not collide and the listing counter has
  not reached its width.
\<close>

datatype reg_op =
    OpRegister Register Endpoint ConnKey
  | OpRefresh DevId ConnKey
  | OpUpdate Update ConnKey
  | OpUnregister DevId ConnKey
  | OpDrop ConnKey
  | OpLookup TopicId byte bool
  | OpList u32 byte
  | OpConnect DevId DevId ConnKey
  | OpAlloc DevId DevId RelayKind ConnKey Endpoint
  | OpCharge RelayId u64
  | OpBind RelayId bytes Endpoint
  | OpForward RelayId Endpoint u64
  | OpClose RelayId
  | OpSweep
  | OpStats

fun reg_apply :: "reg_op \<Rightarrow> instant \<Rightarrow> Draws \<Rightarrow> Registry \<Rightarrow> Registry option" where
  "reg_apply (OpRegister msg src ow) now dw r = Some (snd (register_entry msg src ow now r))"
| "reg_apply (OpRefresh d ow) now dw r = Some (snd (refresh d ow now r))"
| "reg_apply (OpUpdate msg ow) now dw r = Some (snd (update_entry msg ow now r))"
| "reg_apply (OpUnregister d ow) now dw r = Some (snd (unregister d ow r))"
| "reg_apply (OpDrop ow) now dw r = Some (snd (drop_owner ow r))"
| "reg_apply (OpLookup t m w) now dw r = map_option snd (lookup t m w now dw r)"
| "reg_apply (OpList c l) now dw r = Some (snd (list_topics c l now r))"
| "reg_apply (OpConnect f t ow) now dw r = Some (snd (connect_target f t ow r))"
| "reg_apply (OpAlloc f p k ow src) now dw r = map_option snd (relay_alloc f p k ow src now dw r)"
| "reg_apply (OpCharge i n) now dw r = Some (snd (relay_charge i n now r))"
| "reg_apply (OpBind i tk src) now dw r = Some (snd (udp_bind i tk src now r))"
| "reg_apply (OpForward i src n) now dw r = Some (snd (udp_forward i src n now r))"
| "reg_apply (OpClose i) now dw r = Some (relay_close i r)"
| "reg_apply OpSweep now dw r = Some (sweep now r)"
| "reg_apply OpStats now dw r = Some (snd (stats now r))"

type_synonym reg_input = "reg_op \<times> instant \<times> Draws"

definition reg_step :: "reg_input \<Rightarrow> instant \<times> Registry \<Rightarrow> (instant \<times> Registry) option" where
  "reg_step i s = (case i of (op, now, dw) \<Rightarrow> map_option (Pair now) (reg_apply op now dw (snd s)))"

definition reg_guard :: "reg_input \<Rightarrow> instant \<times> Registry \<Rightarrow> bool" where
  "reg_guard i s \<longleftrightarrow> fst s \<le> fst (snd i) \<and>
     (case fst i of OpRegister msg src ow \<Rightarrow>
        no_collision (rg_id msg) src (snd s) \<and> unat (rg_next_order (snd s)) + 1 < 2 ^ 32
      | _ \<Rightarrow> True)"

lemma reg_apply_inv:
  assumes "reg_inv clock r" "reg_guard (op, now, dw) (clock, r)" "reg_apply op now dw r = Some r'"
  shows "reg_inv now r'"
proof -
  have le: "clock \<le> now" using assms(2) by (simp add: reg_guard_def)
  note later = reg_inv_later [OF _ le]
  show ?thesis
    using assms le
    by (cases op)
      (auto simp: reg_guard_def intro: reg_inv_register reg_inv_refresh reg_inv_update reg_inv_lookup reg_inv_list
        reg_inv_connect reg_inv_alloc reg_inv_charge reg_inv_bind reg_inv_forward reg_inv_sweep reg_inv_stats
        later [OF reg_inv_unregister] later [OF drop_owner_spec(1)] later [OF reg_inv_close])
qed

interpretation reg: guarded_system reg_step reg_guard "\<lambda>s. reg_inv (fst s) (snd s)"
proof unfold_locales
  fix s i s'
  assume "reg_inv (fst s) (snd s)" "reg_guard i s" "reg_step i s = Some s'"
  then show "reg_inv (fst s') (snd s')"
    by (cases i, cases s) (auto simp: reg_step_def intro: reg_apply_inv)
qed

section \<open>A connection touches only its own records\<close>

lemma mark_fresh_other: "d \<noteq> en_dev_id e \<Longrightarrow> get d (rg_by_dev (mark_fresh e now r)) = get d (rg_by_dev r)"
  by simp

lemma erase_entry_by_dev: "rg_by_dev (erase_entry d r) = del d (rg_by_dev r)"
  by (cases "get d (rg_by_dev r)")
    (auto simp: erase_entry_def Let_def intro!: mapping_eqI split: option.split)

lemma fold_erase_by_dev: "get d (rg_by_dev (fold erase_entry ds r)) = (if d \<in> set ds then None else get d (rg_by_dev r))"
  by (induction ds arbitrary: r) (auto simp: erase_entry_by_dev)

definition op_owner :: "reg_op \<Rightarrow> ConnKey option" where
  "op_owner op = (case op of OpRefresh d ow \<Rightarrow> Some ow | OpUpdate msg ow \<Rightarrow> Some ow
     | OpUnregister d ow \<Rightarrow> Some ow | OpDrop ow \<Rightarrow> Some ow | OpConnect f t ow \<Rightarrow> Some ow
     | OpAlloc f p k ow src \<Rightarrow> Some ow | _ \<Rightarrow> None)"

lemma drop_owner_by_dev:
  "rg_by_dev (snd (drop_owner ow r)) = rg_by_dev (fold erase_entry (owner_list ow r) r)"
  by (simp add: drop_owner_def Let_def release_fold_fields)

lemma others_untouched:
  assumes inv: "reg_inv clock r" and op: "op_owner op = Some ow" and res: "reg_apply op now dw r = Some r'"
    and d: "get d (rg_by_dev r) = Some e" "en_owner e \<noteq> ow"
  shows "get d (rg_by_dev r') = Some e"
proof (cases op)
  case (OpDrop o')
  have "d \<notin> set (owner_list ow r)"
    using inv d by (auto simp: reg_inv_def core_inv_def owner_inv_def owned_by_def ent_get)
  then show ?thesis using res op d OpDrop by (auto simp: op_owner_def drop_owner_by_dev fold_erase_by_dev)
next
  case (OpUnregister x o')
  then show ?thesis using res op d
    by (auto simp: op_owner_def unregister_def Let_def erase_entry_by_dev split: option.splits if_splits)
next
  case (OpAlloc f p k o' src)
  then obtain g where "relay_alloc f p k o' src now dw r = Some (g, r')" using res by auto
  then show ?thesis using relay_alloc_frame d by fastforce
next
  case (OpRefresh x o')
  then show ?thesis
    using res op d reg_ids [OF inv] by (auto simp: op_owner_def refresh_def split: option.splits if_splits)
next
  case (OpUpdate m o')
  then show ?thesis
    using res op d reg_ids [OF inv] by (auto simp: op_owner_def update_entry_def split: option.splits if_splits)
qed (use op res d in \<open>auto simp: op_owner_def connect_target_def split: option.splits\<close>)

section \<open>Mode and hiding stick\<close>

text \<open>While a topic lives its mode and its place in the listing are fixed, and once hidden it stays so.\<close>

definition sticky :: "topic_map \<Rightarrow> topic_map \<Rightarrow> bool" where
  "sticky T T' \<longleftrightarrow> (\<forall>t a b. T t = Some a \<longrightarrow> T' t = Some b \<longrightarrow>
     tst_mode b = tst_mode a \<and> tst_order b = tst_order a \<and> (tst_listed b \<longrightarrow> tst_listed a))"

lemma sticky_refl [simp]: "sticky T T"
  by (simp add: sticky_def)

lemma sticky_topics: "rg_topics s = rg_topics r \<Longrightarrow> sticky (shape r) (shape s)"
  by (simp add: shape_def)

text \<open>Erasing never creates a topic, so that it composes.\<close>

definition shrinks :: "topic_map \<Rightarrow> topic_map \<Rightarrow> bool" where
  "shrinks T T' \<longleftrightarrow> (\<forall>t b. T' t = Some b \<longrightarrow> (\<exists>a. T t = Some a \<and>
     tst_mode b = tst_mode a \<and> tst_order b = tst_order a \<and> tst_listed b = tst_listed a))"

lemma shrinks_trans: "shrinks T T' \<Longrightarrow> shrinks T' T'' \<Longrightarrow> shrinks T T''"
  unfolding shrinks_def by metis

lemma shrinks_sticky: "shrinks T T' \<Longrightarrow> sticky T T'"
  unfolding shrinks_def sticky_def by (metis option.inject)

lemma shrinks_erase: "shrinks (shape r) (shape (erase_entry d r))"
proof (cases "get d (rg_by_dev r)")
  case None
  then show ?thesis by (simp add: erase_entry_def shrinks_def)
next
  case (Some e)
  have F: "shape (forget_fresh e r) = shape r" by (rule coreD) simp
  have "shrinks (shape (forget_fresh e r)) (shape (erase_entry d r))"
    using Some by (auto simp: shrinks_def erase_entry_def Let_def shape_def split: option.splits if_splits)
  then show ?thesis unfolding F .
qed

lemma shrinks_fold: "shrinks (shape r) (shape (fold erase_entry ds r))"
proof (induction ds arbitrary: r)
  case (Cons d ds)
  then show ?case using shrinks_trans [OF shrinks_erase Cons] by simp
qed (simp add: shrinks_def)

lemma sticky_join:
  assumes "core_inv r"
  shows "sticky (shape r) (shape (join_topic dev msg ik ow r))"
proof (cases "get (rg_id msg) (rg_topics r)")
  case None
  then show ?thesis by (auto simp: sticky_def shape_def join_topic_new [OF None] split: if_splits)
next
  case (Some ts)
  have "tst_members ts \<noteq> []"
    using assms Some unfolding core_inv_def member_inv_def shape_def by (metis option.simps(9) unfresh_simps(1))
  then show ?thesis using Some by (auto simp: sticky_def shape_def join_topic_old [OF Some] split: if_splits)
qed

lemma sticky_write:
  assumes "sticky T (shape r)" "get (rg_id msg) (rg_topics r) \<noteq> None"
  shows "sticky T (shape (write_entry dev msg src ow now r))"
proof -
  let ?m = "mark_fresh (written dev msg src ow r) now r"
  have "get (rg_id msg) (rg_topics ?m) \<noteq> None" using assms(2) unfolding topic_shape_iff mark_fresh_fields .
  then obtain ts where ts: "get (rg_id msg) (rg_topics ?m) = Some ts" by blast
  have "shape ?m (rg_id msg) = Some (unfresh ts)" using ts by (simp add: shape_def)
  then have sh: "shape r (rg_id msg) = Some (unfresh ts)" unfolding mark_fresh_fields .
  have "shape (write_entry dev msg src ow now r)
      = (if rg_unlisted msg then (shape r)(rg_id msg \<mapsto> (unfresh ts)\<lparr>tst_listed := False\<rparr>) else shape r)"
    using ts by (simp add: write_entry_eq hide_topic_fields(3) mark_fresh_fields)
  moreover have "sticky T ((shape r)(rg_id msg \<mapsto> (unfresh ts)\<lparr>tst_listed := False\<rparr>))"
    unfolding sticky_def
  proof (intro allI impI)
    fix t a b
    assume a: "T t = Some a" "((shape r)(rg_id msg \<mapsto> (unfresh ts)\<lparr>tst_listed := False\<rparr>)) t = Some b"
    show "tst_mode b = tst_mode a \<and> tst_order b = tst_order a \<and> (tst_listed b \<longrightarrow> tst_listed a)"
    proof (cases "t = rg_id msg")
      case True
      then have "tst_mode (unfresh ts) = tst_mode a \<and> tst_order (unfresh ts) = tst_order a"
        using assms(1) a(1) sh unfolding sticky_def by blast
      then show ?thesis using True a(2) by auto
    next
      case False
      then have "shape r t = Some b" using a(2) by simp
      then show ?thesis using assms(1) a(1) unfolding sticky_def by blast
    qed
  qed
  ultimately show ?thesis using assms(1) by simp
qed

lemma sticky_register:
  assumes ci: "core_inv r" and nc: "no_collision (rg_id msg) src r"
  shows "sticky (shape r) (shape (snd (register_entry msg src ow now r)))"
proof -
  define dev where "dev = derive_dev_id (rg_id msg) src r"
  have st: "shape (s\<lparr>rg_stats := x\<rparr>) = shape s" for s x by (simp add: shape_def)
  show ?thesis
  proof (cases "get dev (rg_by_dev r)")
    case None
    have to: "take_over dev ow r = r" using None by (simp add: take_over_def)
    have "get (rg_id msg) (rg_topics (join_topic dev msg (ip_key src) ow r)) \<noteq> None"
      by (auto simp: join_topic_def Let_def split: prod.split)
    then show ?thesis
      using None to sticky_write [OF sticky_join [OF ci]]
      by (simp add: register_entry_def Let_def dev_def [symmetric] st bump_rej_quota_def)
  next
    case (Some e)
    then have e: "en_topic_id e = rg_id msg" using nc by (auto simp: no_collision_def dev_def)
    then have "get (rg_id msg) (rg_topics r) \<noteq> None"
      using core_inv_topics [OF ci] Some unfolding topics_exist_def by metis
    moreover have tt: "rg_topics (take_over dev ow r) = rg_topics r"
      by (auto simp: take_over_def Let_def split: option.split)
    ultimately have "sticky (shape r) (shape (write_entry dev msg src ow now (take_over dev ow r)))"
      using sticky_topics [OF tt] by (intro sticky_write) auto
    then show ?thesis using Some by (simp add: register_entry_def Let_def dev_def [symmetric] st)
  qed
qed

lemma shape_lists: "shape (expire_fresh now r) = shape r" "shape (mark_fresh e now r) = shape r"
  by (rule coreD, simp) (rule mark_fresh_fields)

lemma sticky_apply:
  assumes inv: "reg_inv clock r" and g: "reg_guard (op, now, dw) (clock, r)"
    and res: "reg_apply op now dw r = Some r'"
  shows "sticky (shape r) (shape r')"
proof (cases op)
  case (OpRegister msg src ow)
  then show ?thesis using inv g res sticky_register [of r msg src ow now] by (auto simp: reg_guard_def reg_inv_def)
next
  case (OpDrop ow)
  have "rg_topics r' = rg_topics (fold erase_entry (owner_list ow r) r)"
    using res OpDrop by (auto simp: drop_owner_def Let_def release_fold_fields)
  then have "shape r' = shape (fold erase_entry (owner_list ow r) r)" by (simp add: shape_def)
  then show ?thesis using shrinks_sticky [OF shrinks_fold] by simp
next
  case (OpUnregister d ow)
  have b: "shape (s\<lparr>rg_by_owner := x\<rparr>) = shape s" for s x by (simp add: shape_def)
  show ?thesis
    using res OpUnregister shrinks_sticky [OF shrinks_erase [of "r\<lparr>rg_by_owner := x\<rparr>" d for x]]
    by (auto simp: unregister_def Let_def b split: option.splits if_splits)
next
  case (OpAlloc f p k ow src)
  then obtain g where "relay_alloc f p k ow src now dw r = Some (g, r')" using res by auto
  then have "rg_topics r' = rg_topics r" using relay_alloc_frame by fastforce
  then show ?thesis by (rule sticky_topics)
next
  case (OpCharge i n)
  then have "rg_topics r' = rg_topics r" using res relay_charge_frame [of i n now r] by auto
  then show ?thesis by (rule sticky_topics)
next
  case (OpForward i src n)
  then have "rg_topics r' = rg_topics r"
    using res relay_charge_frame [of i n now r] udp_forward_state [of i src n now r] by auto
  then show ?thesis by (rule sticky_topics)
next
  case (OpBind i tk src)
  then have "rg_topics r' = rg_topics r" using res udp_bind_frame [of i tk src now r] by auto
  then show ?thesis by (rule sticky_topics)
next
  case OpSweep
  have "shape (fold release_relay is s) = shape s" for "is" s
    by (simp add: shape_def release_fold_fields)
  then show ?thesis using res OpSweep by (auto simp: sweep_def Let_def shape_lists)
next
  case (OpRefresh d ow)
  then show ?thesis using res by (auto simp: refresh_def shape_lists split: option.splits if_splits)
next
  case (OpUpdate m ow)
  then show ?thesis using res by (auto simp: update_entry_def shape_lists split: option.splits if_splits)
next
  case (OpLookup a b c)
  then have "rg_topics r' = rg_topics r"
    using res by (auto simp: lookup_def Let_def bump_lookups_def split: option.splits)
  then show ?thesis by (rule sticky_topics)
next
  case (OpConnect f t ow)
  then have "rg_topics r' = rg_topics r"
    using res by (auto simp: connect_target_def split: option.splits if_splits)
  then show ?thesis by (rule sticky_topics)
next
  case (OpList c l)
  then show ?thesis using res by (auto simp: list_topics_def Let_def shape_lists split: prod.splits)
next
  case (OpClose i)
  then show ?thesis using res by (auto simp: relay_close_def release_relay_fields intro: sticky_topics)
next
  case OpStats
  then show ?thesis using res by (auto simp: stats_def Let_def shape_lists)
qed

end
