(* ===== verification/Registry_Queries.thy ===== *)
theory Registry_Queries
  imports Registry_System
begin

text \<open>
  What the registry answers: a lookup is a sample of the topic without repetition, fresh records first;
  the pages of the listing, taken from cursor to cursor, are exactly the listed topics; a binding
  forwards only between its two bound addresses and never more than its budget.
\<close>

section \<open>The sample\<close>

lemma draw_distinct_props:
  "draw_distinct want picked ds = Some out \<Longrightarrow> distinct picked \<Longrightarrow> length picked \<le> want \<Longrightarrow>
   length out = want \<and> distinct out \<and> set out \<subseteq> set picked \<union> set ds"
proof (induction want picked ds rule: draw_distinct.induct)
  case (1 want picked ds)
  show ?case
  proof (cases "length picked \<ge> want")
    case True
    then have "out = picked" using "1.prems"(1) by (simp add: draw_distinct.simps [of want picked ds])
    then show ?thesis using "1.prems"(2,3) True by simp
  next
    case False
    then obtain i ds' where ds: "ds = i # ds'"
      using "1.prems"(1) by (cases ds) (auto simp: draw_distinct.simps [of want picked "[]"])
    have "draw_distinct want (if i \<in> set picked then picked else picked @ [i]) ds' = Some out"
      using "1.prems"(1) False ds by (simp add: draw_distinct.simps [of want picked "i # ds'"])
    from "1.IH" [OF False ds this] "1.prems"(2) False show ?thesis
      using ds by (cases "i \<in> set picked") auto
  qed
qed

lemma draw_distinct_returns:
  "card (set picked \<union> set ds) \<ge> want \<Longrightarrow> distinct picked \<Longrightarrow> \<exists>out. draw_distinct want picked ds = Some out"
proof (induction ds arbitrary: picked)
  case Nil
  then show ?case by (simp add: draw_distinct.simps [of want picked "[]"] distinct_card)
next
  case (Cons i ds)
  have "set (if i \<in> set picked then picked else picked @ [i]) \<union> set ds = set picked \<union> set (i # ds)" by auto
  then have "\<exists>out. draw_distinct want (if i \<in> set picked then picked else picked @ [i]) ds = Some out"
    using Cons.IH [of "if i \<in> set picked then picked else picked @ [i]"] Cons.prems by (simp split: if_splits)
  then show ?case by (simp add: draw_distinct.simps [of want picked "i # ds"])
qed

text \<open>
  What the random source may return for \<open>n\<close> members: a permutation of the indices, and draws from the
  uniform distribution on them.
\<close>

definition wf_draws :: "nat \<Rightarrow> Draws \<Rightarrow> bool" where
  "wf_draws n dw \<longleftrightarrow> distinct (dw_shuffle dw) \<and> set (dw_shuffle dw) = {..<n} \<and> set (dw_indices dw) \<subseteq> {..<n}"

lemma pick_indices_props:
  assumes "pick_indices n want dw = Some picked" "wf_draws n dw" "want \<le> n"
  shows "length picked = want \<and> distinct picked \<and> set picked \<subseteq> {..<n}"
proof -
  have "length (dw_shuffle dw) = n" using assms(2) by (metis wf_draws_def card_lessThan distinct_card)
  then show ?thesis
    using assms draw_distinct_props [of want "[]" "dw_indices dw" picked]
    by (auto simp: pick_indices_def wf_draws_def dest: in_set_takeD split: if_splits)
qed

lemma found_entries_all:
  assumes "\<And>d. d \<in> set ms \<Longrightarrow> \<exists>e. get d (rg_by_dev r) = Some e \<and> en_dev_id e = d" "set picked \<subseteq> {..<length ms}"
  shows "map en_dev_id (found_entries r ms picked) = map ((!) ms) picked"
  using assms(2)
proof (induction picked)
  case (Cons i js)
  then have "ms ! i \<in> set ms" by simp
  then obtain e where "get (ms ! i) (rg_by_dev r) = Some e" "en_dev_id e = ms ! i" using assms(1) by blast
  then show ?case using Cons by (simp add: found_entries_def List.map_filter_simps)
qed (simp add: found_entries_def List.map_filter_simps)

lemma to_entry_simps [simp]:
  "pe_dev_id (to_entry r e w now) = en_dev_id e" "pe_stale (to_entry r e w now) = (\<not> is_fresh r e now)"
  "length (pe_cands (to_entry r e w now)) \<le> kMaxCandidates"
  by (simp_all add: to_entry_def kMaxCandidates_def)

lemma clamp_max_le: "unat (clamp_max m) \<le> 100"
  by (auto simp: clamp_max_def Let_def kLookupMax_def kLookupDefault_def word_less_nat_alt word_le_nat_alt not_less)

lemma topic_members:
  assumes "reg_inv clock r" "get t (rg_topics r) = Some ts"
  shows "distinct (tst_members ts)" "set (tst_members ts) = in_topic (ent r) t"
    and "d \<in> set (tst_members ts) \<Longrightarrow> \<exists>e. get d (rg_by_dev r) = Some e \<and> en_dev_id e = d \<and> en_topic_id e = t"
proof -
  have sh: "shape r t = Some (unfresh ts)" using assms(2) by (simp add: shape_def)
  have "members_ok (unfresh ts)" "set (tst_members (unfresh ts)) = in_topic (ent r) t"
    using assms(1) sh unfolding reg_inv_def core_inv_def member_inv_def by blast+
  then show "distinct (tst_members ts)" and s: "set (tst_members ts) = in_topic (ent r) t"
    by (simp_all add: members_ok_def)
  show "d \<in> set (tst_members ts) \<Longrightarrow> \<exists>e. get d (rg_by_dev r) = Some e \<and> en_dev_id e = d \<and> en_topic_id e = t"
    using s reg_ids [OF assms(1)] by (fastforce simp: in_topic_def ent_def)
qed

lemma lookup_result:
  assumes inv: "reg_inv clock r" and t: "get t (rg_topics r) = Some ts"
    and dw: "wf_draws (length (tst_members ts)) dw" and res: "lookup t m w now dw r = Some (x, r')"
  shows "length (lr_entries x) = min (unat (clamp_max m)) (length (tst_members ts))"
    and "distinct (map pe_dev_id (lr_entries x))"
    and "pe_dev_id ` set (lr_entries x) \<subseteq> in_topic (ent r) t"
    and "\<exists>k. \<forall>i < length (lr_entries x). pe_stale (lr_entries x ! i) = (k \<le> i)"
proof -
  let ?ms = "tst_members ts" and ?b = "bump_lookups r"
  have b: "rg_topics ?b = rg_topics r" "rg_by_dev ?b = rg_by_dev r" by (simp_all add: bump_lookups_def)
  obtain picked where p: "pick_indices (length ?ms) (min (unat (clamp_max m)) (length ?ms)) dw = Some picked"
    using res t by (auto simp: lookup_def Let_def b split: option.splits)
  note P = pick_indices_props [OF p dw min.cobounded2]
  define es where "es = found_entries ?b ?ms picked"
  define f where "f = filter (\<lambda>e. is_fresh ?b e now) es"
  define s where "s = filter (\<lambda>e. \<not> is_fresh ?b e now) es"
  have x: "lr_entries x = map (\<lambda>e. to_entry ?b e w now) (f @ s)"
    using res t p by (auto simp: lookup_def Let_def b es_def f_def s_def)
  have ids: "map en_dev_id es = map ((!) ?ms) picked"
    unfolding es_def using found_entries_all [of ?ms ?b picked] topic_members(3) [OF inv t] P by (fastforce simp: b)
  have len: "length f + length s = length es" unfolding f_def s_def by (rule sum_length_filter_compl)
  have "length es = length picked" using ids by (metis length_map)
  then show "length (lr_entries x) = min (unat (clamp_max m)) (length ?ms)"
    using P len x by simp
  have "inj_on ((!) ?ms) (set picked)"
    using topic_members(1) [OF inv t] P by (auto simp: inj_on_def nth_eq_iff_index_eq subset_iff)
  then have d: "distinct (map en_dev_id es)" unfolding ids using P by (simp add: distinct_map)
  then have "distinct (map en_dev_id (f @ s))"
    unfolding f_def s_def by (auto simp: distinct_map inj_on_def)
  moreover have "map pe_dev_id (lr_entries x) = map en_dev_id (f @ s)" using x by simp
  ultimately show "distinct (map pe_dev_id (lr_entries x))" by metis
  have "en_dev_id ` set es = (!) ?ms ` set picked" using ids by (metis list.set_map)
  then have "en_dev_id ` set es \<subseteq> set ?ms" using P by auto
  moreover have "pe_dev_id ` set (lr_entries x) = en_dev_id ` set es"
  proof -
    have "set f \<union> set s = set es" unfolding f_def s_def by auto
    then have "en_dev_id ` set es = en_dev_id ` set (f @ s)" by simp
    then show ?thesis unfolding x by (simp only: set_map image_image to_entry_simps(1))
  qed
  ultimately show "pe_dev_id ` set (lr_entries x) \<subseteq> in_topic (ent r) t" using topic_members(2) [OF inv t] by simp
  have "is_fresh ?b (f ! i) now" if "i < length f" for i
    using that nth_mem [OF that] unfolding f_def by simp
  moreover have "\<not> is_fresh ?b (s ! i) now" if "i < length s" for i
    using that nth_mem [OF that] unfolding s_def by simp
  ultimately show "\<exists>k. \<forall>i < length (lr_entries x). pe_stale (lr_entries x ! i) = (k \<le> i)"
    by (intro exI [of _ "length f"]) (auto simp: x nth_append)
qed

lemma lookup_returns:
  assumes "get t (rg_topics r) = Some ts" "card (set (dw_indices dw)) \<ge> min (unat (clamp_max m)) (length (tst_members ts))"
  shows "\<exists>x r'. lookup t m w now dw r = Some (x, r')"
  using assms draw_distinct_returns [of "min (unat (clamp_max m)) (length (tst_members ts))" "[]" "dw_indices dw"]
  by (auto simp: lookup_def Let_def pick_indices_def bump_lookups_def split: option.split)

section \<open>The listing\<close>

definition listed_keys :: "Registry \<Rightarrow> u32 \<Rightarrow> u32 list" where
  "listed_keys r cursor = filter (\<lambda>k. cursor \<le> k) (Mapping.ordered_keys (rg_listing r))"

definition listed_summary :: "Registry \<Rightarrow> u32 \<Rightarrow> TopicSummary" where
  "listed_summary r k = (let i = the (get k (rg_listing r)) in summary i (the (get i (rg_topics r))))"

lemma listing_key:
  assumes "core_inv r" "get k (rg_listing r) = Some i"
  obtains t where "get i (rg_topics r) = Some t" "tst_listed t" "tst_order t = k" "0 < k"
proof -
  have "\<exists>ts. shape r i = Some ts \<and> tst_listed ts \<and> tst_order ts = k" "\<forall>t ts. shape r t = Some ts \<longrightarrow> 0 < tst_order ts"
    using assms unfolding core_inv_def listing_inv_def by blast+
  then obtain ts where "shape r i = Some ts" "tst_listed ts" "tst_order ts = k" "0 < k" by blast
  then show thesis using that by (auto simp: shape_def)
qed

lemma list_loop_eq:
  assumes inv: "core_inv r" and keys: "set ks \<subseteq> Mapping.keys (rg_listing r)"
  shows "list_loop r limit out ks
    = (out @ map (listed_summary r) (take (limit - length out) ks),
       if length ks \<le> limit - length out then 0 else ks ! (limit - length out))"
  using keys
proof (induction ks arbitrary: out)
  case (Cons k ks)
  then obtain i where i: "get k (rg_listing r) = Some i" by (auto simp: in_keys)
  obtain t where t: "get i (rg_topics r) = Some t" "tst_listed t" using listing_key [OF inv i] .
  show ?case
  proof (cases "length out \<ge> limit")
    case False
    then have "limit - length out = Suc (limit - length (out @ [summary i t]))" by simp
    then show ?thesis using Cons i t False by (simp add: listed_summary_def)
  qed simp
qed simp

lemma listing_finite: "core_inv r \<Longrightarrow> finite (Mapping.keys (rg_listing r))"
proof -
  assume inv: "core_inv r"
  have "Mapping.keys (rg_listing r) \<subseteq> (\<lambda>t. tst_order (the (shape r t))) ` dom (shape r)"
  proof
    fix k assume "k \<in> Mapping.keys (rg_listing r)"
    then obtain i where i: "get k (rg_listing r) = Some i" by (auto simp: in_keys)
    obtain t where "get i (rg_topics r) = Some t" "tst_order t = k" using listing_key [OF inv i] .
    then show "k \<in> (\<lambda>t. tst_order (the (shape r t))) ` dom (shape r)"
      by (intro image_eqI [of _ _ i]) (auto simp: shape_def)
  qed
  moreover have "finite (dom (shape r))" using inv by (simp add: core_inv_def member_inv_def)
  ultimately show ?thesis using finite_subset by blast
qed

definition page_limit :: "byte \<Rightarrow> nat" where
  "page_limit l = (if l = 0 then 100 else unat l)"

lemma page_limit_pos: "0 < page_limit l"
  by (auto simp: page_limit_def unat_gt_0)

lemma list_topics_page:
  assumes inv: "core_inv r"
  shows "tr_topics (fst (list_topics cursor l now r))
      = map (listed_summary (expire_fresh now r)) (take (page_limit l) (listed_keys r cursor))"
    and "tr_next_cursor (fst (list_topics cursor l now r))
      = (if length (listed_keys r cursor) \<le> page_limit l then 0 else listed_keys r cursor ! page_limit l)"
proof -
  let ?r = "expire_fresh now r"
  note c = coreD [OF expire_fresh_simps(2) [of now r]]
  have inv': "core_inv ?r" using inv c by simp
  have keys: "listed_keys r cursor = filter (\<lambda>k. cursor \<le> k) (Mapping.ordered_keys (rg_listing ?r))"
    using c by (simp add: listed_keys_def)
  have "set (listed_keys r cursor) \<subseteq> Mapping.keys (rg_listing ?r)"
    using listing_finite [OF inv] c by (auto simp: listed_keys_def ordered_keys_set)
  from list_loop_eq [OF inv' this, of "page_limit l" "[]"]
  have "list_loop ?r (page_limit l) [] (listed_keys r cursor)
    = (map (listed_summary ?r) (take (page_limit l) (listed_keys r cursor)),
       if length (listed_keys r cursor) \<le> page_limit l then 0 else listed_keys r cursor ! page_limit l)"
    by simp
  moreover have "unat (if l = 0 then 100 else l) = page_limit l" by (simp add: page_limit_def)
  ultimately show "tr_topics (fst (list_topics cursor l now r))
      = map (listed_summary ?r) (take (page_limit l) (listed_keys r cursor))"
    "tr_next_cursor (fst (list_topics cursor l now r))
      = (if length (listed_keys r cursor) \<le> page_limit l then 0 else listed_keys r cursor ! page_limit l)"
    by (simp_all add: list_topics_def Let_def keys split: prod.split)
qed

text \<open>A client that follows the cursors until it is 0, at one time.\<close>

fun all_pages :: "nat \<Rightarrow> u32 \<Rightarrow> byte \<Rightarrow> instant \<Rightarrow> Registry \<Rightarrow> TopicSummary list option" where
  "all_pages 0 cursor l now r = None"
| "all_pages (Suc n) cursor l now r =
     (let res = fst (list_topics cursor l now r) in
      if tr_next_cursor res = 0 then Some (tr_topics res)
      else map_option (\<lambda>rest. tr_topics res @ rest) (all_pages n (tr_next_cursor res) l now r))"

lemma sorted_filter_drop:
  assumes "sorted xs" "distinct xs" "k < length (filter (\<lambda>x. c \<le> x) xs)"
  shows "filter (\<lambda>x. filter (\<lambda>x. c \<le> x) xs ! k \<le> x) xs = drop k (filter (\<lambda>x. c \<le> x) xs)"
proof -
  let ?ys = "filter (\<lambda>x. c \<le> x) xs"
  have s: "sorted ?ys" "distinct ?ys" using assms by (auto intro: sorted_filter [of id, simplified])
  have "?ys ! k \<in> set ?ys" using assms(3) by (rule nth_mem)
  then have c: "c \<le> ?ys ! k" by simp
  have "filter (\<lambda>x. ?ys ! k \<le> x) xs = filter (\<lambda>x. ?ys ! k \<le> x) ?ys"
    using c by (simp add: filter_filter) (rule filter_cong, auto)
  also have "\<dots> = filter (\<lambda>x. ?ys ! k \<le> x) (take k ?ys @ drop k ?ys)" by simp
  also have "\<dots> = drop k ?ys"
  proof -
    have "\<not> ?ys ! k \<le> x" if x: "x \<in> set (take k ?ys)" for x
    proof -
      obtain i where i: "i < k" "x = ?ys ! i" using x assms(3) by (auto simp: set_conv_nth)
      then have "?ys ! i \<le> ?ys ! k" "?ys ! i \<noteq> ?ys ! k"
        using s assms(3) by (auto intro: sorted_nth_mono simp: nth_eq_iff_index_eq)
      then show ?thesis using i by simp
    qed
    moreover have "?ys ! k \<le> x" if x: "x \<in> set (drop k ?ys)" for x
    proof -
      obtain i where "i < length ?ys - k" "x = ?ys ! (k + i)" using x by (auto simp: in_set_conv_nth)
      then show ?thesis using s(1) by (auto intro: sorted_nth_mono)
    qed
    ultimately have "filter (\<lambda>x. ?ys ! k \<le> x) (take k ?ys) = []"
      "filter (\<lambda>x. ?ys ! k \<le> x) (drop k ?ys) = drop k ?ys"
      unfolding filter_empty_conv filter_id_conv by blast+
    then show ?thesis by (simp only: filter_append append_Nil)
  qed
  finally show ?thesis .
qed

lemma all_pages_complete:
  assumes inv: "core_inv r" and fuel: "length (listed_keys r cursor) < fuel"
  shows "all_pages fuel cursor l now r = Some (map (listed_summary (expire_fresh now r)) (listed_keys r cursor))"
  using fuel
proof (induction fuel arbitrary: cursor)
  case (Suc n)
  let ?ks = "listed_keys r cursor" and ?p = "page_limit l"
  note P = list_topics_page [OF inv, of cursor l now]
  show ?case
  proof (cases "length ?ks \<le> ?p")
    case True
    then show ?thesis using P by simp
  next
    case False
    have so: "sorted (Mapping.ordered_keys (rg_listing r))" "distinct (Mapping.ordered_keys (rg_listing r))"
      using ordered_keys_sorted by blast+
    have drop: "listed_keys r (?ks ! ?p) = drop ?p ?ks"
      using sorted_filter_drop [OF so, of ?p cursor] False by (simp add: listed_keys_def)
    have "?ks ! ?p \<in> set ?ks" using False by simp
    then have "?ks ! ?p \<in> Mapping.keys (rg_listing r)"
      using listing_finite [OF inv] by (auto simp: listed_keys_def ordered_keys_set)
    then obtain i where i: "get (?ks ! ?p) (rg_listing r) = Some i" by (auto simp: in_keys)
    have nz: "?ks ! ?p \<noteq> 0" using listing_key [OF inv i] by (metis less_irrefl)
    have "length (listed_keys r (?ks ! ?p)) < n" using Suc.prems False page_limit_pos [of l] by (simp add: drop)
    from Suc.IH [OF this] show ?thesis
      using False P nz by (simp add: drop Let_def flip: map_append)
  qed
qed simp

section \<open>Relayed datagrams\<close>

lemma relay_side_token:
  "relay_side i tk k r = Some one \<Longrightarrow>
   \<exists>rl. get i (rg_relays r) = Some rl \<and> tk = side one (ry_token rl) \<and> (\<forall>k'. k = Some k' \<longrightarrow> ry_kind rl = k')"
  by (auto simp: relay_side_def side_def split: option.splits if_splits)

text \<open>A datagram goes out only to the address the other side bound, and only within the budget.\<close>

lemma udp_forward_bound:
  assumes res: "udp_forward i src n now r = (Some dst, r')"
  obtains rl one where "get i (rg_relays r) = Some rl" "ry_kind rl = RK_Udp"
    "bound_to src (side one (ry_udp rl))" "side (\<not> one) (ry_udp rl) = Some dst"
    "get i (rg_relays r') = Some (rl\<lparr>ry_bytes := ry_bytes rl + n, ry_last_seen := now\<rparr>)"
    "ry_bytes rl + n \<le> rc_relay_max_bytes (rg_cfg r)" "\<not> ry_exhausted rl"
proof -
  obtain rl where rl: "get i (rg_relays r) = Some rl" "ry_kind rl = RK_Udp"
    using res by (auto simp: udp_forward_def split: option.splits if_splits)
  obtain one where one: "udp_from src rl = Some one" "side (\<not> one) (ry_udp rl) = Some dst"
    "fst (relay_charge i n now r)" "r' = snd (relay_charge i n now r)"
    using res rl by (auto simp: udp_forward_def split: option.splits prod.splits if_splits)
  have "bound_to src (side one (ry_udp rl))"
    using one(1) by (auto simp: udp_from_def side_def split: if_splits)
  moreover have "ry_bytes rl + n \<le> rc_relay_max_bytes (rg_cfg r) \<and> \<not> ry_exhausted rl
      \<and> get i (rg_relays r') = Some (rl\<lparr>ry_bytes := ry_bytes rl + n, ry_last_seen := now\<rparr>)"
    using one(3,4) rl by (auto simp: relay_charge_def not_less split: if_splits)
  ultimately show thesis using that rl one(2) by blast
qed

text \<open>
  The sizes charged successfully in a run of charges to one binding: their sum, as a number, is what
  the binding has recorded, and never exceeds the budget, when no single size can wrap the counter.
\<close>

fun charges :: "RelayId \<Rightarrow> (u64 \<times> instant) list \<Rightarrow> Registry \<Rightarrow> nat \<times> Registry" where
  "charges i [] r = (0, r)"
| "charges i ((n, now) # cs) r =
     (let (ok, r1) = relay_charge i n now r; (total, r2) = charges i cs r1
      in ((if ok then unat n else 0) + total, r2))"

lemma relay_charge_cfg: "rg_cfg (snd (relay_charge i n now r)) = rg_cfg r"
  by (auto simp: relay_charge_def bump_rej_quota_def split: option.split)

lemma relay_charge_get:
  assumes "get i (rg_relays r) = Some rl"
  shows "get i (rg_relays (snd (relay_charge i n now r)))
    = Some (if fst (relay_charge i n now r) then rl\<lparr>ry_bytes := ry_bytes rl + n, ry_last_seen := now\<rparr>
            else rl\<lparr>ry_exhausted := True\<rparr>)"
    and "fst (relay_charge i n now r) \<Longrightarrow> ry_bytes rl + n \<le> rc_relay_max_bytes (rg_cfg r)"
  using assms by (auto simp: relay_charge_def bump_rej_quota_def not_less split: if_splits)

lemma charges_within:
  assumes "get i (rg_relays r) = Some rl" "ry_bytes rl \<le> rc_relay_max_bytes (rg_cfg r)"
    and "unat (rc_relay_max_bytes (rg_cfg r)) < 2 ^ 63" "\<forall>(n, now) \<in> set cs. unat n < 2 ^ 63"
  shows "unat (ry_bytes rl) + fst (charges i cs r) \<le> unat (rc_relay_max_bytes (rg_cfg r))"
  using assms
proof (induction cs arbitrary: r rl)
  case Nil
  then show ?case by (simp add: word_le_nat_alt)
next
  case (Cons c cs)
  obtain n now where c: "c = (n, now)" by (cases c)
  let ?r = "snd (relay_charge i n now r)"
  note cfg = relay_charge_cfg [of i n now r]
  show ?case
  proof (cases "fst (relay_charge i n now r)")
    case True
    let ?rl = "rl\<lparr>ry_bytes := ry_bytes rl + n, ry_last_seen := now\<rparr>"
    have g: "get i (rg_relays ?r) = Some ?rl" using relay_charge_get(1) [OF Cons.prems(1), of n now] True by simp
    have b: "ry_bytes rl + n \<le> rc_relay_max_bytes (rg_cfg r)"
      using relay_charge_get(2) [OF Cons.prems(1) True] .
    have "unat (ry_bytes rl) < 2 ^ 63" using Cons.prems(2,3) by (simp add: word_le_nat_alt)
    then have nw: "unat (ry_bytes rl + n) = unat (ry_bytes rl) + unat n"
      using Cons.prems(4) c by (intro unat_add_lem [THEN iffD1]) simp
    have "unat (ry_bytes ?rl) + fst (charges i cs ?r) \<le> unat (rc_relay_max_bytes (rg_cfg ?r))"
      using Cons.IH [OF g] b Cons.prems cfg by simp
    then show ?thesis using True nw cfg c by (simp add: split_def Let_def)
  next
    case False
    have g: "get i (rg_relays ?r) = Some (rl\<lparr>ry_exhausted := True\<rparr>)"
      using relay_charge_get(1) [OF Cons.prems(1), of n now] False by simp
    have "unat (ry_bytes rl) + fst (charges i cs ?r) \<le> unat (rc_relay_max_bytes (rg_cfg ?r))"
      using Cons.IH [OF g] Cons.prems cfg by simp
    then show ?thesis using False cfg c by (simp add: split_def Let_def)
  qed
qed

end
