(* ===== verification/Control_Service.thy ===== *)
theory Control_Service
  imports Control_Codecs Registry_Queries Complex_Main
begin

text \<open>
  The server's side of the control protocol, \<^verbatim>\<open>server/control_service.*\<close>: decode a message of a
  control connection or a datagram, act on the registry, and say what to send where. The token
  buckets hold \<^verbatim>\<open>double\<close>s in the code and rationals here, so rounding is not modelled; time is in
  milliseconds. \<open>None\<close> of an operation means that the draws given for its random choices ran out.
\<close>

record ControlConfig =
  cc_rate_bytes_per_sec :: nat
  cc_rate_burst_bytes :: nat
  cc_udp_bytes_per_sec :: nat
  cc_udp_burst_bytes :: nat
  cc_max_udp_sources :: nat

definition ControlConfig_default :: ControlConfig where
  "ControlConfig_default = \<lparr>cc_rate_bytes_per_sec = 256 * 1024, cc_rate_burst_bytes = 1024 * 1024,
     cc_udp_bytes_per_sec = 4 * 1024 * 1024, cc_udp_burst_bytes = 8 * 1024 * 1024, cc_max_udp_sources = 16384\<rparr>"

record Framed =
  fm_to :: ConnKey
  fm_bytes :: bytes

record UdpOut =
  ud_to :: Endpoint
  ud_data :: bytes

definition kMessageOverhead :: nat where "kMessageOverhead = 64"

record Bucket =
  bk_tokens :: rat
  bk_last :: instant

definition Bucket_default :: Bucket where "Bucket_default = \<lparr>bk_tokens = 0, bk_last = 0\<rparr>"

record Conn =
  cn_peer :: Endpoint
  cn_budget :: Bucket

record Service =
  sv_reg :: Registry
  sv_cfg :: ControlConfig
  sv_conns :: "(ConnKey, Conn) mapping"
  sv_udp_buckets :: "(bytes, Bucket) mapping"
  sv_rej_rate_limited :: u64

definition Service_new :: "Registry \<Rightarrow> ControlConfig \<Rightarrow> Service" where
  "Service_new reg cfg = \<lparr>sv_reg = reg, sv_cfg = cfg, sv_conns = Mapping.empty, sv_udp_buckets = Mapping.empty,
     sv_rej_rate_limited = 0\<rparr>"

section \<open>Replies\<close>

definition reply :: "('m \<Rightarrow> writer \<Rightarrow> writer) \<Rightarrow> ConnKey \<Rightarrow> MsgType \<Rightarrow> u32 \<Rightarrow> 'm \<Rightarrow> byte \<Rightarrow> Framed" where
  "reply encode to type txn body flags =
     (let message = ctl_message encode type txn body flags;
          message = (if message = [] then ctl_message Error_encode MT_Error txn
                       \<lparr>er_code = BadRequest, er_reason = ''reply exceeds frame limit''\<rparr> 0
                     else message)
      in \<lparr>fm_to = to, fm_bytes = frame message\<rparr>)"

definition reply_empty :: "ConnKey \<Rightarrow> MsgType \<Rightarrow> u32 \<Rightarrow> Framed" where
  "reply_empty to type txn = \<lparr>fm_to = to, fm_bytes = frame (empty_message type txn 0)\<rparr>"

definition error_reply :: "ConnKey \<Rightarrow> u32 \<Rightarrow> ErrorCode \<Rightarrow> Framed" where
  "error_reply to txn code =
     reply Error_encode to MT_Error txn \<lparr>er_code = code, er_reason = ErrorCode_to_string code\<rparr> 0"

definition udp_message :: "('m \<Rightarrow> writer \<Rightarrow> writer) \<Rightarrow> MsgType \<Rightarrow> u32 \<Rightarrow> 'm \<Rightarrow> bytes" where
  "udp_message encode type txn body = ctl_message encode type txn body 0"

section \<open>The token bucket and the connections\<close>

definition take_tokens :: "Bucket \<Rightarrow> nat \<Rightarrow> nat \<Rightarrow> nat \<Rightarrow> instant \<Rightarrow> bool \<times> Bucket" where
  "take_tokens b bytes rate burst now =
     (let b = (if bk_last b = 0 then b\<lparr>bk_tokens := of_nat burst, bk_last := now\<rparr> else b);
          elapsed = of_int (now - bk_last b) / 1000;
          b = b\<lparr>bk_last := now\<rparr>;
          b = b\<lparr>bk_tokens := min (of_nat burst) (bk_tokens b + elapsed * of_nat rate)\<rparr>
      in if bk_tokens b < of_nat bytes then (False, b)
         else (True, b\<lparr>bk_tokens := bk_tokens b - of_nat bytes\<rparr>))"

definition on_open :: "ConnKey \<Rightarrow> Endpoint \<Rightarrow> instant \<Rightarrow> Service \<Rightarrow> Service" where
  "on_open key peer now s =
     (let (_, b) = take_tokens Bucket_default 0 (cc_rate_bytes_per_sec (sv_cfg s)) (cc_rate_burst_bytes (sv_cfg s)) now
      in s\<lparr>sv_conns := put key \<lparr>cn_peer = peer, cn_budget = b\<rparr> (sv_conns s)\<rparr>)"

definition on_close :: "ConnKey \<Rightarrow> Service \<Rightarrow> Service" where
  "on_close key s = s\<lparr>sv_conns := del key (sv_conns s), sv_reg := snd (drop_owner key (sv_reg s))\<rparr>"

section \<open>Messages\<close>

text \<open>
  One definition per case of the switch of \<^verbatim>\<open>on_message\<close>. \<open>Some None\<close>-like results are spelt out as
  \<open>handled\<close>: what to send, or that the body did not decode.
\<close>

datatype handled = Sent "Framed list" | Undecoded

definition on_register :: "Header \<Rightarrow> reader \<Rightarrow> ConnKey \<Rightarrow> Endpoint \<Rightarrow> instant \<Rightarrow> Registry \<Rightarrow> handled \<times> Registry" where
  "on_register h rd key peer now reg = (case fst (run_state (Register_decode h) rd) of
       None \<Rightarrow> (Undecoded, reg)
     | Some m \<Rightarrow>
         (let (res, reg) = register_entry m peer key now reg
          in (Sent [if rr_code res \<noteq> EC_None then error_reply key (h_txn_id h) (rr_code res)
                    else reply RegisterOk_encode key MT_RegisterOk (h_txn_id h)
                           \<lparr>rk_dev_id = rr_dev_id res, rk_srflx = rr_srflx res,
                            rk_peers_in_topic = rr_peers_in_topic res\<rparr> 0], reg)))"

definition on_keepalive :: "Header \<Rightarrow> reader \<Rightarrow> ConnKey \<Rightarrow> Endpoint \<Rightarrow> instant \<Rightarrow> Registry \<Rightarrow> handled \<times> Registry" where
  "on_keepalive h rd key peer now reg =
     (let ok = reply KeepaliveOk_encode key MT_KeepaliveOk (h_txn_id h) \<lparr>ka_srflx = peer\<rparr> 0 in
      if r_remaining rd = 0 then (Sent [ok], reg)
      else case fst (run_state DevRef_decode rd) of
          None \<Rightarrow> (Undecoded, reg)
        | Some m \<Rightarrow>
            (let (code, reg) = refresh (dr_dev_id m) key now reg
             in (Sent [if code \<noteq> EC_None then error_reply key (h_txn_id h) code else ok], reg)))"

definition on_update :: "Header \<Rightarrow> reader \<Rightarrow> ConnKey \<Rightarrow> instant \<Rightarrow> Registry \<Rightarrow> handled \<times> Registry" where
  "on_update h rd key now reg = (case fst (run_state Update_decode rd) of
       None \<Rightarrow> (Undecoded, reg)
     | Some m \<Rightarrow>
         (let (code, reg) = update_entry m key now reg
          in (Sent [if code \<noteq> EC_None then error_reply key (h_txn_id h) code
                    else reply_empty key MT_UpdateOk (h_txn_id h)], reg)))"

definition on_unregister :: "Header \<Rightarrow> reader \<Rightarrow> ConnKey \<Rightarrow> Registry \<Rightarrow> handled \<times> Registry" where
  "on_unregister h rd key reg = (case fst (run_state DevRef_decode rd) of
       None \<Rightarrow> (Undecoded, reg)
     | Some m \<Rightarrow>
         (let (code, reg) = unregister (dr_dev_id m) key reg
          in (Sent [if code \<noteq> EC_None then error_reply key (h_txn_id h) code
                    else reply_empty key MT_UnregisterOk (h_txn_id h)], reg)))"

text \<open>The loop that counts how many entries fit: the count when it stops.\<close>

fun fit_count :: "nat \<Rightarrow> nat \<Rightarrow> PeerEntry list \<Rightarrow> nat" where
  "fit_count bytes count [] = count"
| "fit_count bytes count (e # es) =
     (if bytes + encoded_size e > kMaxFrame then count
      else fit_count (bytes + encoded_size e) (count + 1) es)"

definition lookup_base :: nat where
  "lookup_base = Header_kSize + kTopicIdLen + 1 + 2 + 1"

definition on_lookup ::
  "Header \<Rightarrow> reader \<Rightarrow> ConnKey \<Rightarrow> instant \<Rightarrow> Draws \<Rightarrow> Registry \<Rightarrow> (handled \<times> Registry) option" where
  "on_lookup h rd key now dw reg = (case fst (run_state (Lookup_decode h) rd) of
       None \<Rightarrow> Some (Undecoded, reg)
     | Some m \<Rightarrow> (case lookup (lk_id m) (lk_max m) (lk_want_meta m) now dw reg of
         None \<Rightarrow> None
       | Some (res, reg) \<Rightarrow>
           (let count = fit_count lookup_base 0 (lr_entries res)
            in Some (Sent [reply LookupOk_encode key MT_LookupOk (h_txn_id h)
                 \<lparr>lo_id = lk_id m, lo_mode = lr_mode res, lo_total = lr_total res,
                  lo_entries = take count (lr_entries res)\<rparr> 0], reg))))"

definition on_resolve :: "Header \<Rightarrow> reader \<Rightarrow> ConnKey \<Rightarrow> instant \<Rightarrow> Registry \<Rightarrow> handled \<times> Registry" where
  "on_resolve h rd key now reg = (case fst (run_state Resolve_decode rd) of
       None \<Rightarrow> (Undecoded, reg)
     | Some m \<Rightarrow>
         (let ok = (case resolve (rs_dev_id m) now reg of
                None \<Rightarrow> \<lparr>ro_found = False, ro_topic = replicate kTopicIdLen 0, ro_entry = pe_default\<rparr>
              | Some (t, e) \<Rightarrow> \<lparr>ro_found = True, ro_topic = t, ro_entry = e\<rparr>)
          in (Sent [reply ResolveOk_encode key MT_ResolveOk (h_txn_id h) ok 0], reg)))"

definition on_topics :: "Header \<Rightarrow> reader \<Rightarrow> ConnKey \<Rightarrow> instant \<Rightarrow> Registry \<Rightarrow> handled \<times> Registry" where
  "on_topics h rd key now reg = (case fst (run_state Topics_decode rd) of
       None \<Rightarrow> (Undecoded, reg)
     | Some m \<Rightarrow>
         (let (res, reg) = list_topics (tp_cursor m) (tp_limit m) now reg
          in (Sent [reply TopicsOk_encode key MT_TopicsOk (h_txn_id h)
                \<lparr>to_next_cursor = tr_next_cursor res, to_topics = tr_topics res\<rparr> 0], reg)))"

definition on_stats :: "Header \<Rightarrow> ConnKey \<Rightarrow> instant \<Rightarrow> Service \<Rightarrow> Registry \<Rightarrow> handled \<times> Registry" where
  "on_stats h key now sv reg =
     (let (s, reg) = stats now reg;
          ok = \<lparr>so_topics_total = st_topics_total s, so_topics_listed = st_topics_listed s,
                so_entries_total = st_entries_total s, so_entries_fresh = st_entries_fresh s,
                so_registers = st_registers s, so_lookups = st_lookups s, so_connects = st_connects s,
                so_expired = st_expired s, so_rej_quota = st_rej_quota s,
                so_rej_rate_limited = sv_rej_rate_limited sv, so_relays_open = st_relays_open s,
                so_relays_allocated = st_relays_allocated s, so_relay_bytes = st_relay_bytes s,
                so_connections = of_nat (Mapping.size (sv_conns sv))\<rparr>
      in (Sent [reply StatsOk_encode key MT_StatsOk (h_txn_id h) ok 0], reg))"

definition on_connect :: "Header \<Rightarrow> reader \<Rightarrow> ConnKey \<Rightarrow> Registry \<Rightarrow> handled \<times> Registry" where
  "on_connect h rd key reg = (case fst (run_state Connect_decode rd) of
       None \<Rightarrow> (Undecoded, reg)
     | Some m \<Rightarrow> (case connect_target (cn_from_dev m) (cn_to_dev m) key reg of
         (None, reg) \<Rightarrow> (Sent [error_reply key (h_txn_id h) NotFound], reg)
       | (Some target, reg) \<Rightarrow>
           (Sent [reply Relayed_encode target MT_Relayed 0
                    \<lparr>rl_from_dev = cn_from_dev m, rl_payload = cn_payload m\<rparr> 0], reg)))"

definition on_relay_alloc ::
  "Header \<Rightarrow> reader \<Rightarrow> ConnKey \<Rightarrow> Endpoint \<Rightarrow> instant \<Rightarrow> Draws \<Rightarrow> Registry \<Rightarrow> (handled \<times> Registry) option" where
  "on_relay_alloc h rd key peer now dw reg = (case fst (run_state RelayAlloc_decode rd) of
       None \<Rightarrow> Some (Undecoded, reg)
     | Some m \<Rightarrow> (case relay_alloc (ra_from_dev m) (ra_peer_dev m) (ra_kind m) key peer now dw reg of
         None \<Rightarrow> None
       | Some (g, reg) \<Rightarrow>
           Some (if gr_code g \<noteq> EC_None then (Sent [error_reply key (h_txn_id h) (gr_code g)], reg)
                 else (Sent [reply RelayAllocOk_encode key MT_RelayAllocOk (h_txn_id h)
                               \<lparr>ao_relay_id = gr_id g, ao_token = gr_token g, ao_kind = ra_kind m,
                                ao_max_kib = gr_max_kib g\<rparr> 0,
                             reply RelayOffer_encode (gr_peer_owner g) MT_RelayOffer 0
                               \<lparr>of_relay_id = gr_id g, of_token = gr_peer_token g, of_kind = ra_kind m,
                                of_from_dev = ra_from_dev m, of_topic = gr_topic g\<rparr> 0], reg))))"

definition dispatch ::
  "Header \<Rightarrow> reader \<Rightarrow> ConnKey \<Rightarrow> Endpoint \<Rightarrow> instant \<Rightarrow> Draws \<Rightarrow> Service \<Rightarrow> (handled \<times> Registry) option" where
  "dispatch h rd key peer now dw s =
     (let t = h_type h; reg = sv_reg s in
      if t = MT_Register then Some (on_register h rd key peer now reg)
      else if t = MT_Keepalive then Some (on_keepalive h rd key peer now reg)
      else if t = MT_Update then Some (on_update h rd key now reg)
      else if t = MT_Unregister then Some (on_unregister h rd key reg)
      else if t = MT_Lookup then on_lookup h rd key now dw reg
      else if t = MT_Resolve then Some (on_resolve h rd key now reg)
      else if t = MT_Topics then Some (on_topics h rd key now reg)
      else if t = MT_Stats then Some (on_stats h key now s reg)
      else if t = MT_Connect then Some (on_connect h rd key reg)
      else if t = MT_RelayAlloc then on_relay_alloc h rd key peer now dw reg
      else Some (Sent [error_reply key (h_txn_id h) Unsupported], reg))"

record Result =
  rs_out :: "Framed list"
  rs_close :: bool

text \<open>A message within its connection's budget, then the whole handler.\<close>

definition on_admitted ::
  "ConnKey \<Rightarrow> Endpoint \<Rightarrow> bytes \<Rightarrow> instant \<Rightarrow> Draws \<Rightarrow> Service \<Rightarrow> (Result \<times> Service) option" where
  "on_admitted key peer msg now dw s = (case run_state (Header_decode ctl_kVersion) (Reader msg) of
       (None, _) \<Rightarrow> Some (\<lparr>rs_out = [], rs_close = True\<rparr>, s)
     | (Some h, rd) \<Rightarrow> (case dispatch h rd key peer now dw s of
         None \<Rightarrow> None
       | Some (x, reg) \<Rightarrow>
           Some (\<lparr>rs_out = (case x of Sent out \<Rightarrow> out
                    | Undecoded \<Rightarrow> [error_reply key (h_txn_id h) BadRequest]), rs_close = False\<rparr>,
                 s\<lparr>sv_reg := reg\<rparr>)))"

definition on_message :: "ConnKey \<Rightarrow> bytes \<Rightarrow> instant \<Rightarrow> Draws \<Rightarrow> Service \<Rightarrow> (Result \<times> Service) option" where
  "on_message key msg now dw s = (case get key (sv_conns s) of
       None \<Rightarrow> Some (\<lparr>rs_out = [], rs_close = True\<rparr>, s)
     | Some conn \<Rightarrow>
         (let (ok, b) = take_tokens (cn_budget conn) (length msg + kMessageOverhead)
                          (cc_rate_bytes_per_sec (sv_cfg s)) (cc_rate_burst_bytes (sv_cfg s)) now;
              s = s\<lparr>sv_conns := put key (conn\<lparr>cn_budget := b\<rparr>) (sv_conns s)\<rparr>
          in if \<not> ok
             then Some (\<lparr>rs_out = [], rs_close = True\<rparr>, s\<lparr>sv_rej_rate_limited := sv_rej_rate_limited s + 1\<rparr>)
             else on_admitted key (cn_peer conn) msg now dw s))"

section \<open>Datagrams and the timer\<close>

definition on_who_am_i :: "Header \<Rightarrow> reader \<Rightarrow> Endpoint \<Rightarrow> bytes \<Rightarrow> UdpOut list" where
  "on_who_am_i h rd src dgram = (case fst (run_state WhoAmI_decode rd) of
       None \<Rightarrow> []
     | Some m \<Rightarrow>
         (let rep = udp_message WhoAmIOk_encode MT_WhoAmIOk (h_txn_id h) \<lparr>wo_nonce = wa_nonce m, wo_mapped = src\<rparr>
          in if length rep \<le> length dgram then [\<lparr>ud_to = src, ud_data = rep\<rparr>] else []))"

definition on_udp_bind :: "Header \<Rightarrow> reader \<Rightarrow> Endpoint \<Rightarrow> instant \<Rightarrow> Registry \<Rightarrow> UdpOut list \<times> Registry" where
  "on_udp_bind h rd src now reg = (case fst (run_state UdpRelayBind_decode rd) of
       None \<Rightarrow> ([], reg)
     | Some m \<Rightarrow> (case udp_bind (ub_relay_id m) (ub_token m) src now reg of
         (False, reg) \<Rightarrow> ([], reg)
       | (True, reg) \<Rightarrow>
           ([\<lparr>ud_to = src, ud_data = udp_message UdpRelayBindOk_encode MT_UdpRelayBindOk (h_txn_id h)
                               \<lparr>uo_relay_id = ub_relay_id m\<rparr>\<rparr>], reg)))"

definition on_relay_data :: "reader \<Rightarrow> Endpoint \<Rightarrow> instant \<Rightarrow> Registry \<Rightarrow> UdpOut list \<times> Registry" where
  "on_relay_data rd src now reg = (case fst (run_state RelayData_decode rd) of
       None \<Rightarrow> ([], reg)
     | Some m \<Rightarrow> (case udp_forward (rd_relay_id m) src (of_nat (length (rd_payload m))) now reg of
         (None, reg) \<Rightarrow> ([], reg)
       | (Some dst, reg) \<Rightarrow> ([\<lparr>ud_to = dst, ud_data = udp_message RelayData_encode MT_RelayData 0 m\<rparr>], reg)))"

definition on_udp :: "Endpoint \<Rightarrow> bytes \<Rightarrow> instant \<Rightarrow> Service \<Rightarrow> UdpOut list \<times> Service" where
  "on_udp src dgram now s =
     (let ip = ip_bytes (ep_ip src) in
      if get ip (sv_udp_buckets s) = None \<and> Mapping.size (sv_udp_buckets s) \<ge> cc_max_udp_sources (sv_cfg s)
      then ([], s)
      else
        (let b = (case get ip (sv_udp_buckets s) of None \<Rightarrow> Bucket_default | Some b \<Rightarrow> b);
             (ok, b) = take_tokens b (length dgram) (cc_udp_bytes_per_sec (sv_cfg s)) (cc_udp_burst_bytes (sv_cfg s)) now;
             s = s\<lparr>sv_udp_buckets := put ip b (sv_udp_buckets s)\<rparr>
         in if \<not> ok then ([], s)
            else (case run_state (Header_decode ctl_kVersion) (Reader dgram) of
                (None, _) \<Rightarrow> ([], s)
              | (Some h, rd) \<Rightarrow>
                  if h_type h = MT_WhoAmI then (on_who_am_i h rd src dgram, s)
                  else if h_type h = MT_UdpRelayBind
                  then (let (out, reg) = on_udp_bind h rd src now (sv_reg s) in (out, s\<lparr>sv_reg := reg\<rparr>))
                  else if h_type h = MT_RelayData
                  then (let (out, reg) = on_relay_data rd src now (sv_reg s) in (out, s\<lparr>sv_reg := reg\<rparr>))
                  else ([], s))))"

definition tick :: "instant \<Rightarrow> Service \<Rightarrow> Service" where
  "tick now s = s\<lparr>sv_reg := sweep now (sv_reg s),
     sv_udp_buckets := Mapping.filter (\<lambda>_ b. \<not> now - bk_last b > 5 * 60 * 1000) (sv_udp_buckets s)\<rparr>"

end
