(* ===== verification/Service_Laws.thy ===== *)
theory Service_Laws
  imports Control_Service
begin

text \<open>
  What the control service promises: a datagram is never answered with more bytes than it had, the
  token buckets bound what a source is served, and the reply to a lookup always fits a frame.
\<close>

section \<open>What a decoder consumes\<close>

definition eats :: "nat \<Rightarrow> (reader, 'a) state \<Rightarrow> bool" where
  "eats n m \<longleftrightarrow> (\<forall>r v r'. run_state m r = (v, r') \<longrightarrow> r_ok r' \<longrightarrow>
     r_ok r \<and> r_buf r' = r_buf r \<and> r_pos r' = r_pos r + n \<and> (r_pos r \<le> length (r_buf r) \<longrightarrow> r_pos r' \<le> length (r_buf r)))"

lemma eatsD:
  assumes "eats n m" "run_state m r = (v, r')" "r_ok r'"
  shows "r_ok r" "r_buf r' = r_buf r" "r_pos r' = r_pos r + n"
    "r_pos r \<le> length (r_buf r) \<Longrightarrow> r_pos r' \<le> length (r_buf r)"
  using assms unfolding eats_def by blast+

lemma eats_have_grab:
  "eats n (do { h \<leftarrow> have_n n; if \<not> h then State_Monad.return z
               else do { b \<leftarrow> grab n; State_Monad.return (f b) } })"
  by (auto simp: eats_def have_n_def grab_def State_Monad.return_def split: if_splits)

lemma eats_bytes: "eats n (rd_bytes n)"
  by (auto simp: eats_def rd_bytes_def have_n_def grab_def State_Monad.return_def split: if_splits)

lemma eats_prims: "eats 1 rd_u8" "eats 2 rd_u16" "eats 4 rd_u32" "eats 8 rd_u64" "eats n (rd_array n)"
proof -
  show "eats 1 rd_u8" "eats 2 rd_u16" "eats 4 rd_u32" "eats 8 rd_u64"
    unfolding rd_u8_def rd_u16_def rd_u32_def rd_u64_def by (rule eats_have_grab)+
  show "eats n (rd_array n)"
    using eats_bytes [of n] by (auto simp: eats_def rd_array_def State_Monad.return_def split: prod.splits)
qed

lemma eats_bind: "eats a m \<Longrightarrow> (\<And>v. eats b (k v)) \<Longrightarrow> eats (a + b) (m \<bind> k)"
proof -
  assume m: "eats a m" and k: "\<And>v. eats b (k v)"
  show ?thesis
    unfolding eats_def
  proof (intro allI impI)
    fix r x r'
    assume run: "run_state (m \<bind> k) r = (x, r')" and ok: "r_ok r'"
    obtain v r1 where 1: "run_state m r = (v, r1)" by fastforce
    then have 2: "run_state (k v) r1 = (x, r')" using run by simp
    note K = eatsD [OF k 2 ok]
    note M = eatsD [OF m 1 K(1)]
    show "r_ok r \<and> r_buf r' = r_buf r \<and> r_pos r' = r_pos r + (a + b)
        \<and> (r_pos r \<le> length (r_buf r) \<longrightarrow> r_pos r' \<le> length (r_buf r))"
      using K M by simp
  qed
qed

lemma eats_none: "eats 0 (State_Monad.return x)" "eats 0 rd_ok"
  by (auto simp: eats_def State_Monad.return_def rd_ok_def)

lemma eats_if: "eats n a \<Longrightarrow> eats n b \<Longrightarrow> eats n (if c then a else b)"
  by simp

lemmas eats_intros = eats_bind eats_prims eats_none eats_if

lemma eats_Header: "eats 8 (Header_decode v)"
proof -
  have "eats (1 + (1 + (1 + (1 + (4 + (0 + 0)))))) (Header_decode v)"
    unfolding Header_decode_def by (intro eats_intros)
  then show ?thesis by simp
qed

lemma eats_UdpRelayBind: "eats 24 UdpRelayBind_decode"
proof -
  have "eats (8 + (kRelayTokenLen + (0 + 0))) UdpRelayBind_decode"
    unfolding UdpRelayBind_decode_def by (intro eats_intros)
  then show ?thesis by (simp add: kRelayTokenLen_def)
qed

lemma rd_bytes_length: "run_state (rd_bytes n) r = (s, r') \<Longrightarrow> r_ok r' \<Longrightarrow> length s = n"
  by (auto simp: rd_bytes_def have_n_def grab_def State_Monad.return_def split: if_splits)

lemma RelayData_consumes:
  assumes run: "run_state RelayData_decode r = (Some m, r')" and ok: "r_ok r" and pos: "r_pos r \<le> length (r_buf r)"
  shows "r_pos r + 10 + length (rd_payload m) \<le> length (r_buf r)" "length (rd_payload m) \<le> kMaxDatagram"
proof -
  obtain i r1 where 1: "run_state rd_u64 r = (i, r1)" by fastforce
  obtain n r2 where 2: "run_state rd_u16 r1 = (n, r2)" by fastforce
  have n: "unat n \<le> kMaxDatagram"
    using run 1 2 by (auto simp: RelayData_decode_def read_blob16_capped_def State_Monad.return_def split: if_splits)
  obtain s r3 where 3: "run_state (rd_bytes (unat n)) r2 = (s, r3)" by fastforce
  have ok3: "r_ok r3" and m: "rd_payload m = s"
    using run 1 2 3 n
    by (auto simp: RelayData_decode_def read_blob16_capped_def State_Monad.return_def rd_ok_def split: if_splits)
  note E3 = eatsD [OF eats_bytes 3 ok3]
  note E2 = eatsD [OF eats_prims(2) 2 E3(1)]
  note E1 = eatsD [OF eats_prims(4) 1 E2(1)]
  have "length s = unat n" using rd_bytes_length [OF 3 ok3] .
  then show "r_pos r + 10 + length (rd_payload m) \<le> length (r_buf r)" "length (rd_payload m) \<le> kMaxDatagram"
    using E1 E2 E3 pos n m by simp_all
qed

lemma Header_consumes:
  assumes "run_state (Header_decode v) (Reader bs) = (Some h, r)"
  shows "r_ok r" "r_buf r = bs" "r_pos r = 8" "8 \<le> length bs"
proof -
  show ok: "r_ok r" using sound_Header [of v] assms by (auto simp: sound_def Reader_def)
  note E = eatsD [OF eats_Header assms ok]
  show "r_buf r = bs" "r_pos r = 8" "8 \<le> length bs" using E by (simp_all add: Reader_def)
qed

section \<open>Never more out than in\<close>

lemma on_udp_bind_small:
  assumes h: "run_state (Header_decode v) (Reader bs) = (Some h, rd)"
  shows "sum_list (map (\<lambda>o'. length (ud_data o')) (fst (on_udp_bind h rd src now reg))) \<le> length bs"
proof (cases "fst (run_state UdpRelayBind_decode rd)")
  case (Some m)
  then obtain r' where run: "run_state UdpRelayBind_decode rd = (Some m, r')" by (metis prod.collapse)
  note H = Header_consumes [OF h]
  have "r_ok r'"
    using run udp_relay_bind.decode_sound H(1) by (auto simp: sound_def)
  note E = eatsD [OF eats_UdpRelayBind run this]
  have "8 + 8 \<le> length bs" using E H by simp
  then show ?thesis
    using Some by (auto simp: on_udp_bind_def udp_message_def udp_relay_bind_ok.message_bytes ser_UdpRelayBindOk_def
        split: prod.split bool.split)
qed (simp add: on_udp_bind_def)

lemma on_relay_data_small:
  assumes h: "run_state (Header_decode v) (Reader bs) = (Some h, rd)"
  shows "sum_list (map (\<lambda>o'. length (ud_data o')) (fst (on_relay_data rd src now reg))) \<le> length bs"
proof (cases "fst (run_state RelayData_decode rd)")
  case (Some m)
  then obtain r' where run: "run_state RelayData_decode rd = (Some m, r')" by (metis prod.collapse)
  note H = Header_consumes [OF h]
  have "8 + 10 + length (rd_payload m) \<le> length bs"
    using RelayData_consumes [OF run H(1)] H by simp
  then show ?thesis
    using Some by (auto simp: on_relay_data_def udp_message_def relay_data.message_bytes ser_RelayData_def
        ser_blob16_def split: prod.split option.split)
qed (simp add: on_relay_data_def)

lemma on_who_am_i_small:
  "sum_list (map (\<lambda>o'. length (ud_data o')) (on_who_am_i h rd src dgram)) \<le> length dgram"
  by (simp add: on_who_am_i_def Let_def split: option.split)

lemma on_udp_small:
  "sum_list (map (\<lambda>o'. length (ud_data o')) (fst (on_udp src dgram now s))) \<le> length dgram"
proof -
  obtain ho rd where h: "run_state (Header_decode ctl_kVersion) (Reader dgram) = (ho, rd)" by fastforce
  show ?thesis
  proof (cases ho)
    case (Some h)
    then have hd: "run_state (Header_decode ctl_kVersion) (Reader dgram) = (Some h, rd)" using h by simp
    show ?thesis
      using on_udp_bind_small [OF hd] on_relay_data_small [OF hd] on_who_am_i_small [of h rd src dgram]
      by (simp add: on_udp_def Let_def hd split_def)
  qed (simp add: on_udp_def Let_def h split_def)
qed

lemma on_udp_one: "length (fst (on_udp src dgram now s)) \<le> 1"
  by (simp add: on_udp_def Let_def on_udp_bind_def on_relay_data_def on_who_am_i_def split_def
      split: option.split prod.split bool.split)

section \<open>What a bucket lets through\<close>

fun served :: "nat \<Rightarrow> nat \<Rightarrow> Bucket \<Rightarrow> (nat \<times> instant) list \<Rightarrow> nat" where
  "served rate burst b [] = 0"
| "served rate burst b ((n, now) # rs) =
     (let (ok, b') = take_tokens b n rate burst now in (if ok then n else 0) + served rate burst b' rs)"

lemma take_tokens_step:
  assumes "bk_last b \<noteq> 0"
  shows "bk_last (snd (take_tokens b n rate burst now)) = now"
    and "bk_tokens (snd (take_tokens b n rate burst now)) + (if fst (take_tokens b n rate burst now) then of_nat n else 0)
      \<le> bk_tokens b + of_int (now - bk_last b) / 1000 * of_nat rate"
    and "bk_tokens (snd (take_tokens b n rate burst now)) \<le> of_nat burst"
  using assms by (auto simp: take_tokens_def Let_def)

lemma take_tokens_first:
  "bk_last b = 0 \<Longrightarrow> now \<noteq> 0 \<Longrightarrow> take_tokens b n rate burst now
     = take_tokens (b\<lparr>bk_tokens := of_nat burst, bk_last := now\<rparr>) n rate burst now"
  by (simp add: take_tokens_def)

lemma take_tokens_nonneg:
  assumes "bk_last b \<noteq> 0" "bk_last b \<le> now" "0 \<le> bk_tokens b"
  shows "0 \<le> bk_tokens (snd (take_tokens b n rate burst now))"
proof -
  have "0 \<le> of_int (now - bk_last b) / 1000 * (of_nat rate :: rat)" using assms(2) by simp
  then show ?thesis using assms by (auto simp: take_tokens_def Let_def)
qed

definition refill :: "nat \<Rightarrow> instant \<Rightarrow> instant \<Rightarrow> rat" where
  "refill rate a b = of_int (b - a) / 1000 * of_nat rate"

lemma refill_add: "refill rate a c = refill rate a b + refill rate b c"
  by (simp add: refill_def field_simps)

lemma served_bound:
  assumes "0 < bk_last b" "sorted (bk_last b # map snd rs)" "0 \<le> bk_tokens b"
  shows "of_nat (served rate burst b rs) \<le> bk_tokens b + refill rate (bk_last b) (last (bk_last b # map snd rs))"
  using assms
proof (induction rs arbitrary: b)
  case Nil
  then show ?case by (simp add: refill_def)
next
  case (Cons x rs)
  obtain n now where x: "x = (n, now)" by (cases x)
  let ?b = "snd (take_tokens b n rate burst now)" and ?ok = "fst (take_tokens b n rate burst now)"
  have nz: "bk_last b \<noteq> 0" and le: "bk_last b \<le> now" using Cons.prems x by simp_all
  note S = take_tokens_step [OF nz, of n rate burst now]
  have pos: "0 < bk_last ?b" "sorted (bk_last ?b # map snd rs)" using Cons.prems x S(1) le by auto
  have IH: "of_nat (served rate burst ?b rs) \<le> bk_tokens ?b + refill rate now (last (now # map snd rs))"
    using Cons.IH [OF pos take_tokens_nonneg [OF nz le Cons.prems(3)]] S(1) by simp
  have tot: "(of_nat (served rate burst b (x # rs)) :: rat)
      = (if ?ok then of_nat n else 0) + of_nat (served rate burst ?b rs)"
    by (simp add: x split_def Let_def)
  have T: "last (bk_last b # map snd (x # rs)) = last (now # map snd rs)" by (simp add: x)
  show ?case
    using IH S(2) refill_add [of rate "bk_last b" "last (now # map snd rs)" now]
    unfolding tot T refill_def [of rate "bk_last b" now, symmetric] by linarith
qed

lemma served_from_start:
  assumes "rs \<noteq> []" "0 < snd (hd rs)" "sorted (map snd rs)"
  shows "of_nat (served rate burst Bucket_default rs) \<le> of_nat burst + refill rate (snd (hd rs)) (last (map snd rs))"
proof -
  obtain n now rs' where rs: "rs = (n, now) # rs'" using assms(1) by (cases rs) auto
  let ?b = "Bucket_default\<lparr>bk_tokens := of_nat burst, bk_last := now\<rparr>"
  have "served rate burst Bucket_default rs = served rate burst ?b rs"
    using take_tokens_first [of Bucket_default now n rate burst] assms(2) rs
    by (simp add: Bucket_default_def)
  moreover have "of_nat (served rate burst ?b rs) \<le> bk_tokens ?b + refill rate (bk_last ?b) (last (bk_last ?b # map snd rs))"
    using assms rs by (intro served_bound) auto
  ultimately show ?thesis using rs by (simp add: Bucket_default_def)
qed

section \<open>The reply to a lookup fits\<close>

lemma fit_count_bound:
  assumes "bytes \<le> kMaxFrame"
  shows "fit_count bytes c es \<le> c + length es \<and> c \<le> fit_count bytes c es
    \<and> bytes + sum_list (map encoded_size (take (fit_count bytes c es - c) es)) \<le> kMaxFrame"
  using assms
proof (induction es arbitrary: bytes c)
  case (Cons e es)
  show ?case
  proof (cases "bytes + encoded_size e > kMaxFrame")
    case False
    then have IH: "fit_count (bytes + encoded_size e) (c + 1) es \<le> c + 1 + length es
      \<and> c + 1 \<le> fit_count (bytes + encoded_size e) (c + 1) es
      \<and> bytes + encoded_size e + sum_list (map encoded_size
          (take (fit_count (bytes + encoded_size e) (c + 1) es - (c + 1)) es)) \<le> kMaxFrame"
      using Cons.IH [of "bytes + encoded_size e" "c + 1"] by simp
    then obtain k where k: "fit_count (bytes + encoded_size e) (c + 1) es = c + 1 + k"
      using le_iff_add by blast
    then have fc: "fit_count bytes c (e # es) - c = Suc k" using False by simp
    show ?thesis using IH False k unfolding fc by simp
  qed (use Cons.prems in simp)
qed simp

definition entries_wf :: "Registry \<Rightarrow> bool" where
  "entries_wf r \<longleftrightarrow> (\<forall>d e. get d (rg_by_dev r) = Some e \<longrightarrow> length (en_dev_id e) = kDevIdLen
     \<and> list_all wf_cand (en_host_cands e) \<and> length (en_meta e) \<le> kMaxMeta \<and> wf_ep (en_bound_addr e))"

lemma to_entry_wf:
  assumes "entries_wf r" "get d (rg_by_dev r) = Some e"
  shows "wf_PeerEntry (to_entry s e w now)"
proof -
  have e: "length (en_dev_id e) = kDevIdLen" "list_all wf_cand (en_host_cands e)" "length (en_meta e) \<le> kMaxMeta"
    "wf_ep (en_bound_addr e)"
    using assms unfolding entries_wf_def by blast+
  then have "list_all wf_cand (\<lparr>cand_kind = Srflx, cand_ep = en_bound_addr e\<rparr> # en_host_cands e)"
    by (simp add: wf_cand_def)
  then have "list_all wf_cand (take n (\<lparr>cand_kind = Srflx, cand_ep = en_bound_addr e\<rparr> # en_host_cands e))" for n
    by (meson in_set_takeD list_all_iff)
  then show ?thesis using e by (simp add: wf_PeerEntry_def to_entry_def)
qed

lemma lookup_reg: "lookup t m w now dw r = Some (x, r') \<Longrightarrow> r' = bump_lookups r"
  by (auto simp: lookup_def Let_def split: option.splits)

lemma lookup_entries_wf:
  assumes "entries_wf r" "lookup t m w now dw r = Some (x, r')"
  shows "list_all wf_PeerEntry (lr_entries x)"
proof (cases "get t (rg_topics r)")
  case None
  then show ?thesis using assms(2) by (auto simp: lookup_def Let_def bump_lookups_def)
next
  case (Some ts)
  let ?b = "bump_lookups r"
  have b: "rg_topics ?b = rg_topics r" "rg_by_dev ?b = rg_by_dev r" by (simp_all add: bump_lookups_def)
  obtain picked where x: "lr_entries x = map (\<lambda>e. to_entry ?b e w now)
      (filter (\<lambda>e. is_fresh ?b e now) (found_entries ?b (tst_members ts) picked)
       @ filter (\<lambda>e. \<not> is_fresh ?b e now) (found_entries ?b (tst_members ts) picked))"
    using assms(2) Some by (auto simp: lookup_def Let_def b split: option.splits)
  have "\<exists>d. get d (rg_by_dev r) = Some e" if "e \<in> set (found_entries ?b (tst_members ts) picked)" for e
    using that by (auto simp: found_entries_def List.map_filter_def b)
  then show ?thesis unfolding x by (fastforce simp: list_all_iff intro: to_entry_wf [OF assms(1)])
qed

lemma length_ser_PeerEntries:
  "list_all wf_PeerEntry es \<Longrightarrow> length (concat (map ser_PeerEntry es)) = sum_list (map encoded_size es)"
  by (induction es) (auto simp: encoded_size_eq)

lemma length_ser_LookupOk:
  assumes "length (lo_id m) = kTopicIdLen" "list_all wf_PeerEntry (lo_entries m)"
  shows "length (ser_LookupOk m) \<le> kTopicIdLen + 1 + 2 + 1 + sum_list (map encoded_size (lo_entries m))"
proof -
  have "list_all wf_PeerEntry (take n (lo_entries m))" for n
    using assms(2) by (meson in_set_takeD list_all_iff)
  moreover have "sum_list (map encoded_size (take n xs)) \<le> sum_list (map encoded_size xs)" for n xs
    by (subst (2) append_take_drop_id [of n xs, symmetric], unfold map_append sum_list_append) simp
  ultimately show ?thesis
    using assms(1) by (simp add: ser_LookupOk_def length_ser_PeerEntries)
qed

text \<open>The reply is the sample itself, never the error of a reply that does not fit.\<close>

lemma lookup_reply_fits:
  assumes wf: "entries_wf r" and id: "length (lk_id m) = kTopicIdLen"
    and res: "lookup (lk_id m) (lk_max m) (lk_want_meta m) now dw r = Some (x, r')"
  shows "ctl_message LookupOk_encode MT_LookupOk txn \<lparr>lo_id = lk_id m, lo_mode = lr_mode x, lo_total = lr_total x,
           lo_entries = take (fit_count lookup_base 0 (lr_entries x)) (lr_entries x)\<rparr> 0 \<noteq> []"
proof -
  let ?c = "fit_count lookup_base 0 (lr_entries x)"
  let ?m = "\<lparr>lo_id = lk_id m, lo_mode = lr_mode x, lo_total = lr_total x, lo_entries = take ?c (lr_entries x)\<rparr>"
  have "lookup_base \<le> kMaxFrame" by (simp add: lookup_base_def Header_kSize_def kTopicIdLen_def kMaxFrame_def)
  from fit_count_bound [OF this, of 0 "lr_entries x"]
  have b: "lookup_base + sum_list (map encoded_size (take ?c (lr_entries x))) \<le> kMaxFrame" by simp
  have "list_all wf_PeerEntry (take ?c (lr_entries x))"
    using lookup_entries_wf [OF wf res] by (meson in_set_takeD list_all_iff)
  then have "length (ser_LookupOk ?m) \<le> kTopicIdLen + 1 + 2 + 1 + sum_list (map encoded_size (lo_entries ?m))"
    using id by (intro length_ser_LookupOk) simp_all
  then have "8 + length (ser_LookupOk ?m) \<le> kMaxFrame"
    using b by (simp add: lookup_base_def Header_kSize_def)
  then show ?thesis by (simp add: lookup_ok.message_bytes ser_Header_def)
qed

end
