(* ===== verification/Service_System.thy ===== *)
theory Service_System
  imports Service_Laws
begin

text \<open>
  The control service as a system of steps: connections open and close, messages and datagrams arrive,
  the timer ticks. Its invariant is the registry's, together with: every owner of a record and every
  party to a relay binding is an open connection, and every stored record can be put on the wire.
\<close>

section \<open>What the decoders return\<close>

lemma rd_bytes_le: "length (fst (run_state (rd_bytes n) r)) \<le> n"
  by (auto simp: rd_bytes_def have_n_def grab_def State_Monad.return_def)

lemma rd_array_length: "length (fst (run_state (rd_array n) r)) = n"
  by (auto simp: rd_array_def State_Monad.return_def split: prod.split)

lemma rd_endpoint_wf: "wf_ep (fst (run_state rd_endpoint r))"
  by (auto simp: rd_endpoint_def rd_fail_def State_Monad.return_def Let_def wf_ep_def wf_ip_def addr_len_def
      ep_default_def ip_default_def split: prod.split)

lemma rd_candidate_wf: "wf_cand (fst (run_state rd_candidate r))"
proof -
  obtain k r1 where 1: "run_state rd_u8 r = (k, r1)" by fastforce
  obtain e r2 where 2: "run_state rd_endpoint r1 = (e, r2)" by fastforce
  have "wf_ep e" using rd_endpoint_wf [of r1] 2 by simp
  moreover have "wf_cand cand_default"
    by (simp add: wf_cand_def cand_default_def wf_ep_def wf_ip_def addr_len_def ep_default_def ip_default_def)
  ultimately show ?thesis
    using 1 2 by (simp add: rd_candidate_def rd_fail_def State_Monad.return_def wf_cand_def)
qed

lemma read_loop_all: "(\<And>r. P (fst (run_state m r))) \<Longrightarrow> list_all P (fst (run_state (read_loop m n) r))"
proof (induction n arbitrary: r)
  case (Suc n)
  then show ?case by (auto simp: State_Monad.return_def split: prod.split) (metis fst_conv)+
qed (simp add: State_Monad.return_def)

lemma read_cands_wf: "fst (run_state read_cands r) = Some cs \<Longrightarrow> list_all wf_cand cs"
  using read_loop_all [of wf_cand rd_candidate, OF rd_candidate_wf]
  by (auto simp: read_cands_def rd_ok_def State_Monad.return_def split: prod.splits if_splits) (metis fst_conv)

lemma read_meta_le: "fst (run_state read_meta r) = Some m \<Longrightarrow> length m \<le> kMaxMeta"
  using rd_bytes_le
  by (auto simp: read_meta_def rd_ok_def State_Monad.return_def split: prod.splits if_splits)
    (metis fst_conv le_trans not_less)

lemma Register_decode_wf:
  assumes "fst (run_state (Register_decode h) r) = Some m"
  shows "length (rg_id m) = kTopicIdLen \<and> list_all wf_cand (rg_host_cands m) \<and> length (rg_meta m) \<le> kMaxMeta"
proof -
  obtain i r1 where 1: "run_state (rd_array kTopicIdLen) r = (i, r1)" by fastforce
  obtain md r2 where 2: "run_state read_mode r1 = (md, r2)" by fastforce
  obtain ke r3 where 3: "run_state rd_u8 r2 = (ke, r3)" by fastforce
  obtain cs r4 where 4: "run_state read_cands r3 = (cs, r4)" by fastforce
  obtain mt r5 where 5: "run_state read_meta r4 = (mt, r5)" by fastforce
  have "length i = kTopicIdLen" using rd_array_length [of kTopicIdLen r] 1 by simp
  moreover have "cs = Some (rg_host_cands m) \<and> mt = Some (rg_meta m) \<and> rg_id m = i"
    using assms 1 2 3 4 5 by (auto simp: Register_decode_def State_Monad.return_def split: option.splits)
  ultimately show ?thesis
    using read_cands_wf [of r3] read_meta_le [of r4] 4 5 by simp
qed

lemma Update_decode_wf:
  assumes "fst (run_state Update_decode r) = Some m"
  shows "list_all wf_cand (up_host_cands m) \<and> length (up_meta m) \<le> kMaxMeta"
proof -
  obtain i r1 where 1: "run_state (rd_array kDevIdLen) r = (i, r1)" by fastforce
  obtain cs r2 where 2: "run_state read_cands r1 = (cs, r2)" by fastforce
  obtain mt r3 where 3: "run_state read_meta r2 = (mt, r3)" by fastforce
  have "cs = Some (up_host_cands m) \<and> mt = Some (up_meta m)"
    using assms 1 2 3 by (auto simp: Update_decode_def State_Monad.return_def split: option.splits)
  then show ?thesis using read_cands_wf [of r1] read_meta_le [of r2] 2 3 by simp
qed

lemma Lookup_decode_id:
  assumes "fst (run_state (Lookup_decode h) r) = Some m"
  shows "length (lk_id m) = kTopicIdLen"
proof -
  obtain i r1 where 1: "run_state (rd_array kTopicIdLen) r = (i, r1)" by fastforce
  have "length i = kTopicIdLen" using rd_array_length [of kTopicIdLen r] 1 by simp
  moreover have "lk_id m = i"
    using assms 1 by (auto simp: Lookup_decode_def State_Monad.return_def rd_ok_def Let_def split: prod.splits if_splits)
  ultimately show ?thesis by simp
qed

section \<open>Who is party to what\<close>

definition rec_owners :: "Registry \<Rightarrow> ConnKey set" where
  "rec_owners r = {en_owner e | d e. get d (rg_by_dev r) = Some e}"

definition relay_parties :: "Registry \<Rightarrow> ConnKey set" where
  "relay_parties r = {ow. \<exists>i rl. get i (rg_relays r) = Some rl \<and> (fst (ry_owner rl) = ow \<or> snd (ry_owner rl) = ow)}"

definition parties :: "Registry \<Rightarrow> ConnKey set" where
  "parties r = rec_owners r \<union> relay_parties r"

text \<open>One operation of the registry on behalf of \<open>key\<close>, as the service uses it.\<close>

definition reg_ok :: "ConnKey set \<Rightarrow> Registry \<Rightarrow> Registry \<Rightarrow> bool" where
  "reg_ok K r r' \<longleftrightarrow> (entries_wf r \<longrightarrow> entries_wf r') \<and> parties r' \<subseteq> K \<union> parties r"

lemma reg_ok_same:
  "rg_by_dev r' = rg_by_dev r \<Longrightarrow> rg_relays r' = rg_relays r \<Longrightarrow> reg_ok K r r'"
  by (auto simp: reg_ok_def parties_def rec_owners_def relay_parties_def entries_wf_def)

lemma reg_ok_refl [simp]: "reg_ok K r r"
  by (rule reg_ok_same) simp_all

lemma rec_owners_put: "rg_by_dev r' = put d e (rg_by_dev r) \<Longrightarrow> rec_owners r' \<subseteq> insert (en_owner e) (rec_owners r)"
  by (auto simp: rec_owners_def split: if_splits)

lemma rec_ownersI: "get d (rg_by_dev r) = Some e \<Longrightarrow> en_owner e \<in> rec_owners r"
  by (auto simp: rec_owners_def)

lemma mark_fresh_reg_ok:
  assumes "get d (rg_by_dev r) = Some e" "en_owner e' = en_owner e" "en_bound_addr e' = en_bound_addr e"
    "en_dev_id e' = en_dev_id e" "list_all wf_cand (en_host_cands e) \<Longrightarrow> list_all wf_cand (en_host_cands e')"
    "length (en_meta e) \<le> kMaxMeta \<Longrightarrow> length (en_meta e') \<le> kMaxMeta"
  shows "reg_ok K r (mark_fresh e' now r)"
proof -
  have "entries_wf (mark_fresh e' now r)" if "entries_wf r"
    using that assms unfolding entries_wf_def by (auto split: if_splits)
  moreover have "rec_owners (mark_fresh e' now r) \<subseteq> rec_owners r"
    using rec_owners_put [OF mark_fresh_by_dev, of e' now r] rec_ownersI [OF assms(1)] assms(2) by auto
  moreover have "relay_parties (mark_fresh e' now r) = relay_parties r"
    by (simp add: relay_parties_def mark_fresh_fields)
  ultimately show ?thesis by (auto simp: reg_ok_def parties_def)
qed

lemma register_reg_ok:
  assumes "length (rg_id msg) = kTopicIdLen" "list_all wf_cand (rg_host_cands msg)" "length (rg_meta msg) \<le> kMaxMeta"
    "wf_ep src"
  shows "reg_ok {key} r (snd (register_entry msg src key now r))"
proof -
  define dev where "dev = derive_dev_id (rg_id msg) src r"
  have len: "length dev = kDevIdLen" by (simp add: dev_def derive_dev_id_def kDevIdLen_def)
  have w: "rg_by_dev (write_entry dev msg src key now s)
      = put dev ((written dev msg src key s)\<lparr>en_last_seen := now\<rparr>) (rg_by_dev s)" for s
    by (simp add: write_entry_def Let_def written_def)
  have to: "entries_wf r \<longrightarrow> entries_wf (take_over dev key r)" "rec_owners (take_over dev key r) \<subseteq> insert key (rec_owners r)"
    by (auto simp: take_over_def Let_def entries_wf_def rec_owners_def split: option.split if_splits)
  have we: "entries_wf s \<Longrightarrow> rg_by_dev s' = put dev ((written dev msg src key s)\<lparr>en_last_seen := now\<rparr>) (rg_by_dev s)
      \<Longrightarrow> entries_wf s'" for s s'
    using assms len by (auto simp: entries_wf_def split: if_splits)
  let ?s = "snd (register_entry msg src key now r)"
  let ?w = "put dev ((written dev msg src key (take_over dev key r))\<lparr>en_last_seen := now\<rparr>) (rg_by_dev (take_over dev key r))"
  have cases: "rg_by_dev ?s = rg_by_dev (take_over dev key r) \<or> rg_by_dev ?s = ?w"
  proof (cases "get dev (rg_by_dev r)")
    case None
    have j: "written dev msg src key (join_topic dev msg (ip_key src) key r) = written dev msg src key r"
      by (simp add: written_def join_topic_fields)
    have "take_over dev key r = r" using None by (simp add: take_over_def)
    then show ?thesis
      using None by (simp add: register_entry_def Let_def dev_def [symmetric] w j bump_rej_quota_def join_topic_fields)
  next
    case (Some e)
    then show ?thesis by (simp add: register_entry_def Let_def dev_def [symmetric] w)
  qed
  have "entries_wf r \<longrightarrow> entries_wf ?s"
    using cases
  proof
    assume "rg_by_dev ?s = rg_by_dev (take_over dev key r)"
    then have "entries_wf ?s = entries_wf (take_over dev key r)" unfolding entries_wf_def by simp
    then show ?thesis using to(1) by simp
  next
    assume "rg_by_dev ?s = ?w"
    then show ?thesis using to(1) we by blast
  qed
  moreover have "rec_owners ?s \<subseteq> insert key (rec_owners r)"
  proof -
    have "rec_owners ?s \<subseteq> insert key (rec_owners (take_over dev key r))"
      using cases
    proof
      assume "rg_by_dev ?s = rg_by_dev (take_over dev key r)"
      then show ?thesis unfolding rec_owners_def by auto
    next
      assume "rg_by_dev ?s = ?w"
      from rec_owners_put [OF this] show ?thesis by simp
    qed
    then show ?thesis using to(2) by auto
  qed
  moreover have "relay_parties ?s = relay_parties r" by (simp add: relay_parties_def relay_frame_register)
  ultimately show ?thesis by (auto simp: reg_ok_def parties_def)
qed

lemma unregister_reg_ok: "reg_ok K r (snd (unregister d key r))"
proof -
  have e: "rg_relays (erase_entry d s) = rg_relays s" for s
    using coreD(9) [OF forget_fresh_simps(2)] by (auto simp: erase_entry_def Let_def split: option.split)
  show ?thesis
    by (auto simp: unregister_def Let_def reg_ok_def parties_def rec_owners_def relay_parties_def entries_wf_def
        erase_entry_by_dev e split: option.split if_splits)
qed

lemma relay_put_parties:
  "get i (rg_relays r) = Some rl \<Longrightarrow> rg_relays r' = put i rl' (rg_relays r) \<Longrightarrow> ry_owner rl' = ry_owner rl \<Longrightarrow>
   rg_by_dev r' = rg_by_dev r \<Longrightarrow> reg_ok K r r'"
  by (auto simp: reg_ok_def parties_def rec_owners_def relay_parties_def entries_wf_def split: if_splits)

lemma charge_reg_ok: "reg_ok K r (snd (relay_charge i n now r))"
proof (cases "get i (rg_relays r)")
  case (Some rl)
  then show ?thesis
    by (auto simp: relay_charge_def bump_rej_quota_def intro: relay_put_parties [OF Some])
qed (simp add: relay_charge_def reg_ok_same)

lemma bind_reg_ok: "reg_ok K r (snd (udp_bind i tk src now r))"
proof (cases "get i (rg_relays r)")
  case (Some rl)
  then show ?thesis
    by (auto simp: udp_bind_def intro: relay_put_parties [OF Some] reg_ok_same split: option.split)
qed (simp add: udp_bind_def reg_ok_same)

lemma forward_reg_ok: "reg_ok K r (snd (udp_forward i src n now r))"
  using udp_forward_state [of i src n now r] charge_reg_ok reg_ok_same [of r r] by metis

lemma alloc_reg_ok:
  assumes "relay_inv r" "relay_alloc f p k key src now dw r = Some (g, r')"
  shows "reg_ok {key} r r' \<and> (gr_code g = EC_None \<longrightarrow> gr_peer_owner g \<in> insert key (parties r))"
proof (cases "\<exists>fe pe. get f (rg_by_dev r) = Some fe \<and> get p (rg_by_dev r) = Some pe
    \<and> rc_relay_enabled (rg_cfg r) \<and> en_owner fe = key \<and> en_topic_id fe = en_topic_id pe")
  case False
  then show ?thesis
    using assms(2) by (auto simp: relay_alloc_def grant_none_def reg_ok_same split: option.splits if_splits)
next
  case True
  then obtain fe pe where e: "get f (rg_by_dev r) = Some fe" "get p (rg_by_dev r) = Some pe"
    "rc_relay_enabled (rg_cfg r)" "en_owner fe = key" "en_topic_id fe = en_topic_id pe" by blast
  show ?thesis
  proof (cases "existing_relay f p k r")
    case (Some i)
    obtain rl where rl: "get i (rg_relays r) = Some rl"
      using existing_relay_Some [OF Some relay_finite [OF assms(1)]] by metis
    then have "side one (ry_owner rl) \<in> parties r" for one
      by (auto simp: parties_def relay_parties_def side_def)
    then show ?thesis
      using assms(2) e Some rl
      by (auto simp: relay_alloc_def grant_of_def grant_none_def bump_rej_quota_def
          intro: relay_put_parties [OF rl] reg_ok_same split: if_splits)
  next
    case None
    show ?thesis
    proof (cases "relay_new (fe\<lparr>en_dev_id := f\<rparr>) (pe\<lparr>en_dev_id := p\<rparr>) k key (ip_key src) now dw r")
      case N: None
      then show ?thesis
        using assms(2) e None by (auto simp: relay_alloc_def grant_none_def bump_rej_quota_def reg_ok_same split: if_splits)
    next
      case (Some rl)
      then have own: "ry_owner rl = (key, en_owner pe)" by (auto simp: relay_new_def split: option.splits)
      have p: "en_owner pe \<in> parties r" using rec_ownersI [OF e(2)] by (simp add: parties_def)
      have "reg_ok {key} r r''" if "rg_relays r'' = put (ry_id rl) rl (rg_relays r)" "rg_by_dev r'' = rg_by_dev r" for r''
        using that own p
        by (auto simp: reg_ok_def parties_def rec_owners_def relay_parties_def entries_wf_def split: if_splits)
      then show ?thesis
        using assms(2) e None Some own p
        by (auto simp: relay_alloc_def grant_none_def grant_of_def side_def bump_rej_quota_def reg_ok_same split: if_splits)
    qed
  qed
qed

lemma connect_reg_ok:
  assumes "connect_target f t key r = (x, r')"
  shows "reg_ok K r r' \<and> (\<forall>ow. x = Some ow \<longrightarrow> ow \<in> parties r)"
  using assms rec_ownersI by (auto simp: connect_target_def parties_def reg_ok_same split: option.splits if_splits)

lemma expire_reg_ok: "reg_ok K r (expire_fresh now r)"
  by (rule reg_ok_same) (simp, rule coreD, simp)

section \<open>One message\<close>

lemma fm_to_simps [simp]:
  "fm_to (reply enc to ty txn body fl) = to" "fm_to (reply_empty to ty txn) = to" "fm_to (error_reply to txn code) = to"
  by (simp_all add: reply_def reply_empty_def error_reply_def Let_def)

definition good_result :: "ConnKey \<Rightarrow> instant \<Rightarrow> Registry \<Rightarrow> handled \<times> Registry \<Rightarrow> bool" where
  "good_result key now r x \<longleftrightarrow> reg_inv now (snd x) \<and> reg_ok {key} r (snd x)
     \<and> (case fst x of Undecoded \<Rightarrow> True | Sent out \<Rightarrow> \<forall>f \<in> set out. fm_to f \<in> insert key (parties r))"

lemma good_same: "reg_inv clock r \<Longrightarrow> clock \<le> now \<Longrightarrow>
   (case x of Undecoded \<Rightarrow> True | Sent out \<Rightarrow> \<forall>f \<in> set out. fm_to f = key) \<Longrightarrow> good_result key now r (x, r)"
  by (auto simp: good_result_def reg_inv_later reg_ok_same split: handled.splits)

lemma on_register_good:
  assumes inv: "reg_inv clock r" "clock \<le> now" and peer: "wf_ep peer"
    and g: "\<And>m. fst (run_state (Register_decode h) rd) = Some m \<Longrightarrow>
      no_collision (rg_id m) peer r \<and> unat (rg_next_order r) + 1 < 2 ^ 32"
  shows "good_result key now r (on_register h rd key peer now r)"
proof (cases "fst (run_state (Register_decode h) rd)")
  case None
  then show ?thesis using good_same [OF inv] by (simp add: on_register_def)
next
  case (Some m)
  show ?thesis
    using g [OF Some] reg_inv_register [OF inv, of m peer key] register_reg_ok [of m peer key r now]
      Register_decode_wf [OF Some] peer
    by (auto simp: on_register_def Some good_result_def split_def Let_def)
qed

lemma on_keepalive_good:
  assumes inv: "reg_inv clock r" "clock \<le> now"
  shows "good_result key now r (on_keepalive h rd key peer now r)"
proof -
  have "reg_ok K r (snd (refresh d key now r))" for K d
    by (auto simp: refresh_def intro: mark_fresh_reg_ok reg_ok_same split: option.split)
  then show ?thesis
    using reg_inv_later [OF inv] reg_inv_refresh [OF inv]
    by (auto simp: on_keepalive_def Let_def good_result_def split_def split: option.split)
qed

lemma on_update_good:
  assumes inv: "reg_inv clock r" "clock \<le> now"
  shows "good_result key now r (on_update h rd key now r)"
proof (cases "fst (run_state Update_decode rd)")
  case None
  then show ?thesis using good_same [OF inv] by (simp add: on_update_def)
next
  case (Some m)
  have "reg_ok K r (snd (update_entry m key now r))" for K
    using Update_decode_wf [OF Some]
    by (auto simp: update_entry_def intro: mark_fresh_reg_ok reg_ok_same split: option.split)
  then show ?thesis
    using reg_inv_update [OF inv] by (auto simp: on_update_def Some good_result_def split_def Let_def)
qed

lemma on_unregister_good:
  assumes inv: "reg_inv clock r" "clock \<le> now"
  shows "good_result key now r (on_unregister h rd key r)"
  using reg_inv_later [OF inv] reg_inv_later [OF reg_inv_unregister [OF inv(1)] inv(2)] unregister_reg_ok
  by (auto simp: on_unregister_def good_result_def split_def Let_def split: option.split)

lemma on_lookup_good:
  assumes inv: "reg_inv clock r" "clock \<le> now" and res: "on_lookup h rd key now dw r = Some x"
  shows "good_result key now r x"
proof (cases "fst (run_state (Lookup_decode h) rd)")
  case None
  then show ?thesis using good_same [OF inv] res by (auto simp: on_lookup_def)
next
  case (Some m)
  then obtain a r' where l: "lookup (lk_id m) (lk_max m) (lk_want_meta m) now dw r = Some (a, r')"
    using res by (auto simp: on_lookup_def split: option.splits)
  then have "rg_by_dev r' = rg_by_dev r" "rg_relays r' = rg_relays r"
    using lookup_reg [OF l] by (simp_all add: bump_lookups_def)
  then show ?thesis
    using res Some l reg_inv_lookup [OF inv l] reg_ok_same [of r' r]
    by (auto simp: on_lookup_def good_result_def Let_def)
qed

lemma on_relay_alloc_good:
  assumes inv: "reg_inv clock r" "clock \<le> now" and res: "on_relay_alloc h rd key peer now dw r = Some x"
  shows "good_result key now r x"
proof (cases "fst (run_state RelayAlloc_decode rd)")
  case None
  then show ?thesis using good_same [OF inv] res by (auto simp: on_relay_alloc_def)
next
  case (Some m)
  then obtain g r' where a: "relay_alloc (ra_from_dev m) (ra_peer_dev m) (ra_kind m) key peer now dw r = Some (g, r')"
    using res by (auto simp: on_relay_alloc_def split: option.splits)
  have "relay_inv r" using inv(1) by (simp add: reg_inv_def)
  from alloc_reg_ok [OF this a] show ?thesis
    using res Some a reg_inv_alloc [OF inv a]
    by (auto simp: on_relay_alloc_def good_result_def split: if_splits)
qed

lemma on_connect_good:
  assumes inv: "reg_inv clock r" "clock \<le> now"
  shows "good_result key now r (on_connect h rd key r)"
proof (cases "fst (run_state Connect_decode rd)")
  case None
  then show ?thesis using good_same [OF inv] by (simp add: on_connect_def)
next
  case (Some m)
  obtain x r' where c: "connect_target (cn_from_dev m) (cn_to_dev m) key r = (x, r')" by fastforce
  have "reg_inv now r'" using reg_inv_connect [OF inv, of "cn_from_dev m" "cn_to_dev m" key] c by simp
  then show ?thesis
    using Some c connect_reg_ok [OF c] by (auto simp: on_connect_def good_result_def split: option.split)
qed

lemma on_listing_good:
  assumes inv: "reg_inv clock r" "clock \<le> now"
  shows "good_result key now r (on_topics h rd key now r)" "good_result key now r (on_stats h key now s r)"
    "good_result key now r (on_resolve h rd key now r)"
proof -
  have t: "snd (list_topics c l now r) = expire_fresh now r" for c l
    by (simp add: list_topics_def Let_def split: prod.split)
  show "good_result key now r (on_topics h rd key now r)"
    using reg_inv_later [OF inv] reg_inv_expire [OF inv] expire_reg_ok
    by (auto simp: on_topics_def good_result_def split_def Let_def t split: option.split)
  have u: "snd (stats now r) = expire_fresh now r" by (simp add: stats_def Let_def)
  show "good_result key now r (on_stats h key now s r)"
    using reg_inv_expire [OF inv] expire_reg_ok by (auto simp: on_stats_def good_result_def split_def Let_def u)
  show "good_result key now r (on_resolve h rd key now r)"
    using reg_inv_later [OF inv] by (auto simp: on_resolve_def good_result_def Let_def split: option.split)
qed

definition register_guard :: "Header \<Rightarrow> reader \<Rightarrow> Endpoint \<Rightarrow> Registry \<Rightarrow> bool" where
  "register_guard h rd peer r = (case fst (run_state (Register_decode h) rd) of
       None \<Rightarrow> True
     | Some m \<Rightarrow> no_collision (rg_id m) peer r \<and> unat (rg_next_order r) + 1 < 2 ^ 32)"

lemma dispatch_good:
  assumes inv: "reg_inv clock (sv_reg s)" "clock \<le> now" and peer: "wf_ep peer"
    and g: "h_type h = MT_Register \<Longrightarrow> register_guard h rd peer (sv_reg s)"
    and res: "dispatch h rd key peer now dw s = Some x"
  shows "good_result key now (sv_reg s) x"
proof -
  have reg: "good_result key now (sv_reg s) (on_register h rd key peer now (sv_reg s))" if "h_type h = MT_Register"
    using g [OF that] by (intro on_register_good [OF inv peer]) (auto simp: register_guard_def)
  have unsup: "good_result key now (sv_reg s) (Sent [error_reply key (h_txn_id h) Unsupported], sv_reg s)"
    by (rule good_same [OF inv]) simp
  show ?thesis
    using res reg unsup on_keepalive_good [OF inv] on_update_good [OF inv] on_unregister_good [OF inv]
      on_lookup_good [OF inv] on_listing_good [OF inv] on_connect_good [OF inv] on_relay_alloc_good [OF inv]
    unfolding dispatch_def Let_def by (auto split: if_splits)
qed

section \<open>The system\<close>

datatype sv_event =
    EvOpen ConnKey Endpoint
  | EvMessage ConnKey bytes
  | EvClose ConnKey
  | EvUdp Endpoint bytes
  | EvTick

fun sv_apply :: "sv_event \<Rightarrow> instant \<Rightarrow> Draws \<Rightarrow> Service \<Rightarrow> Service option" where
  "sv_apply (EvOpen key peer) now dw s = Some (on_open key peer now s)"
| "sv_apply (EvMessage key msg) now dw s = map_option snd (on_message key msg now dw s)"
| "sv_apply (EvClose key) now dw s = Some (on_close key s)"
| "sv_apply (EvUdp src dgram) now dw s = Some (snd (on_udp src dgram now s))"
| "sv_apply EvTick now dw s = Some (tick now s)"

type_synonym sv_input = "sv_event \<times> instant \<times> Draws"

definition sv_step :: "sv_input \<Rightarrow> instant \<times> Service \<Rightarrow> (instant \<times> Service) option" where
  "sv_step i s = (case i of (ev, now, dw) \<Rightarrow> map_option (Pair now) (sv_apply ev now dw (snd s)))"

text \<open>Addresses come from the operating system and are well formed; a registration must not collide.\<close>

definition message_guard :: "ConnKey \<Rightarrow> bytes \<Rightarrow> Service \<Rightarrow> bool" where
  "message_guard key msg s = (case get key (sv_conns s) of
       None \<Rightarrow> True
     | Some c \<Rightarrow> (case run_state (Header_decode ctl_kVersion) (Reader msg) of
         (None, _) \<Rightarrow> True
       | (Some h, rd) \<Rightarrow> h_type h = MT_Register \<longrightarrow> register_guard h rd (cn_peer c) (sv_reg s)))"

definition sv_guard :: "sv_input \<Rightarrow> instant \<times> Service \<Rightarrow> bool" where
  "sv_guard i s \<longleftrightarrow> fst s \<le> fst (snd i) \<and>
     (case fst i of EvOpen key peer \<Rightarrow> wf_ep peer | EvMessage key msg \<Rightarrow> message_guard key msg (snd s) | _ \<Rightarrow> True)"

definition sv_inv :: "instant \<Rightarrow> Service \<Rightarrow> bool" where
  "sv_inv clock s \<longleftrightarrow> reg_inv clock (sv_reg s) \<and> entries_wf (sv_reg s)
     \<and> parties (sv_reg s) \<subseteq> Mapping.keys (sv_conns s)
     \<and> (\<forall>k c. get k (sv_conns s) = Some c \<longrightarrow> wf_ep (cn_peer c))"

lemma sv_inv_new: "sv_inv 0 (Service_new (Registry_new cfg secret) ccfg)"
  using reg_inv_new [of cfg secret]
  by (simp add: sv_inv_def Service_new_def entries_wf_def parties_def rec_owners_def relay_parties_def Registry_new_def)

lemma sv_inv_reg:
  assumes "sv_inv clock s" "reg_inv now reg" "reg_ok {key} (sv_reg s) reg" "key \<in> Mapping.keys (sv_conns s)"
    "Mapping.keys (sv_conns s') = Mapping.keys (sv_conns s)" "sv_reg s' = reg"
    "\<forall>k c. get k (sv_conns s') = Some c \<longrightarrow> wf_ep (cn_peer c)"
  shows "sv_inv now s'"
  using assms by (auto simp: sv_inv_def reg_ok_def)

lemma on_admitted_inv:
  assumes inv: "sv_inv clock s" and le: "clock \<le> now" and c: "get key (sv_conns s) = Some c"
    and g: "message_guard key msg s" and res: "on_admitted key (cn_peer c) msg now dw s = Some (x, s')"
  shows "sv_inv now s' \<and> (\<forall>f \<in> set (rs_out x). fm_to f \<in> Mapping.keys (sv_conns s))"
proof -
  have key: "key \<in> Mapping.keys (sv_conns s)" using c by (auto simp: in_keys)
  have peer: "wf_ep (cn_peer c)" and r: "reg_inv clock (sv_reg s)" using inv c by (simp_all add: sv_inv_def)
  obtain ho rd where h: "run_state (Header_decode ctl_kVersion) (Reader msg) = (ho, rd)" by fastforce
  show ?thesis
  proof (cases ho)
    case None
    then show ?thesis using res h inv reg_inv_later [OF r le] by (auto simp: on_admitted_def sv_inv_def)
  next
    case (Some h')
    then obtain y reg where y: "dispatch h' rd key (cn_peer c) now dw s = Some (y, reg)"
      using res h by (auto simp: on_admitted_def split: option.splits)
    have "register_guard h' rd (cn_peer c) (sv_reg s)" if "h_type h' = MT_Register"
      using g c h Some that by (simp add: message_guard_def)
    from dispatch_good [OF r le peer this y] have G: "good_result key now (sv_reg s) (y, reg)" .
    have "sv_inv now (s\<lparr>sv_reg := reg\<rparr>)"
      using G inv key by (intro sv_inv_reg [of clock s now reg key]) (simp_all add: good_result_def sv_inv_def)
    moreover have "insert key (parties (sv_reg s)) \<subseteq> Mapping.keys (sv_conns s)"
      using inv key by (auto simp: sv_inv_def)
    ultimately show ?thesis
      using G res h Some y key by (auto simp: on_admitted_def good_result_def split: handled.splits)
  qed
qed

lemma on_message_inv:
  assumes inv: "sv_inv clock s" and le: "clock \<le> now" and g: "message_guard key msg s"
    and res: "on_message key msg now dw s = Some (x, s')"
  shows "sv_inv now s' \<and> (\<forall>f \<in> set (rs_out x). fm_to f \<in> Mapping.keys (sv_conns s))"
proof (cases "get key (sv_conns s)")
  case None
  then show ?thesis using inv le res by (auto simp: on_message_def sv_inv_def reg_inv_later)
next
  case (Some c)
  define b where "b = take_tokens (cn_budget c) (length msg + kMessageOverhead)
              (cc_rate_bytes_per_sec (sv_cfg s)) (cc_rate_burst_bytes (sv_cfg s)) now"
  define s1 where "s1 = s\<lparr>sv_conns := put key (c\<lparr>cn_budget := snd b\<rparr>) (sv_conns s)\<rparr>"
  have eq: "on_message key msg now dw s = (if \<not> fst b
      then Some (\<lparr>rs_out = [], rs_close = True\<rparr>, s1\<lparr>sv_rej_rate_limited := sv_rej_rate_limited s1 + 1\<rparr>)
      else on_admitted key (cn_peer c) msg now dw s1)"
    using Some by (simp add: on_message_def b_def s1_def Let_def split_def)
  have keys: "insert key (Mapping.keys (sv_conns s)) = Mapping.keys (sv_conns s)" using Some by (auto simp: in_keys)
  have s1: "sv_inv clock s1" using inv Some keys by (auto simp: sv_inv_def s1_def)
  have c1: "get key (sv_conns s1) = Some (c\<lparr>cn_budget := snd b\<rparr>)" by (simp add: s1_def)
  have g1: "message_guard key msg s1" using g Some by (auto simp: message_guard_def s1_def split: prod.splits option.splits)
  show ?thesis
  proof (cases "fst b")
    case True
    then show ?thesis
      using on_admitted_inv [OF s1 le c1 g1, of dw x s'] res eq keys by (simp add: s1_def)
  next
    case False
    then show ?thesis using res eq s1 reg_inv_later [OF _ le] by (auto simp: sv_inv_def)
  qed
qed

lemma on_open_inv:
  assumes "sv_inv clock s" "clock \<le> now" "wf_ep peer"
  shows "sv_inv now (on_open key peer now s)"
  using assms by (auto simp: sv_inv_def on_open_def reg_inv_later split_def)

lemma drop_owner_parties:
  assumes "reg_inv clock r"
  shows "parties (snd (drop_owner key r)) \<subseteq> parties r - {key}" "entries_wf r \<Longrightarrow> entries_wf (snd (drop_owner key r))"
proof -
  note D = drop_owner_spec [OF assms, of key]
  have set: "set (owner_list key r) = owned_by (ent r) key"
    using assms by (simp add: reg_inv_def core_inv_def owner_inv_def)
  have bd: "get d (rg_by_dev (snd (drop_owner key r))) = Some e \<Longrightarrow> get d (rg_by_dev r) = Some e \<and> en_owner e \<noteq> key" for d e
    by (auto simp: drop_owner_by_dev fold_erase_by_dev set owned_by_def ent_def split: if_splits)
  then have "rec_owners (snd (drop_owner key r)) \<subseteq> rec_owners r - {key}" by (auto simp: rec_owners_def)
  moreover have "relay_parties (snd (drop_owner key r)) \<subseteq> relay_parties r - {key}"
    unfolding relay_parties_def by (auto simp: D(3) split: option.splits if_splits)
  ultimately show "parties (snd (drop_owner key r)) \<subseteq> parties r - {key}" by (auto simp: parties_def)
  show "entries_wf r \<Longrightarrow> entries_wf (snd (drop_owner key r))"
    using bd unfolding entries_wf_def by blast
qed

lemma on_close_inv:
  assumes inv: "sv_inv clock s"
  shows "sv_inv clock (on_close key s)"
proof -
  have r: "reg_inv clock (sv_reg s)" using inv by (simp add: sv_inv_def)
  show ?thesis
    using inv drop_owner_spec(1) [OF r] drop_owner_parties [OF r, of key]
    by (auto simp: sv_inv_def on_close_def)
qed

lemma on_udp_inv:
  assumes inv: "sv_inv clock s" and le: "clock \<le> now"
  shows "sv_inv now (snd (on_udp src dgram now s))"
proof -
  have r: "reg_inv clock (sv_reg s)" and r': "reg_inv now (sv_reg s)"
    using inv reg_inv_later [OF _ le] by (simp_all add: sv_inv_def)
  have same: "sv_inv now s'" if "sv_conns s' = sv_conns s" "reg_inv now (sv_reg s')" "reg_ok {} (sv_reg s) (sv_reg s')" for s'
    using that inv by (auto simp: sv_inv_def reg_ok_def)
  have b: "reg_inv now (snd (on_udp_bind h rd src now (sv_reg s))) \<and> reg_ok {} (sv_reg s) (snd (on_udp_bind h rd src now (sv_reg s)))" for h rd
    using r' reg_inv_bind [OF r le] bind_reg_ok [of "{}" "sv_reg s"]
    by (auto simp: on_udp_bind_def split: option.split prod.split bool.split) (metis snd_conv)+
  have f: "reg_inv now (snd (on_relay_data rd src now (sv_reg s))) \<and> reg_ok {} (sv_reg s) (snd (on_relay_data rd src now (sv_reg s)))" for rd
    using r' reg_inv_forward [OF r le] forward_reg_ok [of "{}" "sv_reg s"]
    by (auto simp: on_relay_data_def split: option.split prod.split) (metis snd_conv)+
  show ?thesis
    by (rule same) (use b f r' in \<open>auto simp: on_udp_def Let_def split_def split: option.split prod.split\<close>)
qed

lemma tick_inv:
  assumes inv: "sv_inv clock s" and le: "clock \<le> now"
  shows "sv_inv now (tick now s)"
proof -
  have r: "reg_inv clock (sv_reg s)" using inv by (simp add: sv_inv_def)
  have "rg_by_dev (sweep now (sv_reg s)) = rg_by_dev (sv_reg s)"
    by (simp add: sweep_def Let_def release_fold_fields)
  moreover have "relay_parties (sweep now (sv_reg s)) \<subseteq> relay_parties (sv_reg s)"
    using coreD(9) [OF expire_fresh_simps(2) [of now "sv_reg s"]]
    by (auto simp: relay_parties_def sweep_def Let_def release_fold_fields split: if_splits)
  ultimately show ?thesis
    using inv reg_inv_sweep [OF r le]
    by (auto simp: sv_inv_def tick_def parties_def rec_owners_def entries_wf_def)
qed

interpretation sv: guarded_system sv_step sv_guard "\<lambda>s. sv_inv (fst s) (snd s)"
proof unfold_locales
  fix s i s'
  assume inv: "sv_inv (fst s) (snd s)" and g: "sv_guard i s" and st: "sv_step i s = Some s'"
  obtain ev now dw where i: "i = (ev, now, dw)" by (cases i) auto
  have le: "fst s \<le> now" using g i by (simp add: sv_guard_def)
  have later: "sv_inv now x" if "sv_inv (fst s) x" for x using that reg_inv_later [OF _ le] by (simp add: sv_inv_def)
  show "sv_inv (fst s') (snd s')"
    using st g i le inv
    by (cases ev) (auto simp: sv_step_def sv_guard_def
        intro: on_open_inv on_udp_inv tick_inv later [OF on_close_inv] on_message_inv [THEN conjunct1])
qed

end
