(* ===== verification/Service_Live.thy ===== *)
theory Service_Live
  imports Service_System
begin

text \<open>
  The server always answers: the only operations whose result depends on the random source, lookups
  and relay allocations, return as soon as the draws contain enough distinct indices and one unused
  relay id. With it, the reachable states of the registry and of the service.
\<close>

definition ample_draws :: "Draws \<Rightarrow> Registry \<Rightarrow> bool" where
  "ample_draws dw r \<longleftrightarrow> 100 \<le> card (set (dw_indices dw))
     \<and> list_ex (\<lambda>i. i \<noteq> 0 \<and> get i (rg_relays r) = None) (dw_ids dw)"

lemma lookup_total:
  assumes "ample_draws dw r"
  shows "lookup t m w now dw r \<noteq> None"
proof (cases "get t (rg_topics r)")
  case (Some ts)
  have "min (unat (clamp_max m)) (length (tst_members ts)) \<le> card (set (dw_indices dw))"
    using assms clamp_max_le [of m] by (simp add: ample_draws_def min_le_iff_disj)
  from lookup_returns [OF Some this] show ?thesis by force
qed (simp add: lookup_def Let_def bump_lookups_def)

lemma existing_relay_get:
  assumes "relay_inv r" "existing_relay f p k r = Some i"
  shows "\<exists>rl. get i (rg_relays r) = Some rl"
proof -
  have "i \<in> set (relays_where (\<lambda>rl. ry_kind rl = k \<and> pair_side f p rl \<noteq> None) r)"
    using assms(2) unfolding existing_relay_def find_Some_iff by (auto intro: nth_mem)
  then show ?thesis using relays_where_iff [OF relay_finite [OF assms(1)]] by auto
qed

lemma alloc_total:
  assumes "relay_inv r" "ample_draws dw r"
  shows "relay_alloc f p k ow src now dw r \<noteq> None"
proof -
  have "List.find (\<lambda>i. i \<noteq> 0 \<and> get i (rg_relays r) = None) (dw_ids dw) \<noteq> None"
    using assms(2) unfolding find_None_iff by (auto simp: ample_draws_def list_ex_iff)
  then have new: "relay_new a b k ow ik now dw r \<noteq> None" for a b ik
    by (auto simp: relay_new_def split: option.split)
  show ?thesis
    using existing_relay_get [OF assms(1), of f p k] unfolding relay_alloc_def
    by (auto simp: new split: option.split simp del: not_None_eq)
qed

lemma dispatch_total:
  assumes "relay_inv (sv_reg s)" "ample_draws dw (sv_reg s)"
  shows "dispatch h rd key peer now dw s \<noteq> None"
proof -
  have "on_lookup h rd key now dw (sv_reg s) \<noteq> None"
    unfolding on_lookup_def Let_def
    by (cases "fst (run_state (Lookup_decode h) rd)") (auto simp: lookup_total [OF assms(2)] split: option.split)
  moreover have "on_relay_alloc h rd key peer now dw (sv_reg s) \<noteq> None"
    unfolding on_relay_alloc_def
    by (cases "fst (run_state RelayAlloc_decode rd)") (auto simp: alloc_total [OF assms] split: option.split)
  ultimately show ?thesis by (auto simp: dispatch_def Let_def)
qed

lemma on_message_total:
  assumes "relay_inv (sv_reg s)" "ample_draws dw (sv_reg s)"
  shows "on_message key msg now dw s \<noteq> None"
proof -
  have "on_admitted key peer msg now dw (s\<lparr>sv_conns := c\<rparr>) \<noteq> None" for peer c
  proof -
    have "dispatch h rd key peer now dw (s\<lparr>sv_conns := c\<rparr>) \<noteq> None" for h rd
      using assms by (intro dispatch_total) simp_all
    then show ?thesis unfolding on_admitted_def
      by (cases "run_state (Header_decode ctl_kVersion) (Reader msg)") (auto split: option.split simp del: not_None_eq)
  qed
  then show ?thesis by (auto simp: on_message_def Let_def split: option.split prod.split)
qed

text \<open>A message neither opens nor closes a connection.\<close>

lemma on_admitted_conns: "on_admitted key peer msg now dw s = Some (x, s') \<Longrightarrow> sv_conns s' = sv_conns s"
  by (auto simp: on_admitted_def split: prod.splits option.splits)

lemma on_message_conns:
  assumes "on_message key msg now dw s = Some (x, s')"
  shows "Mapping.keys (sv_conns s') = Mapping.keys (sv_conns s)"
proof (cases "get key (sv_conns s)")
  case None
  then show ?thesis using assms by (auto simp: on_message_def)
next
  case (Some c)
  then have "key \<in> Mapping.keys (sv_conns s)" by (auto simp: in_keys)
  then show ?thesis
    using assms Some by (auto simp: on_message_def Let_def dest!: on_admitted_conns split: prod.splits if_splits)
qed

section \<open>The systems\<close>

definition sv_guard_live :: "sv_input \<Rightarrow> instant \<times> Service \<Rightarrow> bool" where
  "sv_guard_live i s \<longleftrightarrow> sv_guard i s \<and> ample_draws (snd (snd i)) (sv_reg (snd s))"

interpretation live: total_system sv_step sv_guard_live "\<lambda>s. sv_inv (fst s) (snd s)"
proof unfold_locales
  fix s i s'
  assume "sv_inv (fst s) (snd s)" "sv_guard_live i s" "sv_step i s = Some s'"
  then show "sv_inv (fst s') (snd s')" using sv.preserved [of s i s'] by (simp add: sv_guard_live_def)
next
  fix s i
  assume inv: "sv_inv (fst s) (snd s)" and g: "sv_guard_live i s"
  obtain ev now dw where i: "i = (ev, now, dw)" by (cases i) auto
  have "relay_inv (sv_reg (snd s))" "ample_draws dw (sv_reg (snd s))"
    using inv g i by (simp_all add: sv_inv_def reg_inv_def sv_guard_live_def)
  then show "sv_step i s \<noteq> None" using on_message_total i by (cases ev) (auto simp: sv_step_def)
qed

definition reg_start :: "instant \<times> Registry \<Rightarrow> bool" where
  "reg_start s \<longleftrightarrow> (\<exists>cfg secret. s = (0, Registry_new cfg secret))"

definition sv_start :: "instant \<times> Service \<Rightarrow> bool" where
  "sv_start s \<longleftrightarrow> (\<exists>cfg secret ccfg. s = (0, Service_new (Registry_new cfg secret) ccfg))"

abbreviation reg_reach :: "instant \<times> Registry \<Rightarrow> bool" where
  "reg_reach \<equiv> reach reg_step reg_guard reg_start"

abbreviation sv_reach :: "instant \<times> Service \<Rightarrow> bool" where
  "sv_reach \<equiv> reach sv_step sv_guard sv_start"

lemma reg_reach_inv: "reg_reach (clock, r) \<Longrightarrow> reg_inv clock r"
  by (drule reg.reach_inv) (auto simp: reg_start_def reg_inv_new)

lemma sv_reach_inv: "sv_reach (clock, s) \<Longrightarrow> sv_inv clock s"
  by (drule sv.reach_inv) (auto simp: sv_start_def sv_inv_new)

text \<open>The sets the quotas count, over the records themselves.\<close>

lemma ent_sets:
  "dom (ent r) = Mapping.keys (rg_by_dev r)" "dom (shape r) = Mapping.keys (rg_topics r)"
  "{d \<in> Mapping.keys (rg_by_dev r). ip_of (ent r) d = k} = {d. \<exists>e. get d (rg_by_dev r) = Some e \<and> ip_key (en_bound_addr e) = k}"
  "{d \<in> in_topic (ent r) t. ip_of (ent r) d = k}
     = {d. \<exists>e. get d (rg_by_dev r) = Some e \<and> en_topic_id e = t \<and> ip_key (en_bound_addr e) = k}"
  by (auto simp: ent_def shape_def ip_of_def in_topic_def in_keys dom_def)

end
