(* ===== verification/Sample.thy ===== *)
theory Sample
  imports Service_Live
begin

text \<open>
  A registry with one record, on which the server's theorems are instantiated: connection 1 has
  registered one keyed record of one topic at time 5000.
\<close>

definition demo_topic :: TopicId where "demo_topic = replicate 16 7"

definition demo_src :: Endpoint where "demo_src = \<lparr>ep_ip = ip_v4 192 0 2 1, ep_port = 4000\<rparr>"

definition demo_msg :: Register where
  "demo_msg = \<lparr>rg_id = demo_topic, rg_mode = Keyed, rg_key_epoch = 0, rg_unlisted = False,
     rg_host_cands = [], rg_meta = [1, 2]\<rparr>"

definition demo_draws :: Draws where
  "demo_draws = \<lparr>dw_shuffle = [0], dw_indices = [0], dw_ids = [5], dw_tokens = (replicate 16 1, replicate 16 2)\<rparr>"

definition demo_empty :: Registry where
  "demo_empty = Registry_new RegistryConfig_default (replicate 32 0)"

definition demo_dev :: DevId where "demo_dev = derive_dev_id demo_topic demo_src demo_empty"

definition demo_reg :: Registry where
  "demo_reg = snd (register_entry demo_msg demo_src 1 5000 demo_empty)"

definition demo_entry :: Entry where
  "demo_entry = \<lparr>en_dev_id = demo_dev, en_topic_id = demo_topic, en_bound_addr = demo_src, en_host_cands = [],
     en_meta = [1, 2], en_owner = 1, en_last_seen = 5000, en_key_epoch = 0, en_mode = Keyed\<rparr>"

definition demo_state :: TopicState where
  "demo_state = \<lparr>tst_mode = Keyed, tst_listed = True, tst_members = [demo_dev],
     tst_pos = put demo_dev 0 Mapping.empty, tst_per_ip = put (ip_key demo_src) 1 Mapping.empty,
     tst_order = 1, tst_fresh = 1\<rparr>"

lemma demo_guard: "no_collision (rg_id demo_msg) demo_src demo_empty \<and> unat (rg_next_order demo_empty) + 1 < 2 ^ 32"
  by (simp add: no_collision_def demo_empty_def Registry_new_def)

lemma demo_reg_inv: "reg_inv 5000 demo_reg"
  unfolding demo_reg_def using demo_guard reg_inv_new
  by (intro reg_inv_register [of 0]) (simp_all add: demo_empty_def)

text \<open>The registration computed in its stages: joining the topic, then writing the record.\<close>

lemma demo_join:
  "join_topic demo_dev demo_msg (ip_key demo_src) 1 demo_empty =
     demo_empty\<lparr>rg_next_order := 2, rg_listing := put 1 demo_topic Mapping.empty,
       rg_topics := put demo_topic (demo_state\<lparr>tst_fresh := 0\<rparr>) Mapping.empty,
       rg_per_ip_total := put (ip_key demo_src) 1 Mapping.empty,
       rg_by_owner := put 1 [demo_dev] Mapping.empty\<rparr>"
  by (simp add: join_topic_def topic_at_def demo_empty_def Registry_new_def demo_msg_def TopicState_default_def
      increment_def owner_list_def demo_state_def)

lemma demo_write:
  assumes "rg_topics r = put demo_topic (demo_state\<lparr>tst_fresh := 0\<rparr>) Mapping.empty" "rg_by_dev r = Mapping.empty"
    "rg_fresh_order r = Mapping.empty"
  shows "get d (rg_by_dev (write_entry demo_dev demo_msg demo_src 1 5000 r)) = (if demo_dev = d then Some demo_entry else None)"
    "get t (rg_topics (write_entry demo_dev demo_msg demo_src 1 5000 r)) = (if demo_topic = t then Some demo_state else None)"
    "rg_listing (write_entry demo_dev demo_msg demo_src 1 5000 r) = rg_listing r"
    "rg_relays (write_entry demo_dev demo_msg demo_src 1 5000 r) = rg_relays r"
    "rg_cfg (write_entry demo_dev demo_msg demo_src 1 5000 r) = rg_cfg r"
  using assms
  by (simp_all add: write_entry_def demo_msg_def mark_fresh_def forget_fresh_def add_fresh_def add_entries_fresh_def
      Entry_default_def topic_at_def demo_entry_def demo_state_def)

lemma demo_empty_fields [simp]:
  "rg_cfg demo_empty = RegistryConfig_default" "rg_by_dev demo_empty = Mapping.empty" "rg_topics demo_empty = Mapping.empty"
  "rg_relays demo_empty = Mapping.empty" "rg_fresh_order demo_empty = Mapping.empty"
  by (simp_all add: demo_empty_def Registry_new_def)

lemma demo_accepted: "\<not> quota_exceeded demo_topic ik demo_empty"
  by (simp add: quota_exceeded_def demo_empty_def Registry_new_def over_def RegistryConfig_default_def Mapping.size_def)

lemma demo_fields:
  "get d (rg_by_dev demo_reg) = (if demo_dev = d then Some demo_entry else None)"
  "get t (rg_topics demo_reg) = (if demo_topic = t then Some demo_state else None)"
  "rg_listing demo_reg = put 1 demo_topic Mapping.empty" "rg_relays demo_reg = Mapping.empty"
  "rg_cfg demo_reg = RegistryConfig_default"
proof -
  let ?w = "write_entry demo_dev demo_msg demo_src 1 5000 (join_topic demo_dev demo_msg (ip_key demo_src) 1 demo_empty)"
  have none: "get x (rg_by_dev demo_empty) = None" for x by (simp add: demo_empty_def Registry_new_def)
  have top: "rg_id demo_msg = demo_topic" by (simp add: demo_msg_def)
  have eq: "demo_reg = ?w\<lparr>rg_stats := (rg_stats ?w)\<lparr>st_registers := st_registers (rg_stats ?w) + 1\<rparr>\<rparr>"
    unfolding demo_reg_def register_entry_def Let_def top demo_dev_def [symmetric] take_over_def none
    using demo_accepted by simp
  show "get d (rg_by_dev demo_reg) = (if demo_dev = d then Some demo_entry else None)"
    "get t (rg_topics demo_reg) = (if demo_topic = t then Some demo_state else None)"
    "rg_listing demo_reg = put 1 demo_topic Mapping.empty" "rg_relays demo_reg = Mapping.empty"
    "rg_cfg demo_reg = RegistryConfig_default"
    unfolding eq by (simp_all add: demo_join demo_write)
qed

text \<open>A service with one open connection.\<close>

definition demo_service :: Service where
  "demo_service = \<lparr>sv_reg = demo_empty, sv_cfg = ControlConfig_default,
     sv_conns = put 1 \<lparr>cn_peer = demo_src, cn_budget = \<lparr>bk_tokens = 1048576, bk_last = 1000\<rparr>\<rparr> Mapping.empty,
     sv_udp_buckets = Mapping.empty, sv_rej_rate_limited = 0\<rparr>"

lemma demo_open: "on_open 1 demo_src 1000 (Service_new demo_empty ControlConfig_default) = demo_service"
  by (simp add: on_open_def Service_new_def demo_service_def take_tokens_def Bucket_default_def ControlConfig_default_def)

lemma demo_src_wf: "wf_ep demo_src"
  by (simp add: demo_src_def wf_ep_def wf_ip_def ip_v4_def addr_len_def)

lemma demo_service_inv: "sv_inv 1000 demo_service"
  unfolding demo_open [symmetric]
  by (rule on_open_inv [of 0]) (simp_all add: demo_empty_def sv_inv_new demo_src_wf)

text \<open>A keepalive with an empty body, its header read, and its answer.\<close>

definition demo_keepalive :: bytes where "demo_keepalive = [3, 2, 0, 0, 0, 0, 0, 9]"

lemma demo_header:
  "run_state (Header_decode ctl_kVersion) (Reader demo_keepalive) =
    (Some \<lparr>h_type = 3, h_version = 2, h_flags = 0, h_txn_id = 9\<rparr>, \<lparr>r_buf = demo_keepalive, r_pos = 8, r_ok = True\<rparr>)"
  unfolding demo_keepalive_def by code_simp

definition demo_ok :: Framed where
  "demo_ok = reply KeepaliveOk_encode 1 MT_KeepaliveOk 9 \<lparr>ka_srflx = demo_src\<rparr> 0"

lemma demo_keepalive_guard: "message_guard 1 demo_keepalive demo_service"
  by (simp add: message_guard_def demo_service_def demo_header)

lemma demo_answer:
  "on_message 1 demo_keepalive 2000 dw demo_service =
     Some (\<lparr>rs_out = [demo_ok], rs_close = False\<rparr>,
           demo_service\<lparr>sv_conns := put 1 \<lparr>cn_peer = demo_src,
             cn_budget = snd (take_tokens \<lparr>bk_tokens = 1048576, bk_last = 1000\<rparr> 72 (256 * 1024) (1024 * 1024) 2000)\<rparr>
             (sv_conns demo_service)\<rparr>)"
proof -
  have bucket: "fst (take_tokens \<lparr>bk_tokens = 1048576, bk_last = 1000\<rparr> 72 (256 * 1024) (1024 * 1024) 2000)"
    by (simp add: take_tokens_def)
  have len: "length demo_keepalive + kMessageOverhead = 72" by (simp add: demo_keepalive_def kMessageOverhead_def)
  have rest: "r_remaining \<lparr>r_buf = demo_keepalive, r_pos = 8, r_ok = True\<rparr> = 0"
    by (simp add: r_remaining_def demo_keepalive_def)
  obtain b where b: "take_tokens \<lparr>bk_tokens = 1048576, bk_last = 1000\<rparr> 72 (256 * 1024) (1024 * 1024) 2000 = (True, b)"
    using bucket by (metis prod.collapse)
  show ?thesis
    using b rest
    by (simp add: on_message_def demo_service_def len ControlConfig_default_def on_admitted_def demo_header
        dispatch_def on_keepalive_def demo_ok_def)
qed

text \<open>A run of the server: the connection opens, sends the keepalive and closes, and the timer ticks.\<close>

definition demo_run :: "sv_input list" where
  "demo_run = [(EvOpen 1 demo_src, 1000, demo_draws), (EvMessage 1 demo_keepalive, 2000, demo_draws)]"

lemma demo_run_ok:
  "run_ok sv_step sv_guard demo_run (0, Service_new demo_empty ControlConfig_default)"
  "run sv_step demo_run (0, Service_new demo_empty ControlConfig_default) \<noteq> None"
  by (simp_all add: demo_run_def sv_guard_def sv_step_def demo_src_wf demo_open demo_keepalive_guard demo_answer)

lemma demo_run_reach:
  assumes "run sv_step demo_run (0, Service_new demo_empty ControlConfig_default) = Some s"
  shows "sv_reach s"
  by (rule run_reach [OF reach.start demo_run_ok(1) assms]) (auto simp: sv_start_def demo_empty_def)

lemma demo_service_reach: "sv_reach (1000, demo_service)"
  by (rule reach.step [OF reach.start, of _ "(0, Service_new demo_empty ControlConfig_default)" _
        "(EvOpen 1 demo_src, 1000, demo_draws)"])
    (auto simp: sv_start_def demo_empty_def sv_guard_def demo_src_wf sv_step_def demo_open [unfolded demo_empty_def])

lemma demo_reg_reach: "reg_reach (5000, demo_reg)"
  by (rule reach.step [OF reach.start, of _ "(0, demo_empty)" _ "(OpRegister demo_msg demo_src 1, 5000, demo_draws)"])
    (use demo_guard in \<open>auto simp: reg_start_def reg_guard_def reg_step_def demo_reg_def demo_empty_def\<close>)

text \<open>A registry with one relay binding that both sides have bound.\<close>

definition demo_relay :: Relay where
  "demo_relay = \<lparr>ry_id = 5, ry_kind = RK_Udp, ry_topic = demo_topic, ry_dev = (replicate 16 1, replicate 16 2),
     ry_owner = (1, 2), ry_token = (replicate 16 1, replicate 16 2),
     ry_udp = (Some demo_src, Some (demo_src\<lparr>ep_port := 5000\<rparr>)), ry_counted_ip = ip_key demo_src, ry_last_seen = 5000,
     ry_bytes = 0, ry_exhausted = False\<rparr>"

definition demo_relays :: Registry where
  "demo_relays = demo_empty\<lparr>rg_relays := put 5 demo_relay Mapping.empty\<rparr>"

end
