(* ===== verification/Poly1305.thy ===== *)
theory Poly1305
  imports Prelude
begin

text \<open>
  The Poly1305 authenticator the AEAD calls, \<^verbatim>\<open>third_party/poly1305.c\<close>: five 26-bit limbs in
  32-bit words, 64-bit products, hand-managed carries, and a 16-byte buffer for input that does
  not end on a block. The lemmas show that the streaming interface does not depend on how the
  input is cut into updates: absorbing two pieces is absorbing their concatenation.
\<close>

definition u8to32 :: "bytes \<Rightarrow> nat \<Rightarrow> u32" where
  "u8to32 p i = ucast (p ! i) OR push_bit 8 (ucast (p ! (i + 1)))
     OR push_bit 16 (ucast (p ! (i + 2))) OR push_bit 24 (ucast (p ! (i + 3)))"

definition u32to8 :: "u32 \<Rightarrow> bytes" where
  "u32to8 v = [ucast v, ucast (drop_bit 8 v), ucast (drop_bit 16 v), ucast (drop_bit 24 v)]"

lemma length_u32to8 [simp]: "length (u32to8 v) = 4"
  by (simp add: u32to8_def)

record poly1305_ctx =
  p_r :: "u32 \<times> u32 \<times> u32 \<times> u32 \<times> u32"
  p_h :: "u32 \<times> u32 \<times> u32 \<times> u32 \<times> u32"
  p_pad :: "u32 \<times> u32 \<times> u32 \<times> u32"
  p_leftover :: nat
  p_buffer :: bytes
  p_final :: bool

text \<open>\<open>buf\<close> is what the context's buffer holds before initialisation, which leaves it alone.\<close>

definition poly1305_init :: "bytes \<Rightarrow> bytes \<Rightarrow> poly1305_ctx" where
  "poly1305_init buf key = \<lparr>
     p_r = (u8to32 key 0 AND 0x3ffffff,
            drop_bit 2 (u8to32 key 3) AND 0x3ffff03,
            drop_bit 4 (u8to32 key 6) AND 0x3ffc0ff,
            drop_bit 6 (u8to32 key 9) AND 0x3f03fff,
            drop_bit 8 (u8to32 key 12) AND 0x00fffff),
     p_h = (0, 0, 0, 0, 0),
     p_pad = (u8to32 key 16, u8to32 key 20, u8to32 key 24, u8to32 key 28),
     p_leftover = 0, p_buffer = buf, p_final = False\<rparr>"

text \<open>One iteration of the loop of \<^verbatim>\<open>poly1305_blocks\<close>: \<^verbatim>\<open>h = (h + m) * r\<close>, partially reduced.\<close>

definition poly1305_block ::
  "u32 \<Rightarrow> u32 \<times> u32 \<times> u32 \<times> u32 \<times> u32 \<Rightarrow> u32 \<times> u32 \<times> u32 \<times> u32 \<times> u32 \<Rightarrow> bytes \<Rightarrow>
     u32 \<times> u32 \<times> u32 \<times> u32 \<times> u32" where
  "poly1305_block hibit r h m =
     (let (r0, r1, r2, r3, r4) = r;
          (h0, h1, h2, h3, h4) = h;
          s1 = r1 * 5; s2 = r2 * 5; s3 = r3 * 5; s4 = r4 * 5;
          h0 = h0 + (u8to32 m 0 AND 0x3ffffff);
          h1 = h1 + (drop_bit 2 (u8to32 m 3) AND 0x3ffffff);
          h2 = h2 + (drop_bit 4 (u8to32 m 6) AND 0x3ffffff);
          h3 = h3 + (drop_bit 6 (u8to32 m 9) AND 0x3ffffff);
          h4 = h4 + (drop_bit 8 (u8to32 m 12) OR hibit);
          d0 = (ucast h0 * ucast r0 + ucast h1 * ucast s4 + ucast h2 * ucast s3
                + ucast h3 * ucast s2 + ucast h4 * ucast s1 :: u64);
          d1 = (ucast h0 * ucast r1 + ucast h1 * ucast r0 + ucast h2 * ucast s4
                + ucast h3 * ucast s3 + ucast h4 * ucast s2 :: u64);
          d2 = (ucast h0 * ucast r2 + ucast h1 * ucast r1 + ucast h2 * ucast r0
                + ucast h3 * ucast s4 + ucast h4 * ucast s3 :: u64);
          d3 = (ucast h0 * ucast r3 + ucast h1 * ucast r2 + ucast h2 * ucast r1
                + ucast h3 * ucast r0 + ucast h4 * ucast s4 :: u64);
          d4 = (ucast h0 * ucast r4 + ucast h1 * ucast r3 + ucast h2 * ucast r2
                + ucast h3 * ucast r1 + ucast h4 * ucast r0 :: u64);
          c = (ucast (drop_bit 26 d0) :: u32); h0 = (ucast d0 AND 0x3ffffff :: u32); d1 = d1 + ucast c;
          c = (ucast (drop_bit 26 d1) :: u32); h1 = ucast d1 AND 0x3ffffff; d2 = d2 + ucast c;
          c = (ucast (drop_bit 26 d2) :: u32); h2 = ucast d2 AND 0x3ffffff; d3 = d3 + ucast c;
          c = (ucast (drop_bit 26 d3) :: u32); h3 = ucast d3 AND 0x3ffffff; d4 = d4 + ucast c;
          c = (ucast (drop_bit 26 d4) :: u32); h4 = ucast d4 AND 0x3ffffff; h0 = h0 + c * 5;
          c = drop_bit 26 h0; h0 = h0 AND 0x3ffffff; h1 = h1 + c
      in (h0, h1, h2, h3, h4))"

function poly1305_loop ::
  "u32 \<Rightarrow> u32 \<times> u32 \<times> u32 \<times> u32 \<times> u32 \<Rightarrow> u32 \<times> u32 \<times> u32 \<times> u32 \<times> u32 \<Rightarrow> bytes \<Rightarrow>
     u32 \<times> u32 \<times> u32 \<times> u32 \<times> u32" where
  "poly1305_loop hibit r h m =
     (if length m \<ge> 16 then poly1305_loop hibit r (poly1305_block hibit r h (take 16 m)) (drop 16 m) else h)"
  by pat_completeness auto
termination
  by (relation "measure (\<lambda>(hibit, r, h, m). length m)") auto

declare poly1305_loop.simps [simp del]

definition poly1305_blocks :: "bytes \<Rightarrow> poly1305_ctx \<Rightarrow> poly1305_ctx" where
  "poly1305_blocks m st =
     st\<lparr>p_h := poly1305_loop (if p_final st then 0 else push_bit 24 1) (p_r st) (p_h st) m\<rparr>"

text \<open>\<^verbatim>\<open>for (i = 0; i < n; ++i) buffer[leftover + i] = m[i]\<close>\<close>

definition buffer_put :: "bytes \<Rightarrow> poly1305_ctx \<Rightarrow> poly1305_ctx" where
  "buffer_put m st = st\<lparr>p_buffer := take (p_leftover st) (p_buffer st) @ m
     @ drop (p_leftover st + length m) (p_buffer st)\<rparr>"

definition poly1305_update :: "bytes \<Rightarrow> poly1305_ctx \<Rightarrow> poly1305_ctx" where
  "poly1305_update m st =
     (let (m, st, stop) =
        (if p_leftover st \<noteq> 0 then
           (let want = min (16 - p_leftover st) (length m);
                st = buffer_put (take want m) st;
                m = drop want m;
                st = st\<lparr>p_leftover := p_leftover st + want\<rparr>
            in if p_leftover st < 16 then (m, st, True)
               else (m, (poly1305_blocks (p_buffer st) st)\<lparr>p_leftover := 0\<rparr>, False))
         else (m, st, False))
      in if stop then st
         else let (m, st) =
                (if length m \<ge> 16 then
                   (let want = length m - length m mod 16
                    in (drop want m, poly1305_blocks (take want m) st))
                 else (m, st))
              in if m \<noteq> [] then (buffer_put m st)\<lparr>p_leftover := p_leftover st + length m\<rparr> else st)"

text \<open>The first part of \<^verbatim>\<open>finish\<close>: the last, incomplete block is closed with a 1 and zeros.\<close>

definition poly1305_last :: "poly1305_ctx \<Rightarrow> poly1305_ctx" where
  "poly1305_last st =
     (if p_leftover st \<noteq> 0 then
        poly1305_blocks (take (p_leftover st) (p_buffer st) @ [1] @ replicate (15 - p_leftover st) 0)
          (st\<lparr>p_final := True\<rparr>)
      else st)"

text \<open>The rest: the accumulator fully reduced, taken modulo \<^verbatim>\<open>2^128\<close> and the pad added.\<close>

definition poly1305_freeze ::
  "u32 \<times> u32 \<times> u32 \<times> u32 \<times> u32 \<Rightarrow> u32 \<times> u32 \<times> u32 \<times> u32 \<Rightarrow> u32 \<times> u32 \<times> u32 \<times> u32" where
  "poly1305_freeze h pad =
     (let (h0, h1, h2, h3, h4) = h;
          (pad0, pad1, pad2, pad3) = pad;
          c = drop_bit 26 h1; h1 = h1 AND 0x3ffffff; h2 = h2 + c;
          c = drop_bit 26 h2; h2 = h2 AND 0x3ffffff; h3 = h3 + c;
          c = drop_bit 26 h3; h3 = h3 AND 0x3ffffff; h4 = h4 + c;
          c = drop_bit 26 h4; h4 = h4 AND 0x3ffffff; h0 = h0 + c * 5;
          c = drop_bit 26 h0; h0 = h0 AND 0x3ffffff; h1 = h1 + c;
          g0 = h0 + 5; c = drop_bit 26 g0; g0 = g0 AND 0x3ffffff;
          g1 = h1 + c; c = drop_bit 26 g1; g1 = g1 AND 0x3ffffff;
          g2 = h2 + c; c = drop_bit 26 g2; g2 = g2 AND 0x3ffffff;
          g3 = h3 + c; c = drop_bit 26 g3; g3 = g3 AND 0x3ffffff;
          g4 = h4 + c - push_bit 26 1;
          mask = drop_bit 31 g4 - 1;
          g0 = g0 AND mask; g1 = g1 AND mask; g2 = g2 AND mask; g3 = g3 AND mask; g4 = g4 AND mask;
          mask = NOT mask;
          h0 = (h0 AND mask) OR g0; h1 = (h1 AND mask) OR g1; h2 = (h2 AND mask) OR g2;
          h3 = (h3 AND mask) OR g3; h4 = (h4 AND mask) OR g4;
          h0 = (h0 OR push_bit 26 h1) AND 0xffffffff;
          h1 = (drop_bit 6 h1 OR push_bit 20 h2) AND 0xffffffff;
          h2 = (drop_bit 12 h2 OR push_bit 14 h3) AND 0xffffffff;
          h3 = (drop_bit 18 h3 OR push_bit 8 h4) AND 0xffffffff;
          f = (ucast h0 + ucast pad0 :: u64); h0 = ucast f;
          f = ucast h1 + ucast pad1 + drop_bit 32 f; h1 = ucast f;
          f = ucast h2 + ucast pad2 + drop_bit 32 f; h2 = ucast f;
          f = ucast h3 + ucast pad3 + drop_bit 32 f; h3 = ucast f
      in (h0, h1, h2, h3))"

definition poly1305_finish :: "poly1305_ctx \<Rightarrow> bytes" where
  "poly1305_finish st = (case poly1305_freeze (p_h (poly1305_last st)) (p_pad (poly1305_last st)) of (h0, h1, h2, h3) \<Rightarrow>
     u32to8 h0 @ u32to8 h1 @ u32to8 h2 @ u32to8 h3)"

lemma length_poly1305_finish [simp]: "length (poly1305_finish st) = 16"
  by (simp add: poly1305_finish_def split: prod.splits)

section \<open>Streaming\<close>

text \<open>
  What a context has absorbed: the accumulator after the full blocks, and the bytes of the block
  that is not complete yet.
\<close>

definition p_wf :: "poly1305_ctx \<Rightarrow> bool" where
  "p_wf st \<longleftrightarrow> length (p_buffer st) = 16 \<and> p_leftover st < 16 \<and> \<not> p_final st"

definition p_pending :: "poly1305_ctx \<Rightarrow> bytes" where
  "p_pending st = take (p_leftover st) (p_buffer st)"

lemma poly1305_loop_append:
  assumes "length a mod 16 = 0"
  shows "poly1305_loop hb r h (a @ b) = poly1305_loop hb r (poly1305_loop hb r h a) b"
  using assms
proof (induction hb r h a rule: poly1305_loop.induct)
  case (1 hb r h a)
  show ?case
  proof (cases "length a \<ge> 16")
    case True
    then have "length (drop 16 a) mod 16 = 0" using 1(2) by (simp add: le_mod_geq)
    from 1(1) [OF True this] True show ?thesis
      by (simp add: poly1305_loop.simps [of hb r h a] poly1305_loop.simps [of hb r h "a @ b"])
  next
    case False
    then have "a = []" using 1(2) by (cases a) (auto simp: mod_if split: if_splits)
    then show ?thesis by (simp add: poly1305_loop.simps [of hb r h "[]"])
  qed
qed

lemma poly1305_loop_short: "length m < 16 \<Longrightarrow> poly1305_loop hb r h m = h"
  by (simp add: poly1305_loop.simps)

text \<open>The specification of one update, on the bytes not yet turned into blocks.\<close>

definition p_absorb :: "bytes \<Rightarrow> poly1305_ctx \<Rightarrow> (u32 \<times> u32 \<times> u32 \<times> u32 \<times> u32) \<times> bytes" where
  "p_absorb m st =
     (let all = p_pending st @ m; n = length all - length all mod 16
      in (poly1305_loop (push_bit 24 1) (p_r st) (p_h st) (take n all), drop n all))"

definition p_view :: "poly1305_ctx \<Rightarrow> (u32 \<times> u32 \<times> u32 \<times> u32 \<times> u32) \<times> bytes" where
  "p_view st = (p_h st, p_pending st)"

text \<open>The part of \<open>poly1305_update\<close> after the buffer has been emptied.\<close>

definition update_tail :: "bytes \<Rightarrow> poly1305_ctx \<Rightarrow> poly1305_ctx" where
  "update_tail m st =
     (let (m, st) = (if length m \<ge> 16 then
          (let want = length m - length m mod 16 in (drop want m, poly1305_blocks (take want m) st))
        else (m, st))
      in if m \<noteq> [] then (buffer_put m st)\<lparr>p_leftover := p_leftover st + length m\<rparr> else st)"

lemma update_tail_spec:
  assumes "p_wf st" "p_leftover st = 0"
  shows "p_wf (update_tail m st) \<and> p_view (update_tail m st) = p_absorb m st
    \<and> p_r (update_tail m st) = p_r st \<and> p_pad (update_tail m st) = p_pad st"
proof -
  have lt: "length m mod 16 < 16" by simp
  show ?thesis
  proof (cases "length m \<ge> 16")
    case True
    define want where "want = length m - length m mod 16"
    have "length (drop want m) = length m mod 16" by (simp add: want_def)
    with True assms lt show ?thesis
      by (auto simp: update_tail_def p_view_def p_absorb_def p_pending_def p_wf_def poly1305_blocks_def
          buffer_put_def Let_def simp flip: want_def)
  next
    case False
    then have "length m mod 16 = length m" by simp
    with False assms show ?thesis
      by (auto simp: update_tail_def p_view_def p_absorb_def p_pending_def p_wf_def buffer_put_def
          poly1305_loop_short Let_def)
  qed
qed

lemma poly1305_update_tail:
  "poly1305_update m st =
     (if p_leftover st \<noteq> 0 then
        (let want = min (16 - p_leftover st) (length m);
             st' = (buffer_put (take want m) st)\<lparr>p_leftover := p_leftover st + want\<rparr>
         in if p_leftover st' < 16 then st'
            else update_tail (drop want m) ((poly1305_blocks (p_buffer st') st')\<lparr>p_leftover := 0\<rparr>))
      else update_tail m st)"
proof (cases "p_leftover st = 0")
  case False
  define want where "want = min (16 - p_leftover st) (length m)"
  have "p_leftover (buffer_put (take want m) st) = p_leftover st" by (simp add: buffer_put_def)
  with False show ?thesis
    by (cases "p_leftover st + want < 16")
      (simp_all add: poly1305_update_def update_tail_def Let_def flip: want_def)
qed (simp add: poly1305_update_def update_tail_def)

lemma length_absorb: "length (snd (p_absorb m st)) < 16"
  by (simp add: p_absorb_def Let_def)

lemma update_spec:
  assumes wf: "p_wf st"
  shows "p_wf (poly1305_update m st) \<and> p_view (poly1305_update m st) = p_absorb m st
    \<and> p_r (poly1305_update m st) = p_r st \<and> p_pad (poly1305_update m st) = p_pad st"
proof (cases "p_leftover st = 0")
  case True
  then show ?thesis using update_tail_spec [OF wf] by (simp add: poly1305_update_tail)
next
  case False
  let ?l = "p_leftover st"
  define want where "want = min (16 - ?l) (length m)"
  define st' where "st' = (buffer_put (take want m) st)\<lparr>p_leftover := ?l + want\<rparr>"
  have l: "?l < 16" "length (p_buffer st) = 16" "\<not> p_final st" using wf by (auto simp: p_wf_def)
  have pend: "length (p_pending st) = ?l" using l by (simp add: p_pending_def)
  have wl: "length (take want m) = want" by (simp add: want_def)
  have st': "take (?l + want) (p_buffer st') = p_pending st @ take want m" "length (p_buffer st') = 16"
    "p_leftover st' = ?l + want" "p_h st' = p_h st" "p_r st' = p_r st" "p_pad st' = p_pad st" "\<not> p_final st'"
    using l wl by (auto simp: st'_def buffer_put_def p_pending_def want_def)
  show ?thesis
  proof (cases "?l + want < 16")
    case True
    then have w: "want = length m" by (auto simp: want_def)
    then have upd: "poly1305_update m st = st'"
      using False True st'(3) by (simp add: poly1305_update_tail Let_def want_def [symmetric] st'_def)
    have "length (p_pending st @ m) mod 16 = length (p_pending st @ m)"
      using True w pend by simp
    with st' True w pend show ?thesis
      by (simp add: upd p_view_def p_absorb_def p_pending_def p_wf_def poly1305_loop_short Let_def)
  next
    case F: False
    then have w: "?l + want = 16" using l by (auto simp: want_def)
    let ?blk = "p_pending st @ take want m"
    let ?st2 = "(poly1305_blocks (p_buffer st') st')\<lparr>p_leftover := 0\<rparr>"
    have buf: "p_buffer st' = ?blk" using st'(1,2) w by simp
    have upd: "poly1305_update m st = update_tail (drop want m) ?st2"
      using False F st'(3) by (simp add: poly1305_update_tail Let_def want_def [symmetric] st'_def)
    have wf2: "p_wf ?st2" using st' by (simp add: p_wf_def poly1305_blocks_def)
    have len: "length ?blk = 16" using w pend wl by simp
    have all: "p_pending st @ m = ?blk @ drop want m" by simp
    let ?k = "length (drop want m) - length (drop want m) mod 16"
    have n: "length (p_pending st @ m) - length (p_pending st @ m) mod 16 = 16 + ?k"
    proof -
      have "length (p_pending st @ m) = 16 + length (drop want m)"
        using len unfolding all by (simp only: length_append)
      then show ?thesis by (simp add: Nat.add_diff_assoc)
    qed
    have tk: "take (16 + ?k) (p_pending st @ m) = ?blk @ take ?k (drop want m)"
      and dr: "drop (16 + ?k) (p_pending st @ m) = drop ?k (drop want m)"
      unfolding all by (rule take_drop_past [OF len])+
    have "p_absorb m st = (poly1305_loop (push_bit 24 1) (p_r st) (p_h st) (?blk @ take ?k (drop want m)),
        drop ?k (drop want m))"
      unfolding p_absorb_def Let_def n tk dr ..
    also have "\<dots> = p_absorb (drop want m) ?st2"
    proof -
      have "length ?blk mod 16 = 0" unfolding len by simp
      moreover have "p_pending ?st2 = []" "p_r ?st2 = p_r st"
        "p_h ?st2 = poly1305_loop (push_bit 24 1) (p_r st) (p_h st) ?blk"
        using st' by (simp_all add: p_pending_def poly1305_blocks_def buf)
      ultimately show ?thesis
        by (simp only: p_absorb_def Let_def poly1305_loop_append append_Nil)
    qed
    finally show ?thesis
      using update_tail_spec [OF wf2] st' by (simp add: upd poly1305_blocks_def)
  qed
qed

lemma last_fields:
  "p_h (poly1305_last st) =
     (if p_leftover st = 0 then p_h st
      else poly1305_loop 0 (p_r st) (p_h st)
        (take (p_leftover st) (p_buffer st) @ [1] @ replicate (15 - p_leftover st) 0))"
  "p_pad (poly1305_last st) = p_pad st"
  by (simp_all add: poly1305_last_def poly1305_blocks_def)

lemma poly1305_finish_view:
  assumes "p_wf a" "p_wf b" "p_view a = p_view b" "p_r a = p_r b" "p_pad a = p_pad b"
  shows "poly1305_finish a = poly1305_finish b"
proof -
  have l: "p_leftover s = length (p_pending s)" if "p_wf s" for s
    using that by (simp add: p_wf_def p_pending_def)
  have "p_leftover a = p_leftover b" "take (p_leftover a) (p_buffer a) = take (p_leftover b) (p_buffer b)"
    "p_h a = p_h b"
    using assms(3) l [OF assms(1)] l [OF assms(2)] unfolding p_view_def prod.inject
    by (metis, metis p_pending_def, metis)
  moreover have "p_final a = p_final b" using assms(1,2) by (simp add: p_wf_def)
  ultimately show ?thesis
    using assms(4,5) by (simp only: poly1305_finish_def last_fields)
qed

lemma p_absorb_append:
  assumes "p_wf st"
  shows "p_absorb b (poly1305_update a st) = p_absorb (a @ b) st"
proof -
  let ?s = "poly1305_update a st"
  let ?loop = "poly1305_loop (push_bit 24 1) (p_r st)"
  define A where "A = p_pending st @ a"
  define n where "n = length A - length A mod 16"
  define X where "X = take n A"
  define R where "R = drop n A @ b"
  define k where "k = length R - length R mod 16"
  have v: "p_h ?s = ?loop (p_h st) X" "p_pending ?s @ b = R" "p_r ?s = p_r st"
    using update_spec [OF assms, of a]
    by (auto simp: p_view_def p_absorb_def Let_def A_def [symmetric] n_def [symmetric] X_def R_def)
  have AB: "p_pending st @ a @ b = X @ R"
    by (simp add: X_def R_def A_def [symmetric] flip: append_assoc)
  have X: "length X = n" by (simp add: X_def n_def)
  have n16: "length X mod 16 = 0" by (simp add: X n_def minus_mod_eq_mult_div)
  then have m: "length (X @ R) mod 16 = length R mod 16"
    by (metis add.left_neutral mod_add_left_eq length_append)
  have nk: "length (X @ R) - length (X @ R) mod 16 = n + k"
    unfolding m k_def by (simp add: X)
  have "p_absorb (a @ b) st = (?loop (p_h st) (X @ take k R), drop k R)"
    unfolding p_absorb_def Let_def AB nk take_drop_past [OF X] ..
  also have "\<dots> = p_absorb b ?s"
    unfolding p_absorb_def Let_def v k_def [symmetric] poly1305_loop_append [OF n16] ..
  finally show ?thesis by simp
qed

lemma poly1305_update_append:
  assumes "p_wf st"
  shows "poly1305_finish (poly1305_update b (poly1305_update a st)) = poly1305_finish (poly1305_update (a @ b) st)"
proof (rule poly1305_finish_view)
  note A = update_spec [OF assms, of a]
  note B = update_spec [of "poly1305_update a st" b] update_spec [OF assms, of "a @ b"]
  show "p_wf (poly1305_update b (poly1305_update a st))" "p_wf (poly1305_update (a @ b) st)"
    using A B by auto
  show "p_view (poly1305_update b (poly1305_update a st)) = p_view (poly1305_update (a @ b) st)"
    using A B p_absorb_append [OF assms] by simp
  show "p_r (poly1305_update b (poly1305_update a st)) = p_r (poly1305_update (a @ b) st)"
    "p_pad (poly1305_update b (poly1305_update a st)) = p_pad (poly1305_update (a @ b) st)"
    using A B by simp_all
qed

lemma p_wf_init: "length buf = 16 \<Longrightarrow> p_wf (poly1305_init buf key)"
  by (simp add: p_wf_def poly1305_init_def)

end
