(* ===== verification/Aead.thy ===== *)
theory Aead
  imports Primitives Poly1305
begin

text \<open>
  ChaCha20 and AEAD_CHACHA20_POLY1305, \<^verbatim>\<open>src/crypto/aead.cpp\<close>. The output span of the code is an
  argument, the caller's buffer, and the result is that buffer after the call. The lemmas show that
  decryption inverts encryption, that a tag that does not match leaves nothing but zeros behind, and
  that the tag is the one-shot authenticator of the layout of RFC 8439 although the code feeds it
  piece by piece.
\<close>

definition rotl32 :: "u32 \<Rightarrow> nat \<Rightarrow> u32" where
  "rotl32 x n = push_bit n x OR drop_bit (32 - n) x"

definition noise_nonce :: "u64 \<Rightarrow> bytes" where
  "noise_nonce n = replicate 4 0 @ store64_le n"

text \<open>The quarter round on the working array \<open>x\<close>.\<close>

definition qr :: "nat \<Rightarrow> nat \<Rightarrow> nat \<Rightarrow> nat \<Rightarrow> u32 list \<Rightarrow> u32 list" where
  "qr a b c d x =
     (let x = x[a := x ! a + x ! b]; x = x[d := x ! d XOR x ! a]; x = x[d := rotl32 (x ! d) 16];
          x = x[c := x ! c + x ! d]; x = x[b := x ! b XOR x ! c]; x = x[b := rotl32 (x ! b) 12];
          x = x[a := x ! a + x ! b]; x = x[d := x ! d XOR x ! a]; x = x[d := rotl32 (x ! d) 8];
          x = x[c := x ! c + x ! d]; x = x[b := x ! b XOR x ! c]
      in x[b := rotl32 (x ! b) 7])"

definition double_round :: "u32 list \<Rightarrow> u32 list" where
  "double_round x =
     (qr 3 4 9 14 \<circ> qr 2 7 8 13 \<circ> qr 1 6 11 12 \<circ> qr 0 5 10 15
      \<circ> qr 3 7 11 15 \<circ> qr 2 6 10 14 \<circ> qr 1 5 9 13 \<circ> qr 0 4 8 12) x"

definition chacha20_init :: "bytes \<Rightarrow> u32 \<Rightarrow> bytes \<Rightarrow> u32 list" where
  "chacha20_init key counter nonce =
     [0x61707865, 0x3320646E, 0x79622D32, 0x6B206574]
     @ map (\<lambda>i. load32_le key (i * 4)) [0..<8] @ [counter] @ map (\<lambda>i. load32_le nonce (i * 4)) [0..<3]"

definition chacha20_block :: "bytes \<Rightarrow> u32 \<Rightarrow> bytes \<Rightarrow> bytes" where
  "chacha20_block key counter nonce =
     (let s = chacha20_init key counter nonce; x = (double_round ^^ 10) s
      in concat (map store32_le (map2 (+) x s)))"

function chacha20_xor :: "bytes \<Rightarrow> u32 \<Rightarrow> bytes \<Rightarrow> bytes \<Rightarrow> bytes" where
  "chacha20_xor key counter nonce inp =
     (if inp = [] then []
      else map2 (XOR) (take 64 inp) (chacha20_block key counter nonce)
           @ chacha20_xor key (counter + 1) nonce (drop 64 inp))"
  by pat_completeness auto
termination
  by (relation "measure (\<lambda>(key, counter, nonce, inp). length inp)") auto

declare chacha20_xor.simps [simp del]

text \<open>The zeros that pad \<open>n\<close> bytes to a multiple of 16; the code skips the update when there are none.\<close>

definition pad16_update :: "nat \<Rightarrow> poly1305_ctx \<Rightarrow> poly1305_ctx" where
  "pad16_update n ctx =
     (if n mod 16 \<noteq> 0 then poly1305_update (take (16 - n mod 16) (replicate 16 0)) ctx else ctx)"

text \<open>\<open>buf\<close> is what the stack held where the code puts its context.\<close>

definition poly1305_tag_in :: "bytes \<Rightarrow> bytes \<Rightarrow> bytes \<Rightarrow> bytes \<Rightarrow> bytes \<Rightarrow> bytes" where
  "poly1305_tag_in buf key nonce ad ct =
     (let ctx = poly1305_init buf (chacha20_block key 0 nonce);
          ctx = poly1305_update ad ctx;
          ctx = pad16_update (length ad) ctx;
          ctx = poly1305_update ct ctx;
          ctx = pad16_update (length ct) ctx;
          lens = store64_le (of_nat (length ad)) @ store64_le (of_nat (length ct));
          ctx = poly1305_update lens ctx
      in poly1305_finish ctx)"

definition poly1305_tag :: "bytes \<Rightarrow> bytes \<Rightarrow> bytes \<Rightarrow> bytes \<Rightarrow> bytes" where
  "poly1305_tag = poly1305_tag_in (replicate 16 0)"

definition aead_encrypt_n12 :: "bytes \<Rightarrow> bytes \<Rightarrow> bytes \<Rightarrow> bytes \<Rightarrow> bytes \<Rightarrow> bytes" where
  "aead_encrypt_n12 key nonce ad plaintext out =
     (let out = chacha20_xor key 1 nonce plaintext @ drop (length plaintext) out;
          tag = poly1305_tag key nonce ad (take (length plaintext) out)
      in take (length plaintext) out @ tag @ drop (length plaintext + kTagLen) out)"

definition aead_decrypt_n12 :: "bytes \<Rightarrow> bytes \<Rightarrow> bytes \<Rightarrow> bytes \<Rightarrow> bytes \<Rightarrow> bool \<times> bytes" where
  "aead_decrypt_n12 key nonce ad ciphertext out =
     (if length ciphertext < kTagLen then (False, out)
      else let pt_len = length ciphertext - kTagLen in
        if length out < pt_len then (False, out)
        else let expected = poly1305_tag key nonce ad (take pt_len ciphertext) in
          if \<not> ct_equal expected (drop pt_len ciphertext)
          then (False, replicate pt_len 0 @ drop pt_len out)
          else (True, chacha20_xor key 1 nonce (take pt_len ciphertext) @ drop pt_len out))"

definition aead_encrypt :: "bytes \<Rightarrow> u64 \<Rightarrow> bytes \<Rightarrow> bytes \<Rightarrow> bytes \<Rightarrow> bytes" where
  "aead_encrypt key nonce ad plaintext out = aead_encrypt_n12 key (noise_nonce nonce) ad plaintext out"

definition aead_decrypt :: "bytes \<Rightarrow> u64 \<Rightarrow> bytes \<Rightarrow> bytes \<Rightarrow> bytes \<Rightarrow> bool \<times> bytes" where
  "aead_decrypt key nonce ad ciphertext out = aead_decrypt_n12 key (noise_nonce nonce) ad ciphertext out"

section \<open>Lengths and the stream cipher\<close>

lemma length_qr [simp]: "length (qr a b c d x) = length x"
  by (simp add: qr_def Let_def del: nth_list_update_eq)

lemma length_double_round [simp]: "length (double_round x) = length x"
  by (simp add: double_round_def)

lemma length_double_rounds [simp]: "length ((double_round ^^ n) x) = length x"
  by (induction n) simp_all

lemma length_chacha20_block [simp]: "length (chacha20_block key counter nonce) = 64"
  by (simp add: chacha20_block_def chacha20_init_def Let_def del: map_map)

lemma length_chacha20_xor [simp]: "length (chacha20_xor key counter nonce inp) = length inp"
  by (induction key counter nonce inp rule: chacha20_xor.induct)
    (subst chacha20_xor.simps, auto)

lemma chacha20_xor_Nil [simp]: "chacha20_xor key counter nonce [] = []"
  by (simp add: chacha20_xor.simps)

lemma chacha20_xor_involutive:
  "chacha20_xor key counter nonce (chacha20_xor key counter nonce inp) = inp"
proof (induction key counter nonce inp rule: chacha20_xor.induct)
  case (1 key counter nonce inp)
  show ?case
  proof (cases "inp = []")
    case False
    let ?b = "chacha20_block key counter nonce"
    let ?x = "map2 (XOR) (take 64 inp) ?b"
    let ?r = "chacha20_xor key (counter + 1) nonce (drop 64 inp)"
    have c: "chacha20_xor key counter nonce inp = ?x @ ?r" using False by (subst chacha20_xor.simps) simp
    have ne: "?x @ ?r \<noteq> []" using False by (metis c length_0_conv length_chacha20_xor)
    have tk: "take 64 (?x @ ?r) = ?x" and dr: "drop 64 (?x @ ?r) = ?r"
      by (cases "length inp \<ge> 64"; simp)+
    have "map2 (XOR) ?x ?b = take 64 inp" by (rule map2_xor_xor) simp
    with ne tk dr 1 [OF False] show ?thesis
      unfolding c by (subst chacha20_xor.simps) (simp only: if_False append_take_drop_id)
  qed simp
qed

section \<open>The tag\<close>

definition pad16 :: "bytes \<Rightarrow> bytes" where
  "pad16 xs = replicate ((16 - length xs mod 16) mod 16) 0"

text \<open>The string of RFC 8439, section 2.8, and the authenticator applied to it at once.\<close>

definition aead_layout :: "bytes \<Rightarrow> bytes \<Rightarrow> bytes" where
  "aead_layout ad ct = ad @ pad16 ad @ ct @ pad16 ct
     @ store64_le (of_nat (length ad)) @ store64_le (of_nat (length ct))"

definition poly1305_mac :: "bytes \<Rightarrow> bytes \<Rightarrow> bytes" where
  "poly1305_mac key m = poly1305_finish (poly1305_update m (poly1305_init (replicate 16 0) key))"

lemma length_poly1305_tag [simp]: "length (poly1305_tag key nonce ad ct) = 16"
  by (simp add: poly1305_tag_def poly1305_tag_in_def Let_def)

text \<open>Two contexts that cannot be told apart by what is absorbed and finished after.\<close>

definition p_same :: "poly1305_ctx \<Rightarrow> poly1305_ctx \<Rightarrow> bool" where
  "p_same a b \<longleftrightarrow> p_wf a \<and> p_wf b \<and> p_view a = p_view b \<and> p_r a = p_r b \<and> p_pad a = p_pad b"

lemma p_same_refl: "p_wf a \<Longrightarrow> p_same a a"
  by (simp add: p_same_def)

lemma p_absorb_same: "p_same a b \<Longrightarrow> p_absorb m a = p_absorb m b"
  by (simp add: p_same_def p_absorb_def p_view_def)

lemma p_same_update: "p_same a b \<Longrightarrow> p_same (poly1305_update m a) (poly1305_update m b)"
  using update_spec [of a m] update_spec [of b m] p_absorb_same [of a b m] by (simp add: p_same_def)

lemma p_same_append:
  assumes "p_same c (poly1305_update a st)" "p_wf st"
  shows "p_same (poly1305_update b c) (poly1305_update (a @ b) st)"
  using update_spec [of c b] update_spec [of st a] update_spec [of st "a @ b"]
    p_absorb_same [OF assms(1), of b] p_absorb_append [OF assms(2), of b a] assms
  by (simp add: p_same_def)

lemma p_same_pad:
  assumes "p_same c (poly1305_update a st)" "p_wf st"
  shows "p_same (pad16_update (length xs) c) (poly1305_update (a @ pad16 xs) st)"
proof (cases "length xs mod 16 = 0")
  case False
  then have "take (16 - length xs mod 16) (replicate 16 0) = pad16 xs"
    by (simp add: pad16_def)
  with False p_same_append [OF assms] show ?thesis by (simp add: pad16_update_def)
qed (use assms in \<open>simp_all add: pad16_update_def pad16_def\<close>)

lemma p_same_finish: "p_same a b \<Longrightarrow> poly1305_finish a = poly1305_finish b"
  by (auto simp: p_same_def intro: poly1305_finish_view)

lemma p_same_init: "length b = 16 \<Longrightarrow> p_same (poly1305_init b key) (poly1305_init (replicate 16 0) key)"
  by (simp add: p_same_def p_wf_def p_view_def p_pending_def poly1305_init_def)

lemma poly1305_tag_layout:
  assumes "length buf = 16"
  shows "poly1305_tag_in buf key nonce ad ct = poly1305_mac (chacha20_block key 0 nonce) (aead_layout ad ct)"
proof -
  let ?st = "poly1305_init (replicate 16 0) (chacha20_block key 0 nonce)"
  have wf: "p_wf ?st" by (simp add: p_wf_init)
  note a = p_same_update [OF p_same_init [OF assms], of ad "chacha20_block key 0 nonce"]
  note b = p_same_pad [OF a wf, of ad]
  note c = p_same_append [OF b wf, of ct]
  note d = p_same_pad [OF c wf, of ct]
  note e = p_same_append [OF d wf, of "store64_le (of_nat (length ad)) @ store64_le (of_nat (length ct))"]
  show ?thesis
    using p_same_finish [OF e] by (simp add: poly1305_tag_in_def poly1305_mac_def aead_layout_def Let_def)
qed

section \<open>Round trip and refusal\<close>

text \<open>Encryption as a function of its inputs alone: the sealed string it leaves at the front of the buffer.\<close>

definition aead_seal :: "bytes \<Rightarrow> u64 \<Rightarrow> bytes \<Rightarrow> bytes \<Rightarrow> bytes" where
  "aead_seal key n ad pt =
     (let ct = chacha20_xor key 1 (noise_nonce n) pt in ct @ poly1305_tag key (noise_nonce n) ad ct)"

definition aead_open :: "bytes \<Rightarrow> u64 \<Rightarrow> bytes \<Rightarrow> bytes \<Rightarrow> bytes option" where
  "aead_open key n ad ct =
     (if length ct < kTagLen then None
      else let c = take (length ct - kTagLen) ct in
        if drop (length ct - kTagLen) ct = poly1305_tag key (noise_nonce n) ad c
        then Some (chacha20_xor key 1 (noise_nonce n) c) else None)"

lemma length_seal [simp]: "length (aead_seal key n ad pt) = length pt + 16"
  by (simp add: aead_seal_def Let_def)

lemma opened_seal [simp]: "aead_open key n ad (aead_seal key n ad pt) = Some pt"
  by (simp add: aead_open_def aead_seal_def Let_def chacha20_xor_involutive)

lemma opened_iff: "aead_open key n ad ct = Some pt \<longleftrightarrow> ct = aead_seal key n ad pt"
proof
  assume o: "aead_open key n ad ct = Some pt"
  let ?c = "take (length ct - kTagLen) ct"
  have "drop (length ct - kTagLen) ct = poly1305_tag key (noise_nonce n) ad ?c"
    "pt = chacha20_xor key 1 (noise_nonce n) ?c"
    using o by (auto simp: aead_open_def Let_def split: if_splits)
  then show "ct = aead_seal key n ad pt"
    by (metis append_take_drop_id chacha20_xor_involutive aead_seal_def)
qed simp

lemma opened_length: "aead_open key n ad ct = Some pt \<Longrightarrow> length ct = length pt + 16"
  by (simp add: opened_iff)

lemma aead_encrypt_seal:
  "aead_encrypt key n ad pt out = aead_seal key n ad pt @ drop (length pt + 16) out"
  by (simp add: aead_encrypt_def aead_encrypt_n12_def aead_seal_def Let_def add.commute)

lemma aead_decrypt_opened:
  assumes "length ct \<le> length out + kTagLen"
  shows "aead_decrypt key n ad ct out =
    (case aead_open key n ad ct of
       Some pt \<Rightarrow> (True, pt @ drop (length pt) out)
     | None \<Rightarrow> (False, if length ct < kTagLen then out
         else replicate (length ct - kTagLen) 0 @ drop (length ct - kTagLen) out))"
  using assms by (auto simp: aead_decrypt_def aead_decrypt_n12_def aead_open_def Let_def)

end
