(* ===== verification/Kdf.thy ===== *)
theory Kdf
  imports Blake2s
begin

text \<open>
  HMAC, the two key derivation functions of \<^verbatim>\<open>src/crypto/random.cpp\<close>, the X25519 wrapper, and
  \<^verbatim>\<open>src/crypto/kdf.*\<close>: the subkeys of a topic and the short authentication string. The lemmas give
  HMAC and HKDF their RFC form, bound what they return, and show that the string a human compares
  determines the 24 bits it stands for.

  The curve itself (\<^verbatim>\<open>third_party/x25519.c\<close>) is a parameter: \<open>curve sk pk\<close> is
  \<^verbatim>\<open>uconnect_x25519\<close>, \<open>base sk\<close> is \<^verbatim>\<open>uconnect_x25519_base\<close>.
\<close>

record KeyPair =
  kp_secret :: bytes
  kp_pub :: bytes

definition KeyPair_default :: KeyPair where
  "KeyPair_default = \<lparr>kp_secret = replicate kDhLen 0, kp_pub = replicate kDhLen 0\<rparr>"

definition KeyPair_from_secret :: "(bytes \<Rightarrow> bytes) \<Rightarrow> bytes \<Rightarrow> KeyPair" where
  "KeyPair_from_secret base sk = \<lparr>kp_secret = sk, kp_pub = base sk\<rparr>"

text \<open>\<^verbatim>\<open>x25519\<close>: whether the output is not the all-zero point, and the output.\<close>

definition x25519 :: "(bytes \<Rightarrow> bytes \<Rightarrow> bytes) \<Rightarrow> bytes \<Rightarrow> bytes \<Rightarrow> bool \<times> bytes" where
  "x25519 curve sk pk = (let out = curve sk pk in (fold (\<lambda>b acc. acc OR b) out 0 \<noteq> 0, out))"

definition hmac_blake2s :: "bytes \<Rightarrow> bytes \<Rightarrow> bytes" where
  "hmac_blake2s key msg =
     (let k_block = (if length key > kBlockLen
            then Blake2s_hash key @ replicate (kBlockLen - kHashLen) 0
            else key @ replicate (kBlockLen - length key) 0);
          ipad = map (\<lambda>b. b XOR 0x36) k_block;
          opad = map (\<lambda>b. b XOR 0x5C) k_block;
          inner = Blake2s_update msg (Blake2s_update ipad (Blake2s_new [] kHashLen));
          inner_hash = Blake2s_finish inner;
          outer = Blake2s_update inner_hash (Blake2s_update opad (Blake2s_new [] kHashLen))
      in Blake2s_finish outer)"

definition hkdf2 :: "bytes \<Rightarrow> bytes \<Rightarrow> bytes \<times> bytes" where
  "hkdf2 chaining_key ikm =
     (let temp_key = hmac_blake2s chaining_key ikm;
          out1 = hmac_blake2s temp_key [1];
          out2 = hmac_blake2s temp_key (out1 @ [2])
      in (out1, out2))"

definition hkdf3 :: "bytes \<Rightarrow> bytes \<Rightarrow> bytes \<times> bytes \<times> bytes" where
  "hkdf3 chaining_key ikm =
     (let temp_key = hmac_blake2s chaining_key ikm;
          out1 = hmac_blake2s temp_key [1];
          out2 = hmac_blake2s temp_key (out1 @ [2]);
          out3 = hmac_blake2s temp_key (out2 @ [3])
      in (out1, out2, out3))"

text \<open>The loop of \<^verbatim>\<open>hkdf\<close>, with \<open>n\<close> bytes of the output still to be written; the counter is one byte.\<close>

function hkdf_loop :: "bytes \<Rightarrow> bytes \<Rightarrow> bytes \<Rightarrow> byte \<Rightarrow> nat \<Rightarrow> bytes" where
  "hkdf_loop prk info t counter n =
     (if n = 0 then []
      else let block = hmac_blake2s prk (t @ info @ [counter])
           in take (min n kHashLen) block @ hkdf_loop prk info block (counter + 1) (n - min n kHashLen))"
  by pat_completeness auto
termination
  by (relation "measure (\<lambda>(prk, info, t, counter, n). n)") auto

declare hkdf_loop.simps [simp del]

definition hkdf :: "bytes \<Rightarrow> bytes \<Rightarrow> string \<Rightarrow> nat \<Rightarrow> bytes" where
  "hkdf ikm salt info n = hkdf_loop (hmac_blake2s salt ikm) (bytes_of_string info) [] 1 n"

definition kInfoPsk :: string where "kInfoPsk = ''uconnect:v1:psk''"
definition kInfoProbe :: string where "kInfoProbe = ''uconnect:v1:probe''"
definition kInfoTopic :: string where "kInfoTopic = ''uconnect:v1:topic''"
definition kInfoSas :: string where "kInfoSas = ''uconnect:v1:sas''"

record TopicKeys =
  tk_psk :: bytes
  tk_probe :: bytes

definition TopicKeys_derive :: "bytes \<Rightarrow> TopicKeys" where
  "TopicKeys_derive k = \<lparr>tk_psk = hkdf k [] kInfoPsk kKeyLen, tk_probe = hkdf k [] kInfoProbe kKeyLen\<rparr>"

definition derive_topic_id :: "bytes \<Rightarrow> bytes" where
  "derive_topic_id k = hkdf k [] kInfoTopic 16"

definition kWords :: "string list" where
  "kWords = [
    ''amber'',  ''anchor'', ''banjo'',  ''beacon'', ''cactus'', ''canyon'', ''cobalt'', ''copper'',
    ''dagger'', ''delta'',  ''ember'',  ''engine'', ''falcon'', ''fossil'', ''gadget'', ''granite'',
    ''harbor'', ''helium'', ''indigo'', ''ivory'',  ''jacket'', ''jungle'', ''kernel'', ''kiwi'',
    ''lagoon'', ''lumber'', ''magnet'', ''marble'', ''nectar'', ''nickel'', ''oak'',    ''onyx'',
    ''pelican'',''pepper'', ''quartz'', ''quiver'', ''rabbit'', ''ribbon'', ''saddle'', ''sierra'',
    ''tundra'', ''turbo'',  ''umber'',  ''unity'',  ''valley'', ''velvet'', ''walnut'', ''willow'',
    ''xenon'',  ''yellow'', ''yonder'', ''zebra'',  ''zenith'', ''acorn'',  ''bronze'', ''cedar'',
    ''dune'',   ''echo'',   ''fern'',   ''glacier'',''hazel'',  ''iris'',   ''jasper'', ''koala'']"

text \<open>The loop of \<^verbatim>\<open>sas_string\<close> over the indices 3 down to 0, and the 24 bits it spells.\<close>

definition sas_step :: "u32 \<Rightarrow> nat \<Rightarrow> string \<Rightarrow> string" where
  "sas_step v i out = out @ (if out \<noteq> [] then ''-'' else []) @ kWords ! unat (drop_bit (i * 6) v AND 0x3F)"

definition sas_bits :: "bytes \<Rightarrow> u32" where
  "sas_bits bits = push_bit 16 (ucast (bits ! 0)) OR push_bit 8 (ucast (bits ! 1)) OR ucast (bits ! 2)"

definition sas_words :: "u32 \<Rightarrow> string" where
  "sas_words v = fold (sas_step v) [3, 2, 1, 0] []"

definition sas_string :: "bytes \<Rightarrow> string" where
  "sas_string handshake_hash = sas_words (sas_bits (hkdf handshake_hash [] kInfoSas 3))"

section \<open>HMAC and HKDF\<close>

text \<open>RFC 2104, over the hash of a whole string.\<close>

definition hmac_key_block :: "bytes \<Rightarrow> bytes" where
  "hmac_key_block key = (if length key > 64 then Blake2s_hash key @ replicate 32 0
     else key @ replicate (64 - length key) 0)"

lemma length_hmac_key_block [simp]: "length (hmac_key_block key) = 64"
  by (simp add: hmac_key_block_def)

lemma Blake2s_hash_pieces:
  "Blake2s_finish (Blake2s_update b (Blake2s_update a (Blake2s_new [] kHashLen))) = Blake2s_hash (a @ b)"
  by (simp add: Blake2s_hash_def finish_update_append b_wf_new del: crypto_consts)
    (simp add: finish_update_append b_wf_new)

lemma hmac_blake2s_rfc:
  "hmac_blake2s key msg =
     Blake2s_hash (map (\<lambda>b. b XOR 0x5C) (hmac_key_block key)
       @ Blake2s_hash (map (\<lambda>b. b XOR 0x36) (hmac_key_block key) @ msg))"
  unfolding hmac_blake2s_def Let_def Blake2s_hash_pieces hmac_key_block_def by simp

lemma length_hmac [simp]: "length (hmac_blake2s key msg) = 32"
  by (simp add: hmac_blake2s_rfc)

lemma length_hkdf_loop [simp]: "length (hkdf_loop prk info t c n) = n"
  by (induction prk info t c n rule: hkdf_loop.induct) (subst hkdf_loop.simps, auto simp: Let_def)

lemma length_hkdf [simp]: "length (hkdf ikm salt info n) = n"
  by (simp add: hkdf_def)

lemma hkdf_loop_prefix: "m \<le> n \<Longrightarrow> take m (hkdf_loop prk info t c n) = hkdf_loop prk info t c m"
proof (induction prk info t c n arbitrary: m rule: hkdf_loop.induct)
  case (1 prk info t c n)
  let ?b = "hmac_blake2s prk (t @ info @ [c])"
  show ?case
  proof (cases "m = 0")
    case False
    then have n: "n \<noteq> 0" using 1(2) by simp
    have "m - 32 \<le> n - min n 32" using 1(2) by auto
    from 1(1) [OF n refl, unfolded kHashLen_def, OF this] show ?thesis
      using False n 1(2)
      by (subst hkdf_loop.simps, subst (2) hkdf_loop.simps)
        (cases "m \<le> 32"; simp add: Let_def min_def hkdf_loop.simps [of _ _ _ _ 0])
  qed (simp add: hkdf_loop.simps)
qed

text \<open>A shorter output is a prefix of a longer one.\<close>

lemma hkdf_prefix: "m \<le> n \<Longrightarrow> take m (hkdf ikm salt info n) = hkdf ikm salt info m"
  by (simp add: hkdf_def hkdf_loop_prefix)

lemma hkdf2_lengths: "hkdf2 ck ikm = (a, b) \<Longrightarrow> length a = 32 \<and> length b = 32"
  by (auto simp: hkdf2_def Let_def)

lemma hkdf3_lengths: "hkdf3 ck ikm = (a, b, c) \<Longrightarrow> length a = 32 \<and> length b = 32 \<and> length c = 32"
  by (auto simp: hkdf3_def Let_def)

section \<open>The short authentication string\<close>

lemma length_kWords [simp]: "length kWords = 64"
  by (simp add: kWords_def)

lemma distinct_prefixes: "distinct (map (take 3) kWords)"
  by code_simp

lemma kWords_plain: "w \<in> set kWords \<Longrightarrow> CHR ''-'' \<notin> set w \<and> w \<noteq> []"
proof -
  have "list_all (\<lambda>w. CHR ''-'' \<notin> set w \<and> w \<noteq> []) kWords" by code_simp
  then show "w \<in> set kWords \<Longrightarrow> CHR ''-'' \<notin> set w \<and> w \<noteq> []" by (auto simp: list_all_iff)
qed

lemma distinct_kWords: "distinct kWords"
  using distinct_prefixes by (simp add: distinct_map)

lemma kWords_nth_inj: "i < 64 \<Longrightarrow> j < 64 \<Longrightarrow> kWords ! i = kWords ! j \<longleftrightarrow> i = j"
  using distinct_kWords by (simp add: nth_eq_iff_index_eq)

lemma sep_inject:
  assumes "x \<notin> set a" "x \<notin> set b" "a @ x # c = b @ x # d"
  shows "a = b \<and> c = d"
  using assms by (simp add: append_eq_Cons_conv append_eq_append_conv2) (auto simp: Cons_eq_append_conv)

definition sas_index :: "u32 \<Rightarrow> nat \<Rightarrow> nat" where
  "sas_index v i = unat (drop_bit (i * 6) v AND 0x3F)"

lemma sas_index_less [simp]: "sas_index v i < 64"
proof -
  have "(x :: u32) AND 0x3F = take_bit 6 x" for x
    by (simp add: take_bit_eq_mask mask_numeral)
  then have "sas_index v i = take_bit 6 (unat (drop_bit (i * 6) v))"
    by (simp add: sas_index_def unsigned_take_bit_eq)
  then show ?thesis using take_bit_nat_less_exp [of 6] by simp
qed

lemma sas_step_index:
  "sas_step v i out = out @ (if out \<noteq> [] then ''-'' else []) @ kWords ! sas_index v i"
  by (simp add: sas_step_def sas_index_def)

lemma sas_words_join:
  "sas_words v = kWords ! sas_index v 3 @ ''-'' @ kWords ! sas_index v 2 @ ''-''
     @ kWords ! sas_index v 1 @ ''-'' @ kWords ! sas_index v 0"
proof -
  have "kWords ! sas_index v i \<noteq> []" for i using kWords_plain [of "kWords ! sas_index v i"] by simp
  then show ?thesis by (simp add: sas_words_def sas_step_index)
qed

lemma sas_index_bits: "j < 6 \<Longrightarrow> bit (sas_index v i) j = bit v (i * 6 + j)"
proof -
  assume j: "j < 6"
  have "(x :: u32) AND 0x3F = take_bit 6 x" for x
    by (simp add: take_bit_eq_mask mask_numeral)
  then show ?thesis using j 
    by (simp add: sas_index_def unsigned_take_bit_eq bit_take_bit_iff bit_unsigned_iff bit_drop_bit_eq)
qed

lemma sas_words_inj:
  assumes lt: "v < 2 ^ 24" "w < 2 ^ 24" and eq: "sas_words v = sas_words w"
  shows "v = w"
proof -
  have p: "CHR ''-'' \<notin> set (kWords ! sas_index x i)" for x i
    using kWords_plain [of "kWords ! sas_index x i"] by simp
  have ix: "sas_index v i = sas_index w i" if "i < 4" for i
  proof -
    let ?W = "\<lambda>x i. kWords ! sas_index x i"
    note q = eq [unfolded sas_words_join append_Cons append_Nil]
    note s1 = sep_inject [OF p p q]
    note s2 = sep_inject [OF p p s1 [THEN conjunct2]]
    note s3 = sep_inject [OF p p s2 [THEN conjunct2]]
    have "?W v 3 = ?W w 3" "?W v 2 = ?W w 2" "?W v 1 = ?W w 1" "?W v 0 = ?W w 0"
      using s1 s2 s3 by auto
    moreover have "i = 0 \<or> i = 1 \<or> i = 2 \<or> i = 3" using that by linarith
    ultimately show ?thesis using kWords_nth_inj sas_index_less by metis
  qed
  show ?thesis
  proof (rule bit_word_eqI)
    fix n assume "n < LENGTH(32)"
    show "bit v n = bit w n"
    proof (cases "n < 24")
      case True
      then have "n div 6 < 4" "n mod 6 < 6" by auto
      then show ?thesis
        using ix [of "n div 6"] sas_index_bits [of "n mod 6" v "n div 6"] sas_index_bits [of "n mod 6" w "n div 6"]
        by simp
    next
      case False
      have "\<not> bit (x :: u32) n" if "x < 2 ^ 24" for x
      proof -
        have "unat x < 2 ^ 24" using that by (simp add: word_less_nat_alt)
        then have "take_bit 24 (unat x) = unat x" by (simp add: take_bit_nat_eq_self)
        then have "\<not> bit (unat x) n" using False by (metis bit_take_bit_iff)
        then show ?thesis using \<open>n < LENGTH(32)\<close> by (simp add: bit_unsigned_iff)
      qed
      with lt show ?thesis by blast
    qed
  qed
qed

lemma sas_bits_less: "sas_bits bits < 2 ^ 24"
proof -
  have "bit (sas_bits bits) n \<Longrightarrow> n < 24" for n
    using bit_imp_le_length [of "bits ! 0" "n - 16"] bit_imp_le_length [of "bits ! 1" "n - 8"]
      bit_imp_le_length [of "bits ! 2" n]
    by (auto simp: sas_bits_def bit_simps)
  then have "take_bit 24 (sas_bits bits) = sas_bits bits" by (intro bit_eqI) (auto simp: bit_take_bit_iff)
  then have "unat (sas_bits bits) = take_bit 24 (unat (sas_bits bits))" by (metis unsigned_take_bit_eq)
  then have "unat (sas_bits bits) < 2 ^ 24" by (metis take_bit_nat_less_exp)
  then show ?thesis by (simp add: word_less_nat_alt)
qed

lemma sas_bits_inj:
  assumes "length a = 3" "length b = 3" "sas_bits a = sas_bits b"
  shows "a = b"
proof (rule nth_equalityI)
  fix i assume "i < length a"
  then have i: "i < 3" using assms by simp
  show "a ! i = b ! i"
  proof (rule bit_word_eqI)
    fix n assume n: "n < LENGTH(8)"
    have "bit (sas_bits x) ((2 - i) * 8 + n) = bit (x ! i) n" for x
    proof -
      have nb: "\<not> bit (y :: byte) k" if "k \<ge> 8" for y k using bit_imp_le_length [of y k] that by auto
      consider "i = 0" | "i = 1" | "i = 2" using i by linarith
      then show ?thesis using n
        by cases (auto simp: sas_bits_def bit_simps nb dest: bit_imp_le_length)
    qed
    then show "bit (a ! i) n = bit (b ! i) n" using assms(3) by metis
  qed
qed (use assms in simp)

end
