(* ===== verification/Noise.thy ===== *)
theory Noise
  imports Aead Kdf
begin

text \<open>
  The Noise NN and NNpsk0 handshakes, \<^verbatim>\<open>src/crypto/noise.*\<close>: \<^verbatim>\<open>CipherState\<close>, \<^verbatim>\<open>SymmetricState\<close> and
  \<^verbatim>\<open>HandshakeState\<close>. An output span is represented by its size where the code looks at it, and by the
  bytes the call leaves in it. The curve and the secret \<^verbatim>\<open>KeyPair::generate\<close> draws are arguments.
  The lemmas show that a ciphertext is undone by the peer's state and leaves both ends in the same
  state, that a failed decryption changes nothing, and that the two ends of a handshake arrive at
  each other's keys, the same handshake hash and the same exported secret.
\<close>

section \<open>CipherState\<close>

record CipherState =
  cs_key :: bytes
  cs_nonce :: u64
  cs_has_key :: bool

definition CipherState_empty :: CipherState where
  "CipherState_empty = \<lparr>cs_key = replicate kKeyLen 0, cs_nonce = 0, cs_has_key = False\<rparr>"

definition CipherState_of :: "bytes \<Rightarrow> CipherState" where
  "CipherState_of k = \<lparr>cs_key = k, cs_nonce = 0, cs_has_key = True\<rparr>"

definition encrypt_with_ad :: "bytes \<Rightarrow> bytes \<Rightarrow> CipherState \<Rightarrow> bytes \<times> CipherState" where
  "encrypt_with_ad ad plaintext cs =
     (if \<not> cs_has_key cs then (plaintext, cs)
      else (aead_encrypt (cs_key cs) (cs_nonce cs) ad plaintext (replicate (length plaintext + kTagLen) 0),
            cs\<lparr>cs_nonce := cs_nonce cs + 1\<rparr>))"

definition decrypt_with_ad :: "bytes \<Rightarrow> bytes \<Rightarrow> nat \<Rightarrow> CipherState \<Rightarrow> bytes option \<times> CipherState" where
  "decrypt_with_ad ad ciphertext out_size cs =
     (if \<not> cs_has_key cs then
        (if out_size < length ciphertext then (None, cs) else (Some ciphertext, cs))
      else if length ciphertext < kTagLen then (None, cs)
      else case aead_decrypt (cs_key cs) (cs_nonce cs) ad ciphertext (replicate out_size 0) of
          (False, _) \<Rightarrow> (None, cs)
        | (True, out) \<Rightarrow> (Some (take (length ciphertext - kTagLen) out), cs\<lparr>cs_nonce := cs_nonce cs + 1\<rparr>))"

definition encrypt_at :: "u64 \<Rightarrow> bytes \<Rightarrow> bytes \<Rightarrow> CipherState \<Rightarrow> bytes" where
  "encrypt_at n ad plaintext cs =
     aead_encrypt (cs_key cs) n ad plaintext (replicate (length plaintext + kTagLen) 0)"

definition decrypt_at :: "u64 \<Rightarrow> bytes \<Rightarrow> bytes \<Rightarrow> nat \<Rightarrow> CipherState \<Rightarrow> bytes option" where
  "decrypt_at n ad ciphertext out_size cs =
     (if length ciphertext < kTagLen then None
      else case aead_decrypt (cs_key cs) n ad ciphertext (replicate out_size 0) of
          (False, _) \<Rightarrow> None
        | (True, out) \<Rightarrow> Some (take (length ciphertext - kTagLen) out))"

definition rekey :: "CipherState \<Rightarrow> CipherState" where
  "rekey cs =
     (let out = aead_encrypt (cs_key cs) (- 1) [] (replicate kKeyLen 0) (replicate (kKeyLen + kTagLen) 0)
      in cs\<lparr>cs_key := take kKeyLen out\<rparr>)"

definition cs_clear :: "CipherState \<Rightarrow> CipherState" where
  "cs_clear cs = cs\<lparr>cs_key := replicate (length (cs_key cs)) 0, cs_has_key := False, cs_nonce := 0\<rparr>"

section \<open>SymmetricState\<close>

record SymmetricState =
  ss_ck :: bytes
  ss_h :: bytes
  ss_cipher :: CipherState

definition SymmetricState_new :: "string \<Rightarrow> SymmetricState" where
  "SymmetricState_new protocol =
     (let p = bytes_of_string protocol;
          h = (if length p \<le> kHashLen then p @ replicate (kHashLen - length p) 0 else Blake2s_hash p)
      in \<lparr>ss_ck = h, ss_h = h, ss_cipher = CipherState_empty\<rparr>)"

definition mix_hash :: "bytes \<Rightarrow> SymmetricState \<Rightarrow> SymmetricState" where
  "mix_hash data s = s\<lparr>ss_h :=
     Blake2s_finish (Blake2s_update data (Blake2s_update (ss_h s) (Blake2s_new [] kHashLen)))\<rparr>"

definition mix_key :: "bytes \<Rightarrow> SymmetricState \<Rightarrow> SymmetricState" where
  "mix_key ikm s = (case hkdf2 (ss_ck s) ikm of (new_ck, temp_k) \<Rightarrow>
     s\<lparr>ss_ck := new_ck, ss_cipher := CipherState_of (take kKeyLen temp_k)\<rparr>)"

definition mix_key_and_hash :: "bytes \<Rightarrow> SymmetricState \<Rightarrow> SymmetricState" where
  "mix_key_and_hash ikm s = (case hkdf3 (ss_ck s) ikm of (new_ck, temp_h, temp_k) \<Rightarrow>
     (let s = s\<lparr>ss_ck := new_ck\<rparr>; s = mix_hash temp_h s
      in s\<lparr>ss_cipher := CipherState_of (take kKeyLen temp_k)\<rparr>))"

definition encrypt_and_hash :: "bytes \<Rightarrow> SymmetricState \<Rightarrow> bytes \<times> SymmetricState" where
  "encrypt_and_hash pt s = (case encrypt_with_ad (ss_h s) pt (ss_cipher s) of (out, cs) \<Rightarrow>
     (out, mix_hash out (s\<lparr>ss_cipher := cs\<rparr>)))"

definition decrypt_and_hash :: "bytes \<Rightarrow> nat \<Rightarrow> SymmetricState \<Rightarrow> bytes option \<times> SymmetricState" where
  "decrypt_and_hash ct out_size s = (case decrypt_with_ad (ss_h s) ct out_size (ss_cipher s) of
       (None, cs) \<Rightarrow> (None, s\<lparr>ss_cipher := cs\<rparr>)
     | (Some pt, cs) \<Rightarrow> (Some pt, mix_hash ct (s\<lparr>ss_cipher := cs\<rparr>)))"

definition export_secret :: "string \<Rightarrow> SymmetricState \<Rightarrow> bytes" where
  "export_secret label s = hkdf (ss_ck s) [] label kHashLen"

definition ss_split :: "SymmetricState \<Rightarrow> CipherState \<times> CipherState" where
  "ss_split s = (case hkdf2 (ss_ck s) [] of (t1, t2) \<Rightarrow>
     (CipherState_of (take kKeyLen t1), CipherState_of (take kKeyLen t2)))"

section \<open>HandshakeState\<close>

datatype Pattern = NN | NNpsk0

definition kNameNN :: string where "kNameNN = ''Noise_NN_25519_ChaChaPoly_BLAKE2s''"
definition kNameNNpsk0 :: string where "kNameNNpsk0 = ''Noise_NNpsk0_25519_ChaChaPoly_BLAKE2s''"

definition protocol_name :: "Pattern \<Rightarrow> string" where
  "protocol_name p = (if p = NNpsk0 then kNameNNpsk0 else kNameNN)"

record Split =
  sp_send :: CipherState
  sp_recv :: CipherState
  sp_handshake_hash :: bytes
  sp_exported :: bytes

record HandshakeState =
  hs_pattern :: Pattern
  hs_initiator :: bool
  hs_finished :: bool
  hs_msg_index :: nat
  hs_has_psk :: bool
  hs_psk :: bytes
  hs_e :: KeyPair
  hs_re :: bytes
  hs_have_re :: bool
  hs_sym :: SymmetricState

definition HandshakeState_new :: "Pattern \<Rightarrow> bool \<Rightarrow> bytes \<Rightarrow> bytes option \<Rightarrow> HandshakeState" where
  "HandshakeState_new p is_initiator prologue psk =
     \<lparr>hs_pattern = p, hs_initiator = is_initiator, hs_finished = False, hs_msg_index = 0,
      hs_has_psk = (psk \<noteq> None), hs_psk = (case psk of Some k \<Rightarrow> k | None \<Rightarrow> replicate kKeyLen 0),
      hs_e = KeyPair_default, hs_re = replicate kDhLen 0, hs_have_re = False,
      hs_sym = mix_hash prologue (SymmetricState_new (protocol_name p))\<rparr>"

definition mix_ephemeral :: "bytes \<Rightarrow> HandshakeState \<Rightarrow> HandshakeState" where
  "mix_ephemeral pub hs =
     (let hs = hs\<lparr>hs_sym := mix_hash pub (hs_sym hs)\<rparr>
      in if hs_pattern hs = NNpsk0 then hs\<lparr>hs_sym := mix_key pub (hs_sym hs)\<rparr> else hs)"

definition message_overhead :: "Pattern \<Rightarrow> nat \<Rightarrow> nat" where
  "message_overhead p message_index =
     (if p = NNpsk0 then kDhLen + kTagLen else if message_index = 0 then kDhLen else kDhLen + kTagLen)"

definition mix_psk :: "HandshakeState \<Rightarrow> HandshakeState" where
  "mix_psk hs = (if hs_pattern hs = NNpsk0
     then hs\<lparr>hs_sym := mix_key_and_hash (hs_psk hs) (hs_sym hs)\<rparr> else hs)"

text \<open>The token \<^verbatim>\<open>ee\<close>; the flag is false when the code gives up.\<close>

definition mix_dh :: "(bytes \<Rightarrow> bytes \<Rightarrow> bytes) \<Rightarrow> HandshakeState \<Rightarrow> bool \<times> HandshakeState" where
  "mix_dh curve hs = (case x25519 curve (kp_secret (hs_e hs)) (hs_re hs) of
     (ok, shared) \<Rightarrow> if \<not> ok then (False, hs) else (True, hs\<lparr>hs_sym := mix_key shared (hs_sym hs)\<rparr>))"

definition next_message :: "SymmetricState \<Rightarrow> HandshakeState \<Rightarrow> HandshakeState" where
  "next_message sy hs =
     (let hs = hs\<lparr>hs_sym := sy, hs_msg_index := hs_msg_index hs + 1\<rparr>
      in if hs_msg_index hs = 2 then hs\<lparr>hs_finished := True\<rparr> else hs)"

definition write_tokens ::
  "(bytes \<Rightarrow> bytes \<Rightarrow> bytes) \<Rightarrow> (bytes \<Rightarrow> bytes) \<Rightarrow> bytes \<Rightarrow> HandshakeState \<Rightarrow> bool \<times> HandshakeState" where
  "write_tokens curve base sk hs =
     (if hs_msg_index hs = 0 then
        (let hs = mix_psk hs;
             hs = hs\<lparr>hs_e := KeyPair_from_secret base sk\<rparr>
         in (True, mix_ephemeral (kp_pub (hs_e hs)) hs))
      else
        (let hs = hs\<lparr>hs_e := KeyPair_from_secret base sk\<rparr>;
             hs = mix_ephemeral (kp_pub (hs_e hs)) hs
         in if \<not> hs_have_re hs then (False, hs) else mix_dh curve hs))"

definition write_message ::
  "(bytes \<Rightarrow> bytes \<Rightarrow> bytes) \<Rightarrow> (bytes \<Rightarrow> bytes) \<Rightarrow> bytes \<Rightarrow> bytes \<Rightarrow> nat \<Rightarrow> HandshakeState \<Rightarrow>
     bytes option \<times> HandshakeState" where
  "write_message curve base sk payload out_size hs =
     (if hs_finished hs then (None, hs)
      else if ((hs_msg_index hs = 0) = hs_initiator hs) = False then (None, hs)
      else if out_size < length payload + message_overhead (hs_pattern hs) (hs_msg_index hs) then (None, hs)
      else case write_tokens curve base sk hs of
          (False, hs) \<Rightarrow> (None, hs)
        | (True, hs) \<Rightarrow>
            (case encrypt_and_hash payload (hs_sym hs) of (ct, sy) \<Rightarrow>
               (Some (kp_pub (hs_e hs) @ ct), next_message sy hs)))"

definition read_tokens ::
  "(bytes \<Rightarrow> bytes \<Rightarrow> bytes) \<Rightarrow> bytes \<Rightarrow> HandshakeState \<Rightarrow> bool \<times> HandshakeState" where
  "read_tokens curve message hs =
     (if hs_msg_index hs = 0 then
        (let hs = mix_psk hs;
             hs = hs\<lparr>hs_re := take kDhLen message, hs_have_re := True\<rparr>
         in (True, mix_ephemeral (hs_re hs) hs))
      else
        (let hs = hs\<lparr>hs_re := take kDhLen message, hs_have_re := True\<rparr>;
             hs = mix_ephemeral (hs_re hs) hs
         in mix_dh curve hs))"

definition read_message ::
  "(bytes \<Rightarrow> bytes \<Rightarrow> bytes) \<Rightarrow> bytes \<Rightarrow> nat \<Rightarrow> HandshakeState \<Rightarrow> bytes option \<times> HandshakeState" where
  "read_message curve message out_size hs =
     (if hs_finished hs then (None, hs)
      else if ((hs_msg_index hs = 0) \<noteq> hs_initiator hs) = False then (None, hs)
      else if length message < message_overhead (hs_pattern hs) (hs_msg_index hs) then (None, hs)
      else case read_tokens curve message hs of
          (False, hs) \<Rightarrow> (None, hs)
        | (True, hs) \<Rightarrow>
            (case decrypt_and_hash (drop kDhLen message) out_size (hs_sym hs) of
               (None, sy) \<Rightarrow> (None, hs\<lparr>hs_sym := sy\<rparr>)
             | (Some payload, sy) \<Rightarrow> (Some payload, next_message sy hs)))"

definition hs_split :: "HandshakeState \<Rightarrow> Split \<times> HandshakeState" where
  "hs_split hs = (case ss_split (hs_sym hs) of (c1, c2) \<Rightarrow>
     (\<lparr>sp_send = (if hs_initiator hs then c1 else c2), sp_recv = (if hs_initiator hs then c2 else c1),
       sp_handshake_hash = ss_h (hs_sym hs),
       sp_exported = export_secret ''uconnect:v2:export'' (hs_sym hs)\<rparr>,
      hs\<lparr>hs_psk := replicate kKeyLen 0\<rparr>))"

section \<open>Ciphers\<close>

lemma encrypt_at_seal [simp]: "encrypt_at n ad pt cs = aead_seal (cs_key cs) n ad pt"
  by (simp add: encrypt_at_def aead_encrypt_seal)

lemma encrypt_with_ad_seal:
  "encrypt_with_ad ad pt cs =
     (if cs_has_key cs then (aead_seal (cs_key cs) (cs_nonce cs) ad pt, cs\<lparr>cs_nonce := cs_nonce cs + 1\<rparr>)
      else (pt, cs))"
  by (simp add: encrypt_with_ad_def aead_encrypt_seal)

lemma aead_decrypt_fit:
  "(case aead_decrypt key n ad ct (replicate m 0) of (False, _) \<Rightarrow> None | (True, out) \<Rightarrow> Some (take (length ct - 16) out))
   = (if length ct \<le> m + 16 then aead_open key n ad ct else None)"
  by (auto simp: aead_decrypt_def aead_decrypt_n12_def aead_open_def Let_def)

lemma decrypt_at_open:
  "decrypt_at n ad ct out_size cs = (if length ct \<le> out_size + 16 then aead_open (cs_key cs) n ad ct else None)"
  unfolding decrypt_at_def kTagLen_def aead_decrypt_fit by (auto simp: aead_open_def)

lemma decrypt_with_ad_open:
  "decrypt_with_ad ad ct out_size cs =
     (if cs_has_key cs then
        (case (if length ct \<le> out_size + 16 then aead_open (cs_key cs) (cs_nonce cs) ad ct else None) of
           None \<Rightarrow> (None, cs) | Some pt \<Rightarrow> (Some pt, cs\<lparr>cs_nonce := cs_nonce cs + 1\<rparr>))
      else if length ct \<le> out_size then (Some ct, cs) else (None, cs))"
  by (auto simp: decrypt_with_ad_def aead_decrypt_def aead_decrypt_n12_def aead_open_def Let_def)

lemma decrypt_at_encrypt_at:
  "length pt \<le> out_size \<Longrightarrow> cs_key cs' = cs_key cs \<Longrightarrow> decrypt_at n ad (encrypt_at n ad pt cs) out_size cs' = Some pt"
  by (simp add: decrypt_at_open)

lemma decrypt_failed_keeps: "decrypt_with_ad ad ct m cs = (None, cs') \<Longrightarrow> cs' = cs"
  by (auto simp: decrypt_with_ad_open split: if_splits option.splits)

lemma rekey_key: "cs_key (rekey cs) = take 32 (aead_seal (cs_key cs) (- 1) [] (replicate 32 0))"
  by (simp add: rekey_def aead_encrypt_seal)

lemma rekey_simps [simp]:
  "cs_nonce (rekey cs) = cs_nonce cs" "cs_has_key (rekey cs) = cs_has_key cs" "length (cs_key (rekey cs)) = 32"
  by (simp_all add: rekey_def aead_encrypt_seal)

lemma decrypt_and_hash_encrypt:
  assumes "encrypt_and_hash pt s = (ct, s')" "length pt \<le> out_size"
  shows "decrypt_and_hash ct out_size s = (Some pt, s')"
  using assms by (cases "cs_has_key (ss_cipher s)")
    (auto simp: encrypt_and_hash_def decrypt_and_hash_def encrypt_with_ad_seal decrypt_with_ad_open)

lemma length_encrypt_and_hash:
  "length (fst (encrypt_and_hash pt s)) = length pt + (if cs_has_key (ss_cipher s) then 16 else 0)"
  by (simp add: encrypt_and_hash_def encrypt_with_ad_seal)

lemma decrypt_and_hash_failed: "decrypt_and_hash ct m s = (None, s') \<Longrightarrow> s' = s"
  by (auto simp: decrypt_and_hash_def dest: decrypt_failed_keeps split: prod.splits option.splits)

section \<open>The handshake\<close>

lemma next_message_simps [simp]:
  "hs_sym (next_message sy hs) = sy" "hs_msg_index (next_message sy hs) = hs_msg_index hs + 1"
  "hs_pattern (next_message sy hs) = hs_pattern hs" "hs_initiator (next_message sy hs) = hs_initiator hs"
  "hs_e (next_message sy hs) = hs_e hs" "hs_re (next_message sy hs) = hs_re hs"
  "hs_have_re (next_message sy hs) = hs_have_re hs"
  "hs_finished (next_message sy hs) \<longleftrightarrow> hs_finished hs \<or> hs_msg_index hs = 1"
  by (auto simp: next_message_def Let_def)

lemma mix_keyed [simp]:
  "cs_has_key (ss_cipher (mix_key k s))" "cs_has_key (ss_cipher (mix_key_and_hash k s))"
  "ss_cipher (mix_hash d s) = ss_cipher s"
  by (simp_all add: mix_key_def mix_key_and_hash_def mix_hash_def CipherState_of_def Let_def split: prod.splits)

lemma mix_psk_fields [simp]:
  "hs_pattern (mix_psk hs) = hs_pattern hs" "hs_initiator (mix_psk hs) = hs_initiator hs"
  "hs_finished (mix_psk hs) = hs_finished hs" "hs_msg_index (mix_psk hs) = hs_msg_index hs"
  "hs_e (mix_psk hs) = hs_e hs" "hs_re (mix_psk hs) = hs_re hs" "hs_have_re (mix_psk hs) = hs_have_re hs"
  by (simp_all add: mix_psk_def)

lemma mix_ephemeral_fields [simp]:
  "hs_pattern (mix_ephemeral k hs) = hs_pattern hs" "hs_initiator (mix_ephemeral k hs) = hs_initiator hs"
  "hs_finished (mix_ephemeral k hs) = hs_finished hs" "hs_msg_index (mix_ephemeral k hs) = hs_msg_index hs"
  "hs_e (mix_ephemeral k hs) = hs_e hs" "hs_re (mix_ephemeral k hs) = hs_re hs"
  "hs_have_re (mix_ephemeral k hs) = hs_have_re hs"
  by (simp_all add: mix_ephemeral_def Let_def)

text \<open>
  The writer \<open>w\<close> and the reader \<open>r\<close> stand at the same message of the same handshake, and the shared
  point is the same from both sides.
\<close>

definition in_step :: "(bytes \<Rightarrow> bytes \<Rightarrow> bytes) \<Rightarrow> (bytes \<Rightarrow> bytes) \<Rightarrow> bytes \<Rightarrow> HandshakeState \<Rightarrow> HandshakeState \<Rightarrow> bool" where
  "in_step curve base sk w r \<longleftrightarrow>
     hs_sym w = hs_sym r \<and> hs_pattern w = hs_pattern r \<and> hs_msg_index w = hs_msg_index r
     \<and> (hs_msg_index r = 0 \<longrightarrow> hs_psk w = hs_psk r)
     \<and> hs_initiator r = (\<not> hs_initiator w) \<and> \<not> hs_finished r \<and> length (base sk) = 32
     \<and> (hs_msg_index r \<noteq> 0 \<longrightarrow> curve sk (hs_re w) = curve (kp_secret (hs_e r)) (base sk))"

lemma tokens_in_step:
  assumes "in_step curve base sk w r" "write_tokens curve base sk w = (True, w')"
  shows "\<exists>r'. read_tokens curve (base sk @ ct) r = (True, r') \<and> hs_sym r' = hs_sym w' \<and> hs_pattern w' = hs_pattern w
    \<and> hs_msg_index w' = hs_msg_index w \<and> hs_finished w' = hs_finished w \<and> hs_initiator w' = hs_initiator w
    \<and> hs_e w' = KeyPair_from_secret base sk \<and> hs_re w' = hs_re w \<and> hs_have_re w' = hs_have_re w
    \<and> hs_pattern r' = hs_pattern r \<and> hs_msg_index r' = hs_msg_index r \<and> \<not> hs_finished r'
    \<and> hs_initiator r' = hs_initiator r \<and> hs_e r' = hs_e r \<and> hs_re r' = base sk \<and> hs_have_re r'
    \<and> (cs_has_key (ss_cipher (hs_sym w')) \<or> hs_pattern w = NN \<and> hs_msg_index w = 0)"
proof (cases "hs_msg_index w = 0")
  case True
  with assms show ?thesis
    by (cases "hs_pattern w")
      (auto simp: in_step_def write_tokens_def read_tokens_def mix_ephemeral_def mix_psk_def Let_def
        KeyPair_from_secret_def)
next
  case False
  with assms show ?thesis
    by (cases "hs_pattern w"; cases "x25519 curve sk (hs_re w)")
      (auto simp: in_step_def write_tokens_def read_tokens_def mix_ephemeral_def mix_dh_def Let_def
        KeyPair_from_secret_def x25519_def split: if_splits)
qed

lemma write_message_Some:
  assumes "write_message curve base sk payload n w = (Some msg, w')"
  obtains w1 ct sy where "write_tokens curve base sk w = (True, w1)" "\<not> hs_finished w"
    "(hs_msg_index w = 0) = hs_initiator w"
    "encrypt_and_hash payload (hs_sym w1) = (ct, sy)" "msg = kp_pub (hs_e w1) @ ct" "w' = next_message sy w1"
  using assms by (auto simp: write_message_def split: if_splits prod.splits bool.splits)

lemma read_written:
  assumes st: "in_step curve base sk w r" and w: "write_message curve base sk payload n w = (Some msg, w')"
    and m: "length payload \<le> m"
  shows "\<exists>r'. read_message curve msg m r = (Some payload, r') \<and> hs_sym r' = hs_sym w'
    \<and> hs_pattern w' = hs_pattern w \<and> hs_pattern r' = hs_pattern r
    \<and> hs_msg_index w' = hs_msg_index w + 1 \<and> hs_msg_index r' = hs_msg_index r + 1
    \<and> hs_initiator w' = hs_initiator w \<and> hs_initiator r' = hs_initiator r
    \<and> hs_finished w' = (hs_msg_index w = 1) \<and> hs_finished r' = (hs_msg_index r = 1)
    \<and> hs_e w' = KeyPair_from_secret base sk \<and> hs_re r' = base sk \<and> hs_have_re r' \<and> hs_e r' = hs_e r"
proof -
  obtain w1 ct sy where W: "write_tokens curve base sk w = (True, w1)" "\<not> hs_finished w"
    "(hs_msg_index w = 0) = hs_initiator w"
    "encrypt_and_hash payload (hs_sym w1) = (ct, sy)" "msg = kp_pub (hs_e w1) @ ct" "w' = next_message sy w1"
    using write_message_Some [OF w] .
  obtain r1 where R: "read_tokens curve (base sk @ ct) r = (True, r1)" "hs_sym r1 = hs_sym w1"
    "hs_pattern w1 = hs_pattern w" "hs_msg_index w1 = hs_msg_index w" "hs_finished w1 = hs_finished w"
    "hs_initiator w1 = hs_initiator w" "hs_e w1 = KeyPair_from_secret base sk"
    "hs_pattern r1 = hs_pattern r" "hs_msg_index r1 = hs_msg_index r" "\<not> hs_finished r1"
    "hs_initiator r1 = hs_initiator r" "hs_e r1 = hs_e r" "hs_re r1 = base sk" "hs_have_re r1"
    and key: "cs_has_key (ss_cipher (hs_sym w1)) \<or> hs_pattern w = NN \<and> hs_msg_index w = 0"
    using tokens_in_step [OF st W(1), of ct] by blast
  have msg: "msg = base sk @ ct" using W(5) R(7) by (simp add: KeyPair_from_secret_def)
  have "length ct = length payload + (if cs_has_key (ss_cipher (hs_sym w1)) then 16 else 0)"
    using length_encrypt_and_hash [of payload "hs_sym w1"] W(4) by simp
  then have ov: "message_overhead (hs_pattern r) (hs_msg_index r) \<le> length msg"
    using key st by (auto simp: msg message_overhead_def in_step_def)
  have "decrypt_and_hash ct m (hs_sym r1) = (Some payload, sy)"
    using decrypt_and_hash_encrypt [OF W(4) m] R(2) by simp
  moreover have "drop kDhLen msg = ct" using st by (simp add: msg in_step_def)
  ultimately have "read_message curve msg m r = (Some payload, next_message sy r1)"
    using st ov R(1) W(2,3) by (auto simp: read_message_def in_step_def msg [symmetric])
  then show ?thesis using W R by simp
qed

lemma write_succeeds:
  assumes "\<not> hs_finished w" "(hs_msg_index w = 0) = hs_initiator w"
    and "n \<ge> length payload + message_overhead (hs_pattern w) (hs_msg_index w)"
    and "hs_msg_index w \<noteq> 0 \<Longrightarrow> hs_have_re w \<and> fst (x25519 curve sk (hs_re w))"
  shows "\<exists>msg w'. write_message curve base sk payload n w = (Some msg, w')"
  using assms
  by (auto simp: write_message_def write_tokens_def mix_dh_def Let_def KeyPair_from_secret_def
      split: prod.splits)

lemma handshake_agreement:
  assumes dh: "curve a (base b) = curve b (base a)" "fst (x25519 curve b (base a))"
    and len: "length (base a) = 32" "length (base b) = 32"
    and size: "n1 \<ge> length pay1 + message_overhead p 0" "n2 \<ge> length pay2 + message_overhead p 1"
      "m1 \<ge> length pay1" "m2 \<ge> length pay2"
  shows "\<exists>msg1 msg2 i1 i2 r1 r2.
    write_message curve base a pay1 n1 (HandshakeState_new p True prologue psk) = (Some msg1, i1)
    \<and> read_message curve msg1 m1 (HandshakeState_new p False prologue psk) = (Some pay1, r1)
    \<and> write_message curve base b pay2 n2 r1 = (Some msg2, r2)
    \<and> read_message curve msg2 m2 i1 = (Some pay2, i2)
    \<and> hs_finished i2 \<and> hs_finished r2
    \<and> sp_send (fst (hs_split i2)) = sp_recv (fst (hs_split r2))
    \<and> sp_recv (fst (hs_split i2)) = sp_send (fst (hs_split r2))
    \<and> sp_handshake_hash (fst (hs_split i2)) = sp_handshake_hash (fst (hs_split r2))
    \<and> sp_exported (fst (hs_split i2)) = sp_exported (fst (hs_split r2))"
proof -
  let ?i = "HandshakeState_new p True prologue psk"
  let ?r = "HandshakeState_new p False prologue psk"
  have s0: "in_step curve base a ?i ?r"
    using len by (simp add: in_step_def HandshakeState_new_def)
  have "\<exists>msg w'. write_message curve base a pay1 n1 ?i = (Some msg, w')"
    by (rule write_succeeds) (use size in \<open>auto simp: HandshakeState_new_def\<close>)
  then obtain msg1 i1 where w1: "write_message curve base a pay1 n1 ?i = (Some msg1, i1)" by blast
  from read_written [OF s0 w1 size(3)] obtain r1 where
    r1: "read_message curve msg1 m1 ?r = (Some pay1, r1)" "hs_sym r1 = hs_sym i1" "hs_pattern i1 = p"
      "hs_pattern r1 = p" "hs_msg_index i1 = 1" "hs_msg_index r1 = 1" "hs_initiator i1" "\<not> hs_initiator r1"
      "\<not> hs_finished i1" "\<not> hs_finished r1" "hs_e i1 = KeyPair_from_secret base a" "hs_re r1 = base a" "hs_have_re r1"
    by (auto simp: HandshakeState_new_def)
  have s1: "in_step curve base b r1 i1"
    using r1 len dh by (simp add: in_step_def KeyPair_from_secret_def)
  have "\<exists>msg w'. write_message curve base b pay2 n2 r1 = (Some msg, w')"
    by (rule write_succeeds) (use size r1 dh in auto)
  then obtain msg2 r2 where w2: "write_message curve base b pay2 n2 r1 = (Some msg2, r2)" by blast
  from read_written [OF s1 w2 size(4)] obtain i2 where
    i2: "read_message curve msg2 m2 i1 = (Some pay2, i2)" "hs_sym i2 = hs_sym r2" "hs_initiator i2"
      "\<not> hs_initiator r2" "hs_finished i2" "hs_finished r2"
    using r1 by auto
  have "sp_send (fst (hs_split i2)) = sp_recv (fst (hs_split r2))
    \<and> sp_recv (fst (hs_split i2)) = sp_send (fst (hs_split r2))
    \<and> sp_handshake_hash (fst (hs_split i2)) = sp_handshake_hash (fst (hs_split r2))
    \<and> sp_exported (fst (hs_split i2)) = sp_exported (fst (hs_split r2))"
    using i2 by (simp add: hs_split_def split: prod.splits)
  with w1 r1(1) w2 i2 show ?thesis by blast
qed

end
