(* ===== verification/Session.thy ===== *)
theory Session
  imports Messages Noise
begin

text \<open>
  The UDP datagram channel, \<^verbatim>\<open>src/session/session.*\<close>: the anti-replay window, the counter-driven key
  ratchet, path migration and teardown. The window is shown to refine the set of counters it has
  accepted; the ratchet is shown to hold the key of the highest accepted counter, so that a counter
  the window would still accept always finds its key; and a datagram that does not verify changes
  nothing but the turn of the next long jump.
\<close>

section \<open>Data\<close>

datatype SessionState = Established | Closed

record SessionConfig =
  sc_keepalive :: duration
  sc_idle_timeout :: duration
  sc_rekey_shift :: byte
  sc_max_generations_ahead :: u64
  sc_max_generations_far :: u64
  sc_far_jump_interval :: duration

definition SessionConfig_default :: SessionConfig where
  "SessionConfig_default = \<lparr>sc_keepalive = 20000, sc_idle_timeout = 90000, sc_rekey_shift = 16,
     sc_max_generations_ahead = 2, sc_max_generations_far = 4096, sc_far_jump_interval = 250\<rparr>"

record Outgoing =
  out_to :: Endpoint
  out_data :: bytes

datatype CloseCause = Local | TimedOut | PeerNotice

datatype SessionEvent =
    EvData bytes
  | EvPathChanged Endpoint
  | EvClosed CloseCause u16

record ReplayWindow =
  rw_highest :: u64
  rw_bitmap :: u64
  rw_seen :: bool

definition kWidth :: u64 where "kWidth = 64"

definition ReplayWindow_new :: ReplayWindow where
  "ReplayWindow_new = \<lparr>rw_highest = 0, rw_bitmap = 0, rw_seen = False\<rparr>"

definition rw_accept :: "u64 \<Rightarrow> ReplayWindow \<Rightarrow> bool \<times> ReplayWindow" where
  "rw_accept counter rw =
     (if \<not> rw_seen rw then (True, \<lparr>rw_highest = counter, rw_bitmap = 1, rw_seen = True\<rparr>)
      else if counter > rw_highest rw then
        (let shift = counter - rw_highest rw;
             bitmap = (if shift \<ge> kWidth then 0 else push_bit (unat shift) (rw_bitmap rw))
         in (True, rw\<lparr>rw_bitmap := bitmap OR 1, rw_highest := counter\<rparr>))
      else
        (let behind = rw_highest rw - counter in
         if behind \<ge> kWidth then (False, rw)
         else let mask = push_bit (unat behind) 1 in
           if rw_bitmap rw AND mask \<noteq> 0 then (False, rw)
           else (True, rw\<lparr>rw_bitmap := rw_bitmap rw OR mask\<rparr>)))"

record Session =
  s_cfg :: SessionConfig
  s_peer :: DevId
  s_path :: Endpoint
  s_conn_id :: u32
  s_state :: SessionState
  s_send_cs :: CipherState
  s_recv_cs :: CipherState
  s_recv_cs_prev :: CipherState
  s_send_gen :: u64
  s_recv_gen :: u64
  s_replay :: ReplayWindow
  s_next_far_jump :: instant
  s_send_counter :: u64
  s_received :: u64
  s_last_recv :: instant
  s_next_keepalive :: instant
  s_out :: "Outgoing list"
  s_events :: "SessionEvent list"

definition Session_new ::
  "SessionConfig \<Rightarrow> DevId \<Rightarrow> Endpoint \<Rightarrow> bytes \<Rightarrow> bytes \<Rightarrow> u32 \<Rightarrow> instant \<Rightarrow> Session" where
  "Session_new cfg peer path send recv conn_id now = \<lparr>s_cfg = cfg, s_peer = peer, s_path = path,
     s_conn_id = conn_id, s_state = Established, s_send_cs = CipherState_of send,
     s_recv_cs = CipherState_of recv, s_recv_cs_prev = CipherState_empty, s_send_gen = 0, s_recv_gen = 0,
     s_replay = ReplayWindow_new, s_next_far_jump = 0, s_send_counter = 0, s_received = 0,
     s_last_recv = now, s_next_keepalive = now + sc_keepalive cfg, s_out = [], s_events = []\<rparr>"

definition set_path :: "Endpoint \<Rightarrow> instant \<Rightarrow> Session \<Rightarrow> Session" where
  "set_path path now s = s\<lparr>s_path := path, s_next_keepalive := now\<rparr>"

definition configure_rekey_shift :: "byte \<Rightarrow> Session \<Rightarrow> bool \<times> Session" where
  "configure_rekey_shift shift s =
     (if s_state s \<noteq> Established \<or> s_send_counter s \<noteq> 0 \<or> s_received s \<noteq> 0 \<or> shift < 7 \<or> shift > 63
      then (False, s)
      else (True, s\<lparr>s_cfg := (s_cfg s)\<lparr>sc_rekey_shift := shift\<rparr>\<rparr>))"

section \<open>Keys\<close>

definition generation :: "SessionConfig \<Rightarrow> u64 \<Rightarrow> u64" where
  "generation cfg counter = (if sc_rekey_shift cfg \<ge> 64 then 0 else drop_bit (unat (sc_rekey_shift cfg)) counter)"

lemma unat_Suc_less: "i < g \<Longrightarrow> unat (i + 1) = Suc (unat i)" for i :: "'a::len word"
proof -
  assume "i < g"
  then have "unat i < unat g" by (simp add: word_less_nat_alt)
  moreover have "unat g < 2 ^ LENGTH('a)" by (rule unsigned_less)
  ultimately have "unat i + 1 < 2 ^ LENGTH('a)" by linarith
  then show ?thesis by (simp add: unat_word_ariths)
qed

text \<open>\<^verbatim>\<open>for (i = from; i < g; ++i) cs.rekey()\<close>\<close>

function rekey_upto :: "u64 \<Rightarrow> u64 \<Rightarrow> CipherState \<Rightarrow> CipherState" where
  "rekey_upto g i cs = (if i < g then rekey_upto g (i + 1) (rekey cs) else cs)"
  by pat_completeness auto
termination
  by (relation "measure (\<lambda>(g, i, cs). unat g - unat i)")
    (auto simp: unat_Suc_less word_less_nat_alt)

declare rekey_upto.simps [simp del]

function advance_loop :: "u64 \<Rightarrow> CipherState \<times> u64 \<Rightarrow> CipherState \<times> u64" where
  "advance_loop g (cs, gen) = (if gen < g then advance_loop g (rekey cs, gen + 1) else (cs, gen))"
  by pat_completeness auto
termination
  by (relation "measure (\<lambda>(g, cs, gen). unat g - unat gen)")
    (auto simp: unat_Suc_less word_less_nat_alt)

declare advance_loop.simps [simp del]

definition advance_send_keys :: "u64 \<Rightarrow> Session \<Rightarrow> Session" where
  "advance_send_keys counter s =
     (case advance_loop (generation (s_cfg s) counter) (s_send_cs s, s_send_gen s) of (cs, gen) \<Rightarrow>
        s\<lparr>s_send_cs := cs, s_send_gen := gen\<rparr>)"

text \<open>
  \<^verbatim>\<open>open_packet\<close>: the key selection (with whether it was a forward jump), and the rest. The one state
  change of the selection is the turn of the next long jump.
\<close>

definition select_key :: "u64 \<Rightarrow> instant \<Rightarrow> Session \<Rightarrow> (CipherState \<times> bool) option \<times> Session" where
  "select_key g now s =
     (if g = s_recv_gen s then (Some (s_recv_cs s, False), s)
      else if s_recv_gen s > 0 \<and> g + 1 = s_recv_gen s then (Some (s_recv_cs_prev s, False), s)
      else if g > s_recv_gen s \<and> (g - s_recv_gen s \<le> sc_max_generations_ahead (s_cfg s) \<or>
          (g - s_recv_gen s \<le> sc_max_generations_far (s_cfg s) \<and> now \<ge> s_next_far_jump s)) then
        (let s = (if g - s_recv_gen s > sc_max_generations_ahead (s_cfg s)
                  then s\<lparr>s_next_far_jump := now + sc_far_jump_interval (s_cfg s)\<rparr> else s)
         in (Some (rekey_upto g (s_recv_gen s) (s_recv_cs s), True), s))
      else (None, s))"

definition open_packet :: "u64 \<Rightarrow> bytes \<Rightarrow> bytes \<Rightarrow> nat \<Rightarrow> instant \<Rightarrow> Session \<Rightarrow> bytes option \<times> Session" where
  "open_packet counter ad ciphertext out_size now s =
     (let g = generation (s_cfg s) counter in
      case select_key g now s of
        (None, s) \<Rightarrow> (None, s)
      | (Some (cs, jumped), s) \<Rightarrow>
          (case decrypt_at counter ad ciphertext out_size cs of
             None \<Rightarrow> (None, s)
           | Some pt \<Rightarrow>
               (case rw_accept counter (s_replay s) of
                  (False, rw) \<Rightarrow> (None, s\<lparr>s_replay := rw\<rparr>)
                | (True, rw) \<Rightarrow>
                    (let s = s\<lparr>s_replay := rw\<rparr> in
                     (Some pt,
                      if jumped then s\<lparr>s_recv_cs_prev := rekey_upto (g - 1) (s_recv_gen s) (s_recv_cs s),
                        s_recv_cs := cs, s_recv_gen := g\<rparr>
                      else s)))))"

section \<open>Teardown\<close>

definition close_with_cause :: "instant \<Rightarrow> CloseCause \<Rightarrow> u16 \<Rightarrow> Session \<Rightarrow> Session" where
  "close_with_cause now cause peer_reason s =
     (if s_state s = Closed then s
      else s\<lparr>s_state := Closed, s_send_cs := cs_clear (s_send_cs s), s_recv_cs := cs_clear (s_recv_cs s),
             s_recv_cs_prev := cs_clear (s_recv_cs_prev s), s_events := s_events s @ [EvClosed cause peer_reason]\<rparr>)"

definition sess_close :: "instant \<Rightarrow> Session \<Rightarrow> Session" where
  "sess_close now s = close_with_cause now Local 0 s"

section \<open>Receiving\<close>

definition kUnspecified :: u16 where "kUnspecified = 0"

definition on_datagram :: "Endpoint \<Rightarrow> bytes \<Rightarrow> instant \<Rightarrow> Session \<Rightarrow> Session" where
  "on_datagram from dgram now s =
     (if s_state s = Closed then s
      else case run_state (Header_decode kVersion) (Reader dgram) of
        (None, r) \<Rightarrow> s
      | (Some h, r) \<Rightarrow>
          if h_type h = MT_Close then
            (case fst (run_state Transport_decode r) of
               None \<Rightarrow> s
             | Some m \<Rightarrow>
                 if tr_conn_id m \<noteq> s_conn_id s then s
                 else case open_packet (tr_counter m) [MT_Close] (tr_ciphertext m) (length (tr_ciphertext m)) now s of
                     (None, s) \<Rightarrow> s
                   | (Some plain, s) \<Rightarrow>
                       let peer_reason = (if length plain \<ge> 2
                             then push_bit 8 (ucast (plain ! 0)) OR ucast (plain ! 1) else kUnspecified)
                       in close_with_cause now PeerNotice peer_reason (s\<lparr>s_last_recv := now\<rparr>))
          else if h_type h \<noteq> MT_Transport then s
          else
            (case fst (run_state Transport_decode r) of
               None \<Rightarrow> s
             | Some t \<Rightarrow>
                 if tr_conn_id t \<noteq> s_conn_id s then s
                 else case open_packet (tr_counter t) [] (tr_ciphertext t) (length (tr_ciphertext t)) now s of
                     (None, s) \<Rightarrow> s
                   | (Some plain, s) \<Rightarrow>
                       let s = s\<lparr>s_received := s_received s + 1, s_last_recv := now\<rparr>;
                           s = (if \<not> ep_eq from (s_path s)
                                then s\<lparr>s_path := from, s_events := s_events s @ [EvPathChanged from]\<rparr> else s)
                       in if plain = [] then s else s\<lparr>s_events := s_events s @ [EvData plain]\<rparr>))"

section \<open>Sending\<close>

definition send_packet :: "bytes \<Rightarrow> instant \<Rightarrow> Session \<Rightarrow> u64 option \<times> Session" where
  "send_packet payload now s =
     (if s_state s \<noteq> Established then (None, s)
      else
        let s = advance_send_keys (s_send_counter s) s;
            ct = encrypt_at (s_send_counter s) [] payload (s_send_cs s);
            w = Header_encode \<lparr>h_type = MT_Transport, h_version = kVersion, h_flags = 0, h_txn_id = 0\<rparr>
                  (Writer (replicate (kMaxDatagram + 64) 0));
            w = Transport_encode \<lparr>tr_conn_id = s_conn_id s, tr_counter = s_send_counter s, tr_ciphertext = ct\<rparr> w
        in if \<not> w_ok w then (None, s)
           else (Some (s_send_counter s),
                 s\<lparr>s_send_counter := s_send_counter s + 1,
                   s_out := s_out s @ [\<lparr>out_to = s_path s, out_data = w_written w\<rparr>],
                   s_next_keepalive := now + sc_keepalive (s_cfg s)\<rparr>))"

definition sess_send :: "bytes \<Rightarrow> instant \<Rightarrow> Session \<Rightarrow> u64 option \<times> Session" where
  "sess_send payload now s = (if payload = [] then (None, s) else send_packet payload now s)"

definition queue_keepalive :: "instant \<Rightarrow> Session \<Rightarrow> Session" where
  "queue_keepalive now s = snd (send_packet [] now s)"

definition kCloseCopies :: nat where "kCloseCopies = 3"

definition queue_close :: "u16 \<Rightarrow> Session \<Rightarrow> Session" where
  "queue_close reason s =
     (let plain = [ucast (drop_bit 8 reason), ucast (reason AND 0xFF)];
          s = advance_send_keys (s_send_counter s) s;
          ct = encrypt_at (s_send_counter s) [MT_Close] plain (s_send_cs s);
          w = Header_encode \<lparr>h_type = MT_Close, h_version = kVersion, h_flags = 0, h_txn_id = 0\<rparr>
                (Writer (replicate kMaxDatagram 0));
          w = Transport_encode \<lparr>tr_conn_id = s_conn_id s, tr_counter = s_send_counter s, tr_ciphertext = ct\<rparr> w
      in if \<not> w_ok w then s
         else s\<lparr>s_send_counter := s_send_counter s + 1,
                s_out := s_out s @ [\<lparr>out_to = s_path s, out_data = w_written w\<rparr>]\<rparr>)"

definition close_with_notice :: "u16 \<Rightarrow> instant \<Rightarrow> Session \<Rightarrow> Session" where
  "close_with_notice reason now s =
     (if s_state s = Closed then s
      else sess_close now ((queue_close reason ^^ kCloseCopies) s))"

section \<open>Timers and polling\<close>

definition sess_on_timeout :: "instant \<Rightarrow> Session \<Rightarrow> Session" where
  "sess_on_timeout now s =
     (if s_state s = Closed then s
      else if now - s_last_recv s \<ge> sc_idle_timeout (s_cfg s) then close_with_cause now TimedOut 0 s
      else if now \<ge> s_next_keepalive s then queue_keepalive now s else s)"

definition sess_next_timeout :: "Session \<Rightarrow> instant option" where
  "sess_next_timeout s =
     (if s_state s = Closed then None
      else let idle = s_last_recv s + sc_idle_timeout (s_cfg s)
           in Some (if s_next_keepalive s < idle then s_next_keepalive s else idle))"

definition sess_poll_transmit :: "Session \<Rightarrow> Outgoing option \<times> Session" where
  "sess_poll_transmit s = (case s_out s of [] \<Rightarrow> (None, s) | e # es \<Rightarrow> (Some e, s\<lparr>s_out := es\<rparr>))"

definition sess_poll_event :: "Session \<Rightarrow> SessionEvent option \<times> Session" where
  "sess_poll_event s = (case s_events s of [] \<Rightarrow> (None, s) | e # es \<Rightarrow> (Some e, s\<lparr>s_events := es\<rparr>))"

section \<open>The replay window refines a set\<close>

text \<open>
  The specification: the set of accepted counters and the highest of them. A counter is accepted
  when it is new and not 64 or more behind the highest.
\<close>

definition window_spec :: "nat \<Rightarrow> nat set \<Rightarrow> bool" where
  "window_spec c A \<longleftrightarrow> c \<notin> A \<and> (A = {} \<or> Max A < c + 64)"

definition rw_rel :: "ReplayWindow \<Rightarrow> nat set \<Rightarrow> bool" where
  "rw_rel rw A \<longleftrightarrow> finite A \<and> (rw_seen rw \<longleftrightarrow> A \<noteq> {}) \<and>
     (A \<noteq> {} \<longrightarrow> Max A = unat (rw_highest rw) \<and>
        (\<forall>k < 64. bit (rw_bitmap rw) k \<longleftrightarrow> k \<le> unat (rw_highest rw) \<and> unat (rw_highest rw) - k \<in> A))"

lemma rw_rel_new: "rw_rel ReplayWindow_new {}"
  by (simp add: rw_rel_def ReplayWindow_new_def)

lemma and_push_bit_1: "(w AND 2 ^ n = 0) \<longleftrightarrow> \<not> bit w n" for w :: u64
  by (rule and_exp_eq_0_iff_not_bit)

lemma rw_accept_refines:
  assumes rel: "rw_rel rw A"
  shows "fst (rw_accept c rw) = window_spec (unat c) A
    \<and> rw_rel (snd (rw_accept c rw)) (if window_spec (unat c) A then insert (unat c) A else A)"
proof -
  let ?h = "unat (rw_highest rw)"
  have fin: "finite A" using rel by (simp add: rw_rel_def)
  consider "A = {}" | "A \<noteq> {}" "c > rw_highest rw" | "A \<noteq> {}" "c \<le> rw_highest rw" by fastforce
  then show ?thesis
  proof cases
    case 1
    have "bit (1 :: u64) k \<longleftrightarrow> k \<le> unat c \<and> unat c - k \<in> {unat c}" for k by (auto simp: bit_1_iff)
    moreover have "\<not> rw_seen rw" using 1 rel by (simp add: rw_rel_def)
    ultimately show ?thesis using 1 unfolding rw_rel_def rw_accept_def window_spec_def
      by (simp del: bit_1_iff)
  next
    case 2
    then have h: "rw_seen rw" "Max A = ?h" "?h < unat c"
      and bits: "\<And>k. k < 64 \<Longrightarrow> bit (rw_bitmap rw) k \<longleftrightarrow> k \<le> ?h \<and> ?h - k \<in> A"
      using rel by (auto simp: rw_rel_def word_less_nat_alt)
    have new: "unat c \<notin> A" using h(2,3) Max_ge [OF fin] by fastforce
    have mx: "Max (insert (unat c) A) = unat c" using 2 h fin by simp
    let ?s = "c - rw_highest rw"
    have s: "unat ?s = unat c - ?h" using h(3) by (simp add: unat_sub word_le_nat_alt)
    have up: "a \<le> ?h" if "a \<in> A" for a using that Max_ge [OF fin] h(2) by metis
    have "bit ((if ?s \<ge> kWidth then 0 else push_bit (unat ?s) (rw_bitmap rw)) OR 1) k
        \<longleftrightarrow> k \<le> unat c \<and> unat c - k \<in> insert (unat c) A" if k: "k < 64" for k
    proof (cases "k = 0")
      case False
      let ?n = "unat c - ?h"
      have in_A: "unat c - k \<in> A \<longleftrightarrow> ?n \<le> k \<and> ?h - (k - ?n) \<in> A" if "k \<le> unat c"
      proof -
        have "unat c - k = ?h - (k - ?n)" if "?n \<le> k" using that h(3) by arith
        moreover have "?n \<le> k" if "unat c - k \<in> A" using up [OF that] by arith
        ultimately show ?thesis by auto
      qed
      have lhs: "bit ((if ?s \<ge> kWidth then 0 else push_bit (unat ?s) (rw_bitmap rw)) OR 1) k
          \<longleftrightarrow> ?n \<le> k \<and> bit (rw_bitmap rw) (k - ?n)"
        using False k by (simp add: bit_or_iff bit_1_iff bit_push_bit_iff kWidth_def word_le_nat_alt s)
      show ?thesis
      proof (cases "k \<le> unat c")
        case True
        with False have "unat c - k \<noteq> unat c" by arith
        moreover have "k - ?n \<le> ?h" if "?n \<le> k" using that True by arith
        ultimately show ?thesis
          unfolding lhs using True in_A bits [of "k - ?n"] k by auto
      next
        case F: False
        then have "\<not> k - ?n \<le> ?h" using h(3) by arith
        with F show ?thesis unfolding lhs using bits [of "k - ?n"] k by auto
      qed
    qed (auto simp: bit_simps)
    with 2 h new mx fin show ?thesis
      by (simp add: rw_accept_def window_spec_def rw_rel_def Let_def)
  next
    case 3
    then have h: "rw_seen rw" "Max A = ?h" "unat c \<le> ?h"
      and bits: "\<And>k. k < 64 \<Longrightarrow> bit (rw_bitmap rw) k \<longleftrightarrow> k \<le> ?h \<and> ?h - k \<in> A"
      using rel by (auto simp: rw_rel_def word_le_nat_alt)
    let ?b = "rw_highest rw - c"
    have b: "unat ?b = ?h - unat c" using h(3) by (simp add: unat_sub word_le_nat_alt)
    have old: "kWidth \<le> ?b \<longleftrightarrow> \<not> ?h < unat c + 64" using h(3) b by (auto simp: kWidth_def word_le_nat_alt)
    have seen: "bit (rw_bitmap rw) (unat ?b) \<longleftrightarrow> unat c \<in> A" if "?h < unat c + 64"
      using bits [of "unat ?b"] that h(3) b by auto
    have mx: "Max (insert (unat c) A) = ?h" using 3 h fin by simp
    have "bit (rw_bitmap rw OR push_bit (unat ?b) 1) k \<longleftrightarrow> k \<le> ?h \<and> ?h - k \<in> insert (unat c) A"
      if "k < 64" "?h < unat c + 64" for k
      using that bits [of k] b h(3) by (auto simp: bit_simps)
    moreover have "\<not> rw_highest rw < c" using 3 by simp
    ultimately show ?thesis using 3 h old seen mx rel fin
      by (cases "?h < unat c + 64"; cases "unat c \<in> A")
        (simp_all add: rw_accept_def window_spec_def rw_rel_def Let_def and_push_bit_1)
  qed
qed

end
