(* ===== verification/Session_Laws.thy ===== *)
theory Session_Laws
  imports Session
begin

text \<open>
  Laws of the datagram channel: the ratchet in closed form, the invariant that ties keys, generations
  and the replay window together and survives every operation, delivery of what the peer sealed,
  refusal of replays and forgeries, and the strictly increasing packet numbers of the sender.
\<close>

section \<open>The ratchet in closed form\<close>

lemma rekey_upto_pow: "rekey_upto g i cs = (rekey ^^ (unat g - unat i)) cs"
proof (induction g i cs rule: rekey_upto.induct)
  case (1 g i cs)
  show ?case
  proof (cases "i < g")
    case True
    then have "unat g - unat i = Suc (unat g - unat (i + 1))"
      by (simp add: unat_Suc_less [OF True] word_less_nat_alt)
    with 1 [OF True] True show ?thesis
      by (subst rekey_upto.simps) (simp add: funpow_swap1)
  qed (subst rekey_upto.simps, simp add: word_less_nat_alt)
qed

lemma advance_loop_pow: "advance_loop g (cs, gen) = ((rekey ^^ (unat g - unat gen)) cs, max gen g)"
proof (induction g "(cs, gen)" arbitrary: cs gen rule: advance_loop.induct)
  case (1 g cs gen)
  show ?case
  proof (cases "gen < g")
    case True
    then have "unat g - unat gen = Suc (unat g - unat (gen + 1))" "gen + 1 \<le> g"
      by (simp_all add: unat_Suc_less [OF True] word_less_nat_alt word_le_nat_alt)
    with 1 [OF True] True show ?thesis
      by (subst advance_loop.simps) (simp add: funpow_swap1 max_def less_imp_le)
  qed (subst advance_loop.simps, auto simp: word_less_nat_alt word_le_nat_alt max_def word_unat_eq_iff)
qed

definition ratchet :: "CipherState \<Rightarrow> u64 \<Rightarrow> CipherState" where
  "ratchet root g = (rekey ^^ unat g) root"

lemma ratchet_0 [simp]: "ratchet root 0 = root"
  by (simp add: ratchet_def)

lemma ratchet_add: "(rekey ^^ n) (ratchet root i) = (rekey ^^ (n + unat i)) root"
  by (simp add: ratchet_def funpow_add)

lemma rekey_upto_ratchet: "i \<le> g \<Longrightarrow> rekey_upto g i (ratchet root i) = ratchet root g"
  by (simp add: rekey_upto_pow ratchet_add word_le_nat_alt) (simp add: ratchet_def)

lemma advance_loop_ratchet:
  "i \<le> g \<Longrightarrow> advance_loop g (ratchet root i, i) = (ratchet root g, g)"
  by (simp add: advance_loop_pow ratchet_add word_le_nat_alt max_def) (simp add: ratchet_def)

lemma unat_drop_bit: "unat (drop_bit n x) = unat x div 2 ^ n" for x :: u64
proof -
  have "unat x < 2 ^ 64" using unsigned_less [of x] by simp
  then have "take_bit 64 (unat x) = unat x" by (rule take_bit_nat_eq_self)
  then show ?thesis by (simp only: unsigned_drop_bit_eq) (simp add: drop_bit_eq_div)
qed

lemma generation_mono: "c \<le> d \<Longrightarrow> generation cfg c \<le> generation cfg d"
  by (auto simp: generation_def word_le_nat_alt unat_drop_bit div_le_mono)

lemma generation_0 [simp]: "generation cfg 0 = 0"
  by (simp add: generation_def)

lemma generation_less: "generation cfg c < generation cfg d \<Longrightarrow> c < d"
  using generation_mono [of d c cfg] by (meson leD leI)

lemma less_le_pred: "i < g \<Longrightarrow> i \<le> g - 1" for i g :: u64
proof -
  assume "i < g"
  then have "unat i < unat g" by (simp add: word_less_nat_alt)
  moreover from this have "g \<noteq> 0" by auto
  then have "unat (g - 1) = unat g - 1" by (rule unat_minus_one)
  ultimately show ?thesis by (simp add: word_le_nat_alt)
qed

lemma suc_le_of_pos: "g + 1 = r \<Longrightarrow> 0 < r \<Longrightarrow> g \<le> r" for g r :: u64
  using less_le_pred [of 0 r] by (metis add_diff_cancel unat_eq_zero word_le_nat_alt word_less_nat_alt diff_le_self unat_minus_one word_gt_0)

text \<open>A counter less than 64 behind another is at most one generation behind it.\<close>

lemma generation_near:
  assumes "6 \<le> sc_rekey_shift cfg" "c \<le> h" "unat h < unat c + 64"
  shows "generation cfg c = generation cfg h \<or> generation cfg c + 1 = generation cfg h"
proof (cases "sc_rekey_shift cfg \<ge> 64")
  case False
  let ?k = "unat (sc_rekey_shift cfg)"
  let ?p = "2 ^ ?k :: nat"
  have k: "6 \<le> ?k" using assms(1) by (simp add: word_le_nat_alt)
  have "(2::nat) ^ 6 \<le> ?p" using k by (intro power_increasing) auto
  then have p: "64 \<le> ?p" by simp
  have g: "unat (generation cfg x) = unat x div ?p" for x
    using False by (simp add: generation_def unat_drop_bit)
  have le: "unat c div ?p \<le> unat h div ?p" using assms(2) by (intro div_le_mono) (simp add: word_le_nat_alt)
  have "unat h \<le> unat c + ?p" using assms(3) p by linarith
  then have "unat h div ?p \<le> (unat c + ?p) div ?p" by (rule div_le_mono)
  then have up: "unat h div ?p \<le> unat c div ?p + 1" using div_add_self2 [of ?p "unat c"] by simp
  show ?thesis
  proof (cases "unat c div ?p = unat h div ?p")
    case True
    then show ?thesis using g by (metis word_unat_eq_iff)
  next
    case ne: False
    then have "unat (generation cfg c) < unat (generation cfg h)" using le g by simp
    then have lt: "generation cfg c < generation cfg h" by (simp add: word_less_nat_alt)
    have "unat (generation cfg c + 1) = unat (generation cfg h)"
      using unat_Suc_less [OF lt] g up ne le by simp
    then show ?thesis by (simp add: word_unat_eq_iff)
  qed
qed (simp add: generation_def)

section \<open>The invariant\<close>

definition keys_inv :: "CipherState \<Rightarrow> CipherState \<Rightarrow> Session \<Rightarrow> bool" where
  "keys_inv send_root recv_root s \<longleftrightarrow>
     s_send_cs s = ratchet send_root (s_send_gen s)
     \<and> s_send_gen s \<le> generation (s_cfg s) (s_send_counter s)
     \<and> s_recv_cs s = ratchet recv_root (s_recv_gen s)
     \<and> (s_recv_gen s > 0 \<longrightarrow> s_recv_cs_prev s = ratchet recv_root (s_recv_gen s - 1))
     \<and> s_recv_gen s = (if rw_seen (s_replay s) then generation (s_cfg s) (rw_highest (s_replay s)) else 0)
     \<and> (rw_seen (s_replay s) \<longrightarrow> s_received s \<noteq> 0)"

lemma keys_inv_new: "keys_inv (CipherState_of a) (CipherState_of b) (Session_new cfg peer path a b conn now)"
  by (simp add: keys_inv_def Session_new_def ReplayWindow_new_def)

lemma rw_accept_cases:
  "rw_accept c rw = (ok, rw') \<Longrightarrow>
     (\<not> ok \<and> rw' = rw \<and> rw_seen rw \<and> c \<le> rw_highest rw)
     \<or> (ok \<and> rw_seen rw' \<and> rw_highest rw' = (if rw_seen rw then max (rw_highest rw) c else c))"
  by (auto simp: rw_accept_def Let_def max_def split: if_splits)

text \<open>What the key selection returns: the ratchet's key for the generation asked for.\<close>

lemma select_key_ratchet:
  assumes "s_recv_cs s = ratchet root (s_recv_gen s)"
    "s_recv_gen s > 0 \<longrightarrow> s_recv_cs_prev s = ratchet root (s_recv_gen s - 1)"
    "select_key g now s = (Some (cs, jumped), s')"
  shows "cs = ratchet root g \<and> (jumped \<longrightarrow> s_recv_gen s < g) \<and> (\<not> jumped \<longrightarrow> g = s_recv_gen s \<or> g + 1 = s_recv_gen s \<and> s_recv_gen s > 0)"
proof -
  consider "g = s_recv_gen s" | "g \<noteq> s_recv_gen s" "s_recv_gen s > 0 \<and> g + 1 = s_recv_gen s"
    | "g \<noteq> s_recv_gen s" "\<not> (s_recv_gen s > 0 \<and> g + 1 = s_recv_gen s)" by blast
  then show ?thesis
  proof cases
    case 1
    then show ?thesis using assms by (auto simp: select_key_def)
  next
    case 2
    then have "g = s_recv_gen s - 1" by (metis add_diff_cancel)
    then show ?thesis using 2 assms by (auto simp: select_key_def)
  next
    case 3
    then show ?thesis using assms
      by (auto simp: select_key_def rekey_upto_ratchet less_imp_le Let_def split: if_splits)
  qed
qed

lemma select_key_state:
  "select_key g now s = (k, s') \<Longrightarrow> s' = s \<or> s' = s\<lparr>s_next_far_jump := now + sc_far_jump_interval (s_cfg s)\<rparr>"
  by (auto simp: select_key_def Let_def split: if_splits)

lemma open_packet_None:
  assumes "open_packet c ad ct m now s = (None, s')"
  shows "s' = s \<or> s' = s\<lparr>s_next_far_jump := now + sc_far_jump_interval (s_cfg s)\<rparr>"
proof -
  obtain k s1 where k: "select_key (generation (s_cfg s) c) now s = (k, s1)" by fastforce
  have "s' = s1"
    using assms k by (auto simp: open_packet_def Let_def dest!: rw_accept_cases
        split: option.splits prod.splits bool.splits)
  with select_key_state [OF k] show ?thesis by simp
qed

text \<open>What an opened packet was: sealed under the ratchet's key for its counter, and new to the window.\<close>

lemma open_packet_Some:
  assumes inv: "keys_inv sr rr s" and op: "open_packet c ad ct m now s = (Some pt, s')"
  shows "ct = aead_seal (cs_key (ratchet rr (generation (s_cfg s) c))) c ad pt"
    and "fst (rw_accept c (s_replay s))"
    and "s_replay s' = snd (rw_accept c (s_replay s))"
    and "n \<noteq> 0 \<Longrightarrow> keys_inv sr rr (s'\<lparr>s_received := n\<rparr>)"
    and "\<exists>j p k g. s' = s\<lparr>s_next_far_jump := j, s_replay := snd (rw_accept c (s_replay s)),
        s_recv_cs_prev := p, s_recv_cs := k, s_recv_gen := g\<rparr>"
proof -
  let ?g = "generation (s_cfg s) c"
  obtain cs jumped s1 where k: "select_key ?g now s = (Some (cs, jumped), s1)"
    using op by (auto simp: open_packet_def Let_def split: option.splits prod.splits)
  have cs: "cs = ratchet rr ?g" and j: "jumped \<Longrightarrow> s_recv_gen s < ?g"
    and nj: "\<not> jumped \<Longrightarrow> ?g = s_recv_gen s \<or> ?g + 1 = s_recv_gen s \<and> s_recv_gen s > 0"
    using select_key_ratchet [OF _ _ k, of rr] inv by (auto simp: keys_inv_def)
  obtain x where s1: "s1 = s\<lparr>s_next_far_jump := x\<rparr>"
    using select_key_state [OF k] by (metis Session.surjective Session.update_convs(12))
  obtain rw where d: "decrypt_at c ad ct m cs = Some pt" and rw: "rw_accept c (s_replay s) = (True, rw)"
    and s': "s' = (if jumped then s1\<lparr>s_replay := rw, s_recv_cs_prev := rekey_upto (?g - 1) (s_recv_gen s) (s_recv_cs s),
        s_recv_cs := cs, s_recv_gen := ?g\<rparr> else s1\<lparr>s_replay := rw\<rparr>)"
    using op k s1 by (auto simp: open_packet_def Let_def split: option.splits prod.splits bool.splits)
  show "ct = aead_seal (cs_key (ratchet rr ?g)) c ad pt"
    using d cs by (auto simp: decrypt_at_open opened_iff split: if_splits)
  show "fst (rw_accept c (s_replay s))" "s_replay s' = snd (rw_accept c (s_replay s))"
    using rw s' s1 by auto
  show "\<exists>j p k g. s' = s\<lparr>s_next_far_jump := j, s_replay := snd (rw_accept c (s_replay s)),
        s_recv_cs_prev := p, s_recv_cs := k, s_recv_gen := g\<rparr>"
  proof (cases jumped)
    case True
    then show ?thesis using s' s1 rw by (simp, blast)
  next
    case False
    then have "s' = s\<lparr>s_next_far_jump := x, s_replay := snd (rw_accept c (s_replay s)),
        s_recv_cs_prev := s_recv_cs_prev s, s_recv_cs := s_recv_cs s, s_recv_gen := s_recv_gen s\<rparr>"
      using s' s1 rw by simp
    then show ?thesis by blast
  qed
  assume n: "n \<noteq> 0"
  show "keys_inv sr rr (s'\<lparr>s_received := n\<rparr>)"
  proof (cases jumped)
    case True
    have "c > rw_highest (s_replay s)" if "rw_seen (s_replay s)"
      using j [OF True] inv that generation_less [of "s_cfg s" "rw_highest (s_replay s)" c]
      by (auto simp: keys_inv_def)
    then have hi: "rw_seen rw" "rw_highest rw = c"
      using rw_accept_cases [OF rw] by (auto simp: max_def split: if_splits)
    have "?g > 0" using j [OF True] by (simp add: word_less_nat_alt)
    moreover have "rekey_upto (?g - 1) (s_recv_gen s) (s_recv_cs s) = ratchet rr (?g - 1)"
    proof -
      have "s_recv_gen s \<le> ?g - 1" by (rule less_le_pred [OF j [OF True]])
      then show ?thesis using inv rekey_upto_ratchet by (simp add: keys_inv_def)
    qed
    ultimately show ?thesis using True hi inv cs n by (auto simp: s' s1 keys_inv_def)
  next
    case False
    have "generation (s_cfg s) (rw_highest rw) = s_recv_gen s"
    proof (cases "rw_seen (s_replay s)")
      case seen: True
      then have h: "rw_highest rw = max (rw_highest (s_replay s)) c" "s_recv_gen s = generation (s_cfg s) (rw_highest (s_replay s))"
        using rw_accept_cases [OF rw] inv by (auto simp: keys_inv_def)
      have "?g \<le> s_recv_gen s" using nj [OF False] by (metis order_refl suc_le_of_pos)
      then show ?thesis using h generation_mono [of "rw_highest (s_replay s)" c "s_cfg s"]
        by (auto simp: max_def)
    next
      case F: False
      then show ?thesis using rw_accept_cases [OF rw] nj [OF False] inv by (auto simp: keys_inv_def)
    qed
    moreover have "rw_seen rw" using rw_accept_cases [OF rw] by auto
    ultimately show ?thesis using False inv n by (auto simp: s' s1 keys_inv_def)
  qed
qed

section \<open>Packets\<close>

definition sess_parse :: "bytes \<Rightarrow> (MsgType \<times> Transport) option" where
  "sess_parse dgram = (case run_state (Header_decode kVersion) (Reader dgram) of
       (None, r) \<Rightarrow> None
     | (Some h, r) \<Rightarrow> if h_type h = MT_Close \<or> h_type h = MT_Transport
         then map_option (Pair (h_type h)) (fst (run_state Transport_decode r)) else None)"

definition packet_bytes :: "MsgType \<Rightarrow> u32 \<Rightarrow> u64 \<Rightarrow> bytes \<Rightarrow> bytes" where
  "packet_bytes ty conn c ct = ser_Header \<lparr>h_type = ty, h_version = kVersion, h_flags = 0, h_txn_id = 0\<rparr>
     @ ser_Transport \<lparr>tr_conn_id = conn, tr_counter = c, tr_ciphertext = ct\<rparr>"

lemma length_packet_bytes: "length (packet_bytes ty conn c ct) = 20 + length ct"
  by (simp add: packet_bytes_def ser_Header_def ser_Transport_def)

lemma sess_parse_packet:
  assumes "ty = MT_Close \<or> ty = MT_Transport"
  shows "sess_parse (packet_bytes ty conn c ct) = Some (ty, \<lparr>tr_conn_id = conn, tr_counter = c, tr_ciphertext = ct\<rparr>)"
proof -
  let ?h = "\<lparr>h_type = ty, h_version = kVersion, h_flags = 0, h_txn_id = 0\<rparr>"
  let ?t = "\<lparr>tr_conn_id = conn, tr_counter = c, tr_ciphertext = ct\<rparr>"
  have "wf_Header kVersion ?h" using assms by (auto simp: wf_Header_def classify_def)
  from readsD [OF reads_Header [OF this], of "Reader (packet_bytes ty conn c ct)" "ser_Transport ?t"]
  obtain r where r: "run_state (Header_decode kVersion) (Reader (packet_bytes ty conn c ct)) = (Some ?h, r)"
    "r_at r (ser_Transport ?t)"
    by (auto simp: packet_bytes_def)
  from reads_Transport_all [OF r(2)] obtain r' where "run_state Transport_decode r = (Some ?t, r')" by blast
  with r(1) assms show ?thesis by (auto simp: sess_parse_def)
qed

text \<open>\<open>on_datagram\<close> on a parsed packet.\<close>

lemma on_datagram_parsed:
  "on_datagram from dgram now s =
     (if s_state s = Closed then s
      else case sess_parse dgram of
        None \<Rightarrow> s
      | Some (ty, t) \<Rightarrow>
          if tr_conn_id t \<noteq> s_conn_id s then s
          else if ty = MT_Close then
            (case open_packet (tr_counter t) [MT_Close] (tr_ciphertext t) (length (tr_ciphertext t)) now s of
               (None, s) \<Rightarrow> s
             | (Some plain, s) \<Rightarrow>
                 let peer_reason = (if length plain \<ge> 2
                       then push_bit 8 (ucast (plain ! 0)) OR ucast (plain ! 1) else kUnspecified)
                 in close_with_cause now PeerNotice peer_reason (s\<lparr>s_last_recv := now\<rparr>))
          else
            (case open_packet (tr_counter t) [] (tr_ciphertext t) (length (tr_ciphertext t)) now s of
               (None, s) \<Rightarrow> s
             | (Some plain, s) \<Rightarrow>
                 let s = s\<lparr>s_received := s_received s + 1, s_last_recv := now\<rparr>;
                     s = (if \<not> ep_eq from (s_path s)
                          then s\<lparr>s_path := from, s_events := s_events s @ [EvPathChanged from]\<rparr> else s)
                 in if plain = [] then s else s\<lparr>s_events := s_events s @ [EvData plain]\<rparr>))"
proof -
  obtain ho r where h: "run_state (Header_decode kVersion) (Reader dgram) = (ho, r)" by fastforce
  show ?thesis
  proof (cases ho)
    case (Some hd)
    show ?thesis
      by (cases "fst (run_state Transport_decode r)"; cases "h_type hd = MT_Close"; cases "h_type hd = MT_Transport")
        (simp_all add: on_datagram_def sess_parse_def h Some Let_def)
  qed (simp add: on_datagram_def sess_parse_def h)
qed

lemma writer_packet:
  assumes "w = Transport_encode \<lparr>tr_conn_id = conn, tr_counter = c, tr_ciphertext = ct\<rparr>
    (Header_encode \<lparr>h_type = ty, h_version = kVersion, h_flags = 0, h_txn_id = 0\<rparr> (Writer (replicate n 0)))"
  shows "w_ok w \<longleftrightarrow> 20 + length ct \<le> n" and "w_ok w \<Longrightarrow> w_written w = packet_bytes ty conn c ct"
proof -
  have wa: "wabs w = emit n (packet_bytes ty conn c ct) (Some [])" and wf: "w_wf w"
    by (simp_all add: assms packet_bytes_def)
  show "w_ok w \<longleftrightarrow> 20 + length ct \<le> n"
    using w_ok_wabs [OF wf] wa length_packet_bytes [of ty conn c ct] by (auto simp: emit_def)
  then show "w_ok w \<Longrightarrow> w_written w = packet_bytes ty conn c ct"
    using wabs_written [of w "packet_bytes ty conn c ct"] wa length_packet_bytes [of ty conn c ct]
    by (auto simp: emit_def)
qed

section \<open>The sender\<close>

lemma advance_send_keys_inv:
  assumes "keys_inv sr rr s"
  shows "advance_send_keys (s_send_counter s) s = s\<lparr>s_send_cs := ratchet sr (generation (s_cfg s) (s_send_counter s)),
    s_send_gen := generation (s_cfg s) (s_send_counter s)\<rparr>"
  using assms by (simp add: advance_send_keys_def keys_inv_def advance_loop_ratchet)

lemma advance_send_keys_fields [simp]:
  "s_send_counter (advance_send_keys c s) = s_send_counter s" "s_out (advance_send_keys c s) = s_out s"
  "s_conn_id (advance_send_keys c s) = s_conn_id s" "s_path (advance_send_keys c s) = s_path s"
  "s_state (advance_send_keys c s) = s_state s" "s_cfg (advance_send_keys c s) = s_cfg s"
  "s_events (advance_send_keys c s) = s_events s" "s_received (advance_send_keys c s) = s_received s"
  "s_replay (advance_send_keys c s) = s_replay s"
  by (simp_all add: advance_send_keys_def split: prod.splits)

lemma send_packet_Some:
  assumes "send_packet p now s = (Some c, s')"
  shows "s_state s = Established" "c = s_send_counter s" "s_send_counter s' = c + 1"
    "\<exists>ct. s_out s' = s_out s @ [\<lparr>out_to = s_path s, out_data = packet_bytes MT_Transport (s_conn_id s) c ct\<rparr>]
      \<and> (keys_inv sr rr s \<longrightarrow> ct = aead_seal (cs_key (ratchet sr (generation (s_cfg s) c))) c [] p)"
  using assms writer_packet(2) [OF refl]
  by (auto simp: send_packet_def Let_def advance_send_keys_inv split: if_splits)

lemma send_packet_None:
  "send_packet p now s = (None, s') \<Longrightarrow> s_send_counter s' = s_send_counter s \<and> s_out s' = s_out s"
  by (auto simp: send_packet_def Let_def split: if_splits)

text \<open>A payload goes out exactly when the channel is open and the packet fits the buffer.\<close>

lemma send_packet_fits:
  "s_state s = Established \<Longrightarrow> fst (send_packet p now s) \<noteq> None \<longleftrightarrow> length p \<le> kMaxDatagram + 64 - 36"
  by (auto simp: send_packet_def Let_def writer_packet(1) [OF refl] kMaxDatagram_def)

text \<open>Packets appended by an operation, numbered from the counter on.\<close>

definition pkt_number :: "Outgoing \<Rightarrow> nat" where
  "pkt_number pk = (case sess_parse (out_data pk) of Some (ty, t) \<Rightarrow> unat (tr_counter t) | None \<Rightarrow> 0)"

definition grows :: "nat \<Rightarrow> Session \<Rightarrow> Session \<Rightarrow> bool" where
  "grows k s s' \<longleftrightarrow> (\<exists>new. s_out s' = s_out s @ new \<and> length new \<le> k
     \<and> map pkt_number new = [unat (s_send_counter s)..<unat (s_send_counter s) + length new]
     \<and> unat (s_send_counter s') = unat (s_send_counter s) + length new)"

lemma grows_same: "s_out s' = s_out s \<Longrightarrow> s_send_counter s' = s_send_counter s \<Longrightarrow> grows k s s'"
  by (simp add: grows_def)

lemma grows_trans:
  assumes "grows a s s'" "grows b s' s''" shows "grows (a + b) s s''"
proof -
  obtain x y where
    "s_out s' = s_out s @ x" "length x \<le> a" "map pkt_number x = [unat (s_send_counter s)..<unat (s_send_counter s) + length x]"
    "unat (s_send_counter s') = unat (s_send_counter s) + length x"
    "s_out s'' = s_out s' @ y" "length y \<le> b" "map pkt_number y = [unat (s_send_counter s')..<unat (s_send_counter s') + length y]"
    "unat (s_send_counter s'') = unat (s_send_counter s') + length y"
    using assms by (auto simp: grows_def)
  note f = this
  have "[n..<n + k] @ [n + k..<n + k + m] = [n..<n + (k + m)]" for n k m :: nat
    by (metis add.assoc le_add1 upt_add_eq_append)
  then have "map pkt_number (x @ y) = [unat (s_send_counter s)..<unat (s_send_counter s) + length (x @ y)]"
    using f(3,4,7) by simp
  with f show ?thesis
    unfolding grows_def by (intro exI [of _ "x @ y"]) simp
qed

lemma grows_mono: "grows a s s' \<Longrightarrow> a \<le> b \<Longrightarrow> grows b s s'"
  by (auto simp: grows_def)

lemma unat_suc_bound: "unat (c :: u64) + 1 < 2 ^ 64 \<Longrightarrow> unat (c + 1) = unat c + 1"
  by (simp add: unat_word_ariths)

lemma grows_one:
  assumes "s_out s' = s_out s @ [\<lparr>out_to = p, out_data = packet_bytes ty conn (s_send_counter s) ct\<rparr>]"
    "ty = MT_Close \<or> ty = MT_Transport" "s_send_counter s' = s_send_counter s + 1"
    "unat (s_send_counter s) + 1 < 2 ^ 64"
  shows "grows 1 s s'"
  using assms unat_suc_bound [OF assms(4)]
  by (simp add: grows_def pkt_number_def sess_parse_packet [OF assms(2)])

lemma grows_send_packet:
  assumes "unat (s_send_counter s) + 1 < 2 ^ 64"
  shows "grows 1 s (snd (send_packet p now s))"
proof (cases "send_packet p now s")
  case (Pair o' s')
  show ?thesis
  proof (cases o')
    case None
    with send_packet_None Pair show ?thesis by (auto intro!: grows_same)
  next
    case (Some c)
    with Pair have e: "send_packet p now s = (Some c, s')" by simp
    obtain ct where "s_out s' = s_out s @ [\<lparr>out_to = s_path s, out_data = packet_bytes MT_Transport (s_conn_id s) c ct\<rparr>]"
      using send_packet_Some(4) [OF e, of undefined undefined] by blast
    then have "s_out s' = s_out s @ [\<lparr>out_to = s_path s, out_data = packet_bytes MT_Transport (s_conn_id s) (s_send_counter s) ct\<rparr>]"
      using send_packet_Some(2) [OF e] by simp
    from grows_one [OF this _ _ assms] show ?thesis using send_packet_Some(2,3) [OF e] Pair by simp
  qed
qed

lemma queue_close_spec:
  "\<exists>ct. s_out (queue_close reason s) = s_out s @ [\<lparr>out_to = s_path s, out_data = packet_bytes MT_Close (s_conn_id s) (s_send_counter s) ct\<rparr>]
     \<and> (keys_inv sr rr s \<longrightarrow> ct = aead_seal (cs_key (ratchet sr (generation (s_cfg s) (s_send_counter s)))) (s_send_counter s) [MT_Close]
          [ucast (drop_bit 8 reason), ucast (reason AND 0xFF)])"
  "s_send_counter (queue_close reason s) = s_send_counter s + 1"
  using writer_packet [OF refl]
  by (auto simp: queue_close_def Let_def advance_send_keys_inv kMaxDatagram_def)

lemma grows_queue_close:
  assumes "unat (s_send_counter s) + 1 < 2 ^ 64"
  shows "grows 1 s (queue_close reason s)"
proof -
  obtain ct where "s_out (queue_close reason s) = s_out s
      @ [\<lparr>out_to = s_path s, out_data = packet_bytes MT_Close (s_conn_id s) (s_send_counter s) ct\<rparr>]"
    using queue_close_spec(1) [of reason s undefined undefined] by blast
  from grows_one [OF this _ queue_close_spec(2) assms] show ?thesis by simp
qed

section \<open>Runs\<close>

datatype sess_op =
    OpDatagram Endpoint bytes instant
  | OpTimeout instant
  | OpSend bytes instant
  | OpSetPath Endpoint instant
  | OpConfigure byte
  | OpClose instant
  | OpCloseNotice u16 instant
  | OpPollTransmit
  | OpPollEvent

fun sess_step :: "sess_op \<Rightarrow> Session \<Rightarrow> Session" where
  "sess_step (OpDatagram from d now) s = on_datagram from d now s"
| "sess_step (OpTimeout now) s = sess_on_timeout now s"
| "sess_step (OpSend p now) s = snd (sess_send p now s)"
| "sess_step (OpSetPath p now) s = set_path p now s"
| "sess_step (OpConfigure sh) s = snd (configure_rekey_shift sh s)"
| "sess_step (OpClose now) s = sess_close now s"
| "sess_step (OpCloseNotice r now) s = close_with_notice r now s"
| "sess_step OpPollTransmit s = snd (sess_poll_transmit s)"
| "sess_step OpPollEvent s = snd (sess_poll_event s)"

lemma close_with_cause_fields [simp]:
  "s_out (close_with_cause now c r s) = s_out s" "s_send_counter (close_with_cause now c r s) = s_send_counter s"
  "s_received (close_with_cause now c r s) = s_received s" "s_cfg (close_with_cause now c r s) = s_cfg s"
  "s_replay (close_with_cause now c r s) = s_replay s" "s_state (close_with_cause now c r s) = Closed"
  by (simp_all add: close_with_cause_def)

lemma open_packet_fields:
  assumes "open_packet c ad ct m now s = (r, s')"
  shows "s_out s' = s_out s" "s_send_counter s' = s_send_counter s" "s_received s' = s_received s"
    "s_cfg s' = s_cfg s" "s_state s' = s_state s" "s_conn_id s' = s_conn_id s" "s_path s' = s_path s"
    "s_events s' = s_events s"
proof -
  obtain k s1 where k: "select_key (generation (s_cfg s) c) now s = (k, s1)" by fastforce
  have f: "s_out s1 = s_out s" "s_send_counter s1 = s_send_counter s" "s_received s1 = s_received s"
    "s_cfg s1 = s_cfg s" "s_state s1 = s_state s" "s_conn_id s1 = s_conn_id s" "s_path s1 = s_path s"
    "s_events s1 = s_events s"
    using select_key_state [OF k] by auto
  then show "s_out s' = s_out s" "s_send_counter s' = s_send_counter s" "s_received s' = s_received s"
    "s_cfg s' = s_cfg s" "s_state s' = s_state s" "s_conn_id s' = s_conn_id s" "s_path s' = s_path s"
    "s_events s' = s_events s"
    using assms k by (auto simp: open_packet_def Let_def split: option.splits prod.splits bool.splits if_splits)
qed

lemma on_datagram_sender [simp]:
  "s_out (on_datagram from d now s) = s_out s" "s_send_counter (on_datagram from d now s) = s_send_counter s"
  by (auto simp: on_datagram_parsed Let_def dest: open_packet_fields split: option.splits prod.splits)

lemma grows_close_with_notice:
  assumes "unat (s_send_counter s) + 3 < 2 ^ 64"
  shows "grows 3 s (close_with_notice r now s)"
proof (cases "s_state s = Closed")
  case False
  let ?q = "queue_close r"
  have g1: "grows 1 s (?q s)" by (rule grows_queue_close) (use assms in simp)
  then have c1: "unat (s_send_counter (?q s)) \<le> unat (s_send_counter s) + 1" by (auto simp: grows_def)
  have g2: "grows 1 (?q s) (?q (?q s))" by (rule grows_queue_close) (use assms c1 in linarith)
  then have c2: "unat (s_send_counter (?q (?q s))) \<le> unat (s_send_counter s) + 2" using c1 by (auto simp: grows_def)
  have g3: "grows 1 (?q (?q s)) (?q (?q (?q s)))" by (rule grows_queue_close) (use assms c2 in linarith)
  have "grows 3 s (?q (?q (?q s)))" using grows_trans [OF grows_trans [OF g1 g2] g3] by (simp add: eval_nat_numeral)
  with False show ?thesis
    by (simp add: close_with_notice_def kCloseCopies_def sess_close_def eval_nat_numeral grows_def)
qed (simp add: close_with_notice_def grows_same)

text \<open>Every operation but the poll appends packets with the next numbers, at most three.\<close>

lemma grows_step:
  assumes "unat (s_send_counter s) + 3 < 2 ^ 64" "op \<noteq> OpPollTransmit"
  shows "grows 3 s (sess_step op s)"
proof -
  have one: "unat (s_send_counter s) + 1 < 2 ^ 64" using assms by linarith
  note sp = grows_mono [OF grows_send_packet [OF one]]
  show ?thesis
    using assms(2) sp grows_close_with_notice [OF assms(1)]
    by (cases op) (auto intro!: grows_same simp: sess_on_timeout_def queue_keepalive_def sess_send_def
        set_path_def configure_rekey_shift_def sess_close_def sess_poll_event_def split: list.splits)
qed

text \<open>A run collects what the polls take away.\<close>

fun sess_run :: "sess_op list \<Rightarrow> Session \<Rightarrow> Outgoing list \<times> Session" where
  "sess_run [] s = ([], s)"
| "sess_run (op # ops) s = (case sess_run ops (sess_step op s) of (sent, s') \<Rightarrow>
     ((if op = OpPollTransmit then take 1 (s_out s) else []) @ sent, s'))"

lemma sess_run_numbers:
  assumes "unat (s_send_counter s) + 3 * length ops < 2 ^ 64" "sess_run ops s = (sent, s')"
  shows "\<exists>new. sent @ s_out s' = s_out s @ new
    \<and> map pkt_number new = [unat (s_send_counter s)..<unat (s_send_counter s')]
    \<and> unat (s_send_counter s) \<le> unat (s_send_counter s')
    \<and> unat (s_send_counter s') \<le> unat (s_send_counter s) + 3 * length ops"
  using assms
proof (induction ops arbitrary: s sent)
  case (Cons op ops)
  let ?s1 = "sess_step op s"
  obtain sent1 where r: "sess_run ops ?s1 = (sent1, s')"
    and sent: "sent = (if op = OpPollTransmit then take 1 (s_out s) else []) @ sent1"
    using Cons.prems(2) by (auto split: prod.splits)
  show ?case
  proof (cases "op = OpPollTransmit")
    case True
    have c: "s_send_counter ?s1 = s_send_counter s" and o: "take 1 (s_out s) @ s_out ?s1 = s_out s"
      using True by (auto simp: sess_poll_transmit_def split: list.splits)
    from Cons.IH [OF _ r] Cons.prems(1) c obtain new where
      "sent1 @ s_out s' = s_out ?s1 @ new" "map pkt_number new = [unat (s_send_counter s)..<unat (s_send_counter s')]"
      "unat (s_send_counter s) \<le> unat (s_send_counter s')"
      "unat (s_send_counter s') \<le> unat (s_send_counter s) + 3 * length ops"
      by auto
    moreover from this(1) o have "sent @ s_out s' = s_out s @ new"
      using True sent by (metis append_assoc)
    ultimately show ?thesis by auto
  next
    case False
    then have "grows 3 s ?s1" using Cons.prems(1) by (intro grows_step) auto
    then obtain n1 where n1: "s_out ?s1 = s_out s @ n1" "length n1 \<le> 3"
      "map pkt_number n1 = [unat (s_send_counter s)..<unat (s_send_counter ?s1)]"
      "unat (s_send_counter ?s1) = unat (s_send_counter s) + length n1"
      by (auto simp: grows_def)
    from Cons.IH [OF _ r] Cons.prems(1) n1 obtain n2 where n2: "sent1 @ s_out s' = s_out ?s1 @ n2"
      "map pkt_number n2 = [unat (s_send_counter ?s1)..<unat (s_send_counter s')]"
      "unat (s_send_counter ?s1) \<le> unat (s_send_counter s')"
      "unat (s_send_counter s') \<le> unat (s_send_counter ?s1) + 3 * length ops"
      by auto
    have "map pkt_number (n1 @ n2) = [unat (s_send_counter s)..<unat (s_send_counter s')]"
      using n1 n2 upt_add_eq_append [of "unat (s_send_counter s)" "unat (s_send_counter ?s1)"
          "unat (s_send_counter s') - unat (s_send_counter ?s1)"] by simp
    with n1 n2 sent False show ?thesis by (intro exI [of _ "n1 @ n2"]) auto
  qed
qed auto

section \<open>The invariant survives every operation\<close>

lemma keys_inv_open_None:
  assumes "keys_inv sr rr s" "open_packet c ad ct m now s = (None, s')"
  shows "keys_inv sr rr s'"
  using open_packet_None [OF assms(2)] assms(1) by (auto simp: keys_inv_def)

lemma keys_inv_on_datagram:
  assumes inv: "keys_inv sr rr s" and r: "s_received s + 1 \<noteq> 0"
  shows "s_state (on_datagram from d now s) = Established \<longrightarrow> keys_inv sr rr (on_datagram from d now s)"
proof (cases "s_state s = Closed")
  case False
  show ?thesis
  proof (cases "sess_parse d")
    case (Some x)
    obtain ty t where x: "x = (ty, t)" by fastforce
    show ?thesis
    proof (cases "tr_conn_id t = s_conn_id s")
      case conn: True
      show ?thesis
      proof (cases "ty = MT_Close")
        case True
        obtain o' s1 where op: "open_packet (tr_counter t) [MT_Close] (tr_ciphertext t) (length (tr_ciphertext t)) now s = (o', s1)"
          by fastforce
        with False Some x conn True keys_inv_open_None [OF inv] show ?thesis
          by (cases o') (auto simp: on_datagram_parsed Let_def)
      next
        case nc: False
        obtain o' s1 where op: "open_packet (tr_counter t) [] (tr_ciphertext t) (length (tr_ciphertext t)) now s = (o', s1)"
          by fastforce
        show ?thesis
        proof (cases o')
          case None
          with op False Some x conn nc keys_inv_open_None [OF inv] show ?thesis
            by (auto simp: on_datagram_parsed Let_def)
        next
          case (Some pl)
          from op Some have "keys_inv sr rr (s1\<lparr>s_received := s_received s + 1\<rparr>)"
            using open_packet_Some(4) [OF inv _ r] by simp
          moreover have "s_received s1 = s_received s" using open_packet_fields(3) [OF op] .
          ultimately show ?thesis
            using op Some False \<open>sess_parse d = Some x\<close> x conn nc
            by (auto simp: on_datagram_parsed Let_def keys_inv_def)
        qed
      qed
    qed (use False Some x inv in \<open>simp add: on_datagram_parsed\<close>)
  qed (use False inv in \<open>simp add: on_datagram_parsed\<close>)
qed (simp add: on_datagram_parsed)

lemma keys_inv_advance:
  assumes inv: "keys_inv sr rr s" and c: "unat (s_send_counter s) + 1 < 2 ^ 64"
  shows "keys_inv sr rr (advance_send_keys (s_send_counter s) s)"
    and "keys_inv sr rr ((advance_send_keys (s_send_counter s) s)\<lparr>s_send_counter := s_send_counter s + 1\<rparr>)"
proof -
  have "s_send_counter s \<le> s_send_counter s + 1"
    using unat_suc_bound [OF c] by (simp add: word_le_nat_alt)
  from generation_mono [OF this] inv
  show "keys_inv sr rr ((advance_send_keys (s_send_counter s) s)\<lparr>s_send_counter := s_send_counter s + 1\<rparr>)"
    unfolding advance_send_keys_inv [OF inv] by (simp add: keys_inv_def)
  from inv show "keys_inv sr rr (advance_send_keys (s_send_counter s) s)"
    unfolding advance_send_keys_inv [OF inv] by (simp add: keys_inv_def)
qed

lemma keys_inv_send_packet:
  assumes inv: "keys_inv sr rr s" and c: "unat (s_send_counter s) + 1 < 2 ^ 64"
  shows "keys_inv sr rr (snd (send_packet p now s))"
  using keys_inv_advance [OF assms] inv
  by (auto simp: send_packet_def Let_def keys_inv_def)

lemma keys_inv_configure:
  assumes "keys_inv sr rr s"
  shows "keys_inv sr rr (snd (configure_rekey_shift sh s))"
  using assms by (auto simp: configure_rekey_shift_def keys_inv_def)

lemma keys_inv_step:
  assumes inv: "s_state s = Established \<longrightarrow> keys_inv sr rr s"
    and c: "unat (s_send_counter s) + 1 < 2 ^ 64" and r: "s_received s + 1 \<noteq> 0"
  shows "s_state (sess_step op s) = Established \<longrightarrow> keys_inv sr rr (sess_step op s)"
proof (cases "s_state s = Closed")
  case True
  then show ?thesis
    by (cases op) (auto simp: on_datagram_parsed sess_on_timeout_def sess_send_def send_packet_def set_path_def
        configure_rekey_shift_def sess_close_def close_with_cause_def close_with_notice_def
        sess_poll_transmit_def sess_poll_event_def split: list.splits)
next
  case False
  then have i: "keys_inv sr rr s" using inv by (cases "s_state s") auto
  note sp = keys_inv_send_packet [OF i c]
  show ?thesis
  proof (cases op)
    case (OpDatagram src d now)
    then show ?thesis using keys_inv_on_datagram [OF i r] by simp
  next
    case (OpCloseNotice reason now)
    then show ?thesis using False by (simp add: close_with_notice_def sess_close_def)
  qed (use i sp keys_inv_configure [OF i] in \<open>auto simp: sess_on_timeout_def queue_keepalive_def sess_send_def
      set_path_def sess_close_def sess_poll_transmit_def sess_poll_event_def keys_inv_def
      split: list.splits\<close>)
qed

section \<open>Delivery\<close>

lemma rw_accept_near:
  assumes "fst (rw_accept c rw)" "rw_seen rw" "c \<le> rw_highest rw"
  shows "unat (rw_highest rw) < unat c + 64"
proof -
  have "\<not> rw_highest rw < c" using assms(3) by simp
  with assms have "\<not> kWidth \<le> rw_highest rw - c"
    by (auto simp: rw_accept_def Let_def split: if_splits)
  moreover have "unat (rw_highest rw - c) = unat (rw_highest rw) - unat c"
    using assms(3) by (simp add: unat_sub word_le_nat_alt)
  ultimately show ?thesis using assms(3) by (simp add: kWidth_def word_le_nat_alt)
qed

text \<open>How far ahead of the receiver a counter may be and still be tried now.\<close>

definition in_reach :: "u64 \<Rightarrow> instant \<Rightarrow> Session \<Rightarrow> bool" where
  "in_reach c now s \<longleftrightarrow>
     (let g = generation (s_cfg s) c in
      g \<le> s_recv_gen s \<or> g - s_recv_gen s \<le> sc_max_generations_ahead (s_cfg s)
      \<or> g - s_recv_gen s \<le> sc_max_generations_far (s_cfg s) \<and> now \<ge> s_next_far_jump s)"

text \<open>Whatever the window would accept and is in reach finds its key.\<close>

lemma select_key_finds:
  assumes inv: "keys_inv sr rr s" and acc: "fst (rw_accept c (s_replay s))"
    and reach: "in_reach c now s" and sh: "6 \<le> sc_rekey_shift (s_cfg s)"
  shows "\<exists>jumped s'. select_key (generation (s_cfg s) c) now s = (Some (ratchet rr (generation (s_cfg s) c), jumped), s')"
proof -
  let ?g = "generation (s_cfg s) c"
  have "fst (select_key ?g now s) \<noteq> None"
  proof (cases "?g < s_recv_gen s")
    case True
    then have pos: "s_recv_gen s > 0" by (simp add: word_less_nat_alt)
    then have seen: "rw_seen (s_replay s)" and h: "s_recv_gen s = generation (s_cfg s) (rw_highest (s_replay s))"
      using inv by (auto simp: keys_inv_def split: if_splits)
    have "c \<le> rw_highest (s_replay s)" using generation_less True h by (metis less_imp_le)
    from generation_near [OF sh this rw_accept_near [OF acc seen this]]
    have "?g + 1 = s_recv_gen s" using h True by auto
    with pos show ?thesis by (auto simp: select_key_def)
  next
    case False
    then show ?thesis using reach by (auto simp: select_key_def in_reach_def Let_def)
  qed
  then obtain cs jumped s' where k: "select_key ?g now s = (Some (cs, jumped), s')"
    by (cases "select_key ?g now s") auto
  with select_key_ratchet [OF _ _ k, of rr] inv show ?thesis by (auto simp: keys_inv_def)
qed

lemma open_packet_delivers:
  assumes inv: "keys_inv sr rr s" and acc: "fst (rw_accept c (s_replay s))"
    and reach: "in_reach c now s" and sh: "6 \<le> sc_rekey_shift (s_cfg s)"
    and ct: "ct = aead_seal (cs_key (ratchet rr (generation (s_cfg s) c))) c ad pt"
  shows "\<exists>s'. open_packet c ad ct (length ct) now s = (Some pt, s')"
proof -
  let ?g = "generation (s_cfg s) c"
  obtain j s1 where k: "select_key ?g now s = (Some (ratchet rr ?g, j), s1)"
    using select_key_finds [OF inv acc reach sh] by blast
  have "decrypt_at c ad ct (length ct) (ratchet rr ?g) = Some pt"
    by (simp add: decrypt_at_open ct)
  moreover have "s_replay s1 = s_replay s" using select_key_state [OF k] by auto
  ultimately show ?thesis using k acc
    by (cases "rw_accept c (s_replay s)") (simp add: open_packet_def Let_def)
qed

lemma datagram_delivered:
  assumes inv_s: "keys_inv sr rr s" and sent: "sess_send p now s = (Some c, s')"
    and inv_r: "keys_inv sr' sr r" and st: "s_state r = Established" and conn: "s_conn_id r = s_conn_id s"
    and cfg: "sc_rekey_shift (s_cfg r) = sc_rekey_shift (s_cfg s)" and sh: "6 \<le> sc_rekey_shift (s_cfg r)"
    and acc: "fst (rw_accept c (s_replay r))" and reach: "in_reach c now' r"
  shows "s_events (on_datagram from (out_data (last (s_out s'))) now' r) =
    s_events r @ (if ep_eq from (s_path r) then [] else [EvPathChanged from]) @ [EvData p]"
proof -
  have p: "p \<noteq> []" and sp: "send_packet p now s = (Some c, s')"
    using sent by (auto simp: sess_send_def split: if_splits)
  obtain ct where out: "out_data (last (s_out s')) = packet_bytes MT_Transport (s_conn_id s) c ct"
    and ct: "ct = aead_seal (cs_key (ratchet sr (generation (s_cfg s) c))) c [] p"
    using send_packet_Some(4) [OF sp, of sr rr] inv_s by auto
  have "generation (s_cfg r) c = generation (s_cfg s) c" using cfg by (simp add: generation_def)
  with open_packet_delivers [OF inv_r acc reach sh, of ct "[]" p] ct obtain r1 where
    op: "open_packet c [] ct (length ct) now' r = (Some p, r1)" by auto
  have "s_path r1 = s_path r" "s_events r1 = s_events r" using open_packet_fields [OF op] by auto
  with op p st conn out show ?thesis
    by (auto simp: on_datagram_parsed sess_parse_packet Let_def)
qed

section \<open>Refusal\<close>

text \<open>Once a counter has been accepted the window never accepts it again.\<close>

lemma rw_rejects_after:
  assumes "rw_rel rw A" "fst (rw_accept c rw)"
  shows "\<not> fst (rw_accept c (fold (\<lambda>d w. snd (rw_accept d w)) ds (snd (rw_accept c rw))))"
proof -
  have keep: "\<exists>B. A \<subseteq> B \<and> rw_rel (fold (\<lambda>d w. snd (rw_accept d w)) ds rw) B" if "rw_rel rw A" for rw A
    using that
  proof (induction ds arbitrary: rw A)
    case (Cons d ds)
    from rw_accept_refines [OF Cons.prems, of d] Cons.IH show ?case
      by (auto split: if_splits) (metis insert_subset)+
  qed auto
  have "rw_rel (snd (rw_accept c rw)) (insert (unat c) A)"
    using rw_accept_refines [OF assms(1), of c] assms(2) by auto
  from keep [OF this] obtain B where "unat c \<in> B"
    "rw_rel (fold (\<lambda>d w. snd (rw_accept d w)) ds (snd (rw_accept c rw))) B" by auto
  with rw_accept_refines [OF this(2), of c] show ?thesis by (auto simp: window_spec_def)
qed

text \<open>A datagram that carries nothing sealed under the ratchet's key for its counter changes no key,
  no window, no counter, no path and no event.\<close>

definition forged :: "CipherState \<Rightarrow> Session \<Rightarrow> bytes \<Rightarrow> bool" where
  "forged root s d \<longleftrightarrow> (case sess_parse d of None \<Rightarrow> True | Some (ty, t) \<Rightarrow>
     aead_open (cs_key (ratchet root (generation (s_cfg s) (tr_counter t)))) (tr_counter t)
       (if ty = MT_Close then [MT_Close] else []) (tr_ciphertext t) = None)"

lemma open_forged:
  assumes inv: "keys_inv sr rr s"
    and "aead_open (cs_key (ratchet rr (generation (s_cfg s) c))) c ad ct = None"
  shows "fst (open_packet c ad ct m now s) = None"
proof (rule ccontr)
  assume "fst (open_packet c ad ct m now s) \<noteq> None"
  then obtain pt s' where "open_packet c ad ct m now s = (Some pt, s')"
    by (cases "open_packet c ad ct m now s") auto
  from open_packet_Some(1) [OF inv this] assms(2) show False by simp
qed

lemma forged_datagram_ignored:
  assumes inv: "keys_inv sr rr s" and f: "forged rr s d"
  shows "\<exists>j. on_datagram from d now s = s\<lparr>s_next_far_jump := j\<rparr>"
proof -
  have same: "\<exists>j. s = s\<lparr>s_next_far_jump := j\<rparr>" by (rule exI [of _ "s_next_far_jump s"]) simp
  have op: "\<exists>j. s' = s\<lparr>s_next_far_jump := j\<rparr>" if "open_packet c ad ct m now s = (None, s')" for c ad ct m s'
    using open_packet_None [OF that] same by blast
  show ?thesis
  proof (cases "s_state s = Closed \<or> sess_parse d = None \<or> (\<exists>ty t. sess_parse d = Some (ty, t) \<and> tr_conn_id t \<noteq> s_conn_id s)")
    case False
    then obtain ty t where x: "sess_parse d = Some (ty, t)" "tr_conn_id t = s_conn_id s" "s_state s \<noteq> Closed" by auto
    let ?ad = "if ty = MT_Close then [MT_Close] else []"
    have "fst (open_packet (tr_counter t) ?ad (tr_ciphertext t) (length (tr_ciphertext t)) now s) = None"
      using open_forged [OF inv] f x by (simp add: forged_def)
    then obtain s' where s': "open_packet (tr_counter t) ?ad (tr_ciphertext t) (length (tr_ciphertext t)) now s = (None, s')"
      by (metis prod.collapse)
    then have "on_datagram from d now s = s'"
      using x by (cases "ty = MT_Close") (simp_all add: on_datagram_parsed)
    with op [OF s'] show ?thesis by simp
  qed (use same in \<open>auto simp: on_datagram_parsed\<close>)
qed

text \<open>A replay of anything the window has seen is ignored the same way.\<close>

lemma replayed_datagram_ignored:
  assumes p: "sess_parse d = Some (ty, t)" and rej: "\<not> fst (rw_accept (tr_counter t) (s_replay s))"
  shows "\<exists>j. on_datagram from d now s = s\<lparr>s_next_far_jump := j\<rparr>"
proof -
  have same: "\<exists>j. s = s\<lparr>s_next_far_jump := j\<rparr>" by (rule exI [of _ "s_next_far_jump s"]) simp
  have "\<exists>j. snd (open_packet (tr_counter t) ad ct m now s) = s\<lparr>s_next_far_jump := j\<rparr>
      \<and> fst (open_packet (tr_counter t) ad ct m now s) = None" for ad ct m
  proof -
    have "fst (open_packet (tr_counter t) ad ct m now s) = None"
    proof (rule ccontr)
      obtain k s1 where k: "select_key (generation (s_cfg s) (tr_counter t)) now s = (k, s1)" by fastforce
      then have "s_replay s1 = s_replay s" using select_key_state [OF k] by auto
      moreover assume "fst (open_packet (tr_counter t) ad ct m now s) \<noteq> None"
      ultimately show False using rej k
        by (auto simp: open_packet_def Let_def split: option.splits prod.splits bool.splits)
    qed
    then show ?thesis using open_packet_None same by (metis prod.collapse)
  qed
  then have "\<exists>j. open_packet (tr_counter t) ad (tr_ciphertext t) (length (tr_ciphertext t)) now s
      = (None, s\<lparr>s_next_far_jump := j\<rparr>)" for ad
    by (simp add: prod_eq_iff conj_commute)
  from this [of "if ty = MT_Close then [MT_Close] else []"] same p show ?thesis
    by (cases "ty = MT_Close") (auto simp: on_datagram_parsed)
qed

text \<open>A closed session stays closed and silent.\<close>

lemma closed_final:
  assumes "s_state s = Closed"
  shows "s_state (sess_step op s) = Closed" "s_send_counter (sess_step op s) = s_send_counter s"
    "set (s_out (sess_step op s)) \<subseteq> set (s_out s)" "set (s_events (sess_step op s)) \<subseteq> set (s_events s)"
  using assms
  by (cases op; auto simp: on_datagram_parsed sess_on_timeout_def sess_send_def send_packet_def set_path_def
      configure_rekey_shift_def sess_close_def close_with_cause_def close_with_notice_def
      sess_poll_transmit_def sess_poll_event_def split: list.splits)+

end
