(* ===== verification/Tcp_Session.thy ===== *)
theory Tcp_Session
  imports Session
begin

text \<open>
  The sealed record channel over TCP, \<^verbatim>\<open>src/session/tcp_session.*\<close>: the handshake frames, the hello of a
  responder that dialed, sealed records with a key ratchet, teardown, timers, and the derivation of
  the datagram channel's keys. The curve and the random bytes a call draws are arguments.
\<close>

section \<open>Data\<close>

definition kAttemptLen :: nat where "kAttemptLen = 16"

record TcpSessionConfig =
  tc_keepalive :: duration
  tc_idle_timeout :: duration
  tc_handshake_timeout :: duration
  tc_max_record :: nat
  tc_rekey_every :: u64

definition TcpSessionConfig_default :: TcpSessionConfig where
  "TcpSessionConfig_default = \<lparr>tc_keepalive = 20000, tc_idle_timeout = 90000,
     tc_handshake_timeout = 10000, tc_max_record = 2 ^ 20, tc_rekey_every = 2 ^ 20\<rparr>"

datatype TcpEvent =
    TEstablished
  | TRecord byte bytes
  | TClosed CloseCause u16

datatype TcpState = THandshaking | TcpEstablished | TcpClosed

definition kFirstUserKind :: byte where "kFirstUserKind = 0x10"
definition kHelloLen :: nat where "kHelloLen = 2 + kAttemptLen"
definition max_datagram_epoch_skip :: u64 where "max_datagram_epoch_skip = 64"
definition kPrologueTag :: string where "kPrologueTag = ''uconnect:v4:tcp''"
definition kKeepalive :: byte where "kKeepalive = 0x01"
definition kClose :: byte where "kClose = 0x02"
definition kMaxHandshakeFrame :: nat where "kMaxHandshakeFrame = 512"
definition kHello0 :: byte where "kHello0 = 0x55"
definition kHello1 :: byte where "kHello1 = 0x43"
definition kInitPadding :: nat where "kInitPadding = 16"

lemmas tcp_consts = kAttemptLen_def kFirstUserKind_def kHelloLen_def max_datagram_epoch_skip_def
  kKeepalive_def kClose_def kMaxHandshakeFrame_def kHello0_def kHello1_def kInitPadding_def

definition put_u16 :: "nat \<Rightarrow> bytes" where
  "put_u16 n = [ucast (drop_bit 8 (of_nat n :: u64)), ucast (of_nat n :: u64)]"

definition put_u32 :: "nat \<Rightarrow> bytes" where
  "put_u32 n = map (\<lambda>k. ucast (drop_bit k (of_nat n :: u64))) [24, 16, 8, 0]"

definition get_u16 :: "bytes \<Rightarrow> nat" where
  "get_u16 v = unat (push_bit 8 (ucast (v ! 0)) OR ucast (v ! 1) :: u64)"

definition get_u32 :: "bytes \<Rightarrow> nat" where
  "get_u32 v = unat (push_bit 24 (ucast (v ! 0)) OR push_bit 16 (ucast (v ! 1))
     OR push_bit 8 (ucast (v ! 2)) OR ucast (v ! 3) :: u64)"

record TcpSession =
  t_cfg :: TcpSessionConfig
  t_initiator :: bool
  t_self :: DevId
  t_peer :: DevId
  t_attempt :: bytes
  t_state :: TcpState
  t_hs :: "HandshakeState option"
  t_send_cs :: CipherState
  t_recv_cs :: CipherState
  t_sent_records :: u64
  t_recv_records :: u64
  t_handshake_hash :: bytes
  t_exported :: bytes
  t_next_datagram_epoch :: u64
  t_in :: bytes
  t_out :: bytes
  t_events :: "TcpEvent list"
  t_started :: instant
  t_last_recv :: instant
  t_last_sent :: instant

definition TcpSession_new :: "TcpSessionConfig \<Rightarrow> bool \<Rightarrow> DevId \<Rightarrow> DevId \<Rightarrow> instant \<Rightarrow> TcpSession" where
  "TcpSession_new cfg initiator self peer now = \<lparr>t_cfg = cfg, t_initiator = initiator, t_self = self,
     t_peer = peer, t_attempt = replicate kAttemptLen 0, t_state = THandshaking, t_hs = None,
     t_send_cs = CipherState_empty, t_recv_cs = CipherState_empty, t_sent_records = 0, t_recv_records = 0,
     t_handshake_hash = replicate kHashLen 0, t_exported = replicate kHashLen 0, t_next_datagram_epoch = 0,
     t_in = [], t_out = [], t_events = [], t_started = now, t_last_recv = now, t_last_sent = now\<rparr>"

section \<open>Ending\<close>

definition tcp_fail :: "CloseCause \<Rightarrow> instant \<Rightarrow> TcpSession \<Rightarrow> TcpSession" where
  "tcp_fail cause now s =
     (if t_state s = TcpClosed then s
      else s\<lparr>t_state := TcpClosed, t_exported := replicate kHashLen 0, t_hs := None,
             t_send_cs := cs_clear (t_send_cs s), t_recv_cs := cs_clear (t_recv_cs s), t_in := [],
             t_events := t_events s @ [TClosed cause 0]\<rparr>)"

definition on_eof :: "instant \<Rightarrow> TcpSession \<Rightarrow> TcpSession" where
  "on_eof now s = (if t_state s \<noteq> TcpClosed then tcp_fail TimedOut now s else s)"

section \<open>Opening\<close>

definition tcp_prologue :: "TopicId \<Rightarrow> byte \<Rightarrow> bytes \<Rightarrow> bytes" where
  "tcp_prologue topic key_epoch attempt = bytes_of_string kPrologueTag @ topic @ [key_epoch] @ attempt"

text \<open>\<open>sk\<close> is the secret and \<open>padding\<close> the 16 bytes the random source returns.\<close>

definition tcp_initiate ::
  "(bytes \<Rightarrow> bytes \<Rightarrow> bytes) \<Rightarrow> (bytes \<Rightarrow> bytes) \<Rightarrow> bytes \<Rightarrow> bytes \<Rightarrow> TcpSessionConfig \<Rightarrow> TopicId \<Rightarrow> byte \<Rightarrow>
     bytes option \<Rightarrow> DevId \<Rightarrow> DevId \<Rightarrow> bytes \<Rightarrow> instant \<Rightarrow> TcpSession" where
  "tcp_initiate curve base sk padding cfg topic key_epoch psk self peer attempt now =
     (let s = (TcpSession_new cfg True self peer now)\<lparr>t_attempt := attempt\<rparr>;
          hs = HandshakeState_new (if psk \<noteq> None then NNpsk0 else NN) True
                 (tcp_prologue topic key_epoch attempt) psk;
          payload = self @ padding
      in case write_message curve base sk payload 256 hs of
           (None, hs) \<Rightarrow> tcp_fail Local now (s\<lparr>t_hs := Some hs\<rparr>)
         | (Some msg, hs) \<Rightarrow>
             s\<lparr>t_hs := Some hs, t_out := put_u16 (kAttemptLen + length msg) @ attempt @ msg\<rparr>)"

definition tcp_respond ::
  "TcpSessionConfig \<Rightarrow> TopicId \<Rightarrow> byte \<Rightarrow> bytes option \<Rightarrow> DevId \<Rightarrow> DevId \<Rightarrow> bytes \<Rightarrow> instant \<Rightarrow> TcpSession" where
  "tcp_respond cfg topic key_epoch psk self peer attempt now =
     (TcpSession_new cfg False self peer now)\<lparr>t_attempt := attempt,
        t_hs := Some (HandshakeState_new (if psk \<noteq> None then NNpsk0 else NN) False
          (tcp_prologue topic key_epoch attempt) psk)\<rparr>"

definition hello :: "bytes \<Rightarrow> bytes" where
  "hello attempt = [kHello0, kHello1] @ attempt"

definition peek_hello :: "bytes \<Rightarrow> bytes option" where
  "peek_hello received =
     (if length received < kHelloLen \<or> received ! 0 \<noteq> kHello0 \<or> received ! 1 \<noteq> kHello1 then None
      else Some (take kAttemptLen (drop 2 received)))"

definition peek_attempt :: "bytes \<Rightarrow> bytes option" where
  "peek_attempt received =
     (if length received < 2 + kAttemptLen then None
      else let len = get_u16 received in
        if len < kAttemptLen \<or> len > kMaxHandshakeFrame then None
        else Some (take kAttemptLen (drop 2 received)))"

section \<open>Receiving\<close>

definition tcp_finish :: "Split \<Rightarrow> instant \<Rightarrow> TcpSession \<Rightarrow> TcpSession" where
  "tcp_finish sp now s =
     s\<lparr>t_send_cs := sp_send sp, t_recv_cs := sp_recv sp, t_handshake_hash := sp_handshake_hash sp,
       t_exported := sp_exported sp, t_hs := None, t_state := TcpEstablished, t_last_recv := now,
       t_last_sent := now, t_events := t_events s @ [TEstablished]\<rparr>"

definition handle_record :: "bytes \<Rightarrow> instant \<Rightarrow> TcpSession \<Rightarrow> TcpSession" where
  "handle_record plain now s =
     (case plain of [] \<Rightarrow> s
      | kind # body \<Rightarrow>
          if kind = kKeepalive then s
          else if kind = kClose then
            (let reason = (if length body \<ge> 2 then push_bit 8 (ucast (body ! 0)) OR ucast (body ! 1) else 0)
             in s\<lparr>t_state := TcpClosed, t_exported := replicate kHashLen 0, t_send_cs := cs_clear (t_send_cs s),
                  t_recv_cs := cs_clear (t_recv_cs s), t_events := t_events s @ [TClosed PeerNotice reason]\<rparr>)
          else if kind < kFirstUserKind then s
          else s\<lparr>t_events := t_events s @ [TRecord kind body]\<rparr>)"

text \<open>
  One turn of the loop of \<^verbatim>\<open>on_bytes\<close>: true when it goes on to the next, false when it returns. The
  handshake frame and the record are handled by the two definitions before it.
\<close>

definition handshake_frame ::
  "(bytes \<Rightarrow> bytes \<Rightarrow> bytes) \<Rightarrow> (bytes \<Rightarrow> bytes) \<Rightarrow> bytes \<Rightarrow> bytes \<Rightarrow> HandshakeState \<Rightarrow> instant \<Rightarrow>
     TcpSession \<Rightarrow> bool \<times> TcpSession" where
  "handshake_frame curve base sk frame hs now s =
     (if \<not> t_initiator s then
        (if take kAttemptLen frame \<noteq> t_attempt s then (False, tcp_fail Local now s)
         else case read_message curve (drop kAttemptLen frame) 256 hs of
             (None, hs) \<Rightarrow> (False, tcp_fail Local now (s\<lparr>t_hs := Some hs\<rparr>))
           | (Some payload, hs) \<Rightarrow>
               if length payload < kDevIdLen \<or> take kDevIdLen payload \<noteq> t_peer s
               then (False, tcp_fail Local now (s\<lparr>t_hs := Some hs\<rparr>))
               else (case write_message curve base sk (t_self s) 256 hs of
                   (None, hs) \<Rightarrow> (False, tcp_fail Local now (s\<lparr>t_hs := Some hs\<rparr>))
                 | (Some msg, hs) \<Rightarrow>
                     (True, tcp_finish (fst (hs_split hs)) now
                       (s\<lparr>t_out := t_out s @ put_u16 (length msg) @ msg\<rparr>))))
      else
        (case read_message curve frame 256 hs of
           (None, hs) \<Rightarrow> (False, tcp_fail Local now (s\<lparr>t_hs := Some hs\<rparr>))
         | (Some payload, hs) \<Rightarrow>
             if length payload < kDevIdLen \<or> take kDevIdLen payload \<noteq> t_peer s
             then (False, tcp_fail Local now (s\<lparr>t_hs := Some hs\<rparr>))
             else (True, tcp_finish (fst (hs_split hs)) now s)))"

definition sealed_record :: "bytes \<Rightarrow> instant \<Rightarrow> TcpSession \<Rightarrow> bool \<times> TcpSession" where
  "sealed_record ct now s =
     (case decrypt_with_ad [] ct (length ct - kTagLen) (t_recv_cs s) of
        (None, cs) \<Rightarrow> (False, tcp_fail Local now (s\<lparr>t_recv_cs := cs\<rparr>))
      | (Some plain, cs) \<Rightarrow>
          (let s = s\<lparr>t_recv_cs := cs, t_recv_records := t_recv_records s + 1\<rparr>;
               s = (if t_recv_records s mod tc_rekey_every (t_cfg s) = 0
                    then s\<lparr>t_recv_cs := rekey (t_recv_cs s)\<rparr> else s)
           in (True, handle_record plain now (s\<lparr>t_last_recv := now\<rparr>))))"

definition tcp_turn ::
  "(bytes \<Rightarrow> bytes \<Rightarrow> bytes) \<Rightarrow> (bytes \<Rightarrow> bytes) \<Rightarrow> bytes \<Rightarrow> instant \<Rightarrow> TcpSession \<Rightarrow> bool \<times> TcpSession" where
  "tcp_turn curve base sk now s =
     (case (t_state s, t_hs s) of
        (THandshaking, Some hs) \<Rightarrow>
          if t_initiator s \<and> t_in s \<noteq> [] \<and> t_in s ! 0 = kHello0 then
            (if length (t_in s) < kHelloLen then (False, s)
             else if peek_hello (t_in s) = None then (False, tcp_fail Local now s)
             else (True, s\<lparr>t_in := drop kHelloLen (t_in s)\<rparr>))
          else if length (t_in s) < 2 then (False, s)
          else let len = get_u16 (t_in s) in
            if len > kMaxHandshakeFrame \<or> (\<not> t_initiator s \<and> len < kAttemptLen)
            then (False, tcp_fail Local now s)
            else if length (t_in s) < 2 + len then (False, s)
            else handshake_frame curve base sk (take len (drop 2 (t_in s))) hs now
                   (s\<lparr>t_in := drop (2 + len) (t_in s)\<rparr>)
      | (TcpEstablished, _) \<Rightarrow>
          if length (t_in s) < 4 then (False, s)
          else let len = get_u32 (t_in s) in
            if len < 1 + kTagLen \<or> len > tc_max_record (t_cfg s) + 1 + kTagLen
            then (False, tcp_fail Local now s)
            else if length (t_in s) < 4 + len then (False, s)
            else sealed_record (take len (drop 4 (t_in s))) now (s\<lparr>t_in := drop (4 + len) (t_in s)\<rparr>)
      | _ \<Rightarrow> (False, s))"

lemma handle_record_in [simp]: "t_in (handle_record p now s) = t_in s"
  by (simp add: handle_record_def Let_def split: list.splits)

lemma tcp_turn_shrinks: "tcp_turn curve base sk now s = (True, s') \<Longrightarrow> length (t_in s') < length (t_in s)"
  by (auto simp: tcp_turn_def handshake_frame_def sealed_record_def tcp_finish_def Let_def tcp_consts
      split: TcpState.splits option.splits if_splits prod.splits)

function tcp_loop ::
  "(bytes \<Rightarrow> bytes \<Rightarrow> bytes) \<Rightarrow> (bytes \<Rightarrow> bytes) \<Rightarrow> bytes \<Rightarrow> instant \<Rightarrow> TcpSession \<Rightarrow> TcpSession" where
  "tcp_loop curve base sk now s =
     (case tcp_turn curve base sk now s of
        (True, s') \<Rightarrow> tcp_loop curve base sk now s'
      | (False, s') \<Rightarrow> s')"
  by pat_completeness auto
termination
  by (relation "measure (\<lambda>(curve, base, sk, now, s). length (t_in s))") (auto dest: tcp_turn_shrinks [OF sym])

declare tcp_loop.simps [simp del]

definition on_bytes ::
  "(bytes \<Rightarrow> bytes \<Rightarrow> bytes) \<Rightarrow> (bytes \<Rightarrow> bytes) \<Rightarrow> bytes \<Rightarrow> bytes \<Rightarrow> instant \<Rightarrow> TcpSession \<Rightarrow> TcpSession" where
  "on_bytes curve base sk bs now s =
     (if t_state s = TcpClosed then s else tcp_loop curve base sk now (s\<lparr>t_in := t_in s @ bs\<rparr>))"

section \<open>Sending\<close>

definition seal :: "byte \<Rightarrow> bytes \<Rightarrow> TcpSession \<Rightarrow> TcpSession" where
  "seal kind body s =
     (case encrypt_with_ad [] (kind # body) (t_send_cs s) of (ct, cs) \<Rightarrow>
        (let s = s\<lparr>t_send_cs := cs, t_out := t_out s @ put_u32 (length ct) @ ct,
                   t_sent_records := t_sent_records s + 1\<rparr>
         in if t_sent_records s mod tc_rekey_every (t_cfg s) = 0
            then s\<lparr>t_send_cs := rekey (t_send_cs s)\<rparr> else s))"

definition tcp_send :: "byte \<Rightarrow> bytes \<Rightarrow> instant \<Rightarrow> TcpSession \<Rightarrow> bool \<times> TcpSession" where
  "tcp_send kind body now s =
     (if t_state s \<noteq> TcpEstablished \<or> kind < kFirstUserKind \<or> length body > tc_max_record (t_cfg s)
      then (False, s)
      else (True, (seal kind body s)\<lparr>t_last_sent := now\<rparr>))"

definition tcp_close :: "u16 \<Rightarrow> instant \<Rightarrow> TcpSession \<Rightarrow> TcpSession" where
  "tcp_close reason now s =
     (if t_state s = TcpClosed then s
      else let s = (if t_state s = TcpEstablished
                    then seal kClose [ucast (drop_bit 8 reason), ucast reason] s else s)
           in s\<lparr>t_state := TcpClosed, t_hs := None, t_exported := replicate kHashLen 0,
                t_send_cs := cs_clear (t_send_cs s), t_recv_cs := cs_clear (t_recv_cs s),
                t_events := t_events s @ [TClosed Local 0]\<rparr>)"

definition tcp_keepalive :: "instant \<Rightarrow> TcpSession \<Rightarrow> TcpSession" where
  "tcp_keepalive now s =
     (if t_state s \<noteq> TcpEstablished then s else (seal kKeepalive [] s)\<lparr>t_last_sent := now\<rparr>)"

section \<open>Timers and polling\<close>

definition tcp_on_timeout :: "instant \<Rightarrow> TcpSession \<Rightarrow> TcpSession" where
  "tcp_on_timeout now s =
     (if t_state s = THandshaking then
        (if now - t_started s \<ge> tc_handshake_timeout (t_cfg s) then tcp_fail TimedOut now s else s)
      else if t_state s \<noteq> TcpEstablished then s
      else if now - t_last_recv s \<ge> tc_idle_timeout (t_cfg s) then tcp_fail TimedOut now s
      else if now - t_last_sent s \<ge> tc_keepalive (t_cfg s)
           then (seal kKeepalive [] s)\<lparr>t_last_sent := now\<rparr>
      else s)"

definition tcp_next_timeout :: "TcpSession \<Rightarrow> instant option" where
  "tcp_next_timeout s = (case t_state s of
       THandshaking \<Rightarrow> Some (t_started s + tc_handshake_timeout (t_cfg s))
     | TcpEstablished \<Rightarrow>
         let idle = t_last_recv s + tc_idle_timeout (t_cfg s); ka = t_last_sent s + tc_keepalive (t_cfg s)
         in Some (if idle < ka then idle else ka)
     | TcpClosed \<Rightarrow> None)"

definition take_output :: "TcpSession \<Rightarrow> bytes \<times> TcpSession" where
  "take_output s = (t_out s, s\<lparr>t_out := []\<rparr>)"

definition tcp_poll_event :: "TcpSession \<Rightarrow> TcpEvent option \<times> TcpSession" where
  "tcp_poll_event s = (case t_events s of [] \<Rightarrow> (None, s) | e # es \<Rightarrow> (Some e, s\<lparr>t_events := es\<rparr>))"

section \<open>Datagram keys\<close>

record DatagramKeys =
  dk_send :: bytes
  dk_recv :: bytes
  dk_probe :: bytes
  dk_conn_id :: u32

definition advance_epoch :: "bytes \<times> u64 \<Rightarrow> bytes \<times> u64" where
  "advance_epoch ex = (case ex of (exported, n) \<Rightarrow> (hkdf exported [] ''uconnect:v3:udp:next'' kHashLen, n + 1))"

function skip_epochs :: "u64 \<Rightarrow> bytes \<times> u64 \<Rightarrow> bytes \<times> u64" where
  "skip_epochs epoch (exported, n) =
     (if n < epoch then skip_epochs epoch (advance_epoch (exported, n)) else (exported, n))"
  by pat_completeness auto
termination
  by (relation "measure (\<lambda>(epoch, exported, n). unat epoch - unat n)")
    (auto simp: advance_epoch_def unat_Suc_less word_less_nat_alt)

declare skip_epochs.simps [simp del]

definition derive_keys :: "bool \<Rightarrow> bytes \<Rightarrow> u32 \<Rightarrow> DatagramKeys" where
  "derive_keys initiator exported epoch =
     (let salt = map (\<lambda>k. ucast (drop_bit k epoch)) [24, 16, 8, 0];
          i2r = hkdf exported salt ''uconnect:v2:udp:i2r'' kKeyLen;
          r2i = hkdf exported salt ''uconnect:v2:udp:r2i'' kKeyLen;
          id = hkdf exported salt ''uconnect:v2:udp:conn'' 4
      in \<lparr>dk_send = (if initiator then i2r else r2i), dk_recv = (if initiator then r2i else i2r),
          dk_probe = hkdf exported salt ''uconnect:v2:udp:probe'' kKeyLen,
          dk_conn_id = push_bit 24 (ucast (id ! 0)) OR push_bit 16 (ucast (id ! 1))
            OR push_bit 8 (ucast (id ! 2)) OR ucast (id ! 3)\<rparr>)"

definition datagram_keys :: "u32 \<Rightarrow> TcpSession \<Rightarrow> DatagramKeys option \<times> TcpSession" where
  "datagram_keys epoch s =
     (if t_state s \<noteq> TcpEstablished \<or> ucast epoch < t_next_datagram_epoch s
        \<or> ucast epoch - t_next_datagram_epoch s > max_datagram_epoch_skip
      then (None, s)
      else case skip_epochs (ucast epoch) (t_exported s, t_next_datagram_epoch s) of (exported, n) \<Rightarrow>
        (case advance_epoch (exported, n) of (exported', n') \<Rightarrow>
           (Some (derive_keys (t_initiator s) exported epoch),
            s\<lparr>t_exported := exported', t_next_datagram_epoch := n'\<rparr>)))"

end
