(* ===== verification/Tcp_Laws.thy ===== *)
theory Tcp_Laws
  imports Tcp_Session
begin

text \<open>
  Laws of the record channel: the length prefixes invert, the session does not depend on how the
  socket cuts the stream, a handshake between matching ends establishes both with mirrored keys,
  every record sent is delivered once and in order across key ratchets, and an epoch of datagram
  keys is handed out at most once, the same on both ends.
\<close>

section \<open>Length prefixes\<close>

lemma get_put_u16: "n < 2 ^ 16 \<Longrightarrow> get_u16 (put_u16 n @ x) = n"
proof -
  assume n: "n < 2 ^ 16"
  let ?v = "of_nat n :: u64"
  have u: "unat ?v = n" using n by (intro unat_of_nat_small) simp
  have "push_bit 8 (ucast (ucast (drop_bit 8 ?v) :: byte)) OR ucast (ucast ?v :: byte) = ?v"
    using lt_exp_bit [of ?v 16] n u by (intro bit_word_eqI) (fastforce simp: bit_simps)
  then show ?thesis using u by (simp add: get_u16_def put_u16_def)
qed

lemma get_put_u32: "n < 2 ^ 32 \<Longrightarrow> get_u32 (put_u32 n @ x) = n"
proof -
  assume n: "n < 2 ^ 32"
  let ?v = "of_nat n :: u64"
  have u: "unat ?v = n" using n by (intro unat_of_nat_small) simp
  have "push_bit 24 (ucast (ucast (drop_bit 24 ?v) :: byte)) OR push_bit 16 (ucast (ucast (drop_bit 16 ?v) :: byte))
      OR push_bit 8 (ucast (ucast (drop_bit 8 ?v) :: byte)) OR ucast (ucast ?v :: byte) = ?v"
    using lt_exp_bit [of ?v 32] n u by (intro bit_word_eqI) (fastforce simp: bit_simps)
  then show ?thesis using u by (simp add: get_u32_def put_u32_def)
qed

lemma length_put [simp]: "length (put_u16 n) = 2" "length (put_u32 n) = 4"
  by (simp_all add: put_u16_def put_u32_def)

lemma get_append: "length v \<ge> 2 \<Longrightarrow> get_u16 (v @ y) = get_u16 v" "length v \<ge> 4 \<Longrightarrow> get_u32 (v @ y) = get_u32 v"
  by (auto simp: get_u16_def get_u32_def nth_append)

section \<open>Segmentation\<close>

definition more_in :: "bytes \<Rightarrow> TcpSession \<Rightarrow> TcpSession" where
  "more_in y s = s\<lparr>t_in := t_in s @ y\<rparr>"

lemma tcp_fail_more: "t_state s \<noteq> TcpClosed \<Longrightarrow> tcp_fail c now (more_in y s) = tcp_fail c now s"
  by (simp add: tcp_fail_def more_in_def)

lemma tcp_fail_in: "t_state s \<noteq> TcpClosed \<Longrightarrow> tcp_fail c now (s\<lparr>t_in := z\<rparr>) = tcp_fail c now s"
  by (simp add: tcp_fail_def)

lemma tcp_fail_closed [simp]: "t_state (tcp_fail c now s) = TcpClosed"
  by (simp add: tcp_fail_def)

lemma handle_record_more: "handle_record p now (s\<lparr>t_in := z\<rparr>) = (handle_record p now s)\<lparr>t_in := z\<rparr>"
  by (simp add: handle_record_def Let_def split: list.splits)

lemma handshake_frame_more:
  assumes "t_state s \<noteq> TcpClosed"
  shows "handshake_frame curve base sk f hs now (s\<lparr>t_in := z\<rparr>) =
    (case handshake_frame curve base sk f hs now s of
       (True, s') \<Rightarrow> (True, s'\<lparr>t_in := z\<rparr>) | (False, s') \<Rightarrow> (False, s'))"
  using assms by (simp add: handshake_frame_def tcp_finish_def tcp_fail_def split: prod.splits option.splits)

lemma sealed_record_more:
  assumes "t_state s \<noteq> TcpClosed"
  shows "sealed_record ct now (s\<lparr>t_in := z\<rparr>) =
    (case sealed_record ct now s of (True, s') \<Rightarrow> (True, s'\<lparr>t_in := z\<rparr>) | (False, s') \<Rightarrow> (False, s'))"
proof (cases "decrypt_with_ad [] ct (length ct - kTagLen) (t_recv_cs s)")
  case (Pair o' cs)
  show ?thesis
  proof (cases o')
    case (Some plain)
    let ?s0 = "s\<lparr>t_recv_cs := cs, t_recv_records := t_recv_records s + 1\<rparr>"
    let ?s = "(if t_recv_records ?s0 mod tc_rekey_every (t_cfg s) = 0
                then ?s0\<lparr>t_recv_cs := rekey cs\<rparr> else ?s0)\<lparr>t_last_recv := now\<rparr>"
    have "sealed_record ct now s = (True, handle_record plain now ?s)"
      using Pair Some by (simp add: sealed_record_def Let_def)
    moreover have "sealed_record ct now (s\<lparr>t_in := z\<rparr>) = (True, handle_record plain now (?s\<lparr>t_in := z\<rparr>))"
      using Pair Some by (cases s) (simp add: sealed_record_def Let_def)
    ultimately show ?thesis by (simp add: handle_record_more)
  qed (use Pair assms in \<open>simp add: sealed_record_def tcp_fail_def\<close>)
qed

lemma tcp_turn_True_more:
  assumes t: "tcp_turn curve base sk now s = (True, s')"
  shows "tcp_turn curve base sk now (more_in y s) = (True, more_in y s')"
proof (cases "t_state s")
  case THandshaking
  then obtain hs where hs: "t_hs s = Some hs"
    using t by (auto simp: tcp_turn_def split: option.splits)
  show ?thesis
  proof (cases "t_initiator s \<and> t_in s \<noteq> [] \<and> t_in s ! 0 = kHello0")
    case True
    then have l: "length (t_in s) \<ge> kHelloLen" "peek_hello (t_in s) \<noteq> None" "s' = s\<lparr>t_in := drop kHelloLen (t_in s)\<rparr>"
      using t THandshaking hs by (auto simp: tcp_turn_def split: if_splits)
    then have "peek_hello (t_in s @ y) \<noteq> None"
      by (auto simp: peek_hello_def tcp_consts nth_append split: if_splits)
    with True THandshaking hs l show ?thesis
      by (auto simp: tcp_turn_def more_in_def nth_append)
  next
    case False
    let ?len = "get_u16 (t_in s)"
    have l: "length (t_in s) \<ge> 2" "\<not> (?len > kMaxHandshakeFrame \<or> (\<not> t_initiator s \<and> ?len < kAttemptLen))"
      "length (t_in s) \<ge> 2 + ?len"
      and f: "handshake_frame curve base sk (take ?len (drop 2 (t_in s))) hs now (s\<lparr>t_in := drop (2 + ?len) (t_in s)\<rparr>) = (True, s')"
      using t THandshaking hs False by (auto simp: tcp_turn_def Let_def not_less split: if_splits)
    have ne: "t_in s \<noteq> []" using l(1) by auto
    let ?z = "drop (2 + ?len) (t_in s)"
    have "handshake_frame curve base sk (take ?len (drop 2 (t_in s))) hs now (s\<lparr>t_in := ?z @ y\<rparr>) = (True, s'\<lparr>t_in := ?z @ y\<rparr>)"
      and "t_in s' = ?z"
      using f handshake_frame_more [of s curve base sk "take ?len (drop 2 (t_in s))" hs now] THandshaking
      by (auto split: prod.splits bool.splits)
    with False THandshaking hs l ne show ?thesis
      by (auto simp: tcp_turn_def more_in_def nth_append get_append Let_def)
  qed
next
  case TcpEstablished
  let ?len = "get_u32 (t_in s)"
  have l: "length (t_in s) \<ge> 4" "\<not> (?len < 1 + kTagLen \<or> ?len > tc_max_record (t_cfg s) + 1 + kTagLen)"
    "length (t_in s) \<ge> 4 + ?len"
    and f: "sealed_record (take ?len (drop 4 (t_in s))) now (s\<lparr>t_in := drop (4 + ?len) (t_in s)\<rparr>) = (True, s')"
    using t TcpEstablished by (auto simp: tcp_turn_def Let_def not_less split: if_splits)
  let ?z = "drop (4 + ?len) (t_in s)"
  have "sealed_record (take ?len (drop 4 (t_in s))) now (s\<lparr>t_in := ?z @ y\<rparr>) = (True, s'\<lparr>t_in := ?z @ y\<rparr>)"
    and "t_in s' = ?z"
    using f sealed_record_more [of s "take ?len (drop 4 (t_in s))" now] TcpEstablished
    by (auto split: prod.splits bool.splits)
  with TcpEstablished l show ?thesis
    by (auto simp: tcp_turn_def more_in_def get_append Let_def)
qed (use t in \<open>simp add: tcp_turn_def\<close>)

lemma tcp_turn_False_more:
  assumes t: "tcp_turn curve base sk now s = (False, s')" and ne: "s' \<noteq> s"
  shows "tcp_turn curve base sk now (more_in y s) = (False, s') \<and> t_state s' = TcpClosed"
proof (cases "t_state s")
  case THandshaking
  then obtain hs where hs: "t_hs s = Some hs"
    using t ne by (auto simp: tcp_turn_def split: option.splits)
  have nc: "t_state s \<noteq> TcpClosed" using THandshaking by simp
  show ?thesis
  proof (cases "t_initiator s \<and> t_in s \<noteq> [] \<and> t_in s ! 0 = kHello0")
    case True
    then have l: "length (t_in s) \<ge> kHelloLen" "peek_hello (t_in s) = None" "s' = tcp_fail Local now s"
      using t ne THandshaking hs by (auto simp: tcp_turn_def split: if_splits)
    then have "peek_hello (t_in s @ y) = None"
      by (auto simp: peek_hello_def tcp_consts nth_append split: if_splits)
    with True THandshaking hs l show ?thesis
      by (auto simp: tcp_turn_def more_in_def nth_append tcp_fail_in)
  next
    case False
    let ?len = "get_u16 (t_in s)"
    let ?bad = "?len > kMaxHandshakeFrame \<or> (\<not> t_initiator s \<and> ?len < kAttemptLen)"
    have l: "length (t_in s) \<ge> 2" using t ne THandshaking hs False by (auto simp: tcp_turn_def split: if_splits)
    then have ne': "t_in s \<noteq> []" by auto
    show ?thesis
    proof (cases ?bad)
      case bad: True
      then have "s' = tcp_fail Local now s"
        using t l THandshaking hs False by (auto simp: tcp_turn_def Let_def)
      with False THandshaking hs l ne' bad show ?thesis
        by (auto simp: tcp_turn_def more_in_def nth_append get_append Let_def tcp_fail_in)
    next
      case ok: False
      let ?z = "drop (2 + ?len) (t_in s)"
      have len: "length (t_in s) \<ge> 2 + ?len"
        and f: "handshake_frame curve base sk (take ?len (drop 2 (t_in s))) hs now (s\<lparr>t_in := ?z\<rparr>) = (False, s')"
        using t ne l ok THandshaking hs False by (auto simp: tcp_turn_def Let_def not_less split: if_splits)
      have "handshake_frame curve base sk (take ?len (drop 2 (t_in s))) hs now (s\<lparr>t_in := ?z @ y\<rparr>) = (False, s')"
        using f handshake_frame_more [OF nc, of curve base sk "take ?len (drop 2 (t_in s))" hs now]
        by (auto split: prod.splits bool.splits)
      moreover have "t_state s' = TcpClosed"
        using f by (auto simp: handshake_frame_def split: if_splits prod.splits option.splits)
      ultimately show ?thesis using False THandshaking hs l ne' ok len
        by (auto simp: tcp_turn_def more_in_def nth_append get_append Let_def)
    qed
  qed
next
  case TcpEstablished
  have nc: "t_state s \<noteq> TcpClosed" using TcpEstablished by simp
  let ?len = "get_u32 (t_in s)"
  let ?bad = "?len < 1 + kTagLen \<or> ?len > tc_max_record (t_cfg s) + 1 + kTagLen"
  have l: "length (t_in s) \<ge> 4" using t ne TcpEstablished by (auto simp: tcp_turn_def split: if_splits)
  show ?thesis
  proof (cases ?bad)
    case True
    then have "s' = tcp_fail Local now s" using t l TcpEstablished by (auto simp: tcp_turn_def Let_def)
    with TcpEstablished l True show ?thesis
      by (auto simp: tcp_turn_def more_in_def get_append Let_def tcp_fail_in)
  next
    case False
    let ?z = "drop (4 + ?len) (t_in s)"
    have len: "length (t_in s) \<ge> 4 + ?len"
      and f: "sealed_record (take ?len (drop 4 (t_in s))) now (s\<lparr>t_in := ?z\<rparr>) = (False, s')"
      using t ne l False TcpEstablished by (auto simp: tcp_turn_def Let_def not_less split: if_splits)
    have "sealed_record (take ?len (drop 4 (t_in s))) now (s\<lparr>t_in := ?z @ y\<rparr>) = (False, s')"
      using f sealed_record_more [OF nc, of "take ?len (drop 4 (t_in s))" now]
      by (auto split: prod.splits bool.splits)
    moreover have "t_state s' = TcpClosed"
      using f by (auto simp: sealed_record_def Let_def split: prod.splits option.splits)
    ultimately show ?thesis using TcpEstablished l False len
      by (auto simp: tcp_turn_def more_in_def get_append Let_def)
  qed
qed (use t ne in \<open>simp add: tcp_turn_def\<close>)

text \<open>What is left in the input buffer of a closed session is never read.\<close>

definition t_norm :: "TcpSession \<Rightarrow> TcpSession" where
  "t_norm s = (if t_state s = TcpClosed then s\<lparr>t_in := []\<rparr> else s)"

lemma tcp_loop_closed: "t_state s = TcpClosed \<Longrightarrow> tcp_loop curve base sk now s = s"
  by (simp add: tcp_loop.simps tcp_turn_def)

lemma tcp_loop_more:
  "t_norm (tcp_loop curve base sk now (more_in y s)) = t_norm (on_bytes curve base sk y now (tcp_loop curve base sk now s))"
proof (induction curve base sk now s rule: tcp_loop.induct)
  case (1 curve base sk now s)
  obtain b s' where t: "tcp_turn curve base sk now s = (b, s')" by fastforce
  show ?case
  proof (cases b)
    case True
    with t have t: "tcp_turn curve base sk now s = (True, s')" by simp
    from 1 [OF t [symmetric] refl] show ?thesis
      using tcp_turn_True_more [OF t, of y] t
      by (simp add: tcp_loop.simps [of _ _ _ _ s] tcp_loop.simps [of _ _ _ _ "more_in y s"])
  next
    case False
    with t have t: "tcp_turn curve base sk now s = (False, s')" by simp
    show ?thesis
    proof (cases "s' = s")
      case True
      with t have "tcp_loop curve base sk now s = s" by (simp add: tcp_loop.simps [of _ _ _ _ s])
      then show ?thesis
        by (cases "t_state s = TcpClosed")
          (simp_all add: on_bytes_def more_in_def t_norm_def tcp_loop_closed)
    next
      case ne: False
      with tcp_turn_False_more [OF t ne, of y] t show ?thesis
        by (simp add: tcp_loop.simps [of _ _ _ _ s] tcp_loop.simps [of _ _ _ _ "more_in y s"] on_bytes_def)
    qed
  qed
qed

lemma on_bytes_append:
  "t_norm (on_bytes curve base sk y now (on_bytes curve base sk x now s)) = t_norm (on_bytes curve base sk (x @ y) now s)"
  using tcp_loop_more [of curve base sk now y "more_in x s"]
  by (cases "t_state s = TcpClosed") (simp_all add: on_bytes_def more_in_def)

lemma on_bytes_norm:
  "t_norm a = t_norm b \<Longrightarrow> t_norm (on_bytes curve base sk y now a) = t_norm (on_bytes curve base sk y now b)"
proof -
  assume n: "t_norm a = t_norm b"
  moreover have "t_state (t_norm x) = t_state x" for x by (simp add: t_norm_def)
  ultimately have "t_state a = t_state b" by metis
  with n show ?thesis by (cases "t_state b = TcpClosed") (simp_all add: on_bytes_def t_norm_def)
qed

lemma on_bytes_chunks:
  "t_norm (fold (\<lambda>c. on_bytes curve base sk c now) cs (on_bytes curve base sk c now s)) =
     t_norm (on_bytes curve base sk (c @ concat cs) now s)"
proof (induction cs arbitrary: c)
  case (Cons d cs)
  have fold_norm: "t_norm a = t_norm b \<Longrightarrow> t_norm (fold (\<lambda>c. on_bytes curve base sk c now) xs a)
      = t_norm (fold (\<lambda>c. on_bytes curve base sk c now) xs b)" for a b xs
  proof (induction xs arbitrary: a b)
    case (Cons x xs)
    from Cons.IH [OF on_bytes_norm [OF Cons.prems, of curve base sk x now]] show ?case by simp
  qed simp
  show ?case using fold_norm [OF on_bytes_append [of curve base sk d now c s], of cs] Cons.IH [of "c @ d"] by simp
qed simp

section \<open>Records\<close>

text \<open>\<open>a\<close>'s sending half and \<open>b\<close>'s receiving half are at the same record under the same key.\<close>

definition paired :: "TcpSession \<Rightarrow> TcpSession \<Rightarrow> bool" where
  "paired a b \<longleftrightarrow> t_state a = TcpEstablished \<and> t_state b = TcpEstablished \<and> t_send_cs a = t_recv_cs b
     \<and> cs_has_key (t_send_cs a) \<and> t_sent_records a = t_recv_records b
     \<and> tc_rekey_every (t_cfg a) = tc_rekey_every (t_cfg b)
     \<and> tc_max_record (t_cfg a) = tc_max_record (t_cfg b) \<and> tc_max_record (t_cfg a) + 17 < 2 ^ 32"

definition record_frame :: "byte \<Rightarrow> bytes \<Rightarrow> TcpSession \<Rightarrow> bytes" where
  "record_frame kind body a = put_u32 (length body + 17)
     @ aead_seal (cs_key (t_send_cs a)) (cs_nonce (t_send_cs a)) [] (kind # body)"

lemma seal_spec:
  assumes "cs_has_key (t_send_cs a)"
  shows "t_out (seal kind body a) = t_out a @ record_frame kind body a"
    "t_state (seal kind body a) = t_state a" "t_cfg (seal kind body a) = t_cfg a"
    "t_sent_records (seal kind body a) = t_sent_records a + 1"
    "t_send_cs (seal kind body a) =
       (let cs = (t_send_cs a)\<lparr>cs_nonce := cs_nonce (t_send_cs a) + 1\<rparr>
        in if (t_sent_records a + 1) mod tc_rekey_every (t_cfg a) = 0 then rekey cs else cs)"
  using assms by (simp_all add: seal_def encrypt_with_ad_seal record_frame_def Let_def add.commute)

text \<open>The receiver takes a frame the sender's current state produced, and both are paired again.\<close>

definition received :: "byte \<Rightarrow> bytes \<Rightarrow> instant \<Rightarrow> TcpSession \<Rightarrow> TcpSession" where
  "received kind body now b = snd (sealed_record
     (aead_seal (cs_key (t_recv_cs b)) (cs_nonce (t_recv_cs b)) [] (kind # body)) now b)"

lemma received_spec:
  assumes "cs_has_key (t_recv_cs b)" "kind \<ge> kFirstUserKind"
  shows "t_state (received kind body now b) = t_state b" "t_cfg (received kind body now b) = t_cfg b"
    "t_in (received kind body now b) = t_in b"
    "t_recv_records (received kind body now b) = t_recv_records b + 1"
    "t_recv_cs (received kind body now b) =
       (let cs = (t_recv_cs b)\<lparr>cs_nonce := cs_nonce (t_recv_cs b) + 1\<rparr>
        in if (t_recv_records b + 1) mod tc_rekey_every (t_cfg b) = 0 then rekey cs else cs)"
    "t_events (received kind body now b) = t_events b @ [TRecord kind body]"
proof -
  have k: "kind \<noteq> kKeepalive" "kind \<noteq> kClose" "\<not> kind < kFirstUserKind"
    using assms(2) by (auto simp: tcp_consts word_le_nat_alt word_less_nat_alt)
  then show "t_state (received kind body now b) = t_state b" "t_cfg (received kind body now b) = t_cfg b"
    "t_in (received kind body now b) = t_in b"
    "t_recv_records (received kind body now b) = t_recv_records b + 1"
    "t_recv_cs (received kind body now b) =
       (let cs = (t_recv_cs b)\<lparr>cs_nonce := cs_nonce (t_recv_cs b) + 1\<rparr>
        in if (t_recv_records b + 1) mod tc_rekey_every (t_cfg b) = 0 then rekey cs else cs)"
    "t_events (received kind body now b) = t_events b @ [TRecord kind body]"
    using assms(1) by (simp_all add: received_def sealed_record_def decrypt_with_ad_open handle_record_def Let_def)
qed

lemma turn_record:
  assumes p: "paired a b" and k: "kind \<ge> kFirstUserKind" and l: "length body \<le> tc_max_record (t_cfg a)"
    and i: "t_in b = record_frame kind body a @ rest"
  shows "tcp_turn curve base sk now b = (True, (received kind body now b)\<lparr>t_in := rest\<rparr>)"
    and "paired (seal kind body a) ((received kind body now b)\<lparr>t_in := rest\<rparr>)"
proof -
  let ?ct = "aead_seal (cs_key (t_recv_cs b)) (cs_nonce (t_recv_cs b)) [] (kind # body)"
  have ct: "t_in b = put_u32 (length body + 17) @ ?ct @ rest"
    using i p by (simp add: record_frame_def paired_def)
  have u: "get_u32 (t_in b) = length body + 17"
    unfolding ct using p l by (intro get_put_u32) (simp add: paired_def)
  have split: "take (length body + 17) (drop 4 (t_in b)) = ?ct" "drop (4 + (length body + 17)) (t_in b) = rest"
    "length (t_in b) \<ge> 4 + (length body + 17)"
    unfolding ct by simp_all
  have key: "cs_has_key (t_recv_cs b)" using p by (auto simp: paired_def)
  have "fst (sealed_record ?ct now b)"
    using key by (simp add: sealed_record_def decrypt_with_ad_open Let_def)
  then have "sealed_record ?ct now b = (True, received kind body now b)"
    by (cases "sealed_record ?ct now b") (simp add: received_def)
  then have "sealed_record ?ct now (b\<lparr>t_in := rest\<rparr>) = (True, (received kind body now b)\<lparr>t_in := rest\<rparr>)"
    using sealed_record_more [of b ?ct now rest] p by (simp add: paired_def)
  with p l u split show "tcp_turn curve base sk now b = (True, (received kind body now b)\<lparr>t_in := rest\<rparr>)"
    by (simp add: tcp_turn_def paired_def Let_def)
  have keya: "cs_has_key (t_send_cs a)" using p by (auto simp: paired_def)
  have "t_send_cs (seal kind body a) = t_recv_cs (received kind body now b)"
    unfolding seal_spec(5) [OF keya] received_spec(5) [OF key k] using p by (simp only: paired_def)
  moreover have "cs_has_key (t_send_cs (seal kind body a))"
    unfolding seal_spec(5) [OF keya] using keya by (simp add: Let_def)
  ultimately show "paired (seal kind body a) ((received kind body now b)\<lparr>t_in := rest\<rparr>)"
    using p received_spec(1-4) [OF key k] seal_spec(2-4) [OF keya] by (simp add: paired_def)
qed

text \<open>A burst of records.\<close>

definition send_all :: "instant \<Rightarrow> (byte \<times> bytes) list \<Rightarrow> TcpSession \<Rightarrow> TcpSession" where
  "send_all now rs a = fold (\<lambda>(kind, body) a. snd (tcp_send kind body now a)) rs a"

definition sendable :: "TcpSession \<Rightarrow> byte \<times> bytes \<Rightarrow> bool" where
  "sendable a r \<longleftrightarrow> fst r \<ge> kFirstUserKind \<and> length (snd r) \<le> tc_max_record (t_cfg a)"

lemma tcp_send_fields:
  assumes "paired a b" "sendable a (kind, body)"
  shows "snd (tcp_send kind body now a) = (seal kind body a)\<lparr>t_last_sent := now\<rparr>"
  using assms by (auto simp: tcp_send_def paired_def sendable_def)

lemma records_delivered:
  assumes "paired a b" "list_all (sendable a) rs" "t_out a = []"
    and "t_in b = t_out (send_all now rs a) @ rest"
  shows "\<exists>b'. tcp_loop curve base sk now' b = tcp_loop curve base sk now' b' \<and> t_in b' = rest
    \<and> paired (send_all now rs a) b' \<and> t_events b' = t_events b @ map (\<lambda>(k, x). TRecord k x) rs"
  using assms
proof (induction rs arbitrary: a b)
  case Nil
  then show ?case by (intro exI [of _ b]) (simp add: send_all_def)
next
  case (Cons r rs)
  obtain kind body where r: "r = (kind, body)" by fastforce
  have s: "sendable a (kind, body)" using Cons.prems(2) r by simp
  have key: "cs_has_key (t_send_cs a)" using Cons.prems(1) by (auto simp: paired_def)
  define a1 where "a1 = (seal kind body a)\<lparr>t_last_sent := now\<rparr>"
  define a2 where "a2 = a1\<lparr>t_out := []\<rparr>"
  have a1: "send_all now (r # rs) a = send_all now rs a1"
    using tcp_send_fields [OF Cons.prems(1) s] by (simp add: send_all_def r a1_def)
  have out_mono: "send_all now xs (z\<lparr>t_out := p @ t_out z\<rparr>) = (send_all now xs z)\<lparr>t_out := p @ t_out (send_all now xs z)\<rparr>" for xs z p
  proof (induction xs arbitrary: z)
    case (Cons x xs)
    have "snd (tcp_send k y now (z\<lparr>t_out := p @ t_out z\<rparr>)) = (snd (tcp_send k y now z))\<lparr>t_out := p @ t_out (snd (tcp_send k y now z))\<rparr>" for k y
      by (simp add: tcp_send_def seal_def Let_def split: prod.splits)
    with Cons.IH show ?case by (simp add: send_all_def split: prod.splits)
  qed (simp add: send_all_def)
  have o1: "t_out a1 = record_frame kind body a" using seal_spec(1) [OF key] Cons.prems(3) by (simp add: a1_def)
  have "a1 = a2\<lparr>t_out := record_frame kind body a @ t_out a2\<rparr>" using o1 by (simp add: a2_def)
  then have sa: "send_all now rs a1 = (send_all now rs a2)\<lparr>t_out := record_frame kind body a @ t_out (send_all now rs a2)\<rparr>"
    using out_mono [of rs "record_frame kind body a" a2] by simp
  have inb: "t_in b = record_frame kind body a @ (t_out (send_all now rs a2) @ rest)"
    using Cons.prems(4) a1 sa by simp
  let ?b1 = "(received kind body now' b)\<lparr>t_in := t_out (send_all now rs a2) @ rest\<rparr>"
  have k: "kind \<ge> kFirstUserKind" "length body \<le> tc_max_record (t_cfg a)" using s by (auto simp: sendable_def)
  note t = turn_record [OF Cons.prems(1) k inb]
  have p2: "paired a2 ?b1" using t(2) [of now'] by (auto simp: paired_def a2_def a1_def)
  have cfg: "t_cfg a2 = t_cfg a" using seal_spec(3) [OF key] by (simp add: a2_def a1_def)
  then have "list_all (sendable a2) rs" using Cons.prems(2) by (simp add: sendable_def [abs_def])
  from Cons.IH [OF p2 this] obtain b' where b': "tcp_loop curve base sk now' ?b1 = tcp_loop curve base sk now' b'"
    "t_in b' = rest" "paired (send_all now rs a2) b'" "t_events b' = t_events ?b1 @ map (\<lambda>(k, x). TRecord k x) rs"
    by (auto simp: a2_def)
  have "tcp_loop curve base sk now' b = tcp_loop curve base sk now' ?b1"
    using t(1) [of curve base sk now'] by (simp add: tcp_loop.simps [of _ _ _ _ b])
  moreover have "paired (send_all now (r # rs) a) b'" using b'(3) a1 sa by (auto simp: paired_def)
  moreover have "t_events ?b1 = t_events b @ [TRecord kind body]"
  proof -
    have "cs_has_key (t_recv_cs b)" using Cons.prems(1) by (auto simp: paired_def)
    from received_spec(6) [OF this k(1)] show ?thesis by simp
  qed
  ultimately show ?case using b' r by auto
qed

section \<open>The handshake\<close>

text \<open>What the session needs of the curve and of the two drawn secrets.\<close>

definition dh_ok :: "(bytes \<Rightarrow> bytes \<Rightarrow> bytes) \<Rightarrow> (bytes \<Rightarrow> bytes) \<Rightarrow> bytes \<Rightarrow> bytes \<Rightarrow> bool" where
  "dh_ok curve base a b \<longleftrightarrow> curve a (base b) = curve b (base a) \<and> fst (x25519 curve b (base a))
     \<and> length (base a) = 32 \<and> length (base b) = 32"

lemma message_length:
  assumes "write_message curve base sk payload n hs = (Some msg, hs')" "length (base sk) = 32"
  shows "length msg \<le> length payload + 48" "length msg \<ge> 32"
proof -
  obtain w1 ct sy where w: "write_tokens curve base sk hs = (True, w1)"
    "encrypt_and_hash payload (hs_sym w1) = (ct, sy)" "msg = kp_pub (hs_e w1) @ ct"
    using write_message_Some [OF assms(1)] by metis
  have "hs_e w1 = KeyPair_from_secret base sk"
    using w(1) by (auto simp: write_tokens_def mix_dh_def Let_def split: if_splits prod.splits)
  with w(3) assms(2) have "length msg = 32 + length ct" by (simp add: KeyPair_from_secret_def)
  moreover have "length ct \<le> length payload + 16"
    using length_encrypt_and_hash [of payload "hs_sym w1"] w(2) by (simp split: if_splits)
  ultimately show "length msg \<le> length payload + 48" "length msg \<ge> 32" by simp_all
qed

lemma tcp_loop_established_idle:
  "t_state s = TcpEstablished \<Longrightarrow> t_in s = [] \<Longrightarrow> tcp_loop curve base sk now s = s"
  by (simp add: tcp_loop.simps tcp_turn_def)

lemma handshake_first:
  assumes dh: "dh_ok curve base a b" and len: "length self = 16" "length peer = 16" "length attempt = 16" "length pad = 16"
  shows "\<exists>msg1 msg2 i1 i2 r1 r2.
    write_message curve base a (self @ pad) 256 (HandshakeState_new p True prologue psk) = (Some msg1, i1)
    \<and> read_message curve msg1 256 (HandshakeState_new p False prologue psk) = (Some (self @ pad), r1)
    \<and> write_message curve base b peer 256 r1 = (Some msg2, r2)
    \<and> read_message curve msg2 256 i1 = (Some peer, i2)
    \<and> length msg1 \<le> 80 \<and> 32 \<le> length msg1 \<and> length msg2 \<le> 64 \<and> 32 \<le> length msg2
    \<and> sp_send (fst (hs_split i2)) = sp_recv (fst (hs_split r2))
    \<and> sp_recv (fst (hs_split i2)) = sp_send (fst (hs_split r2))
    \<and> sp_handshake_hash (fst (hs_split i2)) = sp_handshake_hash (fst (hs_split r2))
    \<and> sp_exported (fst (hs_split i2)) = sp_exported (fst (hs_split r2))"
proof -
  have d: "curve a (base b) = curve b (base a)" "fst (x25519 curve b (base a))" "length (base a) = 32" "length (base b) = 32"
    using dh by (auto simp: dh_ok_def)
  have sz: "length (self @ pad) + message_overhead p 0 \<le> 256" "length peer + message_overhead p 1 \<le> 256"
    "length (self @ pad) \<le> 256" "length peer \<le> 256"
    using len by (simp_all add: message_overhead_def)
  have ml: "length msg \<le> length payload + 48 \<and> 32 \<le> length msg"
    if "write_message curve base sk payload n hs = (Some msg, hs')" "length (base sk) = 32" for sk payload n hs msg hs'
    using message_length [OF that] by simp
  show ?thesis
    using handshake_agreement [OF d sz, of prologue psk] ml d(3,4) len
    by (elim exE conjE) (intro exI conjI; (assumption | fastforce))
qed

definition mirrored :: "TcpSession \<Rightarrow> TcpSession \<Rightarrow> bool" where
  "mirrored i r \<longleftrightarrow> t_state i = TcpEstablished \<and> t_state r = TcpEstablished \<and> t_send_cs i = t_recv_cs r
     \<and> t_recv_cs i = t_send_cs r \<and> cs_has_key (t_send_cs i) \<and> cs_has_key (t_recv_cs i)
     \<and> t_sent_records i = t_recv_records r \<and> t_recv_records i = t_sent_records r
     \<and> t_handshake_hash i = t_handshake_hash r \<and> t_exported i = t_exported r
     \<and> t_next_datagram_epoch i = t_next_datagram_epoch r \<and> t_initiator i \<noteq> t_initiator r"

lemma split_keyed: "cs_has_key (sp_send (fst (hs_split h)))" "cs_has_key (sp_recv (fst (hs_split h)))"
  by (auto simp: hs_split_def ss_split_def CipherState_of_def split: prod.splits)

lemma tcp_handshake:
  assumes dh: "dh_ok curve base a b" and len: "length self = 16" "length peer = 16" "length attempt = 16" "length pad = 16"
    and i: "i = tcp_initiate curve base a pad cfg topic ep psk self peer attempt now"
    and r: "r = tcp_respond cfg' topic ep psk peer self attempt now'"
    and r': "r' = on_bytes curve base b (t_out i) now1 r"
    and i': "i' = on_bytes curve base c (t_out r') now2 (snd (take_output i))"
  shows "mirrored i' r' \<and> t_in i' = [] \<and> t_in r' = [] \<and> t_out i' = []
    \<and> t_events i' = [TEstablished] \<and> t_events r' = [TEstablished]"
proof -
  let ?p = "if psk \<noteq> None then NNpsk0 else NN"
  let ?pro = "tcp_prologue topic ep attempt"
  obtain msg1 msg2 i1 i2 r1 r2 where
    w1: "write_message curve base a (self @ pad) 256 (HandshakeState_new ?p True ?pro psk) = (Some msg1, i1)"
    and rd1: "read_message curve msg1 256 (HandshakeState_new ?p False ?pro psk) = (Some (self @ pad), r1)"
    and w2: "write_message curve base b peer 256 r1 = (Some msg2, r2)"
    and rd2: "read_message curve msg2 256 i1 = (Some peer, i2)"
    and l: "length msg1 \<le> 80" "32 \<le> length msg1" "length msg2 \<le> 64" "32 \<le> length msg2"
    and k: "sp_send (fst (hs_split i2)) = sp_recv (fst (hs_split r2))"
      "sp_recv (fst (hs_split i2)) = sp_send (fst (hs_split r2))"
      "sp_handshake_hash (fst (hs_split i2)) = sp_handshake_hash (fst (hs_split r2))"
      "sp_exported (fst (hs_split i2)) = sp_exported (fst (hs_split r2))"
    using handshake_first [OF dh len, of ?p ?pro psk] by blast
  have I: "i = (TcpSession_new cfg True self peer now)\<lparr>t_attempt := attempt, t_hs := Some i1,
      t_out := put_u16 (16 + length msg1) @ attempt @ msg1\<rparr>"
    using w1 by (simp add: i tcp_initiate_def Let_def kAttemptLen_def)
  let ?R = "r\<lparr>t_in := t_out i\<rparr>"
  have g: "get_u16 (t_out i) = 16 + length msg1"
    unfolding I using l by (simp add: get_put_u16)
  have turn: "tcp_turn curve base b now1 ?R = (True, tcp_finish (fst (hs_split r2)) now1
      (r\<lparr>t_in := [], t_out := put_u16 (length msg2) @ msg2\<rparr>))"
    using g rd1 w2 len l by (simp add: tcp_turn_def r tcp_respond_def TcpSession_new_def Let_def tcp_consts
        handshake_frame_def kDevIdLen_def I)
  have R: "r' = tcp_finish (fst (hs_split r2)) now1 (r\<lparr>t_in := [], t_out := put_u16 (length msg2) @ msg2\<rparr>)"
  proof -
    have "r' = tcp_loop curve base b now1 ?R"
      by (simp add: r' on_bytes_def r tcp_respond_def TcpSession_new_def)
    also have "\<dots> = tcp_loop curve base b now1 (tcp_finish (fst (hs_split r2)) now1
        (r\<lparr>t_in := [], t_out := put_u16 (length msg2) @ msg2\<rparr>))"
      by (subst tcp_loop.simps) (simp add: turn)
    also have "\<dots> = tcp_finish (fst (hs_split r2)) now1 (r\<lparr>t_in := [], t_out := put_u16 (length msg2) @ msg2\<rparr>)"
      by (rule tcp_loop_established_idle) (simp_all add: tcp_finish_def)
    finally show ?thesis .
  qed
  have out: "t_out r' = put_u16 (length msg2) @ msg2" by (simp add: R tcp_finish_def)
  let ?I = "(snd (take_output i))\<lparr>t_in := put_u16 (length msg2) @ msg2\<rparr>"
  have b0: "(put_u16 (length msg2) @ msg2) ! 0 \<noteq> kHello0"
  proof -
    have "length msg2 \<in> set [0..<65]" using l by simp
    moreover have "list_all (\<lambda>n. put_u16 n ! 0 \<noteq> kHello0) [0..<65]" by code_simp
    ultimately show ?thesis by (auto simp: list_all_iff nth_append)
  qed
  have turn2: "tcp_turn curve base c now2 ?I = (True, tcp_finish (fst (hs_split i2)) now2 (i\<lparr>t_in := [], t_out := []\<rparr>))"
    using b0 rd2 l len by (simp add: tcp_turn_def take_output_def I TcpSession_new_def Let_def tcp_consts
        get_put_u16 handshake_frame_def kDevIdLen_def)
  have I': "i' = tcp_finish (fst (hs_split i2)) now2 (i\<lparr>t_in := [], t_out := []\<rparr>)"
  proof -
    have "i' = tcp_loop curve base c now2 ?I"
      by (simp add: i' out on_bytes_def take_output_def I TcpSession_new_def)
    also have "\<dots> = tcp_loop curve base c now2 (tcp_finish (fst (hs_split i2)) now2 (i\<lparr>t_in := [], t_out := []\<rparr>))"
      by (subst tcp_loop.simps) (simp add: turn2)
    also have "\<dots> = tcp_finish (fst (hs_split i2)) now2 (i\<lparr>t_in := [], t_out := []\<rparr>)"
      by (rule tcp_loop_established_idle) (simp_all add: tcp_finish_def)
    finally show ?thesis .
  qed
  show ?thesis
    using k split_keyed by (simp add: I' R I r tcp_finish_def mirrored_def tcp_respond_def TcpSession_new_def)
qed

section \<open>Datagram keys\<close>

lemma skip_epochs_snd: "snd (skip_epochs epoch (ex, n)) = max n epoch"
proof (induction epoch "(ex, n)" arbitrary: ex n rule: skip_epochs.induct)
  case (1 epoch ex n)
  show ?case
  proof (cases "n < epoch")
    case True
    then have "n + 1 \<le> epoch" by (simp add: unat_Suc_less [OF True] word_le_nat_alt word_less_nat_alt)
    with 1 [OF True, of "hkdf ex [] ''uconnect:v3:udp:next'' kHashLen" "n + 1"] True show ?thesis
      by (subst skip_epochs.simps) (simp add: advance_epoch_def max_def less_imp_le)
  qed (subst skip_epochs.simps, auto simp: max_def)
qed

lemma unat_ucast_u32: "unat (ucast (e :: u32) :: u64) = unat e"
proof -
  have "unat e < 2 ^ 64" using unsigned_less [of e, where 'a = nat] by simp
  then show ?thesis by (simp add: unsigned_ucast_eq take_bit_nat_eq_self)
qed

lemma ucast_u32_max: "(ucast (e :: u32) :: u64) + 1 \<noteq> 0" "ucast e < (ucast e :: u64) + 1"
proof -
  have "unat (ucast e :: u64) < 2 ^ 32" using unsigned_less [of e, where 'a = nat] by (simp add: unat_ucast_u32)
  then have u: "unat ((ucast e :: u64) + 1) = unat (ucast e :: u64) + 1" by (simp add: unat_word_ariths)
  then show "ucast e < (ucast e :: u64) + 1" by (simp add: word_less_nat_alt)
  show "(ucast e :: u64) + 1 \<noteq> 0" using u by auto
qed

lemma datagram_keys_Some:
  assumes "datagram_keys e s = (Some k, s')"
  shows "t_next_datagram_epoch s' = ucast e + 1" "t_next_datagram_epoch s \<le> ucast e" "t_state s = TcpEstablished"
    "ucast e - t_next_datagram_epoch s \<le> max_datagram_epoch_skip"
    "\<exists>x. s' = s\<lparr>t_exported := x, t_next_datagram_epoch := ucast e + 1\<rparr>"
proof -
  have g: "t_state s = TcpEstablished" "t_next_datagram_epoch s \<le> ucast e"
    "ucast e - t_next_datagram_epoch s \<le> max_datagram_epoch_skip"
    using assms by (auto simp: datagram_keys_def not_less split: if_splits)
  obtain ex n where sk: "skip_epochs (ucast e) (t_exported s, t_next_datagram_epoch s) = (ex, n)" by fastforce
  have "n = ucast e" using skip_epochs_snd [of "ucast e" "t_exported s" "t_next_datagram_epoch s"] sk g(2)
    by (simp add: max_def)
  with assms sk g have "s' = s\<lparr>t_exported := hkdf ex [] ''uconnect:v3:udp:next'' kHashLen, t_next_datagram_epoch := ucast e + 1\<rparr>"
    by (auto simp: datagram_keys_def advance_epoch_def split: if_splits)
  with g show "t_next_datagram_epoch s' = ucast e + 1" "t_next_datagram_epoch s \<le> ucast e" "t_state s = TcpEstablished"
    "ucast e - t_next_datagram_epoch s \<le> max_datagram_epoch_skip"
    "\<exists>x. s' = s\<lparr>t_exported := x, t_next_datagram_epoch := ucast e + 1\<rparr>"
    by auto
qed

lemma datagram_keys_None: "datagram_keys e s = (None, s') \<Longrightarrow> s' = s"
  by (auto simp: datagram_keys_def split: if_splits prod.splits)

lemma datagram_keys_mono: "t_next_datagram_epoch s \<le> t_next_datagram_epoch (snd (datagram_keys e s))"
proof (cases "datagram_keys e s")
  case (Pair k s')
  show ?thesis
  proof (cases k)
    case None
    with Pair datagram_keys_None [of e s s'] show ?thesis by simp
  next
    case (Some y)
    note S = datagram_keys_Some [OF Pair [unfolded Some]]
    have "t_next_datagram_epoch s \<le> ucast e + 1"
      using S(2) ucast_u32_max(2) [of e] by (rule order_trans [OF _ less_imp_le])
    then show ?thesis using Pair S(1) by simp
  qed
qed

text \<open>Epochs handed out by a run of requests.\<close>

fun epochs :: "u32 list \<Rightarrow> TcpSession \<Rightarrow> u32 list" where
  "epochs [] s = []"
| "epochs (e # es) s = (case datagram_keys e s of (k, s') \<Rightarrow> (if k = None then [] else [e]) @ epochs es s')"

lemma epochs_increasing: "sorted_wrt (<) (epochs es s) \<and> (\<forall>e \<in> set (epochs es s). t_next_datagram_epoch s \<le> ucast e)"
proof (induction es arbitrary: s)
  case (Cons e es)
  obtain k s' where d: "datagram_keys e s = (k, s')" by fastforce
  have m: "t_next_datagram_epoch s \<le> t_next_datagram_epoch s'" using datagram_keys_mono [of s e] d by simp
  show ?case
  proof (cases k)
    case None
    with d datagram_keys_None [of e s s'] Cons.IH [of s] show ?thesis by simp
  next
    case (Some y)
    note S = datagram_keys_Some [OF d [unfolded Some]]
    have "e < f" if "f \<in> set (epochs es s')" for f
    proof -
      have "ucast e + 1 \<le> (ucast f :: u64)" using Cons.IH [of s'] that S(1) by auto
      then have "ucast e < (ucast f :: u64)" using ucast_u32_max(2) [of e] by (rule less_le_trans [rotated])
      then show ?thesis by (simp add: word_less_nat_alt unat_ucast_u32)
    qed
    moreover have "t_next_datagram_epoch s \<le> ucast f" if "f \<in> set (epochs es s')" for f
      using Cons.IH [of s'] that m by (auto intro: order_trans)
    ultimately show ?thesis using d Some S(2) Cons.IH [of s'] by auto
  qed
qed simp

lemma datagram_keys_agree:
  assumes "mirrored i r" "datagram_keys e i = (Some k, i')"
  shows "\<exists>k' r'. datagram_keys e r = (Some k', r') \<and> dk_send k = dk_recv k' \<and> dk_recv k = dk_send k'
    \<and> dk_probe k = dk_probe k' \<and> dk_conn_id k = dk_conn_id k' \<and> mirrored i' r'"
  using assms by (cases "t_initiator i")
    (auto simp: datagram_keys_def mirrored_def derive_keys_def Let_def split: if_splits prod.splits)

section \<open>The first bytes\<close>

lemma peek_hello_hello: "length a = 16 \<Longrightarrow> peek_hello (hello a @ rest) = Some a"
  by (simp add: peek_hello_def hello_def tcp_consts)

lemma peek_initiate:
  assumes "length attempt = 16" "length self = 16" "length pad = 16" "length (base sk) = 32"
    and "i = tcp_initiate curve base sk pad cfg topic ep psk self peer attempt now" "t_state i \<noteq> TcpClosed"
  shows "peek_attempt (t_out i @ rest) = Some attempt \<and> peek_hello (t_out i @ rest) = None"
proof -
  obtain msg hs where w: "write_message curve base sk (self @ pad) 256
      (HandshakeState_new (if psk \<noteq> None then NNpsk0 else NN) True (tcp_prologue topic ep attempt) psk) = (Some msg, hs)"
    using assms(5,6) by (auto simp: tcp_initiate_def Let_def split: option.splits prod.splits)
  have out: "t_out i = put_u16 (16 + length msg) @ attempt @ msg"
    using w assms(5) by (simp add: tcp_initiate_def Let_def kAttemptLen_def)
  have len: "length msg \<le> 80" using message_length(1) [OF w assms(4)] assms(2,3) by simp
  have "16 + length msg \<in> set [16..<97]" using len by (simp only: set_upt atLeastLessThan_iff) simp
  moreover have "list_all (\<lambda>n. put_u16 n ! 0 \<noteq> kHello0) [16..<97]" by code_simp
  ultimately have "put_u16 (16 + length msg) ! 0 \<noteq> kHello0" unfolding list_all_iff by blast
  with out len assms(1) show ?thesis
    by (simp add: peek_attempt_def peek_hello_def tcp_consts get_put_u16 Let_def nth_append)
qed

text \<open>A closed session is inert.\<close>

lemma tcp_closed_final:
  assumes "t_state s = TcpClosed"
  shows "on_bytes curve base sk x now s = s" "on_eof now s = s" "tcp_on_timeout now s = s"
    "tcp_send kind body now s = (False, s)" "tcp_close reason now s = s" "tcp_keepalive now s = s"
    "datagram_keys e s = (None, s)" "tcp_next_timeout s = None" "tcp_fail c now s = s"
  using assms by (simp_all add: on_bytes_def on_eof_def tcp_on_timeout_def tcp_send_def tcp_close_def
      tcp_keepalive_def datagram_keys_def tcp_next_timeout_def tcp_fail_def)

end
