(* ===== verification/Channels.thy ===== *)
theory Channels
  imports Session_Laws Tcp_Laws Transitions
begin

text \<open>The channel as a system of steps, within the width of its two counters.\<close>

definition chan_step :: "sess_op \<Rightarrow> Session \<Rightarrow> Session option" where
  "chan_step op s = Some (sess_step op s)"

definition chan_guard :: "sess_op \<Rightarrow> Session \<Rightarrow> bool" where
  "chan_guard op s \<longleftrightarrow> unat (s_send_counter s) + 1 < 2 ^ 64 \<and> s_received s + 1 \<noteq> 0"

definition chan_inv :: "CipherState \<Rightarrow> CipherState \<Rightarrow> Session \<Rightarrow> bool" where
  "chan_inv sr rr s \<longleftrightarrow> (s_state s = Established \<longrightarrow> keys_inv sr rr s)"

interpretation chan: total_system chan_step chan_guard "chan_inv sr rr"
  by unfold_locales (use keys_inv_step in \<open>auto simp: chan_step_def chan_guard_def chan_inv_def\<close>)

text \<open>A paired receiver fed the sender's output in any pieces gets exactly the records sent.\<close>

lemma t_events_norm [simp]: "t_events (t_norm s) = t_events s"
  by (simp add: t_norm_def)

lemma records_in_pieces:
  assumes "paired a b" "list_all (sendable a) rs" "t_out a = []" "t_in b = []"
    and "c @ concat cs = t_out (send_all now rs a)"
  shows "t_events (fold (\<lambda>c. on_bytes curve base sk c now') cs (on_bytes curve base sk c now' b))
    = t_events b @ map (\<lambda>(k, x). TRecord k x) rs"
proof -
  let ?b = "more_in (t_out (send_all now rs a)) b"
  have i: "t_in ?b = t_out (send_all now rs a) @ []" using assms(4) by (simp add: more_in_def)
  have p: "paired a ?b" using assms(1) unfolding paired_def more_in_def by force
  obtain b' where b': "tcp_loop curve base sk now' ?b = tcp_loop curve base sk now' b'" "t_in b' = []"
    "paired (send_all now rs a) b'" "t_events b' = t_events ?b @ map (\<lambda>(k, x). TRecord k x) rs"
    using records_delivered [OF p assms(2,3) i] by blast
  have "tcp_loop curve base sk now' ?b = b'"
    using b' by (simp add: tcp_loop_established_idle paired_def)
  then have "on_bytes curve base sk (t_out (send_all now rs a)) now' b = b'"
    using assms(1) by (simp add: on_bytes_def more_in_def paired_def)
  then have "t_norm (fold (\<lambda>c. on_bytes curve base sk c now') cs (on_bytes curve base sk c now' b)) = t_norm b'"
    using on_bytes_chunks [where cs = cs and c = c and s = b and now = now'] assms(5) by simp
  then have "t_events (t_norm (fold (\<lambda>c. on_bytes curve base sk c now') cs (on_bytes curve base sk c now' b)))
      = t_events (t_norm b')" by simp
  then show ?thesis using b'(4) by (simp add: more_in_def)
qed
text \<open>Received bytes change neither the configuration nor the datagram epoch, so the two ends of a handshake are paired both ways.\<close>

lemma handshake_frame_cfg [simp]:
  "t_cfg (snd (handshake_frame curve base sk f hs now s)) = t_cfg s"
  "t_next_datagram_epoch (snd (handshake_frame curve base sk f hs now s)) = t_next_datagram_epoch s"
  by (simp_all add: handshake_frame_def tcp_finish_def tcp_fail_def split: prod.splits option.splits)

lemma sealed_record_cfg [simp]:
  "t_cfg (snd (sealed_record ct now s)) = t_cfg s"
  "t_next_datagram_epoch (snd (sealed_record ct now s)) = t_next_datagram_epoch s"
  by (simp_all add: sealed_record_def handle_record_def tcp_fail_def Let_def split: prod.splits option.splits list.splits)

lemma tcp_turn_cfg:
  "t_cfg (snd (tcp_turn curve base sk now s)) = t_cfg s"
  "t_next_datagram_epoch (snd (tcp_turn curve base sk now s)) = t_next_datagram_epoch s"
  by (simp_all add: tcp_turn_def tcp_fail_def Let_def split: TcpState.splits option.splits)

lemma tcp_loop_cfg:
  "t_cfg (tcp_loop curve base sk now s) = t_cfg s
   \<and> t_next_datagram_epoch (tcp_loop curve base sk now s) = t_next_datagram_epoch s"
proof (induction curve base sk now s rule: tcp_loop.induct)
  case (1 curve base sk now s)
  then show ?case using tcp_turn_cfg [of curve base sk now s]
    by (subst (1 2) tcp_loop.simps) (auto split: prod.splits bool.splits)
qed

lemma on_bytes_cfg:
  "t_cfg (on_bytes curve base sk bs now s) = t_cfg s"
  "t_next_datagram_epoch (on_bytes curve base sk bs now s) = t_next_datagram_epoch s"
  by (simp_all add: on_bytes_def tcp_loop_cfg)

lemma mirrored_paired:
  assumes "mirrored i r" "t_cfg i = t_cfg r" "tc_max_record (t_cfg i) + 17 < 2 ^ 32"
  shows "paired i r" "paired r i"
  using assms unfolding mirrored_def paired_def by force+

text \<open>From the two constructors to delivered records, through a handshake and any segmentation.\<close>

lemma connection_records:
  assumes dh: "dh_ok curve base a b" and len: "length self = 16" "length peer = 16" "length attempt = 16" "length pad = 16"
    and i: "i = tcp_initiate curve base a pad cfg topic ep psk self peer attempt now"
    and r: "r = tcp_respond cfg topic ep psk peer self attempt now'"
    and r': "r' = on_bytes curve base b (t_out i) now1 r"
    and i': "i' = on_bytes curve base c (t_out r') now2 (snd (take_output i))"
    and max: "tc_max_record cfg + 17 < 2 ^ 32" and rs: "list_all (\<lambda>(k, x). k \<ge> kFirstUserKind \<and> length x \<le> tc_max_record cfg) rs"
    and out: "x @ concat xs = t_out (send_all now3 rs i')"
  shows "t_events (fold (\<lambda>c. on_bytes curve base sk c now4) xs (on_bytes curve base sk x now4 r'))
    = TEstablished # map (\<lambda>(k, x). TRecord k x) rs"
proof -
  note H = tcp_handshake [OF dh len i r r' i']
  have "t_cfg i = cfg" by (simp add: i tcp_initiate_def TcpSession_new_def Let_def tcp_fail_def split: prod.split option.split)
  then have ci: "t_cfg i' = cfg" by (simp add: i' on_bytes_cfg take_output_def)
  have cr: "t_cfg r' = cfg" by (simp add: r' on_bytes_cfg r tcp_respond_def TcpSession_new_def)
  have p: "paired i' r'" using mirrored_paired(1) [of i' r'] H ci cr max by simp
  have "list_all (sendable i') rs" using rs by (auto simp: list_all_iff sendable_def ci)
  from records_in_pieces [OF p this _ _ out] H show ?thesis by simp
qed

end
