(* ===== verification/Sample_Channel.thy ===== *)
theory Sample_Channel
  imports Channels
begin

text \<open>
  Two ends of a connection and of a datagram channel, on which the theorems of the channels are
  instantiated. The Diffie-Hellman function of the example is exclusive or, which commutes.
\<close>

definition demo_curve :: "bytes \<Rightarrow> bytes \<Rightarrow> bytes" where "demo_curve = map2 (XOR)"

definition demo_base :: "bytes \<Rightarrow> bytes" where "demo_base sk = sk"

lemma demo_dh: "dh_ok demo_curve demo_base (replicate 32 1) (replicate 32 2)"
  by code_simp

definition demo_i :: TcpSession where
  "demo_i = tcp_initiate demo_curve demo_base (replicate 32 1) (replicate 16 0) TcpSessionConfig_default (replicate 16 7) 0
     None (replicate 16 1) (replicate 16 2) (replicate 16 3) 1000"

definition demo_r :: TcpSession where
  "demo_r = tcp_respond TcpSessionConfig_default (replicate 16 7) 0 None (replicate 16 2) (replicate 16 1) (replicate 16 3) 1000"

definition demo_r' :: TcpSession where
  "demo_r' = on_bytes demo_curve demo_base (replicate 32 2) (t_out demo_i) 1100 demo_r"

definition demo_i' :: TcpSession where
  "demo_i' = on_bytes demo_curve demo_base [] (t_out demo_r') 1200 (snd (take_output demo_i))"

lemmas demo_connection = demo_i_def demo_r_def demo_r'_def demo_i'_def

lemma demo_mirrored: "mirrored demo_i' demo_r'"
  using tcp_handshake [OF demo_dh _ _ _ _ demo_connection] by simp

lemma demo_epoch: "t_next_datagram_epoch demo_i' = 0"
  by (simp add: demo_i'_def on_bytes_cfg take_output_def demo_i_def tcp_initiate_def TcpSession_new_def Let_def tcp_fail_def
      split: prod.split option.split)

text \<open>The two ends of a datagram channel.\<close>

definition demo_a :: Session where
  "demo_a = Session_new SessionConfig_default (replicate 16 2) ep_default (replicate 32 1) (replicate 32 2) 9 1000"

definition demo_b :: Session where
  "demo_b = Session_new SessionConfig_default (replicate 16 1) ep_default (replicate 32 2) (replicate 32 1) 9 1000"

lemma demo_ends [simp]:
  "s_state demo_a = Established" "s_state demo_b = Established" "s_conn_id demo_a = 9" "s_conn_id demo_b = 9"
  "s_cfg demo_a = SessionConfig_default" "s_cfg demo_b = SessionConfig_default" "s_send_counter demo_a = 0"
  "s_replay demo_b = ReplayWindow_new" "s_path demo_b = ep_default" "s_events demo_b = []" "s_out demo_a = []"
  "s_received demo_b = 0" "s_recv_gen demo_b = 0"
  by (simp_all add: demo_a_def demo_b_def Session_new_def)

lemma demo_keys:
  "keys_inv (CipherState_of (replicate 32 1)) (CipherState_of (replicate 32 2)) demo_a"
  "keys_inv (CipherState_of (replicate 32 2)) (CipherState_of (replicate 32 1)) demo_b"
  by (simp_all add: demo_a_def demo_b_def keys_inv_new)

text \<open>The first packet of the sender.\<close>

lemma demo_sent: "\<exists>s'. sess_send [1, 2, 3] 2000 demo_a = (Some 0, s')"
proof -
  have "fst (send_packet [1, 2, 3] 2000 demo_a) \<noteq> None"
    using send_packet_fits [of demo_a "[1, 2, 3]" 2000] by (simp add: kMaxDatagram_def)
  then obtain c s' where "send_packet [1, 2, 3] 2000 demo_a = (Some c, s')"
    by (cases "send_packet [1, 2, 3] 2000 demo_a") auto
  with send_packet_Some(2) [OF this] show ?thesis by (simp add: sess_send_def)
qed

end
