(* ===== verification/Punch.thy ===== *)
theory Punch
  imports Messages Blake2s "HOL-Library.Stream" "HOL-Library.Signed_Division" "HOL-Library.Multiset"
begin

text \<open>
  NAT hole punching, \<^verbatim>\<open>src/path/punch.*\<close>: ranking the remote candidates, sending probes with jittered
  backoff, validating paths by tagged answers and nominating the best one. Time is in milliseconds.
  The generator of the jitter and the random transaction ids are streams of their outputs; the order
  \<^verbatim>\<open>std::sort\<close> leaves equal priorities in is not specified, so the sorting function is an argument,
  with \<open>sorts\<close> as what the standard promises of it.
\<close>

section \<open>Data\<close>

datatype PunchState = PIdle | PProbing | PNominated | PFailed

record PunchConfig =
  pc_first_retransmit :: duration
  pc_max_retransmit :: duration
  pc_stagger :: duration
  pc_total_timeout :: duration
  pc_nomination_grace :: duration
  pc_max_attempts_per_pair :: int

definition PunchConfig_default :: PunchConfig where
  "PunchConfig_default = \<lparr>pc_first_retransmit = 100, pc_max_retransmit = 1600, pc_stagger = 20,
     pc_total_timeout = 8000, pc_nomination_grace = 50, pc_max_attempts_per_pair = 7\<rparr>"

record PunchOut =
  px_to :: Endpoint
  px_data :: bytes

datatype PunchKind = PathValidated | PathNominated | PunchFailed

record PunchEvent =
  pv_kind :: PunchKind
  pv_path :: Endpoint
  pv_txn :: bytes
  pv_rtt :: duration

definition failed_event :: PunchEvent where
  "failed_event = \<lparr>pv_kind = PunchFailed, pv_path = ep_default, pv_txn = replicate kProbeTxnLen 0, pv_rtt = 0\<rparr>"

record Pair =
  pp_remote :: Candidate
  pp_priority :: u32
  pp_txn :: bytes
  pp_next_send :: instant
  pp_first_sent :: instant
  pp_attempts :: int
  pp_validated :: bool
  pp_exhausted :: bool
  pp_rtt :: duration

definition Pair_default :: Pair where
  "Pair_default = \<lparr>pp_remote = cand_default, pp_priority = 0, pp_txn = replicate kProbeTxnLen 0, pp_next_send = 0,
     pp_first_sent = 0, pp_attempts = 0, pp_validated = False, pp_exhausted = False, pp_rtt = 0\<rparr>"

record PunchSession =
  ps_cfg :: PunchConfig
  ps_peer :: DevId
  ps_our_srflx :: "Endpoint option"
  ps_probe_key :: "bytes option"
  ps_pairs :: "Pair list"
  ps_state :: PunchState
  ps_started :: instant
  ps_nominate_at :: "instant option"
  ps_nominated :: "nat option"
  ps_out :: "PunchOut list"
  ps_events :: "PunchEvent list"
  ps_txn_counter :: u32
  ps_jitter :: "u64 stream"

section \<open>Probe messages and their tags\<close>

definition kProbeDomain :: string where "kProbeDomain = ''uconnect:v1:probe-req''"
definition kProbeOkDomain :: string where "kProbeOkDomain = ''uconnect:v1:probe-res''"
definition kPrefHost :: u32 where "kPrefHost = 126"
definition kPrefSrflx :: u32 where "kPrefSrflx = 100"
definition kPrefRelay :: u32 where "kPrefRelay = 10"

definition encode_probe :: "bytes \<Rightarrow> bytes \<Rightarrow> u32 \<Rightarrow> bytes" where
  "encode_probe txn tag txn_id = w_written (Probe_encode \<lparr>pr_txn = txn, pr_tag = tag\<rparr>
     (Header_encode \<lparr>h_type = MT_Probe, h_version = kVersion, h_flags = 0, h_txn_id = txn_id\<rparr>
       (Writer (replicate kMaxDatagram 0))))"

definition encode_probe_ok :: "bytes \<Rightarrow> Endpoint \<Rightarrow> bytes \<Rightarrow> u32 \<Rightarrow> bytes" where
  "encode_probe_ok txn mapped tag txn_id = w_written (ProbeOk_encode \<lparr>po_txn = txn, po_mapped = mapped, po_tag = tag\<rparr>
     (Header_encode \<lparr>h_type = MT_ProbeOk, h_version = kVersion, h_flags = 0, h_txn_id = txn_id\<rparr>
       (Writer (replicate kMaxDatagram 0))))"

definition probe_tag :: "bytes option \<Rightarrow> bytes \<Rightarrow> bool \<Rightarrow> bytes" where
  "probe_tag probe_key txn is_response = (case probe_key of
       None \<Rightarrow> replicate kProbeTagLen 0
     | Some k \<Rightarrow> take kProbeTagLen (Blake2s_mac k
         (bytes_of_string (if is_response then kProbeOkDomain else kProbeDomain) @ txn)))"

section \<open>Construction and ranking\<close>

definition rank :: "Endpoint option \<Rightarrow> Candidate \<Rightarrow> u32" where
  "rank our_srflx c =
     (let type_pref = (case cand_kind c of Host \<Rightarrow> kPrefHost | Srflx \<Rightarrow> kPrefSrflx | Relay \<Rightarrow> kPrefRelay);
          same_nat = (case our_srflx of None \<Rightarrow> False
            | Some o' \<Rightarrow> cand_kind c = Srflx \<and> ip_eq (ep_ip (cand_ep c)) (ep_ip o'));
          score = push_bit 16 type_pref;
          score = (if same_nat then push_bit 16 kPrefRelay else score);
          score = (if ip_family (ep_ip (cand_ep c)) = V6 then score + 4096 else score)
      in if cand_kind c \<noteq> Host \<and> \<not> is_private (ep_ip (cand_ep c)) then score + 512 else score)"

definition skipped :: "Candidate \<Rightarrow> bool" where
  "skipped c \<longleftrightarrow> is_loopback (ep_ip (cand_ep c)) \<and> cand_kind c = Host \<or> ep_port (cand_ep c) = 0"

text \<open>Each candidate kept takes the next transaction id of the random source.\<close>

fun make_pairs :: "Endpoint option \<Rightarrow> Candidate list \<Rightarrow> bytes stream \<Rightarrow> Pair list" where
  "make_pairs srflx [] txns = []"
| "make_pairs srflx (c # cs) txns =
     (if skipped c then make_pairs srflx cs txns
      else Pair_default\<lparr>pp_remote := c, pp_priority := rank srflx c, pp_txn := shd txns\<rparr>
           # make_pairs srflx cs (stl txns))"

definition sorts :: "(Pair list \<Rightarrow> Pair list) \<Rightarrow> bool" where
  "sorts f \<longleftrightarrow> (\<forall>ps. mset (f ps) = mset ps \<and> sorted_wrt (\<lambda>a b. pp_priority b \<le> pp_priority a) (f ps))"

definition PunchSession_new ::
  "(Pair list \<Rightarrow> Pair list) \<Rightarrow> u64 stream \<Rightarrow> bytes stream \<Rightarrow> PunchConfig \<Rightarrow> DevId \<Rightarrow> Candidate list \<Rightarrow> Endpoint option
   \<Rightarrow> bytes option \<Rightarrow> PunchSession" where
  "PunchSession_new sorter jitter txns cfg peer remote_cands our_srflx probe_key =
     \<lparr>ps_cfg = cfg, ps_peer = peer, ps_our_srflx = our_srflx, ps_probe_key = probe_key,
      ps_pairs = sorter (make_pairs our_srflx remote_cands txns), ps_state = PIdle, ps_started = 0,
      ps_nominate_at = None, ps_nominated = None, ps_out = [], ps_events = [], ps_txn_counter = 1,
      ps_jitter = jitter\<rparr>"

section \<open>Driving\<close>

text \<open>\<^verbatim>\<open>for (i = 0; i < attempt && ms < max; ++i) ms *= 2\<close>\<close>

fun doubled :: "nat \<Rightarrow> int \<Rightarrow> int \<Rightarrow> int" where
  "doubled 0 mx ms = ms"
| "doubled (Suc n) mx ms = (if ms < mx then doubled n mx (ms * 2) else ms)"

definition backoff_base :: "int \<Rightarrow> PunchConfig \<Rightarrow> int" where
  "backoff_base attempt cfg =
     (let ms = doubled (nat attempt) (pc_max_retransmit cfg) (pc_first_retransmit cfg)
      in if ms > pc_max_retransmit cfg then pc_max_retransmit cfg else ms)"

definition backoff_for :: "int \<Rightarrow> PunchSession \<Rightarrow> duration \<times> PunchSession" where
  "backoff_for attempt s =
     (let ms = backoff_base attempt (ps_cfg s);
          raw = (ucast (shd (ps_jitter s) AND 0xFFFF) :: u32);
          spread = ms sdiv 2;
          jitter = (if spread = 0 then 0 else uint (raw mod (of_int (spread + 1) :: u32)) - spread sdiv 2)
      in (ms + jitter, s\<lparr>ps_jitter := stl (ps_jitter s)\<rparr>))"

definition emit_probe :: "Pair \<Rightarrow> instant \<Rightarrow> PunchSession \<Rightarrow> Pair \<times> PunchSession" where
  "emit_probe p now s =
     (let p = (if pp_attempts p = 0 then p\<lparr>pp_first_sent := now\<rparr> else p);
          tag = probe_tag (ps_probe_key s) (pp_txn p) False;
          s = s\<lparr>ps_out := ps_out s @ [\<lparr>px_to = cand_ep (pp_remote p), px_data = encode_probe (pp_txn p) tag (ps_txn_counter s)\<rparr>],
                ps_txn_counter := ps_txn_counter s + 1\<rparr>;
          p = p\<lparr>pp_attempts := pp_attempts p + 1\<rparr>;
          (wait, s) = backoff_for (pp_attempts p) s
      in (p\<lparr>pp_next_send := now + wait\<rparr>, s))"

text \<open>The best validated pair: the first of the highest priority.\<close>

fun best_pair :: "nat \<Rightarrow> Pair list \<Rightarrow> (nat \<times> u32) option \<Rightarrow> nat option" where
  "best_pair i [] best = map_option fst best"
| "best_pair i (p # ps) best =
     best_pair (Suc i) ps
       (if \<not> pp_validated p then best
        else case best of
            None \<Rightarrow> Some (i, pp_priority p)
          | Some (j, pr) \<Rightarrow> if pp_priority p > pr then Some (i, pp_priority p) else best)"

definition maybe_nominate :: "PunchSession \<Rightarrow> PunchSession" where
  "maybe_nominate s =
     (if ps_nominated s \<noteq> None then s
      else case best_pair 0 (ps_pairs s) None of
          None \<Rightarrow> s
        | Some b \<Rightarrow>
            s\<lparr>ps_nominated := Some b, ps_nominate_at := None, ps_state := PNominated,
              ps_events := ps_events s @ [\<lparr>pv_kind = PathNominated, pv_path = cand_ep (pp_remote (ps_pairs s ! b)),
                pv_txn = pp_txn (ps_pairs s ! b), pv_rtt = pp_rtt (ps_pairs s ! b)\<rparr>]\<rparr>)"

definition punch_fail :: "PunchSession \<Rightarrow> PunchSession" where
  "punch_fail s = s\<lparr>ps_state := PFailed, ps_events := ps_events s @ [failed_event]\<rparr>"

text \<open>The loop of \<^verbatim>\<open>on_timeout\<close> over the pairs; the flag is \<^verbatim>\<open>any_live\<close>.\<close>

fun probe_loop :: "instant \<Rightarrow> Pair list \<Rightarrow> PunchSession \<Rightarrow> Pair list \<times> bool \<times> PunchSession" where
  "probe_loop now [] s = ([], False, s)"
| "probe_loop now (p # ps) s =
     (if pp_validated p \<or> pp_exhausted p then
        (case probe_loop now ps s of (ps', live, s') \<Rightarrow> (p # ps', live, s'))
      else if pp_attempts p \<ge> pc_max_attempts_per_pair (ps_cfg s) then
        (case probe_loop now ps s of (ps', live, s') \<Rightarrow> (p\<lparr>pp_exhausted := True\<rparr> # ps', live, s'))
      else
        (let (p, s) = (if now \<ge> pp_next_send p then emit_probe p now s else (p, s))
         in case probe_loop now ps s of (ps', live, s') \<Rightarrow> (p # ps', True, s')))"

definition due :: "instant \<Rightarrow> instant option \<Rightarrow> bool" where
  "due now at = (case at of None \<Rightarrow> False | Some t \<Rightarrow> now \<ge> t)"

definition punch_on_timeout :: "instant \<Rightarrow> PunchSession \<Rightarrow> PunchSession" where
  "punch_on_timeout now s =
     (if ps_state s \<noteq> PProbing then (if due now (ps_nominate_at s) then maybe_nominate s else s)
      else if now - ps_started s \<ge> pc_total_timeout (ps_cfg s) then
        (let s = (if ps_nominated s = None then maybe_nominate s else s)
         in if ps_nominated s = None then punch_fail s else s)
      else
        (let (pairs, any_live, s) = probe_loop now (ps_pairs s) s;
             s = s\<lparr>ps_pairs := pairs\<rparr>;
             s = (if due now (ps_nominate_at s) then maybe_nominate s else s)
         in if \<not> any_live \<and> ps_nominated s = None then
              (if list_ex pp_validated (ps_pairs s) then maybe_nominate s else punch_fail s)
            else s))"

fun stagger_pairs :: "nat \<Rightarrow> instant \<Rightarrow> duration \<Rightarrow> Pair list \<Rightarrow> Pair list" where
  "stagger_pairs i now gap [] = []"
| "stagger_pairs i now gap (p # ps) = p\<lparr>pp_next_send := now + gap * int i\<rparr> # stagger_pairs (Suc i) now gap ps"

definition punch_begin :: "instant \<Rightarrow> PunchSession \<Rightarrow> PunchSession" where
  "punch_begin now s =
     (if ps_state s \<noteq> PIdle then s
      else let s = s\<lparr>ps_started := now\<rparr> in
        if ps_pairs s = [] then punch_fail s
        else punch_on_timeout now (s\<lparr>ps_state := PProbing,
               ps_pairs := stagger_pairs 0 now (pc_stagger (ps_cfg s)) (ps_pairs s)\<rparr>))"

section \<open>Datagrams\<close>

definition answer_probe :: "Endpoint \<Rightarrow> bytes \<Rightarrow> bytes option \<Rightarrow> u32 \<Rightarrow> PunchOut option" where
  "answer_probe src dgram probe_key txn_id =
     (case run_state (Header_decode kVersion) (Reader dgram) of
        (None, _) \<Rightarrow> None
      | (Some h, r) \<Rightarrow>
          if h_type h \<noteq> MT_Probe then None
          else (case fst (run_state Probe_decode r) of
              None \<Rightarrow> None
            | Some probe \<Rightarrow>
                if probe_key \<noteq> None \<and> \<not> ct_equal (probe_tag probe_key (pr_txn probe) False) (pr_tag probe) then None
                else Some \<lparr>px_to = src,
                  px_data = encode_probe_ok (pr_txn probe) src (probe_tag probe_key (pr_txn probe) True) txn_id\<rparr>))"

definition on_peer_probe :: "Endpoint \<Rightarrow> instant \<Rightarrow> PunchSession \<Rightarrow> PunchSession" where
  "on_peer_probe src now s = s\<lparr>ps_pairs := map (\<lambda>p.
     if ep_eq (cand_ep (pp_remote p)) src \<and> \<not> pp_validated p \<and> \<not> pp_exhausted p then p\<lparr>pp_next_send := now\<rparr> else p)
     (ps_pairs s)\<rparr>"

definition validate_pair :: "nat \<Rightarrow> Endpoint \<Rightarrow> instant \<Rightarrow> PunchSession \<Rightarrow> PunchSession" where
  "validate_pair i src now s =
     (let p = ps_pairs s ! i;
          p = p\<lparr>pp_remote := (pp_remote p)\<lparr>cand_ep := src\<rparr>, pp_validated := True, pp_rtt := now - pp_first_sent p\<rparr>;
          s = s\<lparr>ps_pairs := (ps_pairs s)[i := p],
                ps_events := ps_events s @ [\<lparr>pv_kind = PathValidated, pv_path = src, pv_txn = pp_txn p, pv_rtt = pp_rtt p\<rparr>]\<rparr>
      in if ps_nominated s \<noteq> None then s
         else if i = 0 then maybe_nominate s
         else if ps_nominate_at s = None then s\<lparr>ps_nominate_at := Some (now + pc_nomination_grace (ps_cfg s))\<rparr>
         else s)"

fun find_txn :: "nat \<Rightarrow> bytes \<Rightarrow> Pair list \<Rightarrow> nat option" where
  "find_txn i txn [] = None"
| "find_txn i txn (p # ps) = (if ct_equal (pp_txn p) txn then Some i else find_txn (Suc i) txn ps)"

definition punch_on_datagram :: "Endpoint \<Rightarrow> bytes \<Rightarrow> instant \<Rightarrow> PunchSession \<Rightarrow> PunchSession" where
  "punch_on_datagram src dgram now s =
     (case run_state (Header_decode kVersion) (Reader dgram) of
        (None, _) \<Rightarrow> s
      | (Some h, r) \<Rightarrow>
          if h_type h = MT_Probe then
            (let rep = answer_probe src dgram (ps_probe_key s) (ps_txn_counter s);
                 s = s\<lparr>ps_txn_counter := ps_txn_counter s + 1\<rparr>;
                 s = (case rep of None \<Rightarrow> s | Some o' \<Rightarrow> s\<lparr>ps_out := ps_out s @ [o']\<rparr>)
             in on_peer_probe src now s)
          else if h_type h \<noteq> MT_ProbeOk then s
          else (case fst (run_state ProbeOk_decode r) of
              None \<Rightarrow> s
            | Some ok \<Rightarrow>
                if ps_probe_key s \<noteq> None \<and> \<not> ct_equal (probe_tag (ps_probe_key s) (po_txn ok) True) (po_tag ok) then s
                else (case find_txn 0 (po_txn ok) (ps_pairs s) of
                    None \<Rightarrow> s
                  | Some i \<Rightarrow> if pp_validated (ps_pairs s ! i) then s else validate_pair i src now s)))"

section \<open>Polling\<close>

definition punch_poll_transmit :: "PunchSession \<Rightarrow> PunchOut option \<times> PunchSession" where
  "punch_poll_transmit s = (case ps_out s of [] \<Rightarrow> (None, s) | o' # os \<Rightarrow> (Some o', s\<lparr>ps_out := os\<rparr>))"

definition punch_poll_event :: "PunchSession \<Rightarrow> PunchEvent option \<times> PunchSession" where
  "punch_poll_event s = (case ps_events s of [] \<Rightarrow> (None, s) | e # es \<Rightarrow> (Some e, s\<lparr>ps_events := es\<rparr>))"

definition soonest_send :: "int \<Rightarrow> Pair list \<Rightarrow> instant \<Rightarrow> instant" where
  "soonest_send mx ps t = fold (\<lambda>p t. if pp_validated p \<or> pp_exhausted p \<or> pp_attempts p \<ge> mx then t
     else if pp_next_send p < t then pp_next_send p else t) ps t"

definition punch_next_timeout :: "PunchSession \<Rightarrow> instant option" where
  "punch_next_timeout s =
     (if ps_state s \<noteq> PProbing then ps_nominate_at s
      else let t = soonest_send (pc_max_attempts_per_pair (ps_cfg s)) (ps_pairs s) (ps_started s + pc_total_timeout (ps_cfg s))
           in Some (case ps_nominate_at s of None \<Rightarrow> t | Some n \<Rightarrow> if n < t then n else t))"

definition nominated_path :: "PunchSession \<Rightarrow> Endpoint option" where
  "nominated_path s = (case ps_nominated s of None \<Rightarrow> None | Some i \<Rightarrow> Some (cand_ep (pp_remote (ps_pairs s ! i))))"

definition nominated_txn :: "PunchSession \<Rightarrow> bytes option" where
  "nominated_txn s = (case ps_nominated s of None \<Rightarrow> None | Some i \<Rightarrow> Some (pp_txn (ps_pairs s ! i)))"

end
