(* ===== verification/Punch_Laws.thy ===== *)
theory Punch_Laws
  imports Punch Transitions
begin

text \<open>
  What holds of a punching session: the invariant every input keeps, that it settles by its deadline,
  that only a tagged answer validates a pair, and that an answered probe does.
\<close>

section \<open>Ranking and backoff\<close>

lemma doubled_bounds: "0 \<le> ms \<Longrightarrow> ms \<le> doubled n mx ms \<and> (doubled n mx ms = ms \<or> doubled n mx ms < 2 * mx)"
proof (induction n mx ms rule: doubled.induct)
  case (2 n mx ms)
  show ?case
  proof (cases "ms < mx")
    case True
    have "ms * 2 \<le> doubled n mx (ms * 2) \<and> (doubled n mx (ms * 2) = ms * 2 \<or> doubled n mx (ms * 2) < 2 * mx)"
      using 2 True by simp
    then show ?thesis using True 2 by auto
  qed simp
qed simp

lemma backoff_base_bounds:
  assumes "0 \<le> pc_first_retransmit cfg" "pc_first_retransmit cfg \<le> pc_max_retransmit cfg"
  shows "pc_first_retransmit cfg \<le> backoff_base n cfg \<and> backoff_base n cfg \<le> pc_max_retransmit cfg"
  using doubled_bounds [OF assms(1), of "nat n" "pc_max_retransmit cfg"] assms by (auto simp: backoff_base_def Let_def)

text \<open>The wait is the capped exponential, at most a quarter less and at most a quarter (and one) more.\<close>

lemma backoff_jitter:
  assumes "0 \<le> pc_first_retransmit (ps_cfg s)" "pc_first_retransmit (ps_cfg s) \<le> pc_max_retransmit (ps_cfg s)"
    and "pc_max_retransmit (ps_cfg s) < 2 ^ 32" and b_def: "b = backoff_base n (ps_cfg s)"
  shows "b - b div 4 \<le> fst (backoff_for n s) \<and> fst (backoff_for n s) \<le> b + b div 4 + 1"
proof -
  have b: "0 \<le> b" "b < 2 ^ 32" using backoff_base_bounds [OF assms(1,2), of n] assms(1,3) by (auto simp: b_def)
  have q: "b sdiv 2 = b div 2" "(b div 2) sdiv 2 = b div 4"
    using b by (auto simp: signed_divide_int_def sgn_if simp flip: zdiv_zmult2_eq)
  define raw where "raw = (ucast (shd (ps_jitter s) AND 0xFFFF) :: u32)"
  let ?m = "of_int (b div 2 + 1) :: u32"
  have um: "uint ?m = b div 2 + 1" using b by (simp add: unsigned_of_int take_bit_int_eq_self del: of_int_add)
  then have "uint (raw mod ?m) < b div 2 + 1" "0 \<le> uint (raw mod ?m)"
    using b pos_mod_bound [of "b div 2 + 1" "uint raw"] by (simp_all add: uint_mod)
  moreover have "b div 2 - b div 4 \<le> b div 4 + 1" by presburger
  ultimately show ?thesis
    using b by (auto simp: backoff_for_def Let_def q raw_def [symmetric] b_def [symmetric])
qed

section \<open>The invariant\<close>

definition few_attempts :: "PunchConfig \<Rightarrow> Pair \<Rightarrow> bool" where
  "few_attempts cfg p \<longleftrightarrow> 0 \<le> pp_attempts p \<and> pp_attempts p \<le> max 0 (pc_max_attempts_per_pair cfg)"

definition pairs_inv :: "PunchConfig \<Rightarrow> Pair list \<Rightarrow> bool" where
  "pairs_inv cfg ps \<longleftrightarrow> sorted_wrt (\<ge>) (map pp_priority ps) \<and> list_all (few_attempts cfg) ps"

definition punch_inv :: "PunchSession \<Rightarrow> bool" where
  "punch_inv s \<longleftrightarrow> pairs_inv (ps_cfg s) (ps_pairs s)
     \<and> (ps_state s = PNominated \<longleftrightarrow> ps_nominated s \<noteq> None)
     \<and> (\<forall>b. ps_nominated s = Some b \<longrightarrow> b < length (ps_pairs s) \<and> pp_validated (ps_pairs s ! b))
     \<and> (ps_nominated s \<noteq> None \<longrightarrow> ps_nominate_at s = None)
     \<and> (ps_nominated s = None \<longrightarrow> list_ex pp_validated (ps_pairs s) \<longrightarrow> ps_nominate_at s \<noteq> None)"

text \<open>The search for the best pair.\<close>

lemma best_pair_spec:
  assumes "best_pair i ps best = Some b" "\<forall>j pr. best = Some (j, pr) \<longrightarrow> j < i"
  shows "(\<exists>pr. best = Some (b, pr) \<and> (\<forall>p \<in> set ps. pp_validated p \<longrightarrow> pp_priority p \<le> pr))
    \<or> (i \<le> b \<and> b < i + length ps \<and> pp_validated (ps ! (b - i))
       \<and> (\<forall>p \<in> set ps. pp_validated p \<longrightarrow> pp_priority p \<le> pp_priority (ps ! (b - i)))
       \<and> (\<forall>j pr. best = Some (j, pr) \<longrightarrow> pr < pp_priority (ps ! (b - i))))"
  using assms
proof (induction i ps best rule: best_pair.induct)
  case (2 i p ps best)
  define best' where "best' = (if \<not> pp_validated p then best
        else case best of None \<Rightarrow> Some (i, pp_priority p)
          | Some (j, pr) \<Rightarrow> if pp_priority p > pr then Some (i, pp_priority p) else best)"
  have b: "best_pair (Suc i) ps best' = Some b" using 2(2) by (simp add: best'_def)
  have lt: "\<forall>j pr. best' = Some (j, pr) \<longrightarrow> j < Suc i" using 2(3) by (auto simp: best'_def split: option.splits if_splits)
  note IH = 2(1) [folded best'_def, OF b lt]
  have nth: "(p # ps) ! (b - i) = ps ! (b - Suc i)" if "Suc i \<le> b" using that by (simp add: nth_Cons')
  show ?case
    using IH nth by (auto simp: best'_def split: option.splits if_splits prod.splits dest: less_imp_le)
qed auto

lemma best_pair_Some:
  assumes "best_pair 0 ps None = Some b"
  shows "b < length ps" "pp_validated (ps ! b)" "p \<in> set ps \<Longrightarrow> pp_validated p \<Longrightarrow> pp_priority p \<le> pp_priority (ps ! b)"
  using best_pair_spec [OF assms] by auto

lemma best_pair_None: "best_pair i ps best = None \<longleftrightarrow> best = None \<and> \<not> list_ex pp_validated ps"
  by (induction i ps best rule: best_pair.induct) (auto split: option.splits if_splits)

lemma maybe_nominate_inv:
  assumes "pairs_inv (ps_cfg s) (ps_pairs s)" "ps_state s = PNominated \<longleftrightarrow> ps_nominated s \<noteq> None"
    "\<forall>b. ps_nominated s = Some b \<longrightarrow> b < length (ps_pairs s) \<and> pp_validated (ps_pairs s ! b)"
    "ps_nominated s \<noteq> None \<longrightarrow> ps_nominate_at s = None"
  shows "punch_inv (maybe_nominate s)"
    and "ps_nominated (maybe_nominate s) = None \<longleftrightarrow> ps_nominated s = None \<and> \<not> list_ex pp_validated (ps_pairs s)"
  using assms best_pair_Some [of "ps_pairs s"] best_pair_None [of 0 "ps_pairs s" None]
  by (auto simp: punch_inv_def maybe_nominate_def split: option.splits)

text \<open>Sending probes changes the pairs, the queue, the counter and the generator alone.\<close>

definition sends_only :: "PunchSession \<Rightarrow> PunchSession \<Rightarrow> bool" where
  "sends_only s s' \<longleftrightarrow> s' = s\<lparr>ps_out := ps_out s', ps_txn_counter := ps_txn_counter s', ps_jitter := ps_jitter s'\<rparr>"

lemma sends_only_refl [simp]: "sends_only s s"
  by (simp add: sends_only_def)

lemma sends_only_trans: "sends_only a b \<Longrightarrow> sends_only b c \<Longrightarrow> sends_only a c"
  by (cases a; cases b; cases c) (simp add: sends_only_def)

lemma sends_only_fields:
  assumes "sends_only s s'"
  shows "ps_cfg s' = ps_cfg s" "ps_state s' = ps_state s" "ps_nominated s' = ps_nominated s"
    "ps_nominate_at s' = ps_nominate_at s" "ps_probe_key s' = ps_probe_key s" "ps_started s' = ps_started s"
    "ps_events s' = ps_events s" "ps_pairs s' = ps_pairs s"
  using assms by (cases s; cases s'; simp add: sends_only_def)+

lemma backoff_for_state: "snd (backoff_for n s) = s\<lparr>ps_jitter := stl (ps_jitter s)\<rparr>"
  by (simp add: backoff_for_def Let_def)

lemma emit_probe_fields:
  assumes "emit_probe p now s = (p', s')"
  shows "pp_priority p' = pp_priority p" "pp_txn p' = pp_txn p" "pp_validated p' = pp_validated p"
    "pp_attempts p' = pp_attempts p + 1" "pp_remote p' = pp_remote p" "sends_only s s'"
  using assms by (cases "pp_attempts p = 0"; auto simp: emit_probe_def Let_def split_def backoff_for_state sends_only_def)+

definition tracks :: "Pair list \<Rightarrow> Pair list \<Rightarrow> bool" where
  "tracks ps qs \<longleftrightarrow> list_all2 (\<lambda>p q. pp_priority q = pp_priority p \<and> pp_txn q = pp_txn p
     \<and> pp_validated q = pp_validated p \<and> pp_remote q = pp_remote p) ps qs"

lemma probe_loop_spec:
  assumes "probe_loop now ps s = (ps', live, s')" "list_all (few_attempts (ps_cfg s)) ps"
  shows "tracks ps ps' \<and> list_all (few_attempts (ps_cfg s)) ps' \<and> sends_only s s'"
  using assms
proof (induction now ps s arbitrary: ps' live s' rule: probe_loop.induct)
  case (1 now s)
  then show ?case by (simp add: tracks_def)
next
  case (2 now p ps s)
  have fp: "few_attempts (ps_cfg s) p" and fps: "list_all (few_attempts (ps_cfg s)) ps" using 2(5) by simp_all
  consider "pp_validated p \<or> pp_exhausted p"
    | "\<not> (pp_validated p \<or> pp_exhausted p)" "pp_attempts p \<ge> pc_max_attempts_per_pair (ps_cfg s)"
    | "\<not> (pp_validated p \<or> pp_exhausted p)" "\<not> pp_attempts p \<ge> pc_max_attempts_per_pair (ps_cfg s)" by blast
  then show ?case
  proof cases
    case 1
    obtain a b c where l: "probe_loop now ps s = (a, b, c)" by (cases "probe_loop now ps s")
    show ?thesis using 2(1) [OF 1 l fps] 1 l 2(4) fp by (auto simp: tracks_def)
  next
    case c: 2
    obtain a b d where l: "probe_loop now ps s = (a, b, d)" by (cases "probe_loop now ps s")
    show ?thesis using 2(2) [OF c l fps] c l 2(4) fp by (auto simp: tracks_def few_attempts_def)
  next
    case c: 3
    obtain q t where q: "(if now \<ge> pp_next_send p then emit_probe p now s else (p, s)) = (q, t)" by (metis surj_pair)
    obtain a b d where l: "probe_loop now ps t = (a, b, d)" by (cases "probe_loop now ps t")
    have Q: "pp_priority q = pp_priority p" "pp_txn q = pp_txn p" "pp_validated q = pp_validated p"
      "pp_remote q = pp_remote p" "sends_only s t" "few_attempts (ps_cfg s) q"
      using q emit_probe_fields [of p now s q t] fp c(2) by (auto simp: few_attempts_def split: if_splits)
    have cfg: "ps_cfg t = ps_cfg s" using sends_only_fields(1) [OF Q(5)] .
    have "ps' = q # a" "s' = d" using 2(4) c q l by simp_all
    moreover have "tracks ps a \<and> list_all (few_attempts (ps_cfg t)) a \<and> sends_only t d"
      by (rule 2(3) [OF c q [symmetric] refl l]) (simp add: cfg fps)
    ultimately show ?thesis using Q cfg by (auto simp: tracks_def intro: sends_only_trans)
  qed
qed

lemma tracks_maps:
  assumes "tracks ps qs"
  shows "map pp_priority qs = map pp_priority ps" "map pp_txn qs = map pp_txn ps" "length qs = length ps"
    "list_ex pp_validated qs = list_ex pp_validated ps"
    "i < length ps \<Longrightarrow> pp_validated (qs ! i) = pp_validated (ps ! i) \<and> pp_remote (qs ! i) = pp_remote (ps ! i)"
proof -
  show l: "length qs = length ps" using assms by (simp add: tracks_def list_all2_lengthD)
  show "map pp_priority qs = map pp_priority ps" "map pp_txn qs = map pp_txn ps"
    using assms by (auto simp: tracks_def list_all2_conv_all_nth intro: nth_equalityI)
  show "i < length ps \<Longrightarrow> pp_validated (qs ! i) = pp_validated (ps ! i) \<and> pp_remote (qs ! i) = pp_remote (ps ! i)"
    using assms by (simp add: tracks_def list_all2_conv_all_nth)
  show "list_ex pp_validated qs = list_ex pp_validated ps"
    using assms l unfolding tracks_def list_all2_conv_all_nth list_ex_length by auto
qed

lemma punch_inv_tracks:
  assumes "punch_inv s" "tracks (ps_pairs s) qs" "list_all (few_attempts (ps_cfg s)) qs" "sends_only s t"
  shows "punch_inv (t\<lparr>ps_pairs := qs\<rparr>)"
  using assms(1,3) tracks_maps [OF assms(2)] sends_only_fields [OF assms(4)]
  by (auto simp: punch_inv_def pairs_inv_def)

lemma nominate_inv: "punch_inv s \<Longrightarrow> punch_inv (maybe_nominate s)"
  by (rule maybe_nominate_inv) (auto simp: punch_inv_def)

lemma punch_fail_inv:
  assumes "punch_inv s" "ps_nominated s = None"
  shows "punch_inv (punch_fail s)"
  using assms by (auto simp: punch_inv_def punch_fail_def)

lemma timeout_inv:
  assumes inv: "punch_inv s"
  shows "punch_inv (punch_on_timeout now s)"
proof (cases "ps_state s = PProbing \<and> \<not> now - ps_started s \<ge> pc_total_timeout (ps_cfg s)")
  case False
  then show ?thesis using inv nominate_inv [OF inv]
    by (auto simp: punch_on_timeout_def Let_def intro: punch_fail_inv)
next
  case True
  obtain ps' live t where l: "probe_loop now (ps_pairs s) s = (ps', live, t)" by (cases "probe_loop now (ps_pairs s) s")
  have "list_all (few_attempts (ps_cfg s)) (ps_pairs s)" using inv by (simp add: punch_inv_def pairs_inv_def)
  from probe_loop_spec [OF l this] have t: "punch_inv (t\<lparr>ps_pairs := ps'\<rparr>)" using punch_inv_tracks [OF inv] by blast
  define u where "u = (if due now (ps_nominate_at (t\<lparr>ps_pairs := ps'\<rparr>)) then maybe_nominate (t\<lparr>ps_pairs := ps'\<rparr>) else t\<lparr>ps_pairs := ps'\<rparr>)"
  have u: "punch_inv u" using t nominate_inv by (simp add: u_def)
  have "punch_on_timeout now s = (if \<not> live \<and> ps_nominated u = None then
      (if list_ex pp_validated (ps_pairs u) then maybe_nominate u else punch_fail u) else u)"
    using True l by (simp add: punch_on_timeout_def u_def Let_def)
  then show ?thesis using u nominate_inv [OF u] punch_fail_inv [OF u] by auto
qed

lemma stagger_tracks: "tracks ps (stagger_pairs i now gap ps)
    \<and> (list_all (few_attempts cfg) ps \<longrightarrow> list_all (few_attempts cfg) (stagger_pairs i now gap ps))"
  by (induction i now gap ps rule: stagger_pairs.induct) (auto simp: tracks_def few_attempts_def)

lemma begin_inv:
  assumes "punch_inv s"
  shows "punch_inv (punch_begin now s)"
proof (cases "ps_state s = PIdle")
  case True
  then have n: "ps_nominated s = None" using assms by (simp add: punch_inv_def)
  let ?s = "s\<lparr>ps_started := now\<rparr>"
  have s: "punch_inv ?s" using assms by (simp add: punch_inv_def)
  let ?t = "?s\<lparr>ps_pairs := stagger_pairs 0 now (pc_stagger (ps_cfg s)) (ps_pairs s)\<rparr>"
  have "punch_inv ?t"
    using stagger_tracks [of "ps_pairs s" 0 now "pc_stagger (ps_cfg s)" "ps_cfg s"] s
    by (intro punch_inv_tracks [OF s _ _ sends_only_refl, simplified]) (simp_all add: punch_inv_def pairs_inv_def)
  then have "punch_inv (?t\<lparr>ps_state := PProbing\<rparr>)" using n by (auto simp: punch_inv_def)
  moreover have "?t\<lparr>ps_state := PProbing\<rparr> = ?s\<lparr>ps_state := PProbing,
      ps_pairs := stagger_pairs 0 now (pc_stagger (ps_cfg s)) (ps_pairs s)\<rparr>" by simp
  ultimately show ?thesis using True n punch_fail_inv [OF s] timeout_inv
    by (auto simp: punch_begin_def Let_def)
qed (simp add: assms punch_begin_def)

lemma peer_probe_inv:
  assumes "punch_inv s" shows "punch_inv (on_peer_probe src now s)"
proof -
  let ?f = "\<lambda>p. if ep_eq (cand_ep (pp_remote p)) src \<and> \<not> pp_validated p \<and> \<not> pp_exhausted p then p\<lparr>pp_next_send := now\<rparr> else p"
  have "tracks (ps_pairs s) (map ?f (ps_pairs s))" by (auto simp: tracks_def list_all2_conv_all_nth)
  moreover have "list_all (few_attempts (ps_cfg s)) (map ?f (ps_pairs s))"
    using assms by (auto simp: punch_inv_def pairs_inv_def list_all_iff few_attempts_def)
  ultimately show ?thesis using punch_inv_tracks [OF assms _ _ sends_only_refl] by (simp add: on_peer_probe_def)
qed

lemma validate_inv:
  assumes inv: "punch_inv s" and i: "i < length (ps_pairs s)"
  shows "punch_inv (validate_pair i src now s)"
proof -
  define p where "p = (ps_pairs s ! i)\<lparr>pp_remote := (pp_remote (ps_pairs s ! i))\<lparr>cand_ep := src\<rparr>, pp_validated := True,
    pp_rtt := now - pp_first_sent (ps_pairs s ! i)\<rparr>"
  define t where "t = s\<lparr>ps_pairs := (ps_pairs s)[i := p], ps_events := ps_events s
    @ [\<lparr>pv_kind = PathValidated, pv_path = src, pv_txn = pp_txn p, pv_rtt = pp_rtt p\<rparr>]\<rparr>"
  have eq: "validate_pair i src now s = (if ps_nominated t \<noteq> None then t
      else if i = 0 then maybe_nominate t
      else if ps_nominate_at t = None then t\<lparr>ps_nominate_at := Some (now + pc_nomination_grace (ps_cfg t))\<rparr> else t)"
    by (simp add: validate_pair_def t_def p_def Let_def)
  have "map pp_priority ((ps_pairs s)[i := p]) = map pp_priority (ps_pairs s)"
    using i by (simp add: map_update p_def list_update_same_conv)
  moreover have "list_all (few_attempts (ps_cfg s)) ((ps_pairs s)[i := p])"
    using inv i by (auto simp: punch_inv_def pairs_inv_def list_all_length nth_list_update p_def few_attempts_def)
  ultimately have pi: "pairs_inv (ps_cfg t) (ps_pairs t)" using inv by (simp add: punch_inv_def pairs_inv_def t_def)
  have nom: "\<forall>b. ps_nominated t = Some b \<longrightarrow> b < length (ps_pairs t) \<and> pp_validated (ps_pairs t ! b)"
  proof (intro allI impI)
    fix b assume b: "ps_nominated t = Some b"
    then have "b < length (ps_pairs s) \<and> pp_validated (ps_pairs s ! b)" using inv by (simp add: punch_inv_def t_def)
    then show "b < length (ps_pairs t) \<and> pp_validated (ps_pairs t ! b)"
      by (cases "b = i") (simp_all add: t_def p_def)
  qed
  have rest: "ps_state t = PNominated \<longleftrightarrow> ps_nominated t \<noteq> None" "ps_nominated t \<noteq> None \<longrightarrow> ps_nominate_at t = None"
    using inv by (auto simp: punch_inv_def t_def)
  show ?thesis
    unfolding eq using maybe_nominate_inv(1) [OF pi rest(1) nom rest(2)] pi nom rest by (auto simp: punch_inv_def)
qed

lemma find_txn_Some: "find_txn i txn ps = Some j \<Longrightarrow> i \<le> j \<and> j < i + length ps \<and> pp_txn (ps ! (j - i)) = txn"
proof (induction i txn ps rule: find_txn.induct)
  case (2 i txn p ps)
  then show ?case by (cases "pp_txn p = txn") (auto simp: nth_Cons')
qed simp

text \<open>The two things a datagram can do: a probe is answered, an answer validates a pair.\<close>

definition answered :: "Endpoint \<Rightarrow> bytes \<Rightarrow> instant \<Rightarrow> PunchSession \<Rightarrow> PunchSession" where
  "answered src d now s = on_peer_probe src now
     (case answer_probe src d (ps_probe_key s) (ps_txn_counter s) of
        None \<Rightarrow> s\<lparr>ps_txn_counter := ps_txn_counter s + 1\<rparr>
      | Some o' \<Rightarrow> s\<lparr>ps_txn_counter := ps_txn_counter s + 1, ps_out := ps_out s @ [o']\<rparr>)"

definition proves :: "PunchSession \<Rightarrow> bytes \<Rightarrow> nat \<Rightarrow> bool" where
  "proves s d i \<longleftrightarrow> (\<exists>h r ok. run_state (Header_decode kVersion) (Reader d) = (Some h, r) \<and> h_type h = MT_ProbeOk
     \<and> fst (run_state ProbeOk_decode r) = Some ok
     \<and> (ps_probe_key s = None \<or> po_tag ok = probe_tag (ps_probe_key s) (po_txn ok) True)
     \<and> find_txn 0 (po_txn ok) (ps_pairs s) = Some i \<and> \<not> pp_validated (ps_pairs s ! i))"

lemma on_datagram_cases:
  obtains "punch_on_datagram src d now s = s" | "punch_on_datagram src d now s = answered src d now s"
  | i where "proves s d i" "punch_on_datagram src d now s = validate_pair i src now s"
proof -
  obtain ho r where h: "run_state (Header_decode kVersion) (Reader d) = (ho, r)" by fastforce
  show ?thesis
  proof (cases ho)
    case None
    then show ?thesis using that(1) h by (simp add: punch_on_datagram_def)
  next
    case (Some h')
    consider "h_type h' = MT_Probe" | "h_type h' = MT_ProbeOk" | "h_type h' \<noteq> MT_Probe" "h_type h' \<noteq> MT_ProbeOk" by blast
    then show ?thesis
    proof cases
      case 1
      then show ?thesis using that(2) h Some
        by (simp add: punch_on_datagram_def answered_def Let_def split: option.splits)
    next
      case 2
      have hd: "run_state (Header_decode kVersion) (Reader d) = (Some h', r)" using h Some by simp
      show ?thesis
      proof (cases "punch_on_datagram src d now s = s")
        case ne: False
        obtain ok i where "fst (run_state ProbeOk_decode r) = Some ok" "find_txn 0 (po_txn ok) (ps_pairs s) = Some i"
          "ps_probe_key s = None \<or> po_tag ok = probe_tag (ps_probe_key s) (po_txn ok) True" "\<not> pp_validated (ps_pairs s ! i)"
          "punch_on_datagram src d now s = validate_pair i src now s"
          using ne 2 hd by (auto simp: punch_on_datagram_def split: option.splits if_splits)
        then show ?thesis using that(3) [of i] hd 2 by (auto simp: proves_def)
      qed (rule that(1))
    next
      case 3
      then show ?thesis using that(1) h Some by (simp add: punch_on_datagram_def)
    qed
  qed
qed

lemma proves_pair: "proves s d i \<Longrightarrow> i < length (ps_pairs s)"
  using find_txn_Some by (fastforce simp: proves_def)

lemma datagram_inv:
  assumes "punch_inv s" shows "punch_inv (punch_on_datagram src d now s)"
proof (cases rule: on_datagram_cases [of src d now s])
  case 2
  have "punch_inv (s\<lparr>ps_txn_counter := c\<rparr>)" "punch_inv (s\<lparr>ps_txn_counter := c, ps_out := o'\<rparr>)" for c o'
    using assms by (simp_all add: punch_inv_def)
  then show ?thesis unfolding 2 answered_def by (cases "answer_probe src d (ps_probe_key s) (ps_txn_counter s)") (auto intro: peer_probe_inv)
next
  case (3 i)
  then show ?thesis using validate_inv [OF assms proves_pair] by simp
qed (use assms in simp)

section \<open>The system\<close>

datatype punch_op =
    PBegin instant
  | PDatagram Endpoint bytes instant
  | PPeerProbe Endpoint instant
  | PTimeout instant
  | PPollTransmit
  | PPollEvent

fun punch_apply :: "punch_op \<Rightarrow> PunchSession \<Rightarrow> PunchSession" where
  "punch_apply (PBegin now) s = punch_begin now s"
| "punch_apply (PDatagram src d now) s = punch_on_datagram src d now s"
| "punch_apply (PPeerProbe src now) s = on_peer_probe src now s"
| "punch_apply (PTimeout now) s = punch_on_timeout now s"
| "punch_apply PPollTransmit s = snd (punch_poll_transmit s)"
| "punch_apply PPollEvent s = snd (punch_poll_event s)"

definition punch_step :: "punch_op \<Rightarrow> PunchSession \<Rightarrow> PunchSession option" where
  "punch_step op s = Some (punch_apply op s)"

definition punch_guard :: "punch_op \<Rightarrow> PunchSession \<Rightarrow> bool" where
  "punch_guard op s = True"

lemma punch_apply_inv: "punch_inv s \<Longrightarrow> punch_inv (punch_apply op s)"
proof (cases op)
  case PPollTransmit
  assume "punch_inv s"
  then show ?thesis unfolding PPollTransmit by (cases "ps_out s") (simp_all add: punch_poll_transmit_def punch_inv_def)
next
  case PPollEvent
  assume "punch_inv s"
  then show ?thesis unfolding PPollEvent by (cases "ps_events s") (simp_all add: punch_poll_event_def punch_inv_def)
qed (simp_all add: begin_inv datagram_inv peer_probe_inv timeout_inv)

interpretation punch: total_system punch_step punch_guard punch_inv
  by unfold_locales (auto simp: punch_step_def punch_apply_inv)

definition punch_start :: "PunchSession \<Rightarrow> bool" where
  "punch_start s \<longleftrightarrow> (\<exists>f jitter txns cfg peer cs srflx key. sorts f \<and> s = PunchSession_new f jitter txns cfg peer cs srflx key)"

abbreviation punch_reach :: "PunchSession \<Rightarrow> bool" where
  "punch_reach \<equiv> reach punch_step punch_guard punch_start"

lemma make_pairs_fresh: "p \<in> set (make_pairs srflx cs txns) \<Longrightarrow> pp_attempts p = 0 \<and> \<not> pp_validated p"
  by (induction srflx cs txns rule: make_pairs.induct) (auto simp: Pair_default_def split: if_splits)

lemma punch_inv_new:
  assumes "sorts f" shows "punch_inv (PunchSession_new f jitter txns cfg peer cs srflx key)"
proof -
  let ?ps = "make_pairs srflx cs txns"
  have s: "mset (f ?ps) = mset ?ps" "sorted_wrt (\<lambda>a b. pp_priority b \<le> pp_priority a) (f ?ps)"
    using assms by (simp_all add: sorts_def)
  have set: "set (f ?ps) = set ?ps" using s(1) by (metis set_mset_mset)
  have "list_all (few_attempts cfg) (f ?ps)" "\<not> list_ex pp_validated (f ?ps)"
    using make_pairs_fresh set by (auto simp: list_all_iff list_ex_iff few_attempts_def)
  then show ?thesis using s(2) by (simp add: punch_inv_def pairs_inv_def PunchSession_new_def sorted_wrt_map)
qed

lemma punch_reach_inv: "punch_reach s \<Longrightarrow> punch_inv s"
  by (drule punch.reach_inv) (auto simp: punch_start_def punch_inv_new)

section \<open>Settling\<close>

text \<open>At the deadline the session is nominated if anything was validated, and failed otherwise.\<close>

lemma deadline_settles:
  assumes "punch_inv s" "ps_state s = PProbing" "ps_started s + pc_total_timeout (ps_cfg s) \<le> now"
  shows "ps_state (punch_on_timeout now s) = (if list_ex pp_validated (ps_pairs s) then PNominated else PFailed)"
proof -
  have n: "ps_nominated s = None" using assms(1,2) by (simp add: punch_inv_def)
  show ?thesis
    using assms n nominate_inv [OF assms(1)] best_pair_None [of 0 "ps_pairs s" None]
    by (auto simp: punch_on_timeout_def punch_fail_def Let_def maybe_nominate_def split: option.splits)
qed

lemma soonest_send_le: "soonest_send mx ps t \<le> t"
  unfolding soonest_send_def by (induction ps arbitrary: t) (auto intro: order_trans [OF _ less_imp_le])

lemma next_timeout_bound:
  "ps_state s = PProbing \<Longrightarrow> \<exists>t. punch_next_timeout s = Some t \<and> t \<le> ps_started s + pc_total_timeout (ps_cfg s)"
  using soonest_send_le by (auto simp: punch_next_timeout_def Let_def split: option.split) (meson less_imp_le order_trans)

lemma nominate_best:
  assumes "ps_nominated s = None" "ps_nominated (maybe_nominate s) = Some b" "p \<in> set (ps_pairs s)" "pp_validated p"
  shows "pp_priority p \<le> pp_priority (ps_pairs s ! b)"
  using assms best_pair_Some(3) by (auto simp: maybe_nominate_def split: option.splits)

section \<open>What validates a pair\<close>

lemma kept_pairs [simp]: "ps_pairs (maybe_nominate s) = ps_pairs s" "ps_pairs (punch_fail s) = ps_pairs s"
  "ps_pairs (snd (punch_poll_transmit s)) = ps_pairs s" "ps_pairs (snd (punch_poll_event s)) = ps_pairs s"
  by (simp_all add: maybe_nominate_def punch_fail_def punch_poll_transmit_def punch_poll_event_def
      split: option.split list.split)

lemma tracks_refl [simp]: "tracks ps ps"
  by (simp add: tracks_def list_all2_refl)

lemma tracks_trans: "tracks a b \<Longrightarrow> tracks b c \<Longrightarrow> tracks a c"
  by (simp add: tracks_def list_all2_conv_all_nth)

lemma timeout_pairs:
  assumes "list_all (few_attempts (ps_cfg s)) (ps_pairs s)"
  shows "tracks (ps_pairs s) (ps_pairs (punch_on_timeout now s))"
proof -
  obtain ps' live t where l: "probe_loop now (ps_pairs s) s = (ps', live, t)" by (cases "probe_loop now (ps_pairs s) s")
  show ?thesis using probe_loop_spec [OF l assms] by (simp add: punch_on_timeout_def Let_def l)
qed

lemma begin_pairs:
  assumes "list_all (few_attempts (ps_cfg s)) (ps_pairs s)"
  shows "tracks (ps_pairs s) (ps_pairs (punch_begin now s))"
proof -
  let ?qs = "stagger_pairs 0 now (pc_stagger (ps_cfg s)) (ps_pairs s)"
  have q: "tracks (ps_pairs s) ?qs" "list_all (few_attempts (ps_cfg s)) ?qs" using stagger_tracks assms by blast+
  show ?thesis
    using timeout_pairs [of "s\<lparr>ps_started := now, ps_state := PProbing, ps_pairs := ?qs\<rparr>" now] q
    by (auto simp: punch_begin_def Let_def intro: tracks_trans)
qed

lemma peer_probe_pairs: "tracks (ps_pairs s) (ps_pairs (on_peer_probe src now s))"
  by (auto simp: tracks_def on_peer_probe_def list_all2_conv_all_nth)

lemma validate_pairs:
  "j < length (ps_pairs s) \<Longrightarrow> ps_pairs (validate_pair i src now s) ! j =
     (if j = i then (ps_pairs s ! i)\<lparr>pp_remote := (pp_remote (ps_pairs s ! i))\<lparr>cand_ep := src\<rparr>, pp_validated := True,
        pp_rtt := now - pp_first_sent (ps_pairs s ! i)\<rparr> else ps_pairs s ! j)"
  by (cases "j = i") (auto simp: validate_pair_def Let_def)

lemma validated_by_answer:
  assumes inv: "punch_inv s" and i: "i < length (ps_pairs s)" "\<not> pp_validated (ps_pairs s ! i)"
    and v: "pp_validated (ps_pairs (punch_apply op s) ! i)"
  shows "\<exists>src d now. op = PDatagram src d now \<and> proves s d i
    \<and> cand_ep (pp_remote (ps_pairs (punch_apply op s) ! i)) = src"
proof -
  have few: "list_all (few_attempts (ps_cfg s)) (ps_pairs s)" using inv by (simp add: punch_inv_def pairs_inv_def)
  have no: False if "tracks (ps_pairs s) (ps_pairs (punch_apply op s))"
    using tracks_maps(5) [OF that i(1)] i v by simp
  show ?thesis
  proof (cases op)
    case (PDatagram src d now)
    show ?thesis
    proof (cases rule: on_datagram_cases [of src d now s])
      case 2
      have "tracks (ps_pairs s) (ps_pairs (answered src d now s))"
        using peer_probe_pairs [of "s\<lparr>ps_txn_counter := ps_txn_counter s + 1\<rparr>" src now]
          peer_probe_pairs [of "s\<lparr>ps_txn_counter := ps_txn_counter s + 1, ps_out := ps_out s @ [z]\<rparr>" src now for z]
        by (simp add: answered_def split: option.split)
      then show ?thesis using no PDatagram 2 by simp
    next
      case (3 j)
      then show ?thesis using v i PDatagram validate_pairs [OF i(1), of j src now] by (cases "i = j") auto
    qed (use no PDatagram in simp)
  qed (use no timeout_pairs [OF few] begin_pairs [OF few] peer_probe_pairs in auto)
qed

section \<open>A probe and its answer\<close>

lemma length_probe_tag [simp]: "length (probe_tag key txn is_response) = kProbeTagLen"
  by (simp add: probe_tag_def kProbeTagLen_def split: option.split)

text \<open>A header followed by a body, read back.\<close>

lemma parse_body:
  assumes "wf_Header kVersion h" "reads decode body (Some m)" "bs = ser_Header h @ body"
  shows "\<exists>r. run_state (Header_decode kVersion) (Reader bs) = (Some h, r) \<and> fst (run_state decode r) = Some m"
proof -
  from readsD [OF reads_Header [OF assms(1)], of "Reader bs" body]
  obtain r where r: "run_state (Header_decode kVersion) (Reader bs) = (Some h, r)" "r_at r body"
    by (auto simp: assms(3))
  from readsD [OF assms(2), of r "[]"] r show ?thesis by auto
qed

lemma encode_probe_bytes:
  assumes "wf_Probe \<lparr>pr_txn = txn, pr_tag = tag\<rparr>"
  shows "encode_probe txn tag n = ser_Header \<lparr>h_type = MT_Probe, h_version = kVersion, h_flags = 0, h_txn_id = n\<rparr>
    @ ser_Probe \<lparr>pr_txn = txn, pr_tag = tag\<rparr>"
  unfolding encode_probe_def using assms
  by (intro wabs_written [THEN conjunct2, THEN conjunct1])
    (simp add: emit_def wf_Probe_def ser_Probe_def ser_Header_def wire_consts)

lemma encode_probe_ok_bytes:
  assumes "wf_ProbeOk \<lparr>po_txn = txn, po_mapped = mapped, po_tag = tag\<rparr>"
  shows "encode_probe_ok txn mapped tag n = ser_Header \<lparr>h_type = MT_ProbeOk, h_version = kVersion, h_flags = 0, h_txn_id = n\<rparr>
    @ ser_ProbeOk \<lparr>po_txn = txn, po_mapped = mapped, po_tag = tag\<rparr>"
  unfolding encode_probe_ok_def using assms
  by (intro wabs_written [THEN conjunct2, THEN conjunct1])
    (simp add: emit_def wf_ProbeOk_def ser_ProbeOk_def ser_Header_def ser_endpoint_def addr_len_def min_le_iff_disj wire_consts)

lemma probe_answered:
  assumes "length txn = kProbeTxnLen"
  shows "answer_probe src (encode_probe txn (probe_tag key txn False) n) key m
    = Some \<lparr>px_to = src, px_data = encode_probe_ok txn src (probe_tag key txn True) m\<rparr>"
proof -
  let ?p = "\<lparr>pr_txn = txn, pr_tag = probe_tag key txn False\<rparr>"
  let ?h = "\<lparr>h_type = MT_Probe, h_version = kVersion, h_flags = 0, h_txn_id = n\<rparr>"
  have wf: "wf_Probe ?p" using assms by (simp add: wf_Probe_def)
  have "wf_Header kVersion ?h" by (simp add: wf_Header_def classify_def)
  from parse_body [OF this reads_Probe [OF wf] encode_probe_bytes [OF wf]]
  show ?thesis by (auto simp: answer_probe_def)
qed

lemma find_txn_nth:
  "i < length ps \<Longrightarrow> distinct (map pp_txn ps) \<Longrightarrow> find_txn k (pp_txn (ps ! i)) ps = Some (k + i)"
proof (induction ps arbitrary: i k)
  case (Cons p ps)
  then show ?case by (cases i) (auto dest: nth_mem)
qed simp

lemma answer_proves:
  assumes "length (pp_txn (ps_pairs s ! i)) = kProbeTxnLen" "wf_ep mapped" "i < length (ps_pairs s)"
    "distinct (map pp_txn (ps_pairs s))" "\<not> pp_validated (ps_pairs s ! i)"
  shows "proves s (encode_probe_ok (pp_txn (ps_pairs s ! i)) mapped (probe_tag (ps_probe_key s) (pp_txn (ps_pairs s ! i)) True) m) i"
proof -
  let ?t = "pp_txn (ps_pairs s ! i)"
  let ?p = "\<lparr>po_txn = ?t, po_mapped = mapped, po_tag = probe_tag (ps_probe_key s) ?t True\<rparr>"
  let ?h = "\<lparr>h_type = MT_ProbeOk, h_version = kVersion, h_flags = 0, h_txn_id = m\<rparr>"
  have wf: "wf_ProbeOk ?p" using assms by (simp add: wf_ProbeOk_def)
  have "wf_Header kVersion ?h" by (simp add: wf_Header_def classify_def)
  from parse_body [OF this reads_ProbeOk [OF wf] encode_probe_ok_bytes [OF wf]]
  show ?thesis using find_txn_nth [OF assms(3,4), of 0] assms(5) by (auto simp: proves_def)
qed

lemma proves_validates:
  assumes "proves s d i"
  shows "punch_on_datagram src d now s = validate_pair i src now s"
  using assms by (auto simp: proves_def punch_on_datagram_def)

lemma exchange_validates:
  assumes "length (pp_txn (ps_pairs s ! i)) = kProbeTxnLen" "wf_ep mapped" "i < length (ps_pairs s)"
    "distinct (map pp_txn (ps_pairs s))" "\<not> pp_validated (ps_pairs s ! i)"
  shows "\<exists>rep. answer_probe mapped (encode_probe (pp_txn (ps_pairs s ! i)) (probe_tag (ps_probe_key s) (pp_txn (ps_pairs s ! i)) False) n)
        (ps_probe_key s) m = Some rep \<and> px_to rep = mapped
     \<and> pp_validated (ps_pairs (punch_on_datagram src (px_data rep) now s) ! i)
     \<and> cand_ep (pp_remote (ps_pairs (punch_on_datagram src (px_data rep) now s) ! i)) = src"
  using probe_answered [OF assms(1)] proves_validates [OF answer_proves [OF assms]] validate_pairs [OF assms(3)] by simp

end
