(* ===== verification/Stun.thy ===== *)
theory Stun
  imports Types
begin

text \<open>
  The STUN client of the server, \<^verbatim>\<open>server/stun.*\<close>: the Binding request, the parser of Binding
  responses, the wait for an answer and the classification of the NAT. The socket is what the model
  is given: whether it is open, whether a send succeeds, and for each time the socket became readable
  before the deadline, the datagrams that were received; the name resolver is a function.
\<close>

section \<open>Wire helpers\<close>

definition kMagicCookie :: u32 where "kMagicCookie = 0x2112A442"
definition kBindingRequest :: u16 where "kBindingRequest = 0x0001"
definition kBindingSuccessResponse :: u16 where "kBindingSuccessResponse = 0x0101"
definition kMappedAddress :: u16 where "kMappedAddress = 0x0001"
definition kXorMappedAddress :: u16 where "kXorMappedAddress = 0x0020"
definition kHeaderSize :: nat where "kHeaderSize = 20"
definition kTransactionIdSize :: nat where "kTransactionIdSize = 12"

text \<open>The readers take the packet and the offset of the pointer.\<close>

definition read_u16 :: "bytes \<Rightarrow> nat \<Rightarrow> u16" where
  "read_u16 p i = push_bit 8 (ucast (p ! i)) OR ucast (p ! (i + 1))"

definition read_u32 :: "bytes \<Rightarrow> nat \<Rightarrow> u32" where
  "read_u32 p i = push_bit 24 (ucast (p ! i)) OR push_bit 16 (ucast (p ! (i + 1)))
     OR push_bit 8 (ucast (p ! (i + 2))) OR ucast (p ! (i + 3))"

definition write_u16 :: "u16 \<Rightarrow> bytes" where
  "write_u16 v = [ucast (drop_bit 8 v), ucast v]"

definition write_u32 :: "u32 \<Rightarrow> bytes" where
  "write_u32 v = [ucast (drop_bit 24 v), ucast (drop_bit 16 v), ucast (drop_bit 8 v), ucast v]"

definition make_binding_request :: "bytes \<Rightarrow> bytes" where
  "make_binding_request transaction_id =
     write_u16 kBindingRequest @ write_u16 0 @ write_u32 kMagicCookie @ transaction_id"

section \<open>Addresses in a response\<close>

definition decode_xor_mapped_address :: "bytes \<Rightarrow> bytes \<Rightarrow> Endpoint option" where
  "decode_xor_mapped_address value transaction_id =
     (if length value < 4 then None
      else let family = value ! 1;
               xor_port = read_u16 value 2;
               port = xor_port XOR ucast (drop_bit 16 kMagicCookie) in
        if family = 1 then
          (if length value < 8 then None
           else let address = read_u32 value 4 XOR kMagicCookie
                in Some \<lparr>ep_ip = ip_v4 (ucast (drop_bit 24 address AND 0xff)) (ucast (drop_bit 16 address AND 0xff))
                                      (ucast (drop_bit 8 address AND 0xff)) (ucast (address AND 0xff)), ep_port = port\<rparr>)
        else if family = 2 then
          (if length value < 20 then None
           else let mask = write_u32 kMagicCookie @ transaction_id
                in Some \<lparr>ep_ip = \<lparr>ip_family = V6, ip_bytes = map (\<lambda>i. value ! (4 + i) XOR mask ! i) [0..<16]\<rparr>, ep_port = port\<rparr>)
        else None)"

definition decode_mapped_address :: "bytes \<Rightarrow> Endpoint option" where
  "decode_mapped_address value =
     (if length value < 4 then None
      else let family = value ! 1; port = read_u16 value 2 in
        if family = 1 then
          (if length value < 8 then None
           else Some \<lparr>ep_ip = ip_v4 (value ! 4) (value ! 5) (value ! 6) (value ! 7), ep_port = port\<rparr>)
        else if family = 2 then
          (if length value < 20 then None
           else Some \<lparr>ep_ip = \<lparr>ip_family = V6, ip_bytes = take 16 (drop 4 value)\<rparr>, ep_port = port\<rparr>)
        else None)"

definition decode_attribute :: "u16 \<Rightarrow> bytes \<Rightarrow> bytes \<Rightarrow> Endpoint option" where
  "decode_attribute type value transaction_id =
     (case (if type = kXorMappedAddress then decode_xor_mapped_address value transaction_id else None) of
        Some ep \<Rightarrow> Some ep
      | None \<Rightarrow> if type = kMappedAddress then decode_mapped_address value else None)"

text \<open>The loop over the attributes; \<^verbatim>\<open>(offset + 3) & ~3\<close> rounds up to a multiple of four.\<close>

definition align4 :: "nat \<Rightarrow> nat" where
  "align4 n = 4 * ((n + 3) div 4)"

lemma align4_ge: "n \<le> align4 n"
  unfolding align4_def by presburger

function attr_loop :: "bytes \<Rightarrow> bytes \<Rightarrow> nat \<Rightarrow> nat \<Rightarrow> Endpoint option" where
  "attr_loop packet transaction_id limit offset =
     (if offset + 4 > limit then None
      else let type = read_u16 packet offset;
               len = unat (read_u16 packet (offset + 2)) in
        if offset + 4 + len > limit then None
        else case decode_attribute type (take len (drop (offset + 4) packet)) transaction_id of
            Some ep \<Rightarrow> Some ep
          | None \<Rightarrow> attr_loop packet transaction_id limit (align4 (offset + 4 + len)))"
  by pat_completeness auto

termination
proof (relation "measure (\<lambda>(packet, txn, limit, offset). limit + 4 - offset)", goal_cases)
  case (2 packet txn limit offset ty len)
  then show ?case using align4_ge [of "offset + 4 + len"] by auto
qed simp

declare attr_loop.simps [simp del]

definition parse_binding_response :: "bytes \<Rightarrow> bytes \<Rightarrow> Endpoint option" where
  "parse_binding_response packet transaction_id =
     (if length packet < kHeaderSize then None
      else let message_type = read_u16 packet 0 in
        if message_type AND 0xC000 \<noteq> 0 then None
        else if message_type \<noteq> kBindingSuccessResponse then None
        else let message_length = unat (read_u16 packet 2) in
          if kHeaderSize + message_length > length packet then None
          else if read_u32 packet 4 \<noteq> kMagicCookie then None
          else if take kTransactionIdSize (drop 8 packet) \<noteq> transaction_id then None
          else attr_loop packet transaction_id (kHeaderSize + message_length) kHeaderSize)"

section \<open>Asking\<close>

record Received =
  rx_from :: Endpoint
  rx_data :: bytes

text \<open>The inner loop over one readable moment, then the outer loop over the moments before the deadline.\<close>

fun first_answer :: "Endpoint \<Rightarrow> bytes \<Rightarrow> Received list \<Rightarrow> Endpoint option" where
  "first_answer server txn [] = None"
| "first_answer server txn (rx # rxs) =
     (if \<not> ep_eq (rx_from rx) server then first_answer server txn rxs
      else case parse_binding_response (rx_data rx) txn of
          None \<Rightarrow> first_answer server txn rxs
        | Some ep \<Rightarrow> Some ep)"

fun await_answer :: "Endpoint \<Rightarrow> bytes \<Rightarrow> Received list list \<Rightarrow> Endpoint option" where
  "await_answer server txn [] = None"
| "await_answer server txn (rxs # rest) = (case first_answer server txn rxs of
       None \<Rightarrow> await_answer server txn rest
     | Some ep \<Rightarrow> Some ep)"

definition binding :: "bool \<Rightarrow> (Endpoint \<Rightarrow> bytes \<Rightarrow> bool) \<Rightarrow> bytes \<Rightarrow> Received list list \<Rightarrow> Endpoint \<Rightarrow> Endpoint option" where
  "binding is_open send_to transaction_id moments server =
     (if \<not> is_open then None
      else if \<not> send_to server (make_binding_request transaction_id) then None
      else await_answer server transaction_id moments)"

section \<open>Classification\<close>

datatype Mapping = MUnknown | MOpen | EndpointIndependent | EndpointDependent

fun Mapping_to_string :: "Mapping \<Rightarrow> string" where
  "Mapping_to_string MOpen = ''open (no NAT)''"
| "Mapping_to_string EndpointIndependent = ''endpoint-independent (cone)''"
| "Mapping_to_string EndpointDependent = ''endpoint-dependent (symmetric)''"
| "Mapping_to_string MUnknown = ''unknown''"

definition classify_mapping :: "Endpoint list \<Rightarrow> u16 \<Rightarrow> IpAddr list \<Rightarrow> Mapping" where
  "classify_mapping observed local_port local_ips =
     (case observed of
        (o0 # o1 # os) \<Rightarrow>
          if list_ex (\<lambda>o'. \<not> ep_eq o' o0) (o1 # os) then EndpointDependent
          else if list_ex (\<lambda>ip. ip_eq (ep_ip o0) ip \<and> ep_port o0 = local_port) local_ips then MOpen
          else EndpointIndependent
      | _ \<Rightarrow> MUnknown)"

record NatReport =
  nr_mapping :: Mapping
  nr_observed :: "Endpoint list"
  nr_port_preserved :: bool
  nr_local_port :: u16

definition kServers :: "string list" where
  "kServers = [''stun.l.google.com:19302'', ''stun1.l.google.com:19302'', ''stun.cloudflare.com:3478'']"

fun distinct_destinations :: "(string \<Rightarrow> Endpoint option) \<Rightarrow> string list \<Rightarrow> Endpoint list \<Rightarrow> Endpoint list" where
  "distinct_destinations resolve [] ds = ds"
| "distinct_destinations resolve (h # hs) ds = (case resolve h of
       None \<Rightarrow> distinct_destinations resolve hs ds
     | Some a \<Rightarrow>
         if list_ex (\<lambda>d. ep_eq d a) ds then distinct_destinations resolve hs ds
         else distinct_destinations resolve hs (ds @ [a]))"

text \<open>\<open>ask\<close> is \<^verbatim>\<open>binding\<close> on the socket, for each destination in turn.\<close>

definition probe_nat :: "(string \<Rightarrow> Endpoint option) \<Rightarrow> (Endpoint \<Rightarrow> Endpoint option) \<Rightarrow> u16 \<Rightarrow> IpAddr list \<Rightarrow> NatReport" where
  "probe_nat resolve ask local_port local_ips =
     (let observed = List.map_filter ask (distinct_destinations resolve kServers [])
      in case observed of
          [] \<Rightarrow> \<lparr>nr_mapping = MUnknown, nr_observed = [], nr_port_preserved = False, nr_local_port = local_port\<rparr>
        | o0 # _ \<Rightarrow> \<lparr>nr_mapping = classify_mapping observed local_port local_ips, nr_observed = observed,
                     nr_port_preserved = (ep_port o0 = local_port), nr_local_port = local_port\<rparr>)"

section \<open>Responses, as a server builds them\<close>

definition pad4 :: "bytes \<Rightarrow> bytes" where
  "pad4 v = replicate (align4 (length v) - length v) 0"

definition stun_attr :: "u16 \<times> bytes \<Rightarrow> bytes" where
  "stun_attr a = write_u16 (fst a) @ write_u16 (of_nat (length (snd a))) @ snd a @ pad4 (snd a)"

definition stun_response :: "bytes \<Rightarrow> (u16 \<times> bytes) list \<Rightarrow> bytes" where
  "stun_response txn attrs = (let body = concat (map stun_attr attrs)
     in write_u16 kBindingSuccessResponse @ write_u16 (of_nat (length body)) @ write_u32 kMagicCookie @ txn @ body)"

definition xor_mapped_value :: "bytes \<Rightarrow> Endpoint \<Rightarrow> bytes" where
  "xor_mapped_value txn ep =
     [0, if ip_family (ep_ip ep) = V4 then 1 else 2] @ write_u16 (ep_port ep XOR 0x2112)
     @ map2 (XOR) (take (addr_len (ep_ip ep)) (ip_bytes (ep_ip ep))) (write_u32 kMagicCookie @ txn)"

end
