(* ===== verification/Stun_Laws.thy ===== *)
theory Stun_Laws
  imports Stun Buffer
begin

text \<open>
  The STUN parser reads back what a server writes, accepts nothing that does not answer our own
  request, and the classification says of a NAT only what the answers show.
\<close>

section \<open>Reading back\<close>

lemma u16_bytes: "push_bit 8 (ucast (ucast (drop_bit 8 v) :: byte)) OR ucast (ucast v :: byte) = v" for v :: u16
  by (intro bit_word_eqI) (auto simp: bit_simps)

lemma u32_bytes:
  "push_bit 24 (ucast (ucast (drop_bit 24 v) :: byte)) OR push_bit 16 (ucast (ucast (drop_bit 16 v) :: byte))
     OR push_bit 8 (ucast (ucast (drop_bit 8 v) :: byte)) OR ucast (ucast v :: byte) = v" for v :: u32
proof (rule bit_word_eqI)
  fix n assume "n < LENGTH(32)"
  then consider "n < 8" | "8 \<le> n" "n < 16" | "16 \<le> n" "n < 24" | "24 \<le> n" "n < 32" by fastforce
  then show "bit (push_bit 24 (ucast (ucast (drop_bit 24 v) :: byte)) OR push_bit 16 (ucast (ucast (drop_bit 16 v) :: byte))
     OR push_bit 8 (ucast (ucast (drop_bit 8 v) :: byte)) OR ucast (ucast v :: byte) :: u32) n = bit v n"
    by cases (auto simp: bit_simps)
qed

lemma read_u16_at: "read_u16 (a @ write_u16 v @ b) (length a) = v"
  by (simp add: read_u16_def write_u16_def nth_append u16_bytes)

lemma read_u32_at: "read_u32 (a @ write_u32 v @ b) (length a) = v"
  by (simp add: read_u32_def write_u32_def nth_append u32_bytes)

lemma length_writes [simp]: "length (write_u16 v) = 2" "length (write_u32 w) = 4"
  by (simp_all add: write_u16_def write_u32_def)

lemma align4_add: "n mod 4 = 0 \<Longrightarrow> align4 (n + k) = n + align4 k"
  unfolding align4_def by presburger

lemma align4_mod [simp]: "align4 n mod 4 = 0"
  by (simp add: align4_def)

lemma length_stun_attr: "length (stun_attr a) = 4 + align4 (length (snd a))"
  using align4_ge [of "length (snd a)"] by (simp add: stun_attr_def pad4_def)

lemma attr_loop_attr:
  assumes p: "packet = pre @ stun_attr (t, v) @ post" and al: "length pre mod 4 = 0" and v: "length v < 2 ^ 16"
    and l: "length pre + 4 + length v \<le> limit"
  shows "attr_loop packet txn limit (length pre) = (case decode_attribute t v txn of
      Some ep \<Rightarrow> Some ep | None \<Rightarrow> attr_loop packet txn limit (length (pre @ stun_attr (t, v))))"
proof -
  have t: "read_u16 packet (length pre) = t"
    using read_u16_at [of pre t] by (simp add: p stun_attr_def)
  have len: "unat (read_u16 packet (length pre + 2)) = length v"
    using read_u16_at [of "pre @ write_u16 t" "of_nat (length v)"] v
    by (simp add: p stun_attr_def unsigned_of_nat take_bit_nat_eq_self)
  have val: "take (length v) (drop (length pre + 4) packet) = v" by (simp add: p stun_attr_def)
  have "align4 (length pre + 4 + length v) = length pre + (4 + align4 (length v))"
    using align4_add [OF al, of "4 + length v"] align4_add [of 4 "length v"] by (simp add: add.assoc)
  then have nxt: "align4 (length pre + 4 + length v) = length (pre @ stun_attr (t, v))"
    by (simp add: length_stun_attr)
  show ?thesis
    using l by (subst attr_loop.simps) (simp add: t len val nxt Let_def del: add_2_eq_Suc' length_append split: option.split)
qed

text \<open>Attributes that say nothing about an address are skipped.\<close>

lemma attr_loop_skips:
  assumes "packet = pre @ concat (map stun_attr attrs) @ stun_attr (t, v) @ post" "length pre mod 4 = 0"
    and "list_all (\<lambda>a. decode_attribute (fst a) (snd a) txn = None \<and> length (snd a) < 2 ^ 16) attrs"
    and "decode_attribute t v txn = Some ep" "length v < 2 ^ 16"
    and "length (pre @ concat (map stun_attr attrs) @ stun_attr (t, v)) \<le> limit"
  shows "attr_loop packet txn limit (length pre) = Some ep"
  using assms
proof (induction attrs arbitrary: pre)
  case Nil
  have "length v \<le> align4 (length v)" by (rule align4_ge)
  then show ?case using Nil attr_loop_attr [of packet pre t v post limit txn] by (simp add: length_stun_attr)
next
  case (Cons a attrs)
  obtain ty w where a: "a = (ty, w)" by (cases a)
  have w: "decode_attribute ty w txn = None" "length w < 2 ^ 16" using Cons.prems(3) a by simp_all
  have "length w \<le> align4 (length w)" by (rule align4_ge)
  then have "attr_loop packet txn limit (length pre) = attr_loop packet txn limit (length (pre @ stun_attr a))"
    using attr_loop_attr [of packet pre ty w "concat (map stun_attr attrs) @ stun_attr (t, v) @ post" limit txn]
      Cons.prems(1,2,6) w by (simp add: a length_stun_attr)
  also have "\<dots> = Some ep"
  proof (rule Cons.IH)
    show "length (pre @ stun_attr a) mod 4 = 0"
      using Cons.prems(2) align4_mod [of "length (snd a)"] by (simp add: length_stun_attr mod_add_eq [symmetric, of "length pre"] align4_def)
  qed (use Cons.prems in simp_all)
  finally show ?case .
qed

text \<open>The decoder of the exclusive-or form inverts the encoder.\<close>

lemma kMagicCookie_top: "ucast (drop_bit 16 kMagicCookie) = (0x2112 :: u16)"
  by (simp add: kMagicCookie_def)

lemma u32_split:
  "ucast (drop_bit 24 v AND 0xff) = (ucast (drop_bit 24 v) :: byte)" "ucast (drop_bit 16 v AND 0xff) = (ucast (drop_bit 16 v) :: byte)"
  "ucast (drop_bit 8 v AND 0xff) = (ucast (drop_bit 8 v) :: byte)" "ucast (v AND 0xff) = (ucast v :: byte)" for v :: u32
proof -
  have "ucast (w AND 0xff) = (ucast w :: byte)" for w :: u32
  proof -
    have m: "(0xff :: u32) = mask 8" by (simp add: mask_eq_exp_minus_1)
    show ?thesis unfolding m by (intro bit_word_eqI) (auto simp: bit_simps)
  qed
  then show "ucast (drop_bit 24 v AND 0xff) = (ucast (drop_bit 24 v) :: byte)" "ucast (drop_bit 16 v AND 0xff) = (ucast (drop_bit 16 v) :: byte)"
    "ucast (drop_bit 8 v AND 0xff) = (ucast (drop_bit 8 v) :: byte)" "ucast (v AND 0xff) = (ucast v :: byte)" by blast+
qed

lemma write_u32_bytes: "write_u32 (read_u32 [a, b, c, d] 0) = [a, b, c, d]"
proof -
  have "ucast (drop_bit 24 (read_u32 [a, b, c, d] 0)) = a" "ucast (drop_bit 16 (read_u32 [a, b, c, d] 0)) = b"
    "ucast (drop_bit 8 (read_u32 [a, b, c, d] 0)) = c" "ucast (read_u32 [a, b, c, d] 0) = d"
    by (intro bit_word_eqI, auto simp: read_u32_def bit_simps dest: bit_imp_le_length)+
  then show ?thesis by (simp add: write_u32_def)
qed

lemma write_u32_xor: "write_u32 (v XOR w) = map2 (XOR) (write_u32 v) (write_u32 w)"
proof -
  have "ucast (drop_bit n (v XOR w)) = (ucast (drop_bit n v) XOR ucast (drop_bit n w) :: byte)" for n
    by (intro bit_word_eqI) (auto simp: bit_simps)
  from this [of 24] this [of 16] this [of 8] this [of 0] show ?thesis by (simp add: write_u32_def)
qed

lemma list_4: "length xs = 4 \<Longrightarrow> \<exists>a b c d. xs = [a, b, c, d]"
  by (auto simp: length_Suc_conv eval_nat_numeral)

lemma xor_cancel: "map2 (XOR) (map2 (XOR) a m) m = a" if "length a \<le> length m" for a m :: bytes
  using that
proof (induction a arbitrary: m)
  case (Cons x a)
  then show ?case by (cases m) (simp_all add: xor.assoc)
qed simp

lemma xor_mapped_decodes:
  assumes wf: "wf_ep ep" and txn: "length txn = 12"
  shows "decode_xor_mapped_address (xor_mapped_value txn ep) txn = Some ep"
proof -
  obtain ip port where ep: "ep = \<lparr>ep_ip = ip, ep_port = port\<rparr>" by (cases ep)
  obtain fam bs where ip: "ip = \<lparr>ip_family = fam, ip_bytes = bs\<rparr>" by (cases ip)
  have l: "length bs = 16" using wf by (simp add: wf_ep_def wf_ip_def ep ip)
  have port: "read_u16 (a # b # write_u16 (port XOR 0x2112) @ z) 2 XOR 0x2112 = port" for a b z
    using read_u16_at [of "[a, b]" "port XOR 0x2112" z] by (simp add: xor.assoc numeral_2_eq_2)
  let ?m = "write_u32 kMagicCookie @ txn"
  show ?thesis
  proof (cases fam)
    case V4
    obtain a b c d where abcd: "take 4 bs = [a, b, c, d]" using list_4 [of "take 4 bs"] l by auto
    have "drop 4 bs = replicate 12 0" using wf by (simp add: wf_ep_def wf_ip_def ep ip V4 addr_len_def)
    then have bs: "bs = [a, b, c, d] @ replicate 12 0" using abcd by (metis append_take_drop_id)
    have val: "xor_mapped_value txn ep = [0, 1] @ write_u16 (port XOR 0x2112) @ map2 (XOR) [a, b, c, d] (write_u32 kMagicCookie)"
      by (simp add: xor_mapped_value_def ep ip V4 addr_len_def abcd write_u32_def)
    obtain w x y z where wxyz: "map2 (XOR) [a, b, c, d] (write_u32 kMagicCookie) = [w, x, y, z]"
      by (simp add: write_u32_def)
    let ?adr = "read_u32 [w, x, y, z] 0 XOR kMagicCookie"
    have "write_u32 ?adr = map2 (XOR) [w, x, y, z] (write_u32 kMagicCookie)"
      by (simp only: write_u32_xor write_u32_bytes)
    also have "\<dots> = [a, b, c, d]" unfolding wxyz [symmetric] by (rule xor_cancel) simp
    finally have adr: "ucast (drop_bit 24 ?adr) = a" "ucast (drop_bit 16 ?adr) = b" "ucast (drop_bit 8 ?adr) = c" "ucast ?adr = d"
      by (simp_all add: write_u32_def)
    have r4: "read_u32 ([0, 1] @ write_u16 (port XOR 0x2112) @ [w, x, y, z]) 4 = read_u32 [w, x, y, z] 0"
      by (simp add: read_u32_def write_u16_def eval_nat_numeral)
    have "decode_xor_mapped_address ([0, 1] @ write_u16 (port XOR 0x2112) @ [w, x, y, z]) txn
        = Some \<lparr>ep_ip = ip_v4 a b c d, ep_port = port\<rparr>"
      using adr r4 port [of 0 1 "[w, x, y, z]"]
      by (simp add: decode_xor_mapped_address_def Let_def kMagicCookie_top u32_split)
    then show ?thesis unfolding val wxyz by (simp add: ep ip V4 bs ip_v4_def)
  next
    case V6
    have val: "xor_mapped_value txn ep = [0, 2] @ write_u16 (port XOR 0x2112) @ map2 (XOR) bs ?m"
      by (simp add: xor_mapped_value_def ep ip V6 addr_len_def l)
    have "map (\<lambda>i. ([0, 2] @ write_u16 (port XOR 0x2112) @ map2 (XOR) bs ?m) ! (4 + i) XOR ?m ! i) [0..<16] = bs"
    proof (rule nth_equalityI)
      fix i assume "i < length (map (\<lambda>i. ([0, 2] @ write_u16 (port XOR 0x2112) @ map2 (XOR) bs ?m) ! (4 + i) XOR ?m ! i) [0..<16])"
      then have i: "i < 16" by simp
      have "([0, 2] @ write_u16 (port XOR 0x2112) @ map2 (XOR) bs ?m) ! (4 + i) = map2 (XOR) bs ?m ! i"
        by (simp add: nth_append)
      then show "map (\<lambda>i. ([0, 2] @ write_u16 (port XOR 0x2112) @ map2 (XOR) bs ?m) ! (4 + i) XOR ?m ! i) [0..<16] ! i = bs ! i"
        using i l txn by (simp add: xor.assoc)
    qed (simp add: l)
    then have "decode_xor_mapped_address ([0, 2] @ write_u16 (port XOR 0x2112) @ map2 (XOR) bs ?m) txn
        = Some \<lparr>ep_ip = \<lparr>ip_family = V6, ip_bytes = bs\<rparr>, ep_port = port\<rparr>"
      using port [of 0 2 "map2 (XOR) bs ?m"] l txn
      by (simp add: decode_xor_mapped_address_def Let_def kMagicCookie_top)
    then show ?thesis unfolding val by (simp add: ep ip V6)
  qed
qed

lemma length_xor_mapped: "wf_ep ep \<Longrightarrow> length txn = 12 \<Longrightarrow> length (xor_mapped_value txn ep) \<le> 20"
  by (cases "ip_family (ep_ip ep)") (simp_all add: xor_mapped_value_def wf_ep_def wf_ip_def addr_len_def)

lemma stun_roundtrip:
  assumes wf: "wf_ep ep" and txn: "length txn = 12"
    and attrs: "list_all (\<lambda>a. fst a \<noteq> kXorMappedAddress \<and> fst a \<noteq> kMappedAddress \<and> length (snd a) < 2 ^ 16) attrs"
    and size: "length (stun_response txn (attrs @ [(kXorMappedAddress, xor_mapped_value txn ep)] @ rest)) < 2 ^ 16"
  shows "parse_binding_response (stun_response txn (attrs @ [(kXorMappedAddress, xor_mapped_value txn ep)] @ rest)) txn = Some ep"
proof -
  let ?x = "(kXorMappedAddress, xor_mapped_value txn ep)"
  let ?body = "concat (map stun_attr (attrs @ [?x] @ rest))"
  let ?p = "stun_response txn (attrs @ [?x] @ rest)"
  let ?hd = "write_u16 kBindingSuccessResponse @ write_u16 (of_nat (length ?body)) @ write_u32 kMagicCookie @ txn"
  have p: "?p = ?hd @ ?body" by (simp add: stun_response_def)
  have len: "length ?p = 20 + length ?body" by (subst p) (simp add: txn)
  have n: "unat (of_nat (length ?body) :: u16) = length ?body"
  proof -
    have "length ?body < 2 ^ 16" using size unfolding len by simp
    then show ?thesis by (simp add: unsigned_of_nat take_bit_nat_eq_self del: of_nat_add length_append length_concat)
  qed
  have rd: "read_u16 ?p 0 = kBindingSuccessResponse" "unat (read_u16 ?p 2) = length ?body" "read_u32 ?p 4 = kMagicCookie"
    "take 12 (drop 8 ?p) = txn"
    using read_u16_at [of "[]" kBindingSuccessResponse] n txn
      read_u16_at [of "write_u16 kBindingSuccessResponse" "of_nat (length ?body)" "write_u32 kMagicCookie @ txn @ ?body"]
      read_u32_at [of "write_u16 kBindingSuccessResponse @ write_u16 (of_nat (length ?body))" kMagicCookie "txn @ ?body"]
    unfolding p by simp_all
  have dec: "decode_attribute kXorMappedAddress (xor_mapped_value txn ep) txn = Some ep"
    by (simp add: decode_attribute_def xor_mapped_decodes [OF wf txn])
  have skip: "list_all (\<lambda>a. decode_attribute (fst a) (snd a) txn = None \<and> length (snd a) < 2 ^ 16) attrs"
    using attrs by (auto simp: list_all_iff decode_attribute_def)
  have "attr_loop ?p txn (20 + length ?body) (length ?hd) = Some ep"
  proof (rule attr_loop_skips [OF _ _ skip dec])
    show "?p = ?hd @ concat (map stun_attr attrs) @ stun_attr ?x @ concat (map stun_attr rest)" by (subst p) simp
    show "length (xor_mapped_value txn ep) < 2 ^ 16" using length_xor_mapped [OF wf txn] by simp
  qed (simp_all add: txn)
  then show ?thesis
    using rd len txn by (simp add: parse_binding_response_def kHeaderSize_def kTransactionIdSize_def kBindingSuccessResponse_def)
qed

section \<open>Only our own answer\<close>

lemma parse_checks:
  assumes "parse_binding_response packet txn = Some ep"
  shows "20 + unat (read_u16 packet 2) \<le> length packet" "read_u16 packet 0 = kBindingSuccessResponse"
    "read_u32 packet 4 = kMagicCookie" "take 12 (drop 8 packet) = txn"
  using assms by (auto simp: parse_binding_response_def Let_def kHeaderSize_def kTransactionIdSize_def split: if_splits)

lemma first_answer_Some:
  "first_answer server txn rxs = Some ep \<Longrightarrow>
     \<exists>rx \<in> set rxs. ep_eq (rx_from rx) server \<and> parse_binding_response (rx_data rx) txn = Some ep"
  by (induction server txn rxs rule: first_answer.induct) (auto split: if_splits option.splits)

lemma await_answer_Some:
  "await_answer server txn ms = Some ep \<Longrightarrow>
     \<exists>rxs \<in> set ms. \<exists>rx \<in> set rxs. ep_eq (rx_from rx) server \<and> parse_binding_response (rx_data rx) txn = Some ep"
  by (induction server txn ms rule: await_answer.induct) (auto dest: first_answer_Some split: option.splits)

section \<open>What the classification says\<close>

lemma ep_eq_trans: "ep_eq a b \<Longrightarrow> ep_eq b c \<Longrightarrow> ep_eq a c"
  by (auto simp: ep_eq_def ip_eq_def addr_len_def split: if_splits)

lemma classify_spec:
  "classify_mapping os port ips =
     (if length os < 2 then MUnknown
      else if \<exists>a \<in> set os. \<exists>b \<in> set os. \<not> ep_eq a b then EndpointDependent
      else if \<exists>ip \<in> set ips. ep_eq (hd os) \<lparr>ep_ip = ip, ep_port = port\<rparr> then MOpen
      else EndpointIndependent)"
proof -
  consider "os = []" | a where "os = [a]" | a b as where "os = a # b # as" by (metis list.exhaust)
  then show ?thesis
  proof cases
    case 3
    have refl: "ep_eq a a" by (simp add: ep_eq_def ip_eq_def)
    have "(\<exists>x \<in> set os. \<exists>y \<in> set os. \<not> ep_eq x y) \<longleftrightarrow> (\<exists>x \<in> set os. \<not> ep_eq x a)"
      using 3 ep_eq_sym ep_eq_trans by (metis list.set_intros(1))
    also have "\<dots> \<longleftrightarrow> list_ex (\<lambda>o'. \<not> ep_eq o' a) (b # as)" using refl by (simp add: 3 list_ex_iff)
    finally have diff: "(\<exists>x \<in> set os. \<exists>y \<in> set os. \<not> ep_eq x y) = list_ex (\<lambda>o'. \<not> ep_eq o' a) (b # as)" .
    have own: "list_ex (\<lambda>ip. ip_eq (ep_ip a) ip \<and> ep_port a = port) ips \<longleftrightarrow> (\<exists>ip \<in> set ips. ep_eq (hd os) \<lparr>ep_ip = ip, ep_port = port\<rparr>)"
      by (auto simp: 3 list_ex_iff ep_eq_def)
    show ?thesis unfolding diff own [symmetric] by (simp add: 3 classify_mapping_def)
  qed (simp_all add: classify_mapping_def)
qed

lemma destinations_distinct:
  "sorted_wrt (\<lambda>a b. \<not> ep_eq a b) ds \<Longrightarrow> sorted_wrt (\<lambda>a b. \<not> ep_eq a b) (distinct_destinations resolve hs ds)"
  by (induction resolve hs ds rule: distinct_destinations.induct)
    (auto simp: sorted_wrt_append list_ex_iff split: option.splits)

end
