(* ===== verification/Sample_Path.thy ===== *)
theory Sample_Path
  imports Punch_Laws Stun_Laws
begin

text \<open>A punching attempt with one candidate and a STUN answer, on which the theorems are instantiated.\<close>

definition demo_sorter :: "Pair list \<Rightarrow> Pair list" where
  "demo_sorter ps = rev (sort_key pp_priority ps)"

lemma demo_sorter_sorts: "sorts demo_sorter"
proof -
  have "sorted_wrt (\<lambda>a b. pp_priority b \<le> pp_priority a) (rev (sort_key pp_priority ps))" for ps
    using sorted_sort_key [of pp_priority ps] by (simp add: sorted_wrt_rev sorted_wrt_map)
  then show ?thesis unfolding sorts_def demo_sorter_def by (metis mset_rev mset_sort)
qed

definition demo_peer :: Endpoint where "demo_peer = \<lparr>ep_ip = ip_v4 192 0 2 1, ep_port = 4000\<rparr>"

definition demo_punch :: PunchSession where
  "demo_punch = PunchSession_new demo_sorter (sconst 7) (sconst (replicate 16 1)) PunchConfig_default (replicate 16 2)
     [\<lparr>cand_kind = Srflx, cand_ep = demo_peer\<rparr>] None (Some (replicate 32 9))"

definition demo_probing :: PunchSession where
  "demo_probing = punch_begin 1000 demo_punch"

lemma demo_punch_reach: "punch_reach demo_punch"
  using demo_sorter_sorts by (intro reach.start) (unfold punch_start_def demo_punch_def, blast)

lemma demo_probing_reach: "punch_reach demo_probing"
  using reach.step [OF demo_punch_reach, of "PBegin 1000"] by (simp add: punch_guard_def punch_step_def demo_probing_def)

lemma demo_punch_pairs:
  "ps_pairs demo_punch = [Pair_default\<lparr>pp_remote := \<lparr>cand_kind = Srflx, cand_ep = demo_peer\<rparr>,
     pp_priority := rank None \<lparr>cand_kind = Srflx, cand_ep = demo_peer\<rparr>, pp_txn := replicate 16 1\<rparr>]"
  by (simp add: demo_punch_def PunchSession_new_def demo_sorter_def skipped_def demo_peer_def is_loopback_def ip_v4_def
      siterate.simps)

lemma demo_probing_fields:
  "ps_state demo_probing = PProbing" "ps_started demo_probing = 1000" "ps_cfg demo_probing = PunchConfig_default"
  "ps_probe_key demo_probing = Some (replicate 32 9)"
proof -
  let ?p = "(hd (ps_pairs demo_punch))\<lparr>pp_next_send := 1000\<rparr>"
  let ?s = "demo_punch\<lparr>ps_started := 1000, ps_state := PProbing, ps_pairs := [?p]\<rparr>"
  obtain q t where e: "emit_probe ?p 1000 ?s = (q, t)" by fastforce
  note t = sends_only_fields [OF emit_probe_fields(6) [OF e]]
  have d: "ps_state demo_punch = PIdle" "ps_cfg demo_punch = PunchConfig_default" "ps_nominate_at demo_punch = None"
    "ps_probe_key demo_punch = Some (replicate 32 9)"
    by (simp_all add: demo_punch_def PunchSession_new_def)
  have eq: "demo_probing = t\<lparr>ps_pairs := [q]\<rparr>"
    using t d e by (simp add: demo_probing_def punch_begin_def demo_punch_pairs punch_on_timeout_def PunchConfig_default_def
        Pair_default_def due_def Let_def)
  show "ps_state demo_probing = PProbing" "ps_started demo_probing = 1000" "ps_cfg demo_probing = PunchConfig_default"
    "ps_probe_key demo_probing = Some (replicate 32 9)"
    unfolding eq using t d by simp_all
qed

lemma demo_probing_pairs: "tracks (ps_pairs demo_punch) (ps_pairs demo_probing)"
  unfolding demo_probing_def by (rule begin_pairs) (simp add: demo_punch_pairs few_attempts_def Pair_default_def max_def)

lemma demo_pair:
  "length (ps_pairs demo_probing) = 1" "map pp_txn (ps_pairs demo_probing) = [replicate 16 1]"
  "pp_txn (ps_pairs demo_probing ! 0) = replicate 16 1" "\<not> pp_validated (ps_pairs demo_probing ! 0)"
proof -
  note T = tracks_maps [OF demo_probing_pairs]
  show l: "length (ps_pairs demo_probing) = 1" "map pp_txn (ps_pairs demo_probing) = [replicate 16 1]"
    using T(2,3) by (simp_all add: demo_punch_pairs)
  then show "pp_txn (ps_pairs demo_probing ! 0) = replicate 16 1" by (metis length_map nth_Cons_0 nth_map zero_less_one)
  show "\<not> pp_validated (ps_pairs demo_probing ! 0)" using T(5) [of 0] by (simp add: demo_punch_pairs Pair_default_def)
qed

lemma demo_peer_wf: "wf_ep demo_peer"
  by (simp add: demo_peer_def wf_ep_def wf_ip_def ip_v4_def addr_len_def)

lemma demo_exchange:
  obtains rep :: PunchOut where "pp_validated (ps_pairs (punch_on_datagram demo_peer (px_data rep) 1050 demo_probing) ! 0)"
proof -
  have "length (pp_txn (ps_pairs demo_probing ! 0)) = kProbeTxnLen" "0 < length (ps_pairs demo_probing)"
    "distinct (map pp_txn (ps_pairs demo_probing))"
    using demo_pair by (simp_all add: kProbeTxnLen_def)
  from exchange_validates [OF this(1) demo_peer_wf this(2,3) demo_pair(4), of 1 1 demo_peer 1050] that show ?thesis by blast
qed

end
