(* ===== verification/Yaml.thy ===== *)
theory Yaml
  imports Prelude
begin

text \<open>
  The YAML subset of \<open>server/config.cpp\<close>: comments, scalars, the line splitter and the block parser. A parse returns the
  first error with its line or the value, where the source fills an \<open>err\<close> argument and returns nothing.
\<close>

section \<open>Data\<close>

datatype YamlNode = YamlNode (yn_line: nat) (yn_is_map: bool) (yn_scalar: string) (yn_entries: "(string \<times> YamlNode) list")

record YamlLine =
  yl_number :: nat
  yl_indent :: nat
  yl_key :: string
  yl_value :: "string option"

record ParseError =
  er_line :: nat
  er_message :: string

abbreviation parse_err :: "nat \<Rightarrow> string \<Rightarrow> ParseError" where
  "parse_err n m \<equiv> \<lparr>er_line = n, er_message = m\<rparr>"

abbreviation chr_nl :: char where "chr_nl \<equiv> CHR 0x0A"
abbreviation chr_cr :: char where "chr_cr \<equiv> CHR 0x0D"
abbreviation chr_tab :: char where "chr_tab \<equiv> CHR 0x09"
abbreviation chr_dq :: char where "chr_dq \<equiv> CHR 0x22"
abbreviation chr_sq :: char where "chr_sq \<equiv> CHR 0x27"
abbreviation chr_bs :: char where "chr_bs \<equiv> CHR 0x5C"
abbreviation chr_sp :: char where "chr_sp \<equiv> CHR 0x20"
abbreviation chr_hash :: char where "chr_hash \<equiv> CHR 0x23"

text \<open>\<open>std::to_string\<close> of an unsigned number.\<close>

definition digit :: "nat \<Rightarrow> char" where
  "digit n = char_of (48 + n)"

fun decimal :: "nat \<Rightarrow> string" where
  "decimal n = (if n < 10 then [digit n] else decimal (n div 10) @ [digit (n mod 10)])"

declare decimal.simps [simp del]

section \<open>Lines\<close>

definition blank :: "char \<Rightarrow> bool" where
  "blank c \<longleftrightarrow> c = chr_sp \<or> c = chr_tab"

definition trim :: "string \<Rightarrow> string" where
  "trim s = rev (dropWhile blank (rev (dropWhile blank s)))"

text \<open>The quote that is open and the character before the current one.\<close>

fun strip_loop :: "char option \<Rightarrow> char option \<Rightarrow> string \<Rightarrow> string" where
  "strip_loop q prev [] = []"
| "strip_loop q prev (c # cs) =
     (if q = Some chr_dq \<and> c = chr_bs then (case cs of [] \<Rightarrow> [c] | d # ds \<Rightarrow> c # d # strip_loop q (Some d) ds)
      else if q \<noteq> None then c # strip_loop (if q = Some c then None else q) (Some c) cs
      else if c = chr_sq \<or> c = chr_dq then c # strip_loop (Some c) (Some c) cs
      else if c = chr_hash \<and> (prev = None \<or> prev = Some chr_sp) then []
      else c # strip_loop None (Some c) cs)"

definition strip_comment :: "string \<Rightarrow> string" where
  "strip_comment s = strip_loop None None s"

definition key_char :: "char \<Rightarrow> bool" where
  "key_char c \<longleftrightarrow> (let n = of_char c :: nat in
     97 \<le> n \<and> n \<le> 122 \<or> 65 \<le> n \<and> n \<le> 90 \<or> 48 \<le> n \<and> n \<le> 57 \<or> c = CHR ''_'' \<or> c = CHR ''-'')"

fun single_quoted :: "nat \<Rightarrow> string \<Rightarrow> string \<Rightarrow> ParseError + string" where
  "single_quoted line out [] = Inl (parse_err line ''unterminated quoted value'')"
| "single_quoted line out (c # cs) =
     (if c \<noteq> chr_sq then single_quoted line (out @ [c]) cs
      else case cs of
          [] \<Rightarrow> Inr out
        | d # ds \<Rightarrow> if d = chr_sq then single_quoted line (out @ [chr_sq]) ds
            else Inl (parse_err line ''unexpected text after a quoted value''))"

fun double_quoted :: "nat \<Rightarrow> string \<Rightarrow> string \<Rightarrow> ParseError + string" where
  "double_quoted line out [] = Inl (parse_err line ''unterminated quoted value'')"
| "double_quoted line out (c # cs) =
     (if c = chr_bs \<and> cs \<noteq> [] then
        (case cs of [] \<Rightarrow> Inr [] | d # ds \<Rightarrow>
           if d = chr_bs then double_quoted line (out @ [chr_bs]) ds
           else if d = chr_dq then double_quoted line (out @ [chr_dq]) ds
           else if d = CHR ''n'' then double_quoted line (out @ [chr_nl]) ds
           else if d = CHR ''t'' then double_quoted line (out @ [chr_tab]) ds
           else Inl (parse_err line (''unsupported escape '' @ [chr_bs, d])))
      else if c = chr_dq then
        (if cs \<noteq> [] then Inl (parse_err line ''unexpected text after a quoted value'') else Inr out)
      else double_quoted line (out @ [c]) cs)"

text \<open>The argument of \<open>parse_scalar\<close> is not empty.\<close>

definition parse_scalar :: "string \<Rightarrow> nat \<Rightarrow> ParseError + string" where
  "parse_scalar s line =
     (let c = hd s in
      if c = chr_sq then single_quoted line [] (tl s)
      else if c = chr_dq then double_quoted line [] (tl s)
      else if c = CHR ''['' \<or> c = CHR ''{'' then Inl (parse_err line ''flow collections are not supported'')
      else if c = CHR ''&'' \<or> c = CHR ''*'' then Inl (parse_err line ''anchors and aliases are not supported'')
      else if c = CHR ''!'' then Inl (parse_err line ''tags are not supported'')
      else if c = CHR ''|'' \<or> c = CHR ''>'' then Inl (parse_err line ''block scalars are not supported'')
      else Inr s)"

text \<open>The text up to each newline; a last line without one counts, an empty rest does not.\<close>

function raw_lines :: "string \<Rightarrow> string list" where
  "raw_lines s = (if s = [] then []
     else takeWhile (\<lambda>c. c \<noteq> chr_nl) s # raw_lines (drop 1 (dropWhile (\<lambda>c. c \<noteq> chr_nl) s)))"
  by pat_completeness auto
termination
proof (relation "measure length")
  fix s :: string assume "s \<noteq> []"
  then show "(drop 1 (dropWhile (\<lambda>c. c \<noteq> chr_nl) s), s) \<in> measure length"
    using length_dropWhile_le [of "\<lambda>c. c \<noteq> chr_nl" s] by (cases s) auto
qed simp

declare raw_lines.simps [simp del]

text \<open>The body of the loop of \<open>split_lines\<close>; \<open>first\<close> says that no line has been kept yet.\<close>

definition yaml_line :: "nat \<Rightarrow> bool \<Rightarrow> string \<Rightarrow> ParseError + YamlLine option" where
  "yaml_line number first text =
     (let raw = (if text \<noteq> [] \<and> last text = chr_cr then butlast text else text);
          indent = length (takeWhile (\<lambda>c. c = chr_sp) raw);
          content = trim (strip_comment (drop indent raw)) in
      if content = [] then Inr None
      else if raw ! indent = chr_tab then Inl (parse_err number ''tabs are not allowed in indentation'')
      else if content = ''---'' \<and> first then Inr None
      else if content = ''---'' \<or> content = ''...'' then Inl (parse_err number ''only one document is supported'')
      else if hd content = CHR ''-'' \<and> (length content = 1 \<or> content ! 1 = chr_sp)
        then Inl (parse_err number ''lists are not supported'')
      else if hd content = CHR ''['' \<or> hd content = CHR ''{''
        then Inl (parse_err number ''flow collections are not supported'')
      else let k = length (takeWhile key_char content) in
        if k = 0 \<or> k = length content \<or> content ! k \<noteq> CHR '':''
           \<or> k + 1 < length content \<and> content ! (k + 1) \<noteq> chr_sp
        then Inl (parse_err number (''expected '' @ [chr_sq] @ ''key: value'' @ [chr_sq] @ '' or '' @ [chr_sq] @ ''key:'' @ [chr_sq]))
        else let rest = trim (drop (k + 1) content) in
          if rest = [] then Inr (Some \<lparr>yl_number = number, yl_indent = indent, yl_key = take k content, yl_value = None\<rparr>)
          else case parse_scalar rest number of
              Inl e \<Rightarrow> Inl e
            | Inr v \<Rightarrow> Inr (Some \<lparr>yl_number = number, yl_indent = indent, yl_key = take k content, yl_value = Some v\<rparr>))"

fun split_loop :: "nat \<Rightarrow> YamlLine list \<Rightarrow> string list \<Rightarrow> ParseError + YamlLine list" where
  "split_loop number out [] = Inr out"
| "split_loop number out (raw # raws) =
     (case yaml_line (number + 1) (out = []) raw of
        Inl e \<Rightarrow> Inl e
      | Inr None \<Rightarrow> split_loop (number + 1) out raws
      | Inr (Some l) \<Rightarrow> split_loop (number + 1) (out @ [l]) raws)"

definition split_lines :: "string \<Rightarrow> ParseError + YamlLine list" where
  "split_lines s = split_loop 0 [] (raw_lines s)"

section \<open>Blocks\<close>

text \<open>
  The loop of \<open>parse_block\<close>: the lines from the current one on, and the entries read so far. It returns the entries of the
  block and the lines after it.
\<close>

function parse_block :: "nat \<Rightarrow> YamlLine list \<Rightarrow> (string \<times> YamlNode) list
    \<Rightarrow> ParseError + ((string \<times> YamlNode) list \<times> YamlLine list)" where
  "parse_block indent [] entries = Inr (entries, [])"
| "parse_block indent (l # ls) entries =
     (if yl_indent l > indent then Inl (parse_err (yl_number l) ''unexpected indentation'')
      else if yl_indent l < indent then Inr (entries, l # ls)
      else case map_of entries (yl_key l) of
        Some node \<Rightarrow> Inl (parse_err (yl_number l) (''duplicate key '' @ [chr_sq] @ yl_key l @ [chr_sq] @ '' (first on line ''
            @ decimal (yn_line node) @ '')''))
      | None \<Rightarrow>
          (case yl_value l of
             Some v \<Rightarrow> parse_block indent ls (entries @ [(yl_key l, YamlNode (yl_number l) False v [])])
           | None \<Rightarrow>
               (if ls \<noteq> [] \<and> yl_indent (hd ls) > indent then
                  (case parse_block (yl_indent (hd ls)) ls [] of
                     Inl e \<Rightarrow> Inl e
                   | Inr (sub, rest) \<Rightarrow> parse_block indent rest (entries @ [(yl_key l, YamlNode (yl_number l) True [] sub)]))
                else Inl (parse_err (yl_number l) ([chr_sq] @ yl_key l @ [chr_sq] @ '' has no value'')))))"
  by pat_completeness auto

termination
proof -
  have rest: "length rest \<le> length ls"
    if "parse_block_dom (indent, ls, entries)" "parse_block indent ls entries = Inr (es, rest)" for indent ls entries es rest
    using that
  proof (induction arbitrary: es rest rule: parse_block.pinduct)
    case (2 indent l ls entries)
    show ?case
    proof (cases "yl_value l")
      case (Some v)
      then show ?thesis using 2 by (fastforce simp: parse_block.psimps split: if_splits option.splits)
    next
      case None
      then show ?thesis using 2
        by (fastforce simp: parse_block.psimps split: if_splits option.splits sum.splits prod.splits)
    qed
  qed (simp add: parse_block.psimps)
  show ?thesis
    by (relation "measure (\<lambda>(_, ls, _). length ls)") (auto dest: rest)
qed

definition parse_yaml :: "string \<Rightarrow> ParseError + YamlNode" where
  "parse_yaml s =
     (case split_lines s of
        Inl e \<Rightarrow> Inl e
      | Inr lines \<Rightarrow>
          if lines = [] then Inr (YamlNode 0 True [] [])
          else if yl_indent (hd lines) \<noteq> 0 then Inl (parse_err (yl_number (hd lines)) ''the top level must not be indented'')
          else (case parse_block 0 lines [] of
              Inl e \<Rightarrow> Inl e
            | Inr (entries, rest) \<Rightarrow>
                if rest \<noteq> [] then Inl (parse_err (yl_number (hd rest)) ''unexpected indentation'')
                else Inr (YamlNode (yl_number (hd lines)) True [] entries)))"

end
