(* ===== verification/Config.thy ===== *)
theory Config
  imports Yaml Control_Service
begin

text \<open>
  The server's configuration, \<open>server/config.cpp\<close> and \<open>RendezvousConfig\<close> of \<open>server/rendezvous.hpp\<close>: values with units, the
  schema every path goes through, reading a document, printing it, and the command line. The file system is a parameter.
\<close>

section \<open>The configuration\<close>

record RendezvousConfig =
  rv_port :: u16
  rv_bind_host :: string
  rv_registry :: RegistryConfig
  rv_control :: ControlConfig
  rv_max_connections :: nat
  rv_max_connections_per_ip :: nat
  rv_idle_timeout :: duration
  rv_first_frame_timeout :: duration
  rv_relay_join_timeout :: duration
  rv_relay_idle_timeout :: duration
  rv_splice_buffer :: nat
  rv_threads :: nat

definition RendezvousConfig_default :: RendezvousConfig where
  "RendezvousConfig_default = \<lparr>rv_port = 4433, rv_bind_host = [], rv_registry = RegistryConfig_default,
     rv_control = ControlConfig_default, rv_max_connections = 20000, rv_max_connections_per_ip = 64, rv_idle_timeout = 90000,
     rv_first_frame_timeout = 10000, rv_relay_join_timeout = 20000, rv_relay_idle_timeout = 90000,
     rv_splice_buffer = 256 * 1024, rv_threads = 1\<rparr>"

definition kMaxUdpDatagram :: nat where "kMaxUdpDatagram = 2048"

section \<open>Values\<close>

datatype ValueKind = KCount | KBytes | KSeconds | KBool | KText

definition is_digit :: "char \<Rightarrow> bool" where
  "is_digit c \<longleftrightarrow> 48 \<le> (of_char c :: nat) \<and> (of_char c :: nat) \<le> 57"

fun parse_uint_loop :: "u64 \<Rightarrow> string \<Rightarrow> u64 option" where
  "parse_uint_loop v [] = Some v"
| "parse_uint_loop v (c # cs) =
     (if \<not> is_digit c then None
      else let d = of_nat (of_char c - 48) in
        if v > (- 1 - d) div 10 then None else parse_uint_loop (v * 10 + d) cs)"

definition parse_uint :: "string \<Rightarrow> u64 option" where
  "parse_uint s = (if s = [] then None else parse_uint_loop 0 s)"

fun unit_scale :: "string \<Rightarrow> (string \<times> u64) list \<Rightarrow> u64 option" where
  "unit_scale u [] = None"
| "unit_scale u ((name, scale) # us) = (if u = name then Some scale else unit_scale u us)"

definition parse_with_unit :: "string \<Rightarrow> (string \<times> u64) list \<Rightarrow> u64 option" where
  "parse_with_unit s units =
     (case parse_uint (takeWhile is_digit s) of
        None \<Rightarrow> None
      | Some n \<Rightarrow>
          (let unit = dropWhile is_digit s;
               unit = (if unit \<noteq> [] \<and> hd unit = chr_sp then tl unit else unit) in
           if unit = [] then Some n
           else case unit_scale unit units of
               None \<Rightarrow> None
             | Some scale \<Rightarrow> if n > - 1 div scale then None else Some (n * scale)))"

definition to_string :: "u64 \<Rightarrow> string" where
  "to_string v = decimal (unat v)"

definition format_bytes :: "u64 \<Rightarrow> string" where
  "format_bytes v =
     (if v \<noteq> 0 \<and> v mod push_bit 30 1 = 0 then to_string (drop_bit 30 v) @ ''GiB''
      else if v \<noteq> 0 \<and> v mod push_bit 20 1 = 0 then to_string (drop_bit 20 v) @ ''MiB''
      else if v \<noteq> 0 \<and> v mod push_bit 10 1 = 0 then to_string (drop_bit 10 v) @ ''KiB''
      else to_string v)"

definition format_seconds :: "u64 \<Rightarrow> string" where
  "format_seconds v =
     (if v \<noteq> 0 \<and> v mod 3600 = 0 then to_string (v div 3600) @ ''h''
      else if v \<noteq> 0 \<and> v mod 60 = 0 \<and> v < 3600 then to_string (v div 60) @ ''m''
      else to_string v @ ''s'')"

definition quote_char :: "char \<Rightarrow> string" where
  "quote_char c =
     (if c = chr_bs then [chr_bs, chr_bs]
      else if c = chr_dq then [chr_bs, chr_dq]
      else if c = chr_nl then [chr_bs, CHR ''n'']
      else if c = chr_tab then [chr_bs, CHR ''t'']
      else [c])"

definition quote :: "string \<Rightarrow> string" where
  "quote s = [chr_dq] @ concat (map quote_char s) @ [chr_dq]"

section \<open>The schema\<close>

record Field =
  f_path :: string
  f_kind :: ValueKind
  f_lo :: u64
  f_hi :: u64
  f_get :: "RendezvousConfig \<Rightarrow> u64"
  f_set :: "RendezvousConfig \<Rightarrow> u64 \<Rightarrow> RendezvousConfig"
  f_get_text :: "RendezvousConfig \<Rightarrow> string"
  f_set_text :: "RendezvousConfig \<Rightarrow> string \<Rightarrow> RendezvousConfig"

definition kKiB :: u64 where "kKiB = 1024"
definition kMaxSize :: u64 where "kMaxSize = - 1"
definition kMaxSecs :: u64 where "kMaxSecs = 10 * 365 * 24 * 3600"

text \<open>The macros of the schema: a numeric field, with its members read and written through 64 bits, and a duration in seconds.\<close>

definition uc_field :: "string \<Rightarrow> ValueKind \<Rightarrow> u64 \<Rightarrow> u64 \<Rightarrow> (RendezvousConfig \<Rightarrow> u64)
    \<Rightarrow> (RendezvousConfig \<Rightarrow> u64 \<Rightarrow> RendezvousConfig) \<Rightarrow> Field" where
  "uc_field path kind lo hi rd wr = \<lparr>f_path = path, f_kind = kind, f_lo = lo, f_hi = hi, f_get = rd, f_set = wr,
     f_get_text = (\<lambda>_. []), f_set_text = (\<lambda>c _. c)\<rparr>"

definition uc_num :: "string \<Rightarrow> ValueKind \<Rightarrow> (RendezvousConfig \<Rightarrow> nat) \<Rightarrow> ((nat \<Rightarrow> nat) \<Rightarrow> RendezvousConfig \<Rightarrow> RendezvousConfig)
    \<Rightarrow> u64 \<Rightarrow> u64 \<Rightarrow> Field" where
  "uc_num path kind rd upd lo hi = uc_field path kind lo hi (\<lambda>c. of_nat (rd c)) (\<lambda>c v. upd (\<lambda>_. unat v) c)"

definition uc_secs :: "string \<Rightarrow> (RendezvousConfig \<Rightarrow> duration) \<Rightarrow> ((duration \<Rightarrow> duration) \<Rightarrow> RendezvousConfig \<Rightarrow> RendezvousConfig)
    \<Rightarrow> Field" where
  "uc_secs path rd upd = uc_field path KSeconds 1 kMaxSecs (\<lambda>c. of_int (rd c div 1000)) (\<lambda>c v. upd (\<lambda>_. sint v * 1000) c)"

definition schema :: "Field list" where
  "schema = [
     uc_field ''port'' KCount 0 65535 (\<lambda>c. ucast (rv_port c)) (\<lambda>c v. c\<lparr>rv_port := ucast v\<rparr>),
     \<lparr>f_path = ''bind'', f_kind = KText, f_lo = 0, f_hi = 0, f_get = (\<lambda>_. 0), f_set = (\<lambda>c _. c),
       f_get_text = rv_bind_host, f_set_text = (\<lambda>c v. c\<lparr>rv_bind_host := v\<rparr>)\<rparr>,
     uc_num ''threads'' KCount rv_threads rv_threads_update 1 256,
     uc_num ''connections.max'' KCount rv_max_connections rv_max_connections_update 1 kMaxSize,
     uc_num ''connections.max_per_ip'' KCount rv_max_connections_per_ip rv_max_connections_per_ip_update 1 kMaxSize,
     uc_secs ''connections.idle_timeout'' rv_idle_timeout rv_idle_timeout_update,
     uc_secs ''connections.first_frame_timeout'' rv_first_frame_timeout rv_first_frame_timeout_update,
     uc_secs ''registry.stale_after'' (rc_stale_after \<circ> rv_registry) (rv_registry_update \<circ> rc_stale_after_update),
     uc_num ''registry.max_per_ip_per_topic'' KCount (rc_max_per_ip_per_topic \<circ> rv_registry)
       (rv_registry_update \<circ> rc_max_per_ip_per_topic_update) 1 kMaxSize,
     uc_num ''registry.max_per_ip_total'' KCount (rc_max_per_ip_total \<circ> rv_registry)
       (rv_registry_update \<circ> rc_max_per_ip_total_update) 1 kMaxSize,
     uc_num ''registry.max_entries'' KCount (rc_max_entries \<circ> rv_registry)
       (rv_registry_update \<circ> rc_max_entries_update) 1 kMaxSize,
     uc_num ''registry.max_topics'' KCount (rc_max_topics \<circ> rv_registry)
       (rv_registry_update \<circ> rc_max_topics_update) 1 kMaxSize,
     uc_field ''relay.enabled'' KBool 0 1 (\<lambda>c. of_bool (rc_relay_enabled (rv_registry c)))
       (\<lambda>c v. rv_registry_update (rc_relay_enabled_update (\<lambda>_. v \<noteq> 0)) c),
     uc_secs ''relay.expiry'' (rc_relay_expiry \<circ> rv_registry) (rv_registry_update \<circ> rc_relay_expiry_update),
     uc_num ''relay.max'' KCount (rc_max_relays \<circ> rv_registry) (rv_registry_update \<circ> rc_max_relays_update) 1 kMaxSize,
     uc_num ''relay.max_per_ip'' KCount (rc_max_relays_per_ip \<circ> rv_registry)
       (rv_registry_update \<circ> rc_max_relays_per_ip_update) 1 kMaxSize,
     uc_field ''relay.max_bytes'' KBytes kKiB (0xFFFFFFFF * kKiB) (\<lambda>c. rc_relay_max_bytes (rv_registry c))
       (\<lambda>c v. rv_registry_update (rc_relay_max_bytes_update (\<lambda>_. v)) c),
     uc_secs ''relay.join_timeout'' rv_relay_join_timeout rv_relay_join_timeout_update,
     uc_secs ''relay.idle_timeout'' rv_relay_idle_timeout rv_relay_idle_timeout_update,
     uc_num ''relay.splice_buffer'' KBytes rv_splice_buffer rv_splice_buffer_update kKiB kMaxSize,
     uc_num ''rate_limits.control_bytes_per_sec'' KBytes (cc_rate_bytes_per_sec \<circ> rv_control)
       (rv_control_update \<circ> cc_rate_bytes_per_sec_update) 1 kMaxSize,
     uc_num ''rate_limits.control_burst_bytes'' KBytes (cc_rate_burst_bytes \<circ> rv_control)
       (rv_control_update \<circ> cc_rate_burst_bytes_update) (of_nat (kMaxFrame + kMessageOverhead)) kMaxSize,
     uc_num ''rate_limits.udp_bytes_per_sec'' KBytes (cc_udp_bytes_per_sec \<circ> rv_control)
       (rv_control_update \<circ> cc_udp_bytes_per_sec_update) 1 kMaxSize,
     uc_num ''rate_limits.udp_burst_bytes'' KBytes (cc_udp_burst_bytes \<circ> rv_control)
       (rv_control_update \<circ> cc_udp_burst_bytes_update) (of_nat kMaxUdpDatagram) kMaxSize]"

fun field_in :: "string \<Rightarrow> Field list \<Rightarrow> Field option" where
  "field_in path [] = None"
| "field_in path (f # fs) = (if path = f_path f then Some f else field_in path fs)"

definition find_field :: "string \<Rightarrow> Field option" where
  "find_field path = field_in path schema"

definition is_section :: "string \<Rightarrow> bool" where
  "is_section path \<longleftrightarrow> list_ex (\<lambda>f. length (f_path f) > length path \<and> take (length path) (f_path f) = path
     \<and> f_path f ! length path = CHR ''.'') schema"

definition show_value :: "Field \<Rightarrow> u64 \<Rightarrow> string" where
  "show_value f v = (case f_kind f of
       KBytes \<Rightarrow> format_bytes v
     | KSeconds \<Rightarrow> format_seconds v
     | KBool \<Rightarrow> if v \<noteq> 0 then ''true'' else ''false''
     | _ \<Rightarrow> to_string v)"

abbreviation quoted :: "string \<Rightarrow> string" where
  "quoted s \<equiv> [chr_sq] @ s @ [chr_sq]"

text \<open>The error of a value out of range, if it is.\<close>

definition in_range :: "Field \<Rightarrow> u64 \<Rightarrow> string option" where
  "in_range f v =
     (if v < f_lo f then Some (quoted (f_path f) @ '' must be at least '' @ show_value f (f_lo f))
      else if v > f_hi f then Some (quoted (f_path f) @ '' must be at most '' @ show_value f (f_hi f))
      else None)"

definition byte_units :: "(string \<times> u64) list" where
  "byte_units = [(''B'', 1), (''KiB'', kKiB), (''MiB'', kKiB * kKiB), (''GiB'', kKiB * kKiB * kKiB)]"

definition second_units :: "(string \<times> u64) list" where
  "second_units = [(''s'', 1), (''m'', 60), (''h'', 3600)]"

fun parse_value :: "ValueKind \<Rightarrow> string \<Rightarrow> u64 option" where
  "parse_value KCount s = parse_uint s"
| "parse_value KBytes s = parse_with_unit s byte_units"
| "parse_value KSeconds s = parse_with_unit s second_units"
| "parse_value KBool s = (if s = ''false'' then Some 0 else if s = ''true'' then Some 1 else None)"
| "parse_value KText s = None"

fun expected :: "ValueKind \<Rightarrow> string" where
  "expected KCount = ''a whole number''"
| "expected KBytes = ''a size, such as 4096, 256KiB, 32MiB or 1GiB''"
| "expected KSeconds = ''a duration, such as 45, 90s, 2m or 1h''"
| "expected KBool = ''true or false''"
| "expected KText = []"

definition set_field :: "Field \<Rightarrow> string \<Rightarrow> RendezvousConfig \<Rightarrow> string + RendezvousConfig" where
  "set_field f s cfg =
     (if f_kind f = KText then Inr (f_set_text f cfg s)
      else case parse_value (f_kind f) s of
        None \<Rightarrow> Inl (quoted (f_path f) @ '' must be '' @ expected (f_kind f) @ '', not '' @ quoted s)
      | Some v \<Rightarrow> (case in_range f v of Some e \<Rightarrow> Inl e | None \<Rightarrow> Inr (f_set f cfg v)))"

function apply_node :: "(string \<times> YamlNode) list \<Rightarrow> string \<Rightarrow> RendezvousConfig \<Rightarrow> ParseError + RendezvousConfig" where
  "apply_node [] prefix cfg = Inr cfg"
| "apply_node ((key, child) # entries) prefix cfg =
     (let path = (if prefix = [] then key else prefix @ ''.'' @ key) in
      case find_field path of
        Some f \<Rightarrow>
          if yn_is_map child then Inl (parse_err (yn_line child) (quoted path @ '' takes a value, not a section''))
          else (case set_field f (yn_scalar child) cfg of
              Inl why \<Rightarrow> Inl (parse_err (yn_line child) why)
            | Inr cfg' \<Rightarrow> apply_node entries prefix cfg')
      | None \<Rightarrow>
          if is_section path then
            (if \<not> yn_is_map child
             then Inl (parse_err (yn_line child) (quoted path @ '' is a section: indent its keys beneath it''))
             else case apply_node (yn_entries child) path cfg of
                 Inl e \<Rightarrow> Inl e
               | Inr cfg' \<Rightarrow> apply_node entries prefix cfg')
          else Inl (parse_err (yn_line child) (''unknown key '' @ quoted path)))"
  by pat_completeness auto
termination
proof (relation "measure (\<lambda>(es, _, _). size_list (size_prod (\<lambda>_. 0) size) es)")
  fix key child and entries :: "(string \<times> YamlNode) list" and prefix path :: string and cfg :: RendezvousConfig
  show "((yn_entries child, path, cfg), (key, child) # entries, prefix, cfg)
      \<in> measure (\<lambda>(es, _, _). size_list (size_prod (\<lambda>_. 0) size) es)"
    by (cases child) simp
qed auto

section \<open>The file\<close>

definition apply_config :: "string \<Rightarrow> RendezvousConfig \<Rightarrow> string + RendezvousConfig" where
  "apply_config yaml cfg =
     (case (case parse_yaml yaml of Inl e \<Rightarrow> Inl e | Inr node \<Rightarrow> apply_node (yn_entries node) [] cfg) of
        Inl e \<Rightarrow> Inl (''line '' @ decimal (er_line e) @ '': '' @ er_message e)
      | Inr cfg' \<Rightarrow> Inr cfg')"

definition load_config_file :: "(string \<Rightarrow> string option) \<Rightarrow> string \<Rightarrow> RendezvousConfig \<Rightarrow> string + RendezvousConfig" where
  "load_config_file file path cfg =
     (case file path of
        None \<Rightarrow> Inl (path @ '': cannot open'')
      | Some yaml \<Rightarrow> (case apply_config yaml cfg of
            Inl e \<Rightarrow> Inl (path @ '':'' @ drop 5 e)
          | Inr cfg' \<Rightarrow> Inr cfg'))"

fun validate_fields :: "Field list \<Rightarrow> RendezvousConfig \<Rightarrow> string option" where
  "validate_fields [] cfg = None"
| "validate_fields (f # fs) cfg =
     (if f_kind f = KText then validate_fields fs cfg
      else case in_range f (f_get f cfg) of Some e \<Rightarrow> Some e | None \<Rightarrow> validate_fields fs cfg)"

definition validate_config :: "RendezvousConfig \<Rightarrow> string option" where
  "validate_config cfg = validate_fields schema cfg"

fun yaml_fields :: "RendezvousConfig \<Rightarrow> string \<Rightarrow> Field list \<Rightarrow> string" where
  "yaml_fields cfg section [] = []"
| "yaml_fields cfg section (f # fs) =
     (let dotted = CHR ''.'' \<in> set (f_path f);
          here = (if dotted then takeWhile (\<lambda>c. c \<noteq> CHR ''.'') (f_path f) else []);
          key = (if dotted then drop (length here + 1) (f_path f) else f_path f)
      in (if here \<noteq> section then [chr_nl] @ here @ '':'' @ [chr_nl] else [])
         @ (if here = [] then [] else ''  '') @ key @ '': ''
         @ (if f_kind f = KText then quote (f_get_text f cfg) else show_value f (f_get f cfg)) @ [chr_nl]
         @ yaml_fields cfg here fs)"

definition to_yaml :: "RendezvousConfig \<Rightarrow> string" where
  "to_yaml cfg = ''# uconnect-rendezvous configuration'' @ [chr_nl] @ yaml_fields cfg [] schema"

section \<open>The command line\<close>

record ServerOptions =
  so_cfg :: RendezvousConfig
  so_help :: bool
  so_quiet :: bool
  so_nat_check :: bool
  so_print_config :: bool

definition ServerOptions_default :: ServerOptions where
  "ServerOptions_default = \<lparr>so_cfg = RendezvousConfig_default, so_help = False, so_quiet = False, so_nat_check = False,
     so_print_config = False\<rparr>"

definition key_for :: "string \<Rightarrow> string option" where
  "key_for a = map_of [(''--port'', ''port''), (''--bind'', ''bind''), (''--threads'', ''threads''),
     (''--stale'', ''registry.stale_after''), (''--max-per-ip'', ''registry.max_per_ip_per_topic'')] a"

text \<open>The first pass: the shape of the command line, the path of the file and the settings in order.\<close>

fun scan_args :: "ServerOptions \<Rightarrow> string option \<Rightarrow> (string \<times> string) list \<Rightarrow> string list
    \<Rightarrow> string + (ServerOptions \<times> string option \<times> (string \<times> string) list)" where
  "scan_args opts path settings [] = Inr (opts, path, settings)"
| "scan_args opts path settings (a # args) =
     (if a = ''--help'' \<or> a = ''-h'' then scan_args (opts\<lparr>so_help := True\<rparr>) path settings args
      else if a = ''--quiet'' then scan_args (opts\<lparr>so_quiet := True\<rparr>) path settings args
      else if a = ''--nat-check'' then scan_args (opts\<lparr>so_nat_check := True\<rparr>) path settings args
      else if a = ''--print-config'' then scan_args (opts\<lparr>so_print_config := True\<rparr>) path settings args
      else if a = ''--no-relay'' then scan_args opts path (settings @ [(a, ''false'')]) args
      else if a = ''--config'' \<or> key_for a \<noteq> None then
        (case args of
           [] \<Rightarrow> Inl (a @ '' needs a value'')
         | v # args' \<Rightarrow>
             if a \<noteq> ''--config'' then scan_args opts path (settings @ [(a, v)]) args'
             else if path \<noteq> None then Inl ''--config given twice''
             else scan_args opts (Some v) settings args')
      else Inl (''unknown option: '' @ a))"

definition flag_key :: "string \<Rightarrow> string option" where
  "flag_key flag = (if flag = ''--no-relay'' then Some ''relay.enabled'' else key_for flag)"

text \<open>The second pass. Every flag that is kept names a field; the source dereferences it without a check.\<close>

fun apply_settings :: "(string \<times> string) list \<Rightarrow> RendezvousConfig \<Rightarrow> string + RendezvousConfig" where
  "apply_settings [] cfg = Inr cfg"
| "apply_settings ((flag, value) # ss) cfg =
     (case Option.bind (flag_key flag) find_field of
        None \<Rightarrow> Inl []
      | Some f \<Rightarrow> (case set_field f value cfg of
            Inl why \<Rightarrow> Inl (flag @ '': '' @ why)
          | Inr cfg' \<Rightarrow> apply_settings ss cfg'))"

definition parse_server_args :: "(string \<Rightarrow> string option) \<Rightarrow> string list \<Rightarrow> string + ServerOptions" where
  "parse_server_args file args =
     (case scan_args ServerOptions_default None [] args of
        Inl e \<Rightarrow> Inl e
      | Inr (opts, path, settings) \<Rightarrow>
          (case (case path of None \<Rightarrow> Inr (so_cfg opts) | Some p \<Rightarrow> load_config_file file p (so_cfg opts)) of
             Inl e \<Rightarrow> Inl e
           | Inr cfg \<Rightarrow>
               (case apply_settings settings cfg of
                  Inl e \<Rightarrow> Inl e
                | Inr cfg \<Rightarrow> (case validate_config cfg of Some e \<Rightarrow> Inl e | None \<Rightarrow> Inr (opts\<lparr>so_cfg := cfg\<rparr>)))))"

end
