(* ===== verification/Yaml_Laws.thy ===== *)
theory Yaml_Laws
  imports Config
begin

text \<open>
  What the pieces of the configuration reader return on what the printer writes: numbers with and without units, quoted text,
  lines and blocks.
\<close>

section \<open>Numbers\<close>

definition dec_value :: "string \<Rightarrow> nat" where
  "dec_value s = foldl (\<lambda>n c. 10 * n + (of_char c - 48)) 0 s"

lemma dec_value_snoc: "dec_value (s @ [c]) = 10 * dec_value s + (of_char c - 48)"
  by (simp add: dec_value_def)

lemma foldl_dec_ge: "(n :: nat) \<le> foldl (\<lambda>n c. 10 * n + (of_char c - 48)) n s"
proof (induction s arbitrary: n)
  case (Cons c cs)
  show ?case using Cons [of "10 * n + (of_char c - 48)"] by simp
qed simp

lemma unat_max64: "unat (- 1 :: u64) = 2 ^ 64 - 1"
  by (simp add: unsigned_minus_1_eq_mask mask_eq_exp_minus_1)

lemma unat_u64: "unat (v :: u64) < 2 ^ 64"
  using unsigned_less [of v, where ?'a = nat] by simp

lemma parse_uint_loop_exact:
  "parse_uint_loop v s =
     (let n = foldl (\<lambda>n c. 10 * n + (of_char c - 48)) (unat v) s in
      if list_all is_digit s \<and> n < 2 ^ 64 then Some (of_nat n) else None)"
proof (induction s arbitrary: v)
  case Nil
  have "unat v < 2 ^ 64" by (rule unat_u64)
  then show ?case by simp
next
  case (Cons c cs)
  let ?k = "of_char c - 48 :: nat" and ?d = "of_nat (of_char c - 48) :: u64"
  show ?case
  proof (cases "is_digit c")
    case True
    then have k: "?k < 10" by (auto simp: is_digit_def)
    then have d: "unat ?d = ?k" by (simp add: unat_of_nat)
    have m: "unat (- 1 - ?d) = 2 ^ 64 - 1 - ?k"
      using d k by (subst unat_sub) (simp_all add: word_le_nat_alt unat_max64)
    have over: "v > (- 1 - ?d) div 10 \<longleftrightarrow> 2 ^ 64 \<le> 10 * unat v + ?k"
      unfolding word_less_nat_alt unat_div m using k by auto
    show ?thesis
    proof (cases "v > (- 1 - ?d) div 10")
      case True
      then have "2 ^ 64 \<le> foldl (\<lambda>n c. 10 * n + (of_char c - 48)) (10 * unat v + ?k) cs"
        using over foldl_dec_ge [of "10 * unat v + ?k" cs] by simp
      then show ?thesis using True \<open>is_digit c\<close> by (simp add: Let_def)
    next
      case False
      then have "unat (v * 10 + ?d) = 10 * unat v + ?k"
        using over d by (simp add: unat_word_ariths mult.commute)
      then show ?thesis using False \<open>is_digit c\<close> Cons [of "v * 10 + ?d"] by (simp add: Let_def)
    qed
  qed simp
qed

lemma parse_uint_exact:
  "parse_uint s = (if s \<noteq> [] \<and> list_all is_digit s \<and> dec_value s < 2 ^ 64 then Some (of_nat (dec_value s)) else None)"
  by (simp add: parse_uint_def parse_uint_loop_exact dec_value_def Let_def)

lemma digit_ok: "n < 10 \<Longrightarrow> is_digit (digit n) \<and> of_char (digit n) - 48 = n"
  by (simp add: is_digit_def digit_def)

lemma decimal_ok: "decimal n \<noteq> [] \<and> list_all is_digit (decimal n) \<and> dec_value (decimal n) = n"
proof (induction n rule: decimal.induct)
  case (1 n)
  show ?case
  proof (cases "n < 10")
    case True
    then show ?thesis using digit_ok [OF True] by (subst (1 2 3) decimal.simps) (simp add: dec_value_def)
  next
    case False
    then show ?thesis using digit_ok [of "n mod 10"] 1 by (subst (1 2 3) decimal.simps) (simp add: dec_value_snoc)
  qed
qed

lemma parse_to_string: "parse_uint (to_string v) = Some v"
  using decimal_ok [of "unat v"] unat_u64 [of v] by (simp add: parse_uint_exact to_string_def)

lemma to_string_digits: "list_all is_digit (to_string v)" "to_string v \<noteq> []"
  using decimal_ok [of "unat v"] by (simp_all add: to_string_def)

section \<open>Units\<close>

lemma parse_unit:
  assumes "u \<noteq> []" "\<not> is_digit (hd u)" "hd u \<noteq> chr_sp" "unit_scale u units = Some scale" "0 < scale"
    "unat n * unat scale < 2 ^ 64"
  shows "parse_with_unit (to_string n @ u) units = Some (n * scale)"
proof -
  have t: "takeWhile is_digit (to_string n @ u) = to_string n" "dropWhile is_digit (to_string n @ u) = u"
    using to_string_digits(1) [of n] assms(1,2) by (cases u; simp add: list_all_iff)+
  have "unat n \<le> (2 ^ 64 - 1) div unat scale"
    using assms(5,6) by (simp add: less_eq_div_iff_mult_less_eq word_gt_0 unat_gt_0 word_less_nat_alt)
  then have "\<not> n > - 1 div scale" by (simp add: word_less_nat_alt unat_div unat_max64 not_less)
  then show ?thesis using assms(1,3,4) by (simp add: parse_with_unit_def t parse_to_string Let_def)
qed

lemma parse_no_unit: "parse_with_unit (to_string n) units = Some n"
proof -
  have t: "takeWhile is_digit (to_string n) = to_string n" "dropWhile is_digit (to_string n) = []"
    using to_string_digits(1) [of n] by (simp_all add: list_all_iff takeWhile_eq_all_conv)
  show ?thesis by (simp add: parse_with_unit_def t parse_to_string)
qed

text \<open>A number that is a multiple of a unit is recovered from its quotient.\<close>

lemma scaled:
  assumes "v mod s = (0 :: u64)" shows "v div s * s = v" "unat (v div s) * unat s < 2 ^ 64"
proof -
  show "v div s * s = v" using assms by (metis add.right_neutral div_mult_mod_eq)
  have "unat (v div s) * unat s = unat v" using assms
    by (metis add.right_neutral div_mult_mod_eq unat_0 unat_div unat_mod)
  then show "unat (v div s) * unat s < 2 ^ 64" using unat_u64 [of v] by simp
qed

lemma drop_bit_div: "drop_bit n (v :: u64) = v div push_bit n 1"
  by (simp add: drop_bit_eq_div push_bit_eq_mult)

lemma parse_format_bytes: "parse_with_unit (format_bytes v) byte_units = Some v"
proof -
  have s: "push_bit 30 (1::u64) = 0x40000000" "push_bit 20 (1::u64) = 0x100000" "push_bit 10 (1::u64) = 0x400"
    by (simp_all add: push_bit_eq_mult)
  have u: "parse_with_unit (to_string (v div sc) @ u) byte_units = Some v"
    if "v mod sc = 0" "unit_scale u byte_units = Some sc" "u \<noteq> []" "\<not> is_digit (hd u)" "hd u \<noteq> chr_sp" "0 < sc" for sc u
    using parse_unit [OF that(3-5) that(2) that(6), of "v div sc"] scaled [OF that(1)] by simp
  have "v mod 0x40000000 = 0 \<Longrightarrow> parse_with_unit (to_string (v div 0x40000000) @ ''GiB'') byte_units = Some v"
    "v mod 0x100000 = 0 \<Longrightarrow> parse_with_unit (to_string (v div 0x100000) @ ''MiB'') byte_units = Some v"
    "v mod 0x400 = 0 \<Longrightarrow> parse_with_unit (to_string (v div 0x400) @ ''KiB'') byte_units = Some v"
    by (rule u; simp add: byte_units_def kKiB_def is_digit_def)+
  then show ?thesis by (simp add: format_bytes_def drop_bit_div s parse_no_unit)
qed

lemma parse_format_seconds: "parse_with_unit (format_seconds v) second_units = Some v"
proof -
  have u: "parse_with_unit (to_string (v div sc) @ u) second_units = Some v"
    if "v mod sc = 0" "unit_scale u second_units = Some sc" "u \<noteq> []" "\<not> is_digit (hd u)" "hd u \<noteq> chr_sp" "0 < sc" for sc u
    using parse_unit [OF that(3-5) that(2) that(6), of "v div sc"] scaled [OF that(1)] by simp
  have "parse_with_unit (to_string v @ ''s'') second_units = Some v"
    using parse_unit [of "''s''" second_units 1 v] unat_u64 [of v] by (simp add: second_units_def is_digit_def)
  moreover have "v mod 3600 = 0 \<Longrightarrow> parse_with_unit (to_string (v div 3600) @ ''h'') second_units = Some v"
    "v mod 60 = 0 \<Longrightarrow> parse_with_unit (to_string (v div 60) @ ''m'') second_units = Some v"
    by (rule u; simp add: second_units_def is_digit_def)+
  ultimately show ?thesis by (auto simp: format_seconds_def)
qed

section \<open>Characters\<close>

text \<open>Characters that neither open a quote nor start a comment, and are not blank or a line end.\<close>

definition plain_char :: "char \<Rightarrow> bool" where
  "plain_char c \<longleftrightarrow> c \<notin> {chr_sq, chr_dq, chr_hash, chr_sp, chr_tab, chr_nl, chr_cr}"

lemma key_char_plain: "key_char c \<Longrightarrow> plain_char c \<and> c \<noteq> CHR '':''"
  by (auto simp: key_char_def plain_char_def)

lemma digit_plain: "is_digit c \<Longrightarrow> plain_char c"
  by (auto simp: is_digit_def plain_char_def)

lemma strip_plain:
  "list_all plain_char xs \<Longrightarrow>
     strip_loop None p (xs @ ys) = xs @ strip_loop None (if xs = [] then p else Some (last xs)) ys"
  by (induction xs arbitrary: p) (auto simp: plain_char_def)

lemma strip_quoted:
  "strip_loop (Some chr_dq) p (concat (map quote_char s) @ [chr_dq]) = concat (map quote_char s) @ [chr_dq]"
  by (induction s arbitrary: p) (simp_all add: quote_char_def)

lemma double_quoted_quote:
  "double_quoted n out (concat (map quote_char s) @ [chr_dq]) = Inr (out @ s)"
  by (induction s arbitrary: out) (simp_all add: quote_char_def)

lemma parse_quote: "parse_scalar (quote s) n = Inr s"
  by (simp add: parse_scalar_def quote_def double_quoted_quote)

lemma trim_id:
  assumes "s \<noteq> []" "\<not> blank (hd s)" "\<not> blank (last s)" shows "trim s = s"
proof -
  have "dropWhile blank s = s" using assms(1,2) by (cases s) simp_all
  moreover have "dropWhile blank (rev s) = rev s" using assms(1,3) by (cases s rule: rev_cases) simp_all
  ultimately show ?thesis by (simp add: trim_def)
qed

lemma trim_sp: "trim (chr_sp # s) = trim s"
  by (simp add: trim_def blank_def)

section \<open>Lines\<close>

text \<open>A value as it may stand in a line, and what it is read as.\<close>

definition reads_as :: "string \<Rightarrow> string \<Rightarrow> bool" where
  "reads_as v x \<longleftrightarrow> v \<noteq> [] \<and> \<not> blank (hd v) \<and> \<not> blank (last v) \<and> last v \<noteq> chr_cr \<and> chr_nl \<notin> set v
     \<and> strip_loop None (Some chr_sp) v = v \<and> (\<forall>n. parse_scalar v n = Inr x)"

definition good_key :: "string \<Rightarrow> bool" where
  "good_key k \<longleftrightarrow> k \<noteq> [] \<and> list_all key_char k \<and> hd k \<noteq> CHR ''-''"

lemma reads_quote: "reads_as (quote s) s"
proof -
  have "chr_nl \<notin> set (quote s)" by (auto simp: quote_def quote_char_def)
  moreover have "strip_loop None (Some chr_sp) (quote s) = quote s" by (simp add: quote_def strip_quoted)
  ultimately show ?thesis by (simp add: reads_as_def parse_quote) (simp add: quote_def blank_def)
qed

lemma reads_plain:
  assumes "v \<noteq> []" "list_all plain_char v" "\<forall>n. parse_scalar v n = Inr v" shows "reads_as v v"
proof -
  have "plain_char (hd v)" "plain_char (last v)" using assms(1,2) by (simp_all add: list_all_iff)
  moreover have "chr_nl \<notin> set v" using assms(2) by (auto simp: list_all_iff plain_char_def)
  ultimately show ?thesis
    using assms strip_plain [OF assms(2), of "Some chr_sp" "[]"] by (auto simp: reads_as_def plain_char_def blank_def)
qed

lemma key_content:
  assumes k: "good_key key" and content: "content = key @ CHR '':'' # tail"
    and raw: "raw = replicate k chr_sp @ rest" "rest \<noteq> []" "hd rest = hd key" "last rest \<noteq> chr_cr"
    and stripped: "trim (strip_comment rest) = content" and tail: "tail = [] \<or> hd tail = chr_sp"
  shows "yaml_line n first raw =
    (let v = trim tail in
     if v = [] then Inr (Some \<lparr>yl_number = n, yl_indent = k, yl_key = key, yl_value = None\<rparr>)
     else case parse_scalar v n of
         Inl e \<Rightarrow> Inl e
       | Inr v \<Rightarrow> Inr (Some \<lparr>yl_number = n, yl_indent = k, yl_key = key, yl_value = Some v\<rparr>))"
proof -
  obtain c cs where key: "key = c # cs" "key_char c" "c \<noteq> CHR ''-''" "list_all key_char cs"
    using k by (cases key) (auto simp: good_key_def)
  have c: "c \<noteq> chr_sp" "c \<noteq> chr_tab" "c \<noteq> CHR ''.''" "c \<noteq> CHR ''[''" "c \<noteq> CHR ''{''"
    using key(2) by (auto simp: key_char_def)
  obtain rs where rest: "rest = c # rs" using raw(2,3) key(1) by (cases rest) auto
  have ind: "takeWhile (\<lambda>c. c = chr_sp) raw = replicate k chr_sp" "raw ! k = c"
    using c(1) by (simp_all add: raw(1) rest takeWhile_append nth_append)
  have cr: "\<not> (raw \<noteq> [] \<and> last raw = chr_cr)" using raw(1,2,4) by simp
  have tw: "takeWhile key_char content = key"
    using key by (simp add: content takeWhile_append key_char_def list_all_iff)
  have d: "drop k raw = rest" by (simp add: raw(1))
  have f: "content \<noteq> []" "content \<noteq> ''---''" "content \<noteq> ''...''" "hd content = c" "length key \<noteq> 0" "length key \<noteq> length content"
    "content ! length key = CHR '':''" "take (length key) content = key" "drop (length key + 1) content = tail"
    using c(3) key(1,3) by (simp_all add: content)
  have g: "\<not> (length key + 1 < length content \<and> content ! (length key + 1) \<noteq> chr_sp)"
    using tail by (cases tail) (simp_all add: content nth_append)
  have i: "length (takeWhile (\<lambda>c. c = chr_sp) raw) = k" using ind(1) by simp
  have h: "\<not> (length key = 0 \<or> length key = length content \<or> content ! length key \<noteq> CHR '':''
      \<or> length key + 1 < length content \<and> content ! (length key + 1) \<noteq> chr_sp)"
    using f(5-7) g by blast
  show ?thesis
    unfolding yaml_line_def Let_def if_not_P [OF cr] i d stripped tw ind(2) f(4,8,9) if_not_P [OF h]
    using f(1-3) c key(3) by simp
qed

lemma yaml_line_value:
  assumes "good_key key" "reads_as v x"
  shows "yaml_line n first (replicate k chr_sp @ key @ '': '' @ v) = Inr (Some \<lparr>yl_number = n, yl_indent = k, yl_key = key, yl_value = Some x\<rparr>)"
proof -
  have p: "list_all plain_char key" "key \<noteq> []" using assms(1) key_char_plain by (auto simp: good_key_def list_all_iff)
  have v: "v \<noteq> []" "\<not> blank (hd v)" "\<not> blank (last v)" "last v \<noteq> chr_cr" "strip_loop None (Some chr_sp) v = v" "parse_scalar v n = Inr x"
    using assms(2) by (simp_all add: reads_as_def)
  have s: "strip_comment (key @ '': '' @ v) = key @ '': '' @ v"
    using v(5) by (simp add: strip_comment_def strip_plain [OF p(1)])
  have "plain_char (hd key)" using p by (simp add: list_all_iff)
  then have t: "trim (strip_comment (key @ '': '' @ v)) = key @ CHR '':'' # '' '' @ v"
    unfolding s using p v by (subst trim_id) (auto simp: plain_char_def blank_def)
  have "trim ('' '' @ v) = v" using trim_id [OF v(1-3)] by (simp add: trim_sp)
  then show ?thesis
    using key_content [OF assms(1) refl refl _ _ _ t, where n = n and first = first and k = k] v p by simp
qed

lemma yaml_line_section:
  assumes "good_key key"
  shows "yaml_line n first (key @ '':'') = Inr (Some \<lparr>yl_number = n, yl_indent = 0, yl_key = key, yl_value = None\<rparr>)"
proof -
  have p: "list_all plain_char key" "key \<noteq> []" using assms(1) key_char_plain by (auto simp: good_key_def list_all_iff)
  have "plain_char (hd key)" using p by (simp add: list_all_iff)
  then have t: "trim (strip_comment (key @ '':'')) = key @ CHR '':'' # []"
    using p by (subst strip_comment_def, subst strip_plain [OF p(1)], subst trim_id) (auto simp: plain_char_def blank_def)
  show ?thesis
    using key_content [OF assms(1) refl, where k = 0 and tail = "[]" and n = n and first = first, OF _ _ _ _ t] p by (simp add: trim_def)
qed

lemma yaml_line_empty: "yaml_line n first [] = Inr None"
  by (simp add: yaml_line_def strip_comment_def trim_def)

lemma raw_lines_line: "chr_nl \<notin> set l \<Longrightarrow> raw_lines (l @ chr_nl # rest) = l # raw_lines rest"
  by (subst raw_lines.simps) (simp add: takeWhile_append dropWhile_append)

lemma raw_lines_Nil: "raw_lines [] = []"
  by (subst raw_lines.simps) simp

end
