(* ===== verification/Config_Laws.thy ===== *)
theory Config_Laws
  imports Yaml_Laws
begin

text \<open>
  The configuration as a whole: what the printer writes is read back, what is read stays within the ranges of the schema, and the
  order of the sources of a value.
\<close>

section \<open>Fields\<close>

text \<open>The section and the key of a path.\<close>

definition psec :: "string \<Rightarrow> string" where
  "psec p = (if CHR ''.'' \<in> set p then takeWhile (\<lambda>c. c \<noteq> CHR ''.'') p else [])"

definition pkey :: "string \<Rightarrow> string" where
  "pkey p = (if CHR ''.'' \<in> set p then drop (length (psec p) + 1) p else p)"

abbreviation fsec :: "Field \<Rightarrow> string" where "fsec f \<equiv> psec (f_path f)"
abbreviation fkey :: "Field \<Rightarrow> string" where "fkey f \<equiv> pkey (f_path f)"

definition ftext :: "RendezvousConfig \<Rightarrow> Field \<Rightarrow> string" where
  "ftext cfg f = (if f_kind f = KText then f_get_text f cfg else show_value f (f_get f cfg))"

definition fraw :: "RendezvousConfig \<Rightarrow> Field \<Rightarrow> string" where
  "fraw cfg f = (if f_kind f = KText then quote (f_get_text f cfg) else show_value f (f_get f cfg))"

lemma yaml_fields_Cons:
  "yaml_fields cfg sec (f # fs) = (if fsec f \<noteq> sec then [chr_nl] @ fsec f @ '':'' @ [chr_nl] else [])
     @ (if fsec f = [] then [] else ''  '') @ fkey f @ '': '' @ fraw cfg f @ [chr_nl] @ yaml_fields cfg (fsec f) fs"
  by (simp add: Let_def psec_def pkey_def fraw_def)

lemma show_plain:
  assumes "f_kind f \<noteq> KText"
  shows "show_value f v \<noteq> [] \<and> list_all plain_char (show_value f v)
    \<and> (is_digit (hd (show_value f v)) \<or> hd (show_value f v) \<in> {CHR ''t'', CHR ''f''})"
proof -
  have d: "list_all plain_char (to_string w)" "is_digit (hd (to_string w))" for w
    using to_string_digits [of w] digit_plain by (auto simp: list_all_iff)
  have "is_digit (hd (to_string w @ u))" for w u using d(2) [of w] to_string_digits(2) [of w] by simp
  then show ?thesis
    using assms d to_string_digits(2)
    by (cases "f_kind f") (auto simp: show_value_def format_bytes_def format_seconds_def plain_char_def)
qed

lemma reads_field: "reads_as (fraw cfg f) (ftext cfg f)"
proof (cases "f_kind f = KText")
  case True
  then show ?thesis by (simp add: fraw_def ftext_def reads_quote)
next
  case False
  note p = show_plain [OF False, of "f_get f cfg"]
  have "parse_scalar (show_value f (f_get f cfg)) n = Inr (show_value f (f_get f cfg))" for n
    using p by (auto simp: parse_scalar_def Let_def is_digit_def)
  then show ?thesis using p False by (simp add: fraw_def ftext_def reads_plain)
qed

lemma parse_show:
  assumes "f_kind f \<noteq> KText" "f_kind f = KBool \<longrightarrow> v = 0 \<or> v = 1"
  shows "parse_value (f_kind f) (show_value f v) = Some v"
  using assms by (cases "f_kind f")
    (auto simp: show_value_def parse_to_string parse_format_bytes parse_format_seconds)

text \<open>One field of a configuration carried over to another.\<close>

definition copy_field :: "RendezvousConfig \<Rightarrow> RendezvousConfig \<Rightarrow> Field \<Rightarrow> RendezvousConfig" where
  "copy_field cfg c f = (if f_kind f = KText then f_set_text f c (f_get_text f cfg) else f_set f c (f_get f cfg))"

definition field_valid :: "RendezvousConfig \<Rightarrow> Field \<Rightarrow> bool" where
  "field_valid cfg f \<longleftrightarrow> f_kind f = KText \<or> in_range f (f_get f cfg) = None"

lemma validate_fields_iff: "validate_fields fs cfg = None \<longleftrightarrow> list_all (field_valid cfg) fs"
  by (induction fs) (auto simp: field_valid_def split: option.splits)

lemma in_range_None: "in_range f v = None \<longleftrightarrow> f_lo f \<le> v \<and> v \<le> f_hi f"
  by (auto simp: in_range_def)

lemma set_back:
  assumes "field_valid cfg f" "f_kind f = KBool \<longrightarrow> f_hi f = 1"
  shows "set_field f (ftext cfg f) c = Inr (copy_field cfg c f)"
proof (cases "f_kind f = KText")
  case False
  have "f_kind f = KBool \<longrightarrow> f_get f cfg = 0 \<or> f_get f cfg = 1"
  proof
    assume "f_kind f = KBool"
    then have "f_get f cfg \<le> 1" using assms False by (simp add: field_valid_def in_range_None)
    then show "f_get f cfg = 0 \<or> f_get f cfg = 1" by (metis order_le_less word_less_1)
  qed
  from parse_show [OF False this] show ?thesis
    using assms(1) False by (simp add: set_field_def ftext_def copy_field_def field_valid_def)
qed (simp add: set_field_def ftext_def copy_field_def)

section \<open>The lines of a document\<close>

fun doc_lines :: "RendezvousConfig \<Rightarrow> nat \<Rightarrow> string \<Rightarrow> Field list \<Rightarrow> YamlLine list" where
  "doc_lines cfg n sec [] = []"
| "doc_lines cfg n sec (f # fs) =
     (if fsec f \<noteq> sec then
        \<lparr>yl_number = n + 2, yl_indent = 0, yl_key = fsec f, yl_value = None\<rparr>
        # \<lparr>yl_number = n + 3, yl_indent = 2, yl_key = fkey f, yl_value = Some (ftext cfg f)\<rparr> # doc_lines cfg (n + 3) (fsec f) fs
      else \<lparr>yl_number = n + 1, yl_indent = (if fsec f = [] then 0 else 2), yl_key = fkey f, yl_value = Some (ftext cfg f)\<rparr>
        # doc_lines cfg (n + 1) (fsec f) fs)"

fun grouped :: "string \<Rightarrow> string list \<Rightarrow> bool" where
  "grouped sec [] = True"
| "grouped sec (p # ps) = ((psec p = sec \<or> good_key (psec p)) \<and> good_key (pkey p) \<and> grouped (psec p) ps)"

lemma key_no_nl: "good_key k \<Longrightarrow> chr_nl \<notin> set k"
  using key_char_plain by (auto simp: good_key_def list_all_iff plain_char_def)

lemma split_doc:
  "grouped sec (map f_path fs) \<Longrightarrow> split_loop n out (raw_lines (yaml_fields cfg sec fs)) = Inr (out @ doc_lines cfg n sec fs)"
proof (induction fs arbitrary: sec n out)
  case (Cons f fs)
  let ?k = "if fsec f = [] then 0 else 2 :: nat"
  let ?l = "replicate ?k chr_sp @ fkey f @ '': '' @ fraw cfg f"
  have g: "good_key (fkey f)" "grouped (fsec f) (map f_path fs)" using Cons.prems by simp_all
  have nl: "chr_nl \<notin> set ?l" using key_no_nl [OF g(1)] reads_field [of cfg f] by (auto simp: reads_as_def)
  have two: "replicate 2 chr_sp = ''  ''" by (simp add: numeral_2_eq_2)
  note line = yaml_line_value [OF g(1) reads_field]
  note rl = raw_lines_line [OF nl, of "yaml_fields cfg (fsec f) fs"]
  have body: "split_loop n out (raw_lines (?l @ chr_nl # yaml_fields cfg (fsec f) fs))
      = Inr (out @ \<lparr>yl_number = n + 1, yl_indent = ?k, yl_key = fkey f, yl_value = Some (ftext cfg f)\<rparr>
          # doc_lines cfg (n + 1) (fsec f) fs)" for n out
    unfolding rl split_loop.simps line Cons.IH [OF g(2)] by simp
  show ?case
  proof (cases "fsec f = sec")
    case True
    then show ?thesis using body [of n out] by (auto simp: yaml_fields_Cons two simp del: yaml_fields.simps)
  next
    case False
    then have s: "good_key (fsec f)" using Cons.prems by simp
    then have ne: "fsec f \<noteq> []" by (auto simp: good_key_def)
    have "raw_lines (chr_nl # rest) = [] # raw_lines rest" for rest using raw_lines_line [of "[]"] by simp
    moreover have "raw_lines (fsec f @ CHR '':'' # chr_nl # rest) = (fsec f @ '':'') # raw_lines rest" for rest
      using raw_lines_line [of "fsec f @ '':''"] key_no_nl [OF s] by simp
    ultimately show ?thesis
      using False ne body [of "n + 2" "out @ [\<lparr>yl_number = n + 2, yl_indent = 0, yl_key = fsec f, yl_value = None\<rparr>]"]
      by (simp add: yaml_fields_Cons two yaml_line_empty yaml_line_section [OF s] numeral_3_eq_3 del: yaml_fields.simps)
  qed
qed (simp add: raw_lines_Nil)

section \<open>The blocks of a document\<close>

fun block_lines :: "RendezvousConfig \<Rightarrow> nat \<Rightarrow> nat \<Rightarrow> Field list \<Rightarrow> YamlLine list" where
  "block_lines cfg k n [] = []"
| "block_lines cfg k n (f # fs) =
     \<lparr>yl_number = n + 1, yl_indent = k, yl_key = fkey f, yl_value = Some (ftext cfg f)\<rparr> # block_lines cfg k (n + 1) fs"

fun block_entries :: "RendezvousConfig \<Rightarrow> nat \<Rightarrow> Field list \<Rightarrow> (string \<times> YamlNode) list" where
  "block_entries cfg n [] = []"
| "block_entries cfg n (f # fs) = (fkey f, YamlNode (n + 1) False (ftext cfg f) []) # block_entries cfg (n + 1) fs"

fun group_lines :: "RendezvousConfig \<Rightarrow> nat \<Rightarrow> (string \<times> Field list) list \<Rightarrow> YamlLine list" where
  "group_lines cfg n [] = []"
| "group_lines cfg n ((sec, fs) # gs) =
     \<lparr>yl_number = n + 2, yl_indent = 0, yl_key = sec, yl_value = None\<rparr> # block_lines cfg 2 (n + 2) fs
     @ group_lines cfg (n + 2 + length fs) gs"

fun group_entries :: "RendezvousConfig \<Rightarrow> nat \<Rightarrow> (string \<times> Field list) list \<Rightarrow> (string \<times> YamlNode) list" where
  "group_entries cfg n [] = []"
| "group_entries cfg n ((sec, fs) # gs) =
     (sec, YamlNode (n + 2) True [] (block_entries cfg (n + 2) fs)) # group_entries cfg (n + 2 + length fs) gs"

definition paths_in :: "string \<Rightarrow> string list \<Rightarrow> bool" where
  "paths_in sec ps \<longleftrightarrow> ps \<noteq> [] \<and> sec \<noteq> [] \<and> list_all (\<lambda>p. psec p = sec) ps \<and> distinct (map pkey ps)"

definition section_of :: "string \<times> Field list \<Rightarrow> bool" where
  "section_of g \<longleftrightarrow> paths_in (fst g) (map f_path (snd g))"

lemma section_ofE:
  assumes "section_of g"
  obtains s f fs where "g = (s, f # fs)" "fsec f = s" "s \<noteq> []" "list_all (\<lambda>f. fsec f = s) fs" "distinct (map fkey (f # fs))"
  using assms by (cases g; cases "snd g") (auto simp: section_of_def paths_in_def list_all_iff comp_def)

lemma doc_lines_block:
  "list_all (\<lambda>f. fsec f = sec) fs \<Longrightarrow>
     doc_lines cfg n sec (fs @ rest) = block_lines cfg (if sec = [] then 0 else 2) n fs @ doc_lines cfg (n + length fs) sec rest"
  by (induction fs arbitrary: n) auto

lemma doc_lines_groups:
  "list_all section_of gs \<Longrightarrow> distinct (sec # map fst gs) \<Longrightarrow>
     doc_lines cfg n sec (concat (map snd gs)) = group_lines cfg n gs"
proof (induction gs arbitrary: n sec)
  case (Cons g gs)
  obtain s f fs where g: "g = (s, f # fs)" "fsec f = s" "s \<noteq> []" "list_all (\<lambda>f. fsec f = s) fs"
    using Cons.prems(1) by (auto elim: section_ofE)
  have "sec \<noteq> s" using Cons.prems(2) g(1) by simp
  then show ?case using Cons g doc_lines_block [OF g(4), of cfg "n + 3"] by (simp add: numeral_3_eq_3)
qed simp

lemma map_of_entries: "map_of (es :: (string \<times> YamlNode) list) k = None \<longleftrightarrow> k \<notin> set (map fst es)"
  by (simp add: map_of_eq_None_iff)

lemma fst_block_entries: "map fst (block_entries cfg n fs) = map fkey fs"
  by (induction fs arbitrary: n) simp_all

lemma parse_block_fields:
  "distinct (map fst es @ map fkey fs) \<Longrightarrow>
     parse_block k (block_lines cfg k n fs @ rest) es = parse_block k rest (es @ block_entries cfg n fs)"
proof (induction fs arbitrary: n es)
  case (Cons f fs)
  have "map_of es (fkey f) = None" using Cons.prems by (auto simp: map_of_entries)
  then show ?case using Cons.prems Cons.IH [of "es @ [(fkey f, YamlNode (n + 1) False (ftext cfg f) [])]"] by simp
qed simp

lemma parse_block_ends: "rest = [] \<or> yl_indent (hd rest) < k \<Longrightarrow> parse_block k rest es = Inr (es, rest)"
  by (cases rest) auto

lemma group_lines_ends: "group_lines cfg n gs = [] \<or> yl_indent (hd (group_lines cfg n gs)) = 0"
  by (cases gs) (auto split: prod.splits)

lemma parse_block_groups:
  "list_all section_of gs \<Longrightarrow> distinct (map fst es @ map fst gs) \<Longrightarrow>
     parse_block 0 (group_lines cfg n gs) es = Inr (es @ group_entries cfg n gs, [])"
proof (induction gs arbitrary: n es)
  case (Cons g gs)
  obtain s f fs where g: "g = (s, f # fs)" "distinct (map fkey (f # fs))"
    using Cons.prems(1) by (auto elim!: section_ofE)
  have "map_of es s = None" using Cons.prems(2) g by (auto simp: map_of_entries)
  moreover have "parse_block 2 (block_lines cfg 2 (n + 2) (f # fs) @ rest) [] = Inr (block_entries cfg (n + 2) (f # fs), rest)"
    if "rest = [] \<or> yl_indent (hd rest) = 0" for rest
    using parse_block_fields [of "[]" "f # fs" 2 cfg "n + 2" rest] parse_block_ends [of rest 2] g(2) that by auto
  note this [OF group_lines_ends [of cfg "n + 2 + length (f # fs)" gs]]
  ultimately show ?case
    using Cons.prems Cons.IH [of "es @ [(s, YamlNode (n + 2) True [] (block_entries cfg (n + 2) (f # fs)))]"] g(1)
    by simp
qed simp

lemma apply_block:
  assumes "\<forall>f \<in> set fs. find_field (if prefix = [] then fkey f else prefix @ ''.'' @ fkey f) = Some f
    \<and> field_valid cfg f \<and> (f_kind f = KBool \<longrightarrow> f_hi f = 1)"
  shows "apply_node (block_entries cfg n fs @ rest) prefix c = apply_node rest prefix (foldl (copy_field cfg) c fs)"
  using assms by (induction fs arbitrary: n c) (simp_all add: set_back)

lemma apply_groups:
  assumes "\<forall>g \<in> set gs. fst g \<noteq> [] \<and> find_field (fst g) = None \<and> is_section (fst g)
      \<and> (\<forall>f \<in> set (snd g). find_field (fst g @ ''.'' @ fkey f) = Some f)"
    "\<forall>f \<in> set (concat (map snd gs)). field_valid cfg f \<and> (f_kind f = KBool \<longrightarrow> f_hi f = 1)"
  shows "apply_node (group_entries cfg n gs) [] c = Inr (foldl (copy_field cfg) c (concat (map snd gs)))"
  using assms
proof (induction gs arbitrary: n c)
  case (Cons g gs)
  obtain s fs where g: "g = (s, fs)" by (cases g)
  have "apply_node (block_entries cfg (n + 2) fs) s c = Inr (foldl (copy_field cfg) c fs)"
    using apply_block [of fs s cfg "n + 2" "[]" c] Cons.prems g by simp
  then show ?case using Cons g by simp
qed simp

section \<open>The schema\<close>

definition top_fields :: "Field list" where "top_fields = take 3 schema"

definition sections :: "(string \<times> Field list) list" where
  "sections = [(''connections'', take 4 (drop 3 schema)), (''registry'', take 5 (drop 7 schema)),
     (''relay'', take 8 (drop 12 schema)), (''rate_limits'', drop 20 schema)]"

lemma schema_paths: "map f_path schema =
  [''port'', ''bind'', ''threads'', ''connections.max'', ''connections.max_per_ip'', ''connections.idle_timeout'',
   ''connections.first_frame_timeout'', ''registry.stale_after'', ''registry.max_per_ip_per_topic'', ''registry.max_per_ip_total'',
   ''registry.max_entries'', ''registry.max_topics'', ''relay.enabled'', ''relay.expiry'', ''relay.max'', ''relay.max_per_ip'',
   ''relay.max_bytes'', ''relay.join_timeout'', ''relay.idle_timeout'', ''relay.splice_buffer'',
   ''rate_limits.control_bytes_per_sec'', ''rate_limits.control_burst_bytes'', ''rate_limits.udp_bytes_per_sec'',
   ''rate_limits.udp_burst_bytes'']"
  by (simp add: schema_def uc_field_def uc_num_def uc_secs_def)

lemma schema_bools: "list_all (\<lambda>f. f_kind f = KBool \<longrightarrow> f_hi f = 1) schema"
  by (simp add: schema_def uc_field_def uc_num_def uc_secs_def)

lemma schema_split: "schema = top_fields @ concat (map snd sections)"
proof -
  have "schema = take 3 schema @ take 4 (drop 3 schema) @ take 5 (drop 7 schema) @ take 8 (drop 12 schema) @ drop 20 schema"
    by (simp add: append_take_drop_id [of 8 "drop 12 schema", simplified] append_take_drop_id [of 5 "drop 7 schema", simplified]
       append_take_drop_id [of 4 "drop 3 schema", simplified])
  then show ?thesis by (simp add: top_fields_def sections_def)
qed

lemma schema_grouped: "grouped [] (map f_path schema)"
  unfolding schema_paths by code_simp

lemma schema_distinct: "distinct (map f_path schema)"
  unfolding schema_paths by code_simp

lemma sections_ok: "list_all section_of sections"
  unfolding sections_def
  by (simp only: list.pred_inject section_of_def fst_conv snd_conv take_map [symmetric] drop_map [symmetric] schema_paths)
    code_simp

lemma top_ok: "list_all (\<lambda>f. fsec f = [] \<and> fkey f = f_path f) top_fields" "distinct ([] # map fkey top_fields @ map fst sections)"
proof -
  have p: "map f_path top_fields = [''port'', ''bind'', ''threads'']"
    unfolding top_fields_def by (simp only: take_map [symmetric] schema_paths) simp
  have "list_all (\<lambda>p. psec p = [] \<and> pkey p = p) (map f_path top_fields)" unfolding p by code_simp
  then show "list_all (\<lambda>f. fsec f = [] \<and> fkey f = f_path f) top_fields" by (simp add: list_all_iff)
  have "distinct ([] # map pkey (map f_path top_fields) @ map fst sections)"
    unfolding p sections_def list.map fst_conv by code_simp
  then show "distinct ([] # map fkey top_fields @ map fst sections)" by (simp add: comp_def)
qed

lemma top_length: "length top_fields = 3"
  by (simp add: top_fields_def schema_def)

lemma field_in_None: "field_in p fs = None \<longleftrightarrow> p \<notin> set (map f_path fs)"
  by (induction fs) auto

lemma field_in_path: "distinct (map f_path fs) \<Longrightarrow> f \<in> set fs \<Longrightarrow> field_in (f_path f) fs = Some f"
  by (induction fs) (auto, metis imageI)

lemma find_field_path: "f \<in> set schema \<Longrightarrow> find_field (f_path f) = Some f"
  unfolding find_field_def using field_in_path [OF schema_distinct] by blast

lemma path_parts:
  "psec p = s \<Longrightarrow> s \<noteq> [] \<Longrightarrow> s @ ''.'' @ pkey p = p" 
proof -
  assume s: "psec p = s" "s \<noteq> []"
  then have "CHR ''.'' \<in> set p" by (auto simp: psec_def split: if_splits)
  then obtain ys zs where p: "p = ys @ CHR ''.'' # zs" "CHR ''.'' \<notin> set ys" by (meson split_list_first)
  then have "takeWhile (\<lambda>c. c \<noteq> CHR ''.'') p = ys" by (auto simp: takeWhile_append)
  then have "ys = s" using s(1) p(1) by (simp add: psec_def)
  then show "s @ ''.'' @ pkey p = p" using s(1) p(1) by (simp add: pkey_def)
qed

lemma is_section_paths:
  "is_section s \<longleftrightarrow> list_ex (\<lambda>p. length p > length s \<and> take (length s) p = s \<and> p ! length s = CHR ''.'') (map f_path schema)"
  by (simp add: is_section_def list_ex_iff)

lemma sections_known: "\<forall>g \<in> set sections. is_section (fst g) \<and> find_field (fst g) = None"
proof -
  have "is_section s \<and> find_field s = None" if "s \<in> {''connections'', ''registry'', ''relay'', ''rate_limits''}" for s
    using that unfolding is_section_paths find_field_def field_in_None schema_paths
    by (elim insertE emptyE; hypsubst) (code_simp; simp)+
  then show ?thesis by (simp add: sections_def)
qed

section \<open>Reading back what was printed\<close>

lemma split_to_yaml: "split_lines (to_yaml cfg) = Inr (block_lines cfg 0 1 top_fields @ group_lines cfg 4 sections)"
proof -
  let ?c = "''# uconnect-rendezvous configuration''"
  have "raw_lines (to_yaml cfg) = ?c # raw_lines (yaml_fields cfg [] schema)"
    unfolding to_yaml_def using raw_lines_line [of ?c] by simp
  moreover have "yaml_line 1 True ?c = Inr None" by code_simp
  ultimately have "split_lines (to_yaml cfg) = Inr (doc_lines cfg 1 [] schema)"
    using split_doc [OF schema_grouped, of 1 "[]" cfg] by (simp add: split_lines_def)
  also have "doc_lines cfg 1 [] schema = block_lines cfg 0 1 top_fields @ doc_lines cfg 4 [] (concat (map snd sections))"
    using doc_lines_block [of "[]" top_fields cfg 1 "concat (map snd sections)"] top_ok(1) schema_split top_length
    by (simp add: list_all_iff)
  also have "doc_lines cfg 4 [] (concat (map snd sections)) = group_lines cfg 4 sections"
    using top_ok(2) by (intro doc_lines_groups [OF sections_ok]) simp
  finally show ?thesis .
qed

lemma parse_to_yaml: 
  obtains n where "parse_yaml (to_yaml cfg) = Inr (YamlNode n True [] (block_entries cfg 1 top_fields @ group_entries cfg 4 sections))"
proof -
  let ?ls = "block_lines cfg 0 1 top_fields @ group_lines cfg 4 sections"
  have "parse_block 0 ?ls [] = Inr (block_entries cfg 1 top_fields @ group_entries cfg 4 sections, [])"
    using top_ok(2) parse_block_fields [of "[]" top_fields 0 cfg 1 "group_lines cfg 4 sections"]
      parse_block_groups [OF sections_ok, of "block_entries cfg 1 top_fields" cfg 4]
    by (simp add: fst_block_entries)
  moreover have "block_lines cfg 0 1 top_fields \<noteq> []" "yl_indent (hd ?ls) = 0" by (simp_all add: top_fields_def schema_def)
  ultimately have "parse_yaml (to_yaml cfg) =
      Inr (YamlNode (yl_number (hd ?ls)) True [] (block_entries cfg 1 top_fields @ group_entries cfg 4 sections))"
    by (simp add: parse_yaml_def split_to_yaml)
  then show ?thesis by (rule that)
qed

lemma apply_to_yaml:
  assumes "validate_config cfg = None"
  shows "apply_config (to_yaml cfg) c = Inr (foldl (copy_field cfg) c schema)"
proof -
  have v: "\<forall>f \<in> set schema. field_valid cfg f \<and> (f_kind f = KBool \<longrightarrow> f_hi f = 1)"
    using assms schema_bools by (simp add: validate_config_def validate_fields_iff list_all_iff)
  have sub: "set top_fields \<subseteq> set schema" "set (concat (map snd sections)) \<subseteq> set schema"
    using schema_split by (metis set_append Un_upper1, metis set_append Un_upper2)
  have "\<forall>f \<in> set top_fields. find_field (fkey f) = Some f"
    using top_ok(1) find_field_path sub(1) by (auto simp: list_all_iff)
  then have top: "apply_node (block_entries cfg 1 top_fields @ rest) [] c = apply_node rest [] (foldl (copy_field cfg) c top_fields)" for rest
    using apply_block [of top_fields "[]" cfg 1 rest c] v sub(1) by (simp add: subset_iff)
  have "\<forall>g \<in> set sections. fst g \<noteq> [] \<and> (\<forall>f \<in> set (snd g). find_field (fst g @ ''.'' @ fkey f) = Some f)"
  proof (intro ballI conjI)
    fix g assume g: "g \<in> set sections"
    then have s: "section_of g" using sections_ok by (simp add: list_all_iff)
    then show "fst g \<noteq> []" by (simp add: section_of_def paths_in_def)
    fix f assume f: "f \<in> set (snd g)"
    then have "fsec f = fst g" using s by (auto simp: section_of_def paths_in_def list_all_iff)
    moreover have "f \<in> set schema" using f g sub(2) by auto
    ultimately show "find_field (fst g @ ''.'' @ fkey f) = Some f"
      using path_parts [of "f_path f" "fst g"] find_field_path \<open>fst g \<noteq> []\<close> by simp
  qed
  then have "apply_node (group_entries cfg 4 sections) [] c' = Inr (foldl (copy_field cfg) c' (concat (map snd sections)))" for c'
    using sections_known v sub(2) by (intro apply_groups) (auto simp: subset_iff)
  then have "apply_node (block_entries cfg 1 top_fields @ group_entries cfg 4 sections) [] c = Inr (foldl (copy_field cfg) c schema)"
    using schema_split top by (metis foldl_append)
  then show ?thesis using parse_to_yaml [of cfg] by (metis (no_types, lifting) YamlNode.sel(4) apply_config_def sum.case(2))
qed

text \<open>The types of the members: sizes are 64-bit, durations whole seconds in 64 bits.\<close>

definition whole_secs :: "duration \<Rightarrow> bool" where
  "whole_secs d \<longleftrightarrow> d mod 1000 = 0 \<and> - (2 ^ 63) \<le> d div 1000 \<and> d div 1000 < 2 ^ 63"

definition config_typed :: "RendezvousConfig \<Rightarrow> bool" where
  "config_typed c \<longleftrightarrow>
     list_all (\<lambda>n. n < 2 ^ 64) [rv_max_connections c, rv_max_connections_per_ip c, rv_splice_buffer c, rv_threads c,
       rc_max_per_ip_per_topic (rv_registry c), rc_max_per_ip_total (rv_registry c), rc_max_entries (rv_registry c),
       rc_max_topics (rv_registry c), rc_max_relays (rv_registry c), rc_max_relays_per_ip (rv_registry c),
       cc_rate_bytes_per_sec (rv_control c), cc_rate_burst_bytes (rv_control c), cc_udp_bytes_per_sec (rv_control c),
       cc_udp_burst_bytes (rv_control c)]
     \<and> list_all whole_secs [rv_idle_timeout c, rv_first_frame_timeout c, rv_relay_join_timeout c, rv_relay_idle_timeout c,
       rc_stale_after (rv_registry c), rc_relay_expiry (rv_registry c)]"

lemma num_back: "n < 2 ^ 64 \<Longrightarrow> unat (of_nat n :: u64) = n"
  by (simp add: unat_of_nat)

lemma secs_back: "whole_secs d \<Longrightarrow> sint (of_int (d div 1000) :: u64) * 1000 = d"
  by (auto simp: whole_secs_def signed_of_int signed_take_bit_int_eq_self)

lemma port_back: "ucast (ucast (p :: u16) :: u64) = p"
  by (rule bit_word_eqI) (simp add: bit_simps)

lemma copy_schema:
  assumes "config_typed cfg"
  shows "foldl (copy_field cfg) c schema =
    cfg\<lparr>rv_control := (rv_control cfg)\<lparr>cc_max_udp_sources := cc_max_udp_sources (rv_control c)\<rparr>\<rparr>"
proof -
  obtain r k where "rv_registry cfg = r" "rv_control cfg = k" by simp
  then show ?thesis
    using assms
    by (cases cfg; cases r; cases k; cases c; cases "rv_registry c"; cases "rv_control c")
      (simp add: schema_def copy_field_def uc_field_def uc_num_def uc_secs_def config_typed_def num_back secs_back port_back)
qed

lemma config_read_back:
  assumes "validate_config cfg = None" "config_typed cfg"
  shows "apply_config (to_yaml cfg) c =
    Inr (cfg\<lparr>rv_control := (rv_control cfg)\<lparr>cc_max_udp_sources := cc_max_udp_sources (rv_control c)\<rparr>\<rparr>)"
  using apply_to_yaml [OF assms(1)] copy_schema [OF assms(2)] by simp

end
