(* ===== verification/Config_Sources.thy ===== *)
theory Config_Sources
  imports Config_Laws
begin

text \<open>
  Where a value comes from: a document and a command line are sequences of settings, the last setting of a field decides it, and a
  field that nothing sets keeps its value.
\<close>

section \<open>Sequences of settings\<close>

fun run_values :: "Field list \<Rightarrow> (string \<times> string) list \<Rightarrow> RendezvousConfig \<Rightarrow> RendezvousConfig option" where
  "run_values fs [] c = Some c"
| "run_values fs ((p, s) # xs) c =
     (case field_in p fs of
        None \<Rightarrow> None
      | Some f \<Rightarrow> (case set_field f s c of Inl _ \<Rightarrow> None | Inr c' \<Rightarrow> run_values fs xs c'))"

lemma run_values_append: "run_values fs (xs @ ys) c = Option.bind (run_values fs xs c) (run_values fs ys)"
  by (induction fs xs c rule: run_values.induct) (auto split: option.split sum.split)

lemma field_in_Some: "field_in p fs = Some f \<Longrightarrow> f \<in> set fs \<and> f_path f = p"
  by (induction fs) (auto split: if_splits)

lemma set_field_Inr:
  assumes "set_field f s c = Inr c'"
  obtains "f_kind f = KText" "c' = f_set_text f c s"
  | v where "f_kind f \<noteq> KText" "parse_value (f_kind f) s = Some v" "f_lo f \<le> v" "v \<le> f_hi f" "c' = f_set f c v"
  using assms by (auto simp: set_field_def in_range_None split: if_splits option.splits)

text \<open>Every setting of an accepted sequence names a field and has a value in its range.\<close>

lemma run_values_all:
  assumes "run_values fs xs c = Some c'" "(p, v) \<in> set xs"
  shows "\<exists>f. field_in p fs = Some f \<and> (f_kind f = KText \<or> (\<exists>x. parse_value (f_kind f) v = Some x \<and> f_lo f \<le> x \<and> x \<le> f_hi f))"
  using assms
proof (induction xs arbitrary: c)
  case (Cons y xs)
  obtain q w where y: "y = (q, w)" by (cases y)
  obtain f c1 where f: "field_in q fs = Some f" "set_field f w c = Inr c1" "run_values fs xs c1 = Some c'"
    using Cons.prems(1) by (auto simp: y split: option.splits sum.splits)
  show ?case
  proof (cases "(p, v) = y")
    case True
    then show ?thesis using f(1) y by (cases rule: set_field_Inr [OF f(2)]) auto
  next
    case False
    then show ?thesis using Cons.IH [OF f(3)] Cons.prems(2) by auto
  qed
qed simp

text \<open>What the schema promises: a field reads back what it stored, and no field disturbs another.\<close>

locale field_store =
  fixes fields :: "Field list"
  assumes get_set: "f \<in> set fields \<Longrightarrow> f_kind f \<noteq> KText \<Longrightarrow> f_lo f \<le> v \<Longrightarrow> v \<le> f_hi f \<Longrightarrow> f_get f (f_set f c v) = v"
    and get_other: "f \<in> set fields \<Longrightarrow> g \<in> set fields \<Longrightarrow> f_path f \<noteq> f_path g \<Longrightarrow> f_get g (f_set f c v) = f_get g c"
    and get_text: "f \<in> set fields \<Longrightarrow> g \<in> set fields \<Longrightarrow> f_kind f = KText \<Longrightarrow> f_get g (f_set_text f c s) = f_get g c"
    and one_path: "distinct (map f_path fields)"
begin

lemma set_field_get:
  assumes "set_field f s c = Inr c'" "f \<in> set fields" "g \<in> set fields" "f_kind g \<noteq> KText"
  shows "if f_path g = f_path f then parse_value (f_kind g) s = Some (f_get g c') \<and> f_lo g \<le> f_get g c' \<and> f_get g c' \<le> f_hi g
    else f_get g c' = f_get g c"
proof -
  have "g = f" if "f_path g = f_path f" using that one_path assms(2,3) by (simp add: distinct_map inj_on_def)
  then show ?thesis
    using assms(2-4) by (cases rule: set_field_Inr [OF assms(1)]) (auto simp: get_set get_other get_text)
qed

lemma last_setting:
  assumes "run_values fields xs c = Some c'" "g \<in> set fields" "f_kind g \<noteq> KText"
  shows "case map_of (rev xs) (f_path g) of
      None \<Rightarrow> f_get g c' = f_get g c
    | Some s \<Rightarrow> parse_value (f_kind g) s = Some (f_get g c') \<and> f_lo g \<le> f_get g c' \<and> f_get g c' \<le> f_hi g"
  using assms(1)
proof (induction xs arbitrary: c' rule: rev_induct)
  case (snoc x xs)
  obtain p s where x: "x = (p, s)" by (cases x)
  obtain c1 where c1: "run_values fields xs c = Some c1" "run_values fields [x] c1 = Some c'"
    using snoc.prems by (auto simp: run_values_append bind_eq_Some_conv)
  then obtain f where f: "field_in p fields = Some f" "set_field f s c1 = Inr c'"
    by (auto simp: x split: option.splits sum.splits)
  have "f \<in> set fields" "f_path f = p" using field_in_Some [OF f(1)] by simp_all
  with set_field_get [OF f(2) _ assms(2,3)] snoc.IH [OF c1(1)] show ?case
    by (auto simp: x split: if_splits option.splits)
qed simp

end

lemma port_set: "v \<le> 65535 \<Longrightarrow> ucast (ucast (v :: u64) :: u16) = v"
  by (simp add: word_unat_eq_iff word_le_nat_alt unsigned_ucast_eq take_bit_eq_mod unat_mod)

lemma bool_set: "v \<le> 1 \<Longrightarrow> of_bool (v \<noteq> 0) = (v :: u64)"
  using word_less_1 [of v] by (auto simp: order_le_less)

lemma schema_get_set:
  "list_all (\<lambda>f. f_kind f \<noteq> KText \<longrightarrow> f_lo f \<le> v \<longrightarrow> v \<le> f_hi f \<longrightarrow> f_get f (f_set f c v) = v) schema"
  by (simp add: schema_def uc_field_def uc_num_def uc_secs_def port_set bool_set)

lemma schema_get_other:
  "list_all (\<lambda>f. list_all (\<lambda>g. f_path f = f_path g \<or> f_get g (f_set f c v) = f_get g c) schema) schema"
  by (simp add: schema_def uc_field_def uc_num_def uc_secs_def)

lemma schema_get_text: "list_all (\<lambda>f. f_kind f = KText \<longrightarrow> list_all (\<lambda>g. f_get g (f_set_text f c s) = f_get g c) schema) schema"
  by (simp add: schema_def uc_field_def uc_num_def uc_secs_def)

interpretation config: field_store schema
proof
  show "f_get f (f_set f c v) = v" if "f \<in> set schema" "f_kind f \<noteq> KText" "f_lo f \<le> v" "v \<le> f_hi f" for f c v
    using schema_get_set that by (simp add: list_all_iff)
  show "f_get g (f_set f c v) = f_get g c" if "f \<in> set schema" "g \<in> set schema" "f_path f \<noteq> f_path g" for f g c v
    using schema_get_other [of c v] that by (auto simp: list_all_iff)
  show "f_get g (f_set_text f c s) = f_get g c" if "f \<in> set schema" "g \<in> set schema" "f_kind f = KText" for f g c s
    using schema_get_text [of c s] that by (simp add: list_all_iff)
qed (rule schema_distinct)

section \<open>A document is a sequence of settings\<close>

function doc_values :: "(string \<times> YamlNode) list \<Rightarrow> string \<Rightarrow> (string \<times> string) list" where
  "doc_values [] prefix = []"
| "doc_values ((key, child) # es) prefix =
     (let path = (if prefix = [] then key else prefix @ ''.'' @ key) in
      (if yn_is_map child then doc_values (yn_entries child) path else [(path, yn_scalar child)]) @ doc_values es prefix)"
  by pat_completeness auto
termination
proof (relation "measure (\<lambda>(es, _). size_list (size_prod (\<lambda>_. 0) size) es)")
  fix key child and es :: "(string \<times> YamlNode) list" and prefix path :: string
  show "((yn_entries child, path), (key, child) # es, prefix) \<in> measure (\<lambda>(es, _). size_list (size_prod (\<lambda>_. 0) size) es)"
    by (cases child) simp
qed auto

lemma apply_node_values:
  "apply_node es prefix c = Inr c' \<Longrightarrow> run_values schema (doc_values es prefix) c = Some c'"
proof (induction es prefix c arbitrary: c' rule: apply_node.induct)
  case (2 key child entries prefix cfg)
  define path where "path = (if prefix = [] then key else prefix @ ''.'' @ key)"
  show ?case
  proof (cases "find_field path")
    case (Some f)
    then obtain c1 where c1: "\<not> yn_is_map child" "set_field f (yn_scalar child) cfg = Inr c1" "apply_node entries prefix c1 = Inr c'"
      using "2.prems" by (auto simp: Let_def path_def split: if_splits sum.splits)
    have "run_values schema (doc_values entries prefix) c1 = Some c'"
      using "2.IH" Some c1 by (auto simp: path_def)
    then show ?thesis using c1 Some by (simp add: find_field_def path_def [symmetric])
  next
    case None
    then obtain c1 where c1: "yn_is_map child" "is_section path" "apply_node (yn_entries child) path cfg = Inr c1"
        "apply_node entries prefix c1 = Inr c'"
      using "2.prems" by (auto simp: Let_def path_def split: if_splits sum.splits)
    then have "run_values schema (doc_values (yn_entries child) path) cfg = Some c1"
      "run_values schema (doc_values entries prefix) c1 = Some c'"
      using "2.IH" None by (auto simp: path_def)
    then show ?thesis using c1(1) by (simp add: path_def [symmetric] run_values_append)
  qed
qed simp

section \<open>The command line\<close>

definition flag_values :: "(string \<times> string) list \<Rightarrow> (string \<times> string) list" where
  "flag_values ss = map (\<lambda>(flag, v). (the (flag_key flag), v)) ss"

lemma apply_settings_values:
  "apply_settings ss c = Inr c' \<Longrightarrow> run_values schema (flag_values ss) c = Some c'"
  by (induction ss c rule: apply_settings.induct)
    (auto simp: flag_values_def find_field_def bind_eq_Some_conv split: option.splits sum.splits)

text \<open>The flags that set a value all name a field of the schema, so the second pass never lacks one.\<close>

lemma flag_fields: "flag_key a \<noteq> None \<Longrightarrow> \<exists>f. Option.bind (flag_key a) find_field = Some f"
proof -
  have "list_all (\<lambda>p. p \<in> set (map f_path schema))
      [''relay.enabled'', ''port'', ''bind'', ''threads'', ''registry.stale_after'', ''registry.max_per_ip_per_topic'']"
    unfolding schema_paths by code_simp
  then have "\<exists>f. find_field p = Some f"
    if "p \<in> {''relay.enabled'', ''port'', ''bind'', ''threads'', ''registry.stale_after'', ''registry.max_per_ip_per_topic''}" for p
    using that field_in_None [of p schema] by (auto simp: find_field_def)
  moreover assume "flag_key a \<noteq> None"
  ultimately show ?thesis by (auto simp: flag_key_def key_for_def split: if_splits)
qed

lemma scan_args_step:
  assumes "scan_args opts path ss (a # args) = Inr r"
  obtains opts2 path2 ss2 args2 where "scan_args opts2 path2 ss2 args2 = Inr r" "length args2 \<le> length args"
    "so_cfg opts2 = so_cfg opts" "ss2 = ss \<or> (\<exists>v. ss2 = ss @ [(a, v)] \<and> flag_key a \<noteq> None)"
proof -
  have branches: "X1 = Inr r \<or> X2 = Inr r \<or> X3 = Inr r \<or> X4 = Inr r \<or> E \<and> X5 = Inr r
      \<or> (\<exists>v as. args = v # as \<and> \<not> E \<and> K \<and> X6 v as = Inr r) \<or> (\<exists>v as. args = v # as \<and> X7 v as = Inr r)"
    if "(if A then X1 else if B then X2 else if C then X3 else if D then X4 else if E then X5
         else if F \<or> K then (case args of [] \<Rightarrow> Inl e | v # as \<Rightarrow> if \<not> F then X6 v as else if Q then Inl e2 else X7 v as)
         else Inl e3) = Inr r"
    for A B C D E F K Q X1 X2 X3 X4 X5 X6 X7 e e2 e3
    using that by (auto split: if_splits list.splits)
  have k: "flag_key ''--no-relay'' \<noteq> None" "a \<noteq> ''--no-relay'' \<Longrightarrow> flag_key a = key_for a" by (simp_all add: flag_key_def)
  from branches [OF assms [unfolded scan_args.simps]] show ?thesis
    by (elim disjE exE conjE) (rule that, assumption, simp, simp, use k in \<open>simp; fail | blast\<close>)+
qed

lemma scan_args_keeps:
  "scan_args opts path ss args = Inr (opts', path', ss') \<Longrightarrow> list_all (\<lambda>x. flag_key (fst x) \<noteq> None) ss
    \<Longrightarrow> list_all (\<lambda>x. flag_key (fst x) \<noteq> None) ss' \<and> so_cfg opts' = so_cfg opts"
proof (induction "length args" arbitrary: opts path ss args rule: less_induct)
  case less
  show ?case
  proof (cases args)
    case Nil
    then show ?thesis using less.prems by simp
  next
    case (Cons a as)
    obtain opts2 path2 ss2 args2 where s: "scan_args opts2 path2 ss2 args2 = Inr (opts', path', ss')" "length args2 \<le> length as"
      "so_cfg opts2 = so_cfg opts" "ss2 = ss \<or> (\<exists>v. ss2 = ss @ [(a, v)] \<and> flag_key a \<noteq> None)"
      using less.prems(1) unfolding Cons by (rule scan_args_step)
    moreover have "list_all (\<lambda>x. flag_key (fst x) \<noteq> None) ss2" using s(4) less.prems(2) by auto
    ultimately show ?thesis using less.hyps [OF _ s(1)] Cons by simp
  qed
qed

text \<open>The settings of the file, if one is named, with the parsed document.\<close>

definition file_values :: "(string \<Rightarrow> string option) \<Rightarrow> string option \<Rightarrow> (string \<times> string) list \<Rightarrow> bool" where
  "file_values file path vs \<longleftrightarrow> (case path of
       None \<Rightarrow> vs = []
     | Some p \<Rightarrow> \<exists>yaml node. file p = Some yaml \<and> parse_yaml yaml = Inr node \<and> vs = doc_values (yn_entries node) [])"

lemma load_config_values:
  assumes "load_config_file file p c = Inr c'"
  obtains vs where "file_values file (Some p) vs" "run_values schema vs c = Some c'"
  using assms that apply_node_values
  by (fastforce simp: load_config_file_def apply_config_def file_values_def split: option.splits sum.splits)

lemma server_args_values:
  assumes "parse_server_args file args = Inr opts"
  obtains o' path ss vs where "scan_args ServerOptions_default None [] args = Inr (o', path, ss)" "file_values file path vs"
    "run_values schema (vs @ flag_values ss) RendezvousConfig_default = Some (so_cfg opts)" "validate_config (so_cfg opts) = None"
proof -
  obtain o' path ss c1 c2 where a: "scan_args ServerOptions_default None [] args = Inr (o', path, ss)"
    "(case path of None \<Rightarrow> Inr (so_cfg o') | Some p \<Rightarrow> load_config_file file p (so_cfg o')) = Inr c1"
    "apply_settings ss c1 = Inr c2" "validate_config c2 = None" "opts = o'\<lparr>so_cfg := c2\<rparr>"
    using assms by (auto simp: parse_server_args_def split: sum.splits option.splits)
  have d: "so_cfg o' = RendezvousConfig_default" using scan_args_keeps [OF a(1)] by (simp add: ServerOptions_default_def)
  obtain vs where vs: "file_values file path vs" "run_values schema vs RendezvousConfig_default = Some c1"
  proof (cases path)
    case None
    then show ?thesis using that [of "[]"] a(2) d by (simp add: file_values_def)
  next
    case (Some p)
    then show ?thesis using that a(2) d load_config_values by (metis option.case(2))
  qed
  show ?thesis
    using that [OF a(1) vs(1)] vs(2) a(4,5) apply_settings_values [OF a(3)] by (simp add: run_values_append)
qed

lemma bad_setting_rejected:
  assumes "parse_yaml yaml = Inr node" "(p, v) \<in> set (doc_values (yn_entries node) [])"
    "\<not> (\<exists>f. find_field p = Some f \<and> (f_kind f = KText \<or> (\<exists>x. parse_value (f_kind f) v = Some x \<and> f_lo f \<le> x \<and> x \<le> f_hi f)))"
  shows "\<exists>line message. apply_config yaml c = Inl (''line '' @ decimal line @ '': '' @ message)"
proof (cases "apply_node (yn_entries node) [] c")
  case (Inl e)
  then show ?thesis using assms(1) by (auto simp: apply_config_def)
next
  case (Inr c')
  from run_values_all [OF apply_node_values [OF this] assms(2)] assms(3) show ?thesis by (simp add: find_field_def)
qed

end
