(* ===== verification/Sample_Config.thy ===== *)
theory Sample_Config
  imports Config_Sources
begin

text \<open>A configuration file and a command line on which the theorems are instantiated.\<close>

lemma demo_valid: "validate_config RendezvousConfig_default = None"
  unfolding validate_config_def validate_fields_iff
  by (simp add: field_valid_def in_range_None schema_def uc_field_def uc_num_def uc_secs_def
      RendezvousConfig_default_def RegistryConfig_default_def ControlConfig_default_def kMaxSize_def kMaxSecs_def kKiB_def
      kMaxFrame_def kMessageOverhead_def kMaxUdpDatagram_def)

lemma demo_typed: "config_typed RendezvousConfig_default"
  by (simp add: config_typed_def whole_secs_def RendezvousConfig_default_def RegistryConfig_default_def ControlConfig_default_def)

definition demo_text :: string where
  "demo_text = ''threads: 2  # two'' @ [chr_nl] @ ''connections:'' @ [chr_nl] @ ''  idle_timeout: 2m'' @ [chr_nl]"

definition demo_file :: "string \<Rightarrow> string option" where
  "demo_file p = (if p = ''server.yaml'' then Some demo_text else None)"

definition demo_args :: "string list" where
  "demo_args = [''--port'', ''80'', ''--config'', ''server.yaml'', ''--quiet'']"

lemma demo_parse: "parse_yaml demo_text = Inr (YamlNode 1 True []
   [(''threads'', YamlNode 1 False ''2'' []), (''connections'', YamlNode 2 True [] [(''idle_timeout'', YamlNode 3 False ''2m'' [])])])"
  unfolding demo_text_def by code_simp

lemma demo_scan: "scan_args ServerOptions_default None [] demo_args
    = Inr (ServerOptions_default\<lparr>so_quiet := True\<rparr>, Some ''server.yaml'', [(''--port'', ''80'')])"
  by (simp add: demo_args_def key_for_def)

lemma demo_find:
  "find_field ''port'' = Some (schema ! 0)" "find_field ''threads'' = Some (schema ! 2)"
  "find_field ''connections.idle_timeout'' = Some (schema ! 5)"
  using find_field_path [of "schema ! 0"] find_field_path [of "schema ! 2"] find_field_path [of "schema ! 5"]
  by (simp_all add: schema_def uc_field_def uc_num_def uc_secs_def)

definition demo_cfg :: RendezvousConfig where
  "demo_cfg = RendezvousConfig_default\<lparr>rv_threads := 2, rv_idle_timeout := 120000, rv_port := 80\<rparr>"

lemma demo_values:
  "parse_value KCount ''2'' = Some 2" "parse_value KCount ''80'' = Some 80" "parse_value KSeconds ''2m'' = Some 120"
  by code_simp+

lemma demo_set:
  "set_field (schema ! 0) ''80'' c = Inr (c\<lparr>rv_port := 80\<rparr>)" "set_field (schema ! 2) ''2'' c = Inr (c\<lparr>rv_threads := 2\<rparr>)"
  "set_field (schema ! 5) ''2m'' c = Inr (c\<lparr>rv_idle_timeout := 120000\<rparr>)"
  using demo_values by (simp_all add: set_field_def in_range_def schema_def uc_field_def uc_num_def uc_secs_def kMaxSecs_def)

lemma demo_known: "is_section ''connections''" "find_field ''connections'' = None"
  using sections_known by (simp_all add: sections_def)

lemma demo_loaded: "load_config_file demo_file ''server.yaml'' c = Inr (c\<lparr>rv_threads := 2, rv_idle_timeout := 120000\<rparr>)"
  by (simp add: load_config_file_def demo_file_def apply_config_def demo_parse demo_find demo_set demo_known)

lemma demo_cfg_valid: "validate_config demo_cfg = None"
  unfolding validate_config_def validate_fields_iff
  by (simp add: field_valid_def in_range_None schema_def uc_field_def uc_num_def uc_secs_def demo_cfg_def
      RendezvousConfig_default_def RegistryConfig_default_def ControlConfig_default_def kMaxSize_def kMaxSecs_def kKiB_def
      kMaxFrame_def kMessageOverhead_def kMaxUdpDatagram_def)

lemma demo_parsed: "parse_server_args demo_file demo_args = Inr (ServerOptions_default\<lparr>so_quiet := True, so_cfg := demo_cfg\<rparr>)"
proof -
  have "RendezvousConfig_default\<lparr>rv_threads := 2, rv_idle_timeout := 120000, rv_port := 80\<rparr> = demo_cfg"
    by (simp add: demo_cfg_def)
  moreover have "so_cfg ServerOptions_default = RendezvousConfig_default" by (simp add: ServerOptions_default_def)
  ultimately show ?thesis
    by (simp add: parse_server_args_def demo_scan demo_loaded flag_key_def key_for_def demo_find demo_set demo_cfg_valid)
qed

end
