(* ===== verification/Rendezvous.thy ===== *)
theory Rendezvous
  imports Config "HOL-Library.Stream"
begin

text \<open>
  The server's runtime, \<open>server/rendezvous.cpp\<close>: connections and what each is used for, relay legs and their pairing, the
  splice, the workers, and one round of the loop. A socket is what the operating system did with it: the bytes read from it and
  written to it so far; each operation that touches a socket is given what has arrived or how much may be sent. The random
  values the registry draws are a stream in the state, one element per message.
\<close>

section \<open>Sockets\<close>

text \<open>What has arrived on a socket: chunks, or its end. Reading takes at most as much as the buffer holds.\<close>

type_synonym arrivals = "bytes option list"

fun sock_recv :: "nat \<Rightarrow> arrivals \<Rightarrow> bytes option \<times> arrivals" where
  "sock_recv n [] = (Some [], [])"
| "sock_recv n (None # rx) = (None, None # rx)"
| "sock_recv n (Some d # rx) = (Some (take n d), if length d \<le> n then rx else Some (drop n d) # rx)"

section \<open>Connections\<close>

datatype Mode = MNew | MControl | MRelayWaiting | MSplice

record RConn =
  c_key :: ConnKey
  c_read :: bytes
  c_written :: bytes
  c_peer :: Endpoint
  c_reader :: FrameReader
  c_relay_early :: bytes
  c_out :: bytes
  c_mode :: Mode
  c_relay_id :: RelayId
  c_relay_side :: "bool option"
  c_partner :: ConnKey
  c_opened :: instant
  c_last_rx :: instant
  c_read_done :: bool
  c_dead :: bool

type_synonym ConnMap = "(ConnKey, RConn) mapping"

definition RConn_new :: "ConnKey \<Rightarrow> Endpoint \<Rightarrow> instant \<Rightarrow> RConn" where
  "RConn_new key peer now = \<lparr>c_key = key, c_read = [], c_written = [], c_peer = peer, c_reader = FrameReader_new kMaxFrame,
     c_relay_early = [], c_out = [], c_mode = MNew, c_relay_id = 0, c_relay_side = None, c_partner = 0, c_opened = now,
     c_last_rx = now, c_read_done = False, c_dead = False\<rparr>"

record Worker =
  wk_inbox :: "RConn list"
  wk_conns :: ConnMap
  wk_count :: nat

record Rendezvous =
  rz_cfg :: RendezvousConfig
  rz_service :: Service
  rz_conns :: ConnMap
  rz_per_ip :: "(bytes, nat) mapping"
  rz_waiting :: "bool \<Rightarrow> (RelayId, ConnKey) mapping"
  rz_next_key :: ConnKey
  rz_last_tick :: instant
  rz_spliced :: "(ConnKey \<times> ConnKey) list"
  rz_workers :: "Worker list"
  rz_next_worker :: nat
  rz_drop_filter :: "bytes \<Rightarrow> bool"
  rz_draws :: "Draws stream"

definition kMaxControlBacklog :: nat where "kMaxControlBacklog = 1024 * 1024"
definition kReadChunk :: nat where "kReadChunk = 64 * 1024"

definition Worker_new :: Worker where
  "Worker_new = \<lparr>wk_inbox = [], wk_conns = Mapping.empty, wk_count = 0\<rparr>"

text \<open>The constructor, then \<open>open()\<close> with both sockets bound: one worker for each thread beyond the first.\<close>

definition Rendezvous_new :: "RendezvousConfig \<Rightarrow> bytes \<Rightarrow> (bytes \<Rightarrow> bool) \<Rightarrow> Draws stream \<Rightarrow> Rendezvous" where
  "Rendezvous_new cfg secret dropped draws = \<lparr>rz_cfg = cfg,
     rz_service = Service_new (Registry_new (rv_registry cfg) secret) (rv_control cfg),
     rz_conns = Mapping.empty, rz_per_ip = Mapping.empty, rz_waiting = (\<lambda>_. Mapping.empty), rz_next_key = 1, rz_last_tick = 0,
     rz_spliced = [], rz_workers = replicate (rv_threads cfg - 1) Worker_new, rz_next_worker = 0,
     rz_drop_filter = dropped, rz_draws = draws\<rparr>"

abbreviation on_conn :: "ConnKey \<Rightarrow> (RConn \<Rightarrow> RConn) \<Rightarrow> ConnMap \<Rightarrow> ConnMap" where
  "on_conn k f m \<equiv> Mapping.map_entry k f m"

definition killed :: "RConn \<Rightarrow> RConn" where
  "killed c = c\<lparr>c_dead := True\<rparr>"

definition kill :: "ConnKey \<Rightarrow> Rendezvous \<Rightarrow> Rendezvous" where
  "kill k s = s\<lparr>rz_conns := on_conn k killed (rz_conns s)\<rparr>"

definition charge :: "RelayId \<Rightarrow> nat \<Rightarrow> instant \<Rightarrow> Service \<Rightarrow> bool \<times> Service" where
  "charge rid n now sv = (let (ok, reg) = relay_charge rid (of_nat n) now (sv_reg sv) in (ok, sv\<lparr>sv_reg := reg\<rparr>))"

definition release :: "RConn \<Rightarrow> Rendezvous \<Rightarrow> Rendezvous" where
  "release c s = s\<lparr>rz_per_ip := decrement (ip_bytes (ep_ip (c_peer c))) (rz_per_ip s)\<rparr>"

definition deliver :: "Framed \<Rightarrow> Rendezvous \<Rightarrow> Rendezvous" where
  "deliver f s = (case get (fm_to f) (rz_conns s) of
       None \<Rightarrow> s
     | Some c \<Rightarrow>
         if c_dead c then s
         else if length (c_out c) + length (fm_bytes f) > kMaxControlBacklog then kill (fm_to f) s
         else s\<lparr>rz_conns := on_conn (fm_to f) (\<lambda>c. c\<lparr>c_out := c_out c @ fm_bytes f\<rparr>) (rz_conns s)\<rparr>)"

text \<open>The loop of \<open>flush\<close>: how much each call of \<open>send\<close> moves, or that it fails; nothing more means it would block.\<close>

fun flush_conn :: "nat option list \<Rightarrow> RConn \<Rightarrow> RConn" where
  "flush_conn [] c = c"
| "flush_conn (None # tx) c = (if c_out c = [] then c else killed c)"
| "flush_conn (Some n # tx) c =
     (if c_out c = [] \<or> n = 0 then c
      else flush_conn tx (c\<lparr>c_written := c_written c @ take n (c_out c), c_out := drop n (c_out c)\<rparr>))"

definition open_connections :: "Rendezvous \<Rightarrow> nat" where
  "open_connections s = Mapping.size (rz_conns s) + sum_list (map wk_count (rz_workers s))"

definition control_connections :: "Rendezvous \<Rightarrow> nat" where
  "control_connections s = Mapping.size (sv_conns (rz_service s))"

section \<open>Accepting\<close>

text \<open>One accepted socket; the address is absent when the peer is already gone.\<close>

definition accept_one :: "Endpoint option \<Rightarrow> instant \<Rightarrow> Rendezvous \<Rightarrow> Rendezvous" where
  "accept_one remote now s = (case remote of
       None \<Rightarrow> s
     | Some peer \<Rightarrow>
         (let ip = ip_bytes (ep_ip peer);
              n = (case get ip (rz_per_ip s) of None \<Rightarrow> 0 | Some n \<Rightarrow> n) in
          if open_connections s \<ge> rv_max_connections (rz_cfg s) \<or> n \<ge> rv_max_connections_per_ip (rz_cfg s)
          then (if n = 0 then s\<lparr>rz_per_ip := del ip (rz_per_ip s)\<rparr> else s)
          else s\<lparr>rz_per_ip := increment ip (rz_per_ip s), rz_next_key := rz_next_key s + 1,
                 rz_conns := put (rz_next_key s) (RConn_new (rz_next_key s) peer now) (rz_conns s)\<rparr>))"

definition accept_all :: "Endpoint option list \<Rightarrow> instant \<Rightarrow> Rendezvous \<Rightarrow> Rendezvous" where
  "accept_all remotes now s = fold (\<lambda>r s. accept_one r now s) (take 256 remotes) s"

section \<open>Relay legs\<close>

definition wait_leg :: "ConnKey \<Rightarrow> bool \<Rightarrow> RelayId \<Rightarrow> Rendezvous \<Rightarrow> Rendezvous" where
  "wait_leg k sd rid s = s\<lparr>rz_conns := on_conn k (\<lambda>c. c\<lparr>c_mode := MRelayWaiting\<rparr>) (rz_conns s),
     rz_waiting := (rz_waiting s)(sd := put rid k (rz_waiting s sd))\<rparr>"

definition join_ok :: bytes where
  "join_ok = frame (empty_message MT_RelayJoinOk 0 0)"

text \<open>What one leg sent early goes to the other, once it is paid for.\<close>

definition move_early :: "ConnKey \<Rightarrow> ConnKey \<Rightarrow> RelayId \<Rightarrow> instant \<Rightarrow> Rendezvous \<Rightarrow> bool \<times> Rendezvous" where
  "move_early src dst rid now s =
     (let rest = (case get src (rz_conns s) of None \<Rightarrow> [] | Some c \<Rightarrow> c_relay_early c);
          s = s\<lparr>rz_conns := on_conn src (\<lambda>c. c\<lparr>c_relay_early := []\<rparr>) (rz_conns s)\<rparr> in
      if rest = [] then (True, s)
      else (case charge rid (length rest) now (rz_service s) of
          (False, sv) \<Rightarrow> (False, s\<lparr>rz_service := sv\<rparr>)
        | (True, sv) \<Rightarrow> (True, s\<lparr>rz_service := sv,
             rz_conns := on_conn dst (\<lambda>c. c\<lparr>c_out := c_out c @ rest\<rparr>) (rz_conns s)\<rparr>)))"

definition joined_to :: "ConnKey \<Rightarrow> RConn \<Rightarrow> RConn" where
  "joined_to other c = c\<lparr>c_mode := MSplice, c_partner := other, c_out := c_out c @ join_ok\<rparr>"

definition pair_up :: "ConnKey \<Rightarrow> ConnKey \<Rightarrow> RelayId \<Rightarrow> instant \<Rightarrow> Rendezvous \<Rightarrow> Rendezvous" where
  "pair_up k p rid now s =
     (let s = s\<lparr>rz_conns := on_conn p (joined_to k) (on_conn k (joined_to p) (rz_conns s))\<rparr> in
      case move_early k p rid now s of
        (False, s) \<Rightarrow> kill p (kill k s)
      | (True, s) \<Rightarrow> (case move_early p k rid now s of
            (False, s) \<Rightarrow> kill p (kill k s)
          | (True, s) \<Rightarrow> if rz_workers s = [] then s else s\<lparr>rz_spliced := rz_spliced s @ [(k, p)]\<rparr>))"

text \<open>A leg that rejoins replaces its earlier attempt.\<close>

definition replace_leg :: "bool \<Rightarrow> RelayId \<Rightarrow> Rendezvous \<Rightarrow> Rendezvous" where
  "replace_leg sd rid s = (case get rid (rz_waiting s sd) of
       None \<Rightarrow> s
     | Some old \<Rightarrow> (kill old s)\<lparr>rz_waiting := (rz_waiting s)(sd := del rid (rz_waiting s sd))\<rparr>)"

definition join_leg :: "ConnKey \<Rightarrow> bool \<Rightarrow> RelayId \<Rightarrow> instant \<Rightarrow> Rendezvous \<Rightarrow> Rendezvous" where
  "join_leg k sd rid now s =
     (let s = replace_leg sd rid s in
      case get rid (rz_waiting s (\<not> sd)) of
        None \<Rightarrow> wait_leg k sd rid s
      | Some p \<Rightarrow>
          (let s = s\<lparr>rz_waiting := (rz_waiting s)((\<not> sd) := del rid (rz_waiting s (\<not> sd)))\<rparr> in
           case get p (rz_conns s) of
             None \<Rightarrow> wait_leg k sd rid s
           | Some pc \<Rightarrow> if c_dead pc then wait_leg k sd rid s else pair_up k p rid now s))"

definition on_relay_join :: "ConnKey \<Rightarrow> bytes \<Rightarrow> instant \<Rightarrow> Rendezvous \<Rightarrow> Rendezvous" where
  "on_relay_join k msg now s =
     (case run_state (Header_decode ctl_kVersion) (Reader msg) of
        (None, _) \<Rightarrow> kill k s
      | (Some h, r) \<Rightarrow>
          (case fst (run_state RelayJoin_decode r) of
             None \<Rightarrow> kill k s
           | Some j \<Rightarrow>
               (case relay_side (rj_relay_id j) (rj_token j) (Some RK_Tcp) (sv_reg (rz_service s)) of
                  None \<Rightarrow> kill k s
                | Some sd \<Rightarrow>
                    (let early = (case get k (rz_conns s) of None \<Rightarrow> [] | Some c \<Rightarrow> fst (take_rest (c_reader c)));
                         s = s\<lparr>rz_conns := on_conn k (\<lambda>c. c\<lparr>c_relay_early := early, c_reader := FrameReader_new kMaxFrame\<rparr>)
                                 (rz_conns s)\<rparr> in
                     if length early > rv_splice_buffer (rz_cfg s) then kill k s
                     else join_leg k sd (rj_relay_id j) now
                       (s\<lparr>rz_conns := on_conn k (\<lambda>c. c\<lparr>c_relay_id := rj_relay_id j, c_relay_side := Some sd\<rparr>)
                            (rz_conns s)\<rparr>)))))"

section \<open>Control messages\<close>

definition on_control :: "ConnKey \<Rightarrow> bytes \<Rightarrow> instant \<Rightarrow> Rendezvous \<Rightarrow> Rendezvous option" where
  "on_control k msg now s = (case on_message k msg now (shd (rz_draws s)) (rz_service s) of
       None \<Rightarrow> None
     | Some (res, sv) \<Rightarrow>
         (let s = fold deliver (rs_out res) (s\<lparr>rz_service := sv, rz_draws := stl (rz_draws s)\<rparr>)
          in Some (if rs_close res then kill k s else s)))"

definition on_frame :: "ConnKey \<Rightarrow> bytes \<Rightarrow> instant \<Rightarrow> Rendezvous \<Rightarrow> Rendezvous option" where
  "on_frame k msg now s = (case get k (rz_conns s) of
       None \<Rightarrow> Some s
     | Some c \<Rightarrow>
         if c_mode c = MNew then
           (if peek_type msg = Some MT_RelayJoin then Some (on_relay_join k msg now s)
            else on_control k msg now
              (s\<lparr>rz_conns := on_conn k (\<lambda>c. c\<lparr>c_mode := MControl\<rparr>) (rz_conns s),
                 rz_service := on_open k (c_peer c) now (rz_service s)\<rparr>))
         else if c_mode c = MControl then on_control k msg now s
         else Some s)"

text \<open>One turn of the inner loop of \<open>read_from\<close>: the next message, if there is one; \<open>None\<close> ends the loop.\<close>

definition framing :: "RConn \<Rightarrow> bool" where
  "framing c \<longleftrightarrow> \<not> c_dead c \<and> c_mode c \<noteq> MRelayWaiting \<and> c_mode c \<noteq> MSplice"

definition take_frame :: "ConnKey \<Rightarrow> Rendezvous \<Rightarrow> bytes option \<times> Rendezvous" where
  "take_frame k s = (case get k (rz_conns s) of
       None \<Rightarrow> (None, s)
     | Some c \<Rightarrow>
         if \<not> framing c then (None, s)
         else (case next_frame (c_reader c) of
             (m, rd) \<Rightarrow> (m, s\<lparr>rz_conns := on_conn k (\<lambda>c. c\<lparr>c_reader := rd\<rparr>) (rz_conns s)\<rparr>)))"

definition use_frame :: "ConnKey \<Rightarrow> bytes \<Rightarrow> instant \<Rightarrow> Rendezvous \<Rightarrow> Rendezvous option" where
  "use_frame k msg now s = (if rz_drop_filter s msg then Some s else on_frame k msg now s)"

definition unread :: "ConnKey \<Rightarrow> Rendezvous \<Rightarrow> nat" where
  "unread k s = (case get k (rz_conns s) of None \<Rightarrow> 0 | Some c \<Rightarrow> length (fr_buf (c_reader c)))"

text \<open>Handling a message never puts unread bytes back.\<close>

definition calm :: "Rendezvous \<Rightarrow> Rendezvous \<Rightarrow> bool" where
  "calm s s' \<longleftrightarrow> (\<forall>k. unread k s' \<le> unread k s)"

lemma calm_trans: "calm s t \<Longrightarrow> calm t u \<Longrightarrow> calm s u"
  by (meson calm_def le_trans)

lemma calm_conns: "rz_conns s' = rz_conns s \<Longrightarrow> calm s s'"
  by (simp add: calm_def unread_def)

lemma calm_update:
  assumes "rz_conns s' = on_conn k f (rz_conns s)"
    "\<And>c. fr_buf (c_reader (f c)) = fr_buf (c_reader c) \<or> fr_buf (c_reader (f c)) = []"
  shows "calm s s'"
  unfolding calm_def
proof
  fix k' show "unread k' s' \<le> unread k' s"
    using assms(2) [of "the (get k' (rz_conns s))"]
    by (cases "get k' (rz_conns s)") (auto simp: unread_def assms(1) Mapping.lookup_map_entry')
qed

lemma calm_kill: "calm s (kill k s)"
  by (rule calm_update [of _ k killed]) (simp_all add: kill_def killed_def)

lemma calm_deliver: "calm s (deliver f s)"
  by (auto simp: deliver_def calm_kill calm_conns split: option.split intro: calm_update)

lemma calm_fold_deliver: "calm s (fold deliver fs s)"
  by (induction fs arbitrary: s) (auto simp: calm_conns intro: calm_trans calm_deliver)

lemma calm_move_early:
  "move_early a b rid now s = (ok, s') \<Longrightarrow> calm s s'"
proof -
  let ?t = "s\<lparr>rz_conns := on_conn a (\<lambda>c. c\<lparr>c_relay_early := []\<rparr>) (rz_conns s)\<rparr>"
  have t: "calm s ?t" by (rule calm_update, simp, simp)
  have u: "calm ?t (?t\<lparr>rz_service := sv\<rparr>)" for sv by (simp add: calm_conns)
  have v: "calm ?t (?t\<lparr>rz_service := sv, rz_conns := on_conn b (\<lambda>c. c\<lparr>c_out := c_out c @ r\<rparr>) (rz_conns ?t)\<rparr>)" for sv r
    by (rule calm_update, simp, simp)
  assume "move_early a b rid now s = (ok, s')"
  then have "s' = ?t \<or> (\<exists>sv. s' = ?t\<lparr>rz_service := sv\<rparr>)
      \<or> (\<exists>sv r. s' = ?t\<lparr>rz_service := sv, rz_conns := on_conn b (\<lambda>c. c\<lparr>c_out := c_out c @ r\<rparr>) (rz_conns ?t)\<rparr>)"
    unfolding move_early_def Let_def by (auto split: if_splits prod.splits bool.splits)
  then show "calm s s'" by (elim disjE exE) (simp_all only: t calm_trans [OF t u] calm_trans [OF t v])
qed

lemma calm_pair_up: "calm s (pair_up k p rid now s)"
proof -
  let ?t = "s\<lparr>rz_conns := on_conn p (joined_to k) (on_conn k (joined_to p) (rz_conns s))\<rparr>"
  have "calm s (s\<lparr>rz_conns := on_conn k (joined_to p) (rz_conns s)\<rparr>)" by (rule calm_update, simp, simp add: joined_to_def)
  moreover have "calm (s\<lparr>rz_conns := on_conn k (joined_to p) (rz_conns s)\<rparr>) ?t" by (rule calm_update, simp, simp add: joined_to_def)
  ultimately have t: "calm s ?t" by (rule calm_trans)
  have dead: "calm s u \<Longrightarrow> calm s (kill p (kill k u))" for u by (blast intro: calm_trans calm_kill)
  have push: "calm s u \<Longrightarrow> calm s (u\<lparr>rz_spliced := x\<rparr>)" for u x by (rule calm_trans, assumption, rule calm_conns, simp)
  obtain ok1 u where u: "move_early k p rid now ?t = (ok1, u)" by fastforce
  obtain ok2 v where v: "move_early p k rid now u = (ok2, v)" by fastforce
  have su: "calm s u" using t calm_move_early [OF u] by (rule calm_trans)
  have sv: "calm s v" using su calm_move_early [OF v] by (rule calm_trans)
  have "pair_up k p rid now s = (if \<not> ok1 then kill p (kill k u) else if \<not> ok2 then kill p (kill k v)
      else if rz_workers v = [] then v else v\<lparr>rz_spliced := rz_spliced v @ [(k, p)]\<rparr>)"
    using u v by (simp add: pair_up_def Let_def split: bool.split)
  then show ?thesis using dead [OF su] dead [OF sv] sv push [OF sv] by simp
qed

lemma calm_join_leg: "calm s (join_leg k sd rid now s)"
proof -
  have r: "calm s (replace_leg sd rid s)"
    by (auto simp: replace_leg_def calm_conns split: option.split intro: calm_trans [OF calm_kill calm_conns])
  have w: "calm u (wait_leg k sd rid u)" for u unfolding wait_leg_def by (rule calm_update, simp, simp)
  have c: "calm u (u\<lparr>rz_waiting := x\<rparr>)" for u x by (simp add: calm_conns)
  show ?thesis
    unfolding join_leg_def Let_def
    by (auto split: option.split intro: calm_trans [OF r] calm_trans [OF c] w calm_pair_up)
qed

lemma calm_relay_join: "calm s (on_relay_join k msg now s)"
proof -
  have u: "calm s (s\<lparr>rz_conns := on_conn k (\<lambda>c. c\<lparr>c_relay_early := e, c_reader := FrameReader_new n\<rparr>) (rz_conns s)\<rparr>)" for e n
    by (rule calm_update, simp, simp add: FrameReader_new_def)
  have v: "calm t (t\<lparr>rz_conns := on_conn k (\<lambda>c. c\<lparr>c_relay_id := i, c_relay_side := d\<rparr>) (rz_conns t)\<rparr>)" for t i d
    by (rule calm_update, simp, simp)
  have w: "calm s (s\<lparr>rz_conns := on_conn k (\<lambda>c. c\<lparr>c_relay_id := i, c_relay_side := d\<rparr>)
      (on_conn k (\<lambda>c. c\<lparr>c_relay_early := e, c_reader := FrameReader_new n\<rparr>) (rz_conns s))\<rparr>)" for i d e n
    using calm_trans [OF u v] by simp
  show ?thesis
    unfolding on_relay_join_def Let_def
    by (auto split: prod.split option.split intro: calm_kill calm_trans [OF u] calm_trans [OF w] calm_join_leg)
qed

lemma calm_control: "on_control k msg now s = Some s' \<Longrightarrow> calm s s'"
  unfolding on_control_def Let_def
  by (auto split: option.splits prod.splits if_splits
      intro: calm_trans [OF calm_conns calm_fold_deliver] calm_trans [OF calm_trans [OF calm_conns calm_fold_deliver] calm_kill])

lemma calm_use_frame: "use_frame k msg now s = Some s' \<Longrightarrow> calm s s'"
proof -
  have o: "calm s (s\<lparr>rz_conns := on_conn k (\<lambda>c. c\<lparr>c_mode := MControl\<rparr>) (rz_conns s), rz_service := sv\<rparr>)" for sv
    by (rule calm_update, simp, simp)
  show "use_frame k msg now s = Some s' \<Longrightarrow> calm s s'"
    unfolding use_frame_def on_frame_def
    by (auto split: if_splits option.splits intro: calm_conns calm_relay_join calm_control calm_trans [OF o calm_control])
qed

lemma use_frame_unread: "use_frame k msg now s = Some s' \<Longrightarrow> unread k s' \<le> unread k s"
  using calm_use_frame by (simp add: calm_def)

lemma take_frame_unread: "take_frame k s = (Some m, s') \<Longrightarrow> unread k s' < unread k s"
  by (auto simp: take_frame_def unread_def Mapping.lookup_map_entry' split: option.splits if_splits prod.splits
      intro!: next_frame_shrinks)

section \<open>Reading\<close>

function frames :: "ConnKey \<Rightarrow> instant \<Rightarrow> Rendezvous \<Rightarrow> Rendezvous option" where
  "frames k now s = (case take_frame k s of
       (None, s') \<Rightarrow> Some s'
     | (Some m, s') \<Rightarrow> (case use_frame k m now s' of None \<Rightarrow> None | Some s'' \<Rightarrow> frames k now s''))"
  by pat_completeness auto
termination
  by (relation "measure (\<lambda>(k, now, s). unread k s)")
    (auto dest!: take_frame_unread [OF sym] use_frame_unread)

declare frames.simps [simp del]

text \<open>One call of \<open>recv\<close> in the outer loop: whether to go on, and what is left to arrive.\<close>

definition receive :: "ConnKey \<Rightarrow> instant \<Rightarrow> arrivals \<Rightarrow> Rendezvous \<Rightarrow> bool \<times> arrivals \<times> Rendezvous" where
  "receive k now rx s = (case get k (rz_conns s) of
       None \<Rightarrow> (False, rx, s)
     | Some c \<Rightarrow>
         if c_dead c then (False, rx, s)
         else (case sock_recv kReadChunk rx of
             (None, rx) \<Rightarrow> (False, rx, kill k s)
           | (Some d, rx) \<Rightarrow>
               if d = [] then (False, rx, s)
               else (case feed d (c_reader c) of (ok, rd) \<Rightarrow>
                   (let s = s\<lparr>rz_conns := on_conn k (\<lambda>c. c\<lparr>c_read := c_read c @ d, c_last_rx := now, c_reader := rd\<rparr>) (rz_conns s)\<rparr>
                    in if \<not> ok then (False, rx, kill k s) else (True, rx, s)))))"

definition break_framing :: "ConnKey \<Rightarrow> Rendezvous \<Rightarrow> bool \<times> Rendezvous" where
  "break_framing k s = (case get k (rz_conns s) of
       None \<Rightarrow> (False, s)
     | Some c \<Rightarrow>
         if c_mode c = MRelayWaiting \<or> c_mode c = MSplice then (False, s)
         else (True, if fr_broken (c_reader c) then kill k s else s))"

fun read_rounds :: "nat \<Rightarrow> ConnKey \<Rightarrow> instant \<Rightarrow> arrivals \<Rightarrow> Rendezvous \<Rightarrow> Rendezvous option" where
  "read_rounds 0 k now rx s = Some s"
| "read_rounds (Suc n) k now rx s = (case receive k now rx s of
       (False, _, s) \<Rightarrow> Some s
     | (True, rx, s) \<Rightarrow> (case frames k now s of
           None \<Rightarrow> None
         | Some s \<Rightarrow> (case break_framing k s of
               (False, s) \<Rightarrow> Some s
             | (True, s) \<Rightarrow> read_rounds n k now rx s)))"

definition read_early :: "ConnKey \<Rightarrow> arrivals \<Rightarrow> Rendezvous \<Rightarrow> Rendezvous" where
  "read_early k rx s = (case get k (rz_conns s) of
       None \<Rightarrow> s
     | Some c \<Rightarrow>
         (let room = rv_splice_buffer (rz_cfg s) - length (c_relay_early c) in
          case fst (sock_recv (min room (kReadChunk - 1) + 1) rx) of
            None \<Rightarrow> kill k s
          | Some d \<Rightarrow>
              (let s = s\<lparr>rz_conns := on_conn k (\<lambda>c. c\<lparr>c_read := c_read c @ d\<rparr>) (rz_conns s)\<rparr> in
               if length d > room then kill k s
               else s\<lparr>rz_conns := on_conn k (\<lambda>c. c\<lparr>c_relay_early := c_relay_early c @ d\<rparr>) (rz_conns s)\<rparr>)))"

definition drain_survivor :: "ConnKey \<Rightarrow> arrivals \<Rightarrow> ConnMap \<Rightarrow> ConnMap" where
  "drain_survivor k rx conns =
     (let conns = (case fst (sock_recv kReadChunk rx) of
            None \<Rightarrow> on_conn k (\<lambda>c. c\<lparr>c_read_done := True\<rparr>) conns
          | Some d \<Rightarrow> on_conn k (\<lambda>c. c\<lparr>c_read := c_read c @ d\<rparr>) conns)
      in on_conn k (\<lambda>c. if c_out c = [] then killed c else c) conns)"

text \<open>
  The splice works on the connections of one thread, the loop's or a worker's. A leg whose partner is gone is only drained;
  otherwise what is read is charged to the binding and handed to the partner.
\<close>

definition splice_read :: "nat \<Rightarrow> ConnKey \<Rightarrow> instant \<Rightarrow> arrivals \<Rightarrow> ConnMap \<times> Service \<Rightarrow> ConnMap \<times> Service" where
  "splice_read cap k now rx ms = (case ms of (conns, sv) \<Rightarrow> (case get k conns of
       None \<Rightarrow> ms
     | Some c \<Rightarrow>
         (case get (c_partner c) conns of
            None \<Rightarrow> (drain_survivor k rx conns, sv)
          | Some p \<Rightarrow>
              if c_dead p then (drain_survivor k rx conns, sv)
              else (let room = (if cap > length (c_out p) then cap - length (c_out p) else 0) in
                if room = 0 then ms
                else (case fst (sock_recv (min room kReadChunk) rx) of
                    None \<Rightarrow> (on_conn k killed conns, sv)
                  | Some d \<Rightarrow>
                      if d = [] then ms
                      else (let conns = on_conn k (\<lambda>c. c\<lparr>c_read := c_read c @ d, c_last_rx := now\<rparr>) conns in
                        case charge (c_relay_id c) (length d) now sv of
                          (False, sv) \<Rightarrow> (on_conn (c_partner c) killed (on_conn k killed conns), sv)
                        | (True, sv) \<Rightarrow> (on_conn (c_partner c) (\<lambda>p. p\<lparr>c_out := c_out p @ d\<rparr>) conns, sv)))))))"

definition loop_splice :: "ConnKey \<Rightarrow> instant \<Rightarrow> arrivals \<Rightarrow> Rendezvous \<Rightarrow> Rendezvous" where
  "loop_splice k now rx s =
     (let (conns, sv) = splice_read (rv_splice_buffer (rz_cfg s)) k now rx (rz_conns s, rz_service s)
      in s\<lparr>rz_conns := conns, rz_service := sv\<rparr>)"

definition read_from :: "ConnKey \<Rightarrow> instant \<Rightarrow> arrivals \<Rightarrow> Rendezvous \<Rightarrow> Rendezvous option" where
  "read_from k now rx s = (case get k (rz_conns s) of
       None \<Rightarrow> Some s
     | Some c \<Rightarrow>
         if c_mode c = MSplice then Some (loop_splice k now rx s)
         else if c_mode c = MRelayWaiting then Some (read_early k rx s)
         else read_rounds 16 k now rx s)"

section \<open>Ending connections\<close>

definition splice_idle :: "duration \<Rightarrow> RConn \<Rightarrow> ConnMap \<Rightarrow> instant \<Rightarrow> bool" where
  "splice_idle limit c conns now \<longleftrightarrow> c_mode c = MSplice \<and> now - c_last_rx c > limit
     \<and> (case get (c_partner c) conns of None \<Rightarrow> True | Some p \<Rightarrow> now - c_last_rx p > limit)"

definition expired :: "RendezvousConfig \<Rightarrow> ConnMap \<Rightarrow> instant \<Rightarrow> RConn \<Rightarrow> bool" where
  "expired cfg conns now c \<longleftrightarrow>
     c_mode c = MNew \<and> now - c_opened c > rv_first_frame_timeout cfg
     \<or> c_mode c = MControl \<and> now - c_last_rx c > rv_idle_timeout cfg
     \<or> c_mode c = MRelayWaiting \<and> now - c_opened c > rv_relay_join_timeout cfg
     \<or> splice_idle (rv_relay_idle_timeout cfg) c conns now"

text \<open>The first loop of \<open>reap\<close>. Killing changes nothing that a later turn looks at, so all are judged by the same map.\<close>

definition reap_expired :: "instant \<Rightarrow> Rendezvous \<Rightarrow> Rendezvous" where
  "reap_expired now s = s\<lparr>rz_conns := Mapping.map_values
     (\<lambda>_ c. if \<not> c_dead c \<and> expired (rz_cfg s) (rz_conns s) now c then killed c else c) (rz_conns s)\<rparr>"

text \<open>One turn of the second loop: the partner of a dead splice leg that has nothing left to receive.\<close>

definition end_partner :: "ConnKey \<Rightarrow> ConnMap \<Rightarrow> ConnMap" where
  "end_partner k conns = (case get k conns of
       None \<Rightarrow> conns
     | Some c \<Rightarrow>
         if c_dead c \<and> c_mode c = MSplice
         then on_conn (c_partner c) (\<lambda>p. if \<not> c_dead p \<and> c_out p = [] then killed p else p) conns
         else conns)"

definition splice_orphan :: "RConn \<Rightarrow> ConnMap \<Rightarrow> bool" where
  "splice_orphan c conns \<longleftrightarrow> c_mode c = MSplice \<and> \<not> c_dead c \<and> c_out c = []
     \<and> (case get (c_partner c) conns of None \<Rightarrow> True | Some p \<Rightarrow> c_dead p)"

text \<open>One turn of the third loop.\<close>

definition leave_waiting :: "RConn \<Rightarrow> Rendezvous \<Rightarrow> Rendezvous" where
  "leave_waiting c s = (case c_relay_side c of
       None \<Rightarrow> s
     | Some sd \<Rightarrow>
         if c_mode c = MRelayWaiting \<and> get (c_relay_id c) (rz_waiting s sd) = Some (c_key c)
         then s\<lparr>rz_waiting := (rz_waiting s)(sd := del (c_relay_id c) (rz_waiting s sd))\<rparr> else s)"

definition reap_one :: "ConnKey \<Rightarrow> Rendezvous \<Rightarrow> Rendezvous" where
  "reap_one k s = (case get k (rz_conns s) of
       None \<Rightarrow> s
     | Some c \<Rightarrow>
         if \<not> c_dead c \<and> \<not> splice_orphan c (rz_conns s) then s
         else (let s = (if c_mode c = MControl then s\<lparr>rz_service := on_close (c_key c) (rz_service s)\<rparr> else s);
                   s = release c (leave_waiting c s)
               in s\<lparr>rz_conns := del k (rz_conns s)\<rparr>))"

text \<open>The order in which an unordered map is walked does not show in the results; here it is that of the keys.\<close>

definition reap :: "instant \<Rightarrow> Rendezvous \<Rightarrow> Rendezvous" where
  "reap now s =
     (let s = reap_expired now s;
          s = s\<lparr>rz_conns := fold end_partner (Mapping.ordered_keys (rz_conns s)) (rz_conns s)\<rparr>
      in fold reap_one (Mapping.ordered_keys (rz_conns s)) s)"

section \<open>Datagrams\<close>

definition udp_datagram :: "Endpoint \<times> bytes \<Rightarrow> instant \<Rightarrow> Rendezvous \<Rightarrow> UdpOut list \<times> Rendezvous" where
  "udp_datagram got now s = (case got of (src, d) \<Rightarrow>
     (let dgram = take kMaxUdpDatagram d in
      if rz_drop_filter s dgram then ([], s)
      else (let (out, sv) = on_udp src dgram now (rz_service s)
            in (filter (\<lambda>o'. ud_data o' \<noteq> []) out, s\<lparr>rz_service := sv\<rparr>))))"

fun udp_loop :: "(Endpoint \<times> bytes) list \<Rightarrow> instant \<Rightarrow> Rendezvous \<Rightarrow> UdpOut list \<times> Rendezvous" where
  "udp_loop [] now s = ([], s)"
| "udp_loop (g # gs) now s =
     (let (out, s) = udp_datagram g now s; (outs, s) = udp_loop gs now s in (out @ outs, s))"

definition read_udp :: "(Endpoint \<times> bytes) list \<Rightarrow> instant \<Rightarrow> Rendezvous \<Rightarrow> UdpOut list \<times> Rendezvous" where
  "read_udp gs now s = udp_loop (take 256 gs) now s"

section \<open>Workers\<close>

definition hand_off_pair :: "ConnKey \<times> ConnKey \<Rightarrow> Rendezvous \<Rightarrow> Rendezvous" where
  "hand_off_pair pr s = (case (get (fst pr) (rz_conns s), get (snd pr) (rz_conns s)) of
       (Some a, Some b) \<Rightarrow>
         if c_dead a \<or> c_dead b then s
         else (let i = rz_next_worker s mod length (rz_workers s); w = rz_workers s ! i
               in s\<lparr>rz_next_worker := rz_next_worker s + 1,
                    rz_workers := (rz_workers s)[i := w\<lparr>wk_inbox := wk_inbox w @ [a, b]\<rparr>],
                    rz_conns := del (snd pr) (del (fst pr) (rz_conns s))\<rparr>)
     | _ \<Rightarrow> s)"

definition hand_off :: "Rendezvous \<Rightarrow> Rendezvous" where
  "hand_off s = (fold hand_off_pair (rz_spliced s) s)\<lparr>rz_spliced := []\<rparr>"

definition worker_take :: "Worker \<Rightarrow> Worker" where
  "worker_take w = w\<lparr>wk_conns := fold (\<lambda>c m. if get (c_key c) m = None then put (c_key c) c m else m) (wk_inbox w) (wk_conns w),
     wk_inbox := []\<rparr>"

definition on_worker :: "nat \<Rightarrow> (Worker \<Rightarrow> Worker) \<Rightarrow> Rendezvous \<Rightarrow> Rendezvous" where
  "on_worker i f s = (if i < length (rz_workers s) then s\<lparr>rz_workers := (rz_workers s)[i := f (rz_workers s ! i)]\<rparr> else s)"

definition worker_splice :: "nat \<Rightarrow> ConnKey \<Rightarrow> instant \<Rightarrow> arrivals \<Rightarrow> Rendezvous \<Rightarrow> Rendezvous" where
  "worker_splice i k now rx s = (if i < length (rz_workers s) then
       (let w = rz_workers s ! i;
            (conns, sv) = splice_read (rv_splice_buffer (rz_cfg s)) k now rx (wk_conns w, rz_service s)
        in s\<lparr>rz_workers := (rz_workers s)[i := w\<lparr>wk_conns := conns\<rparr>], rz_service := sv\<rparr>) else s)"

definition worker_idle :: "RendezvousConfig \<Rightarrow> instant \<Rightarrow> ConnMap \<Rightarrow> ConnMap" where
  "worker_idle cfg now conns = Mapping.map_values
     (\<lambda>_ c. if \<not> c_dead c \<and> splice_idle (rv_relay_idle_timeout cfg) c conns now then killed c else c) conns"

definition worker_end_partner :: "ConnKey \<Rightarrow> ConnMap \<Rightarrow> ConnMap" where
  "worker_end_partner k conns = (case get k conns of
       None \<Rightarrow> conns
     | Some c \<Rightarrow>
         if c_dead c then on_conn (c_partner c) (\<lambda>p. if \<not> c_dead p \<and> c_out p = [] then killed p else p) conns
         else conns)"

definition worker_reap_one :: "nat \<Rightarrow> ConnKey \<Rightarrow> Rendezvous \<Rightarrow> Rendezvous" where
  "worker_reap_one i k s = (let w = rz_workers s ! i in
     case get k (wk_conns w) of
       None \<Rightarrow> s
     | Some c \<Rightarrow>
         if \<not> c_dead c \<and> \<not> (c_out c = [] \<and> (case get (c_partner c) (wk_conns w) of None \<Rightarrow> True | Some p \<Rightarrow> c_dead p)) then s
         else (release c s)\<lparr>rz_workers := (rz_workers s)[i := w\<lparr>wk_conns := del k (wk_conns w)\<rparr>]\<rparr>)"

definition worker_reap :: "nat \<Rightarrow> instant \<Rightarrow> Rendezvous \<Rightarrow> Rendezvous" where
  "worker_reap i now s =
     (let s = on_worker i (\<lambda>w. w\<lparr>wk_conns := worker_idle (rz_cfg s) now (wk_conns w)\<rparr>) s;
          s = on_worker i (\<lambda>w. w\<lparr>wk_conns := fold worker_end_partner (Mapping.ordered_keys (wk_conns w)) (wk_conns w)\<rparr>) s
      in if i < length (rz_workers s) then fold (worker_reap_one i) (Mapping.ordered_keys (wk_conns (rz_workers s ! i))) s else s)"

definition worker_count :: "nat \<Rightarrow> Rendezvous \<Rightarrow> Rendezvous" where
  "worker_count i s = on_worker i (\<lambda>w. w\<lparr>wk_count := Mapping.size (wk_conns w)\<rparr>) s"

section \<open>Rounds\<close>

text \<open>What the operating system reports in a round: arrivals by connection, and how much each socket takes.\<close>

record Polled =
  po_accepts :: "Endpoint option list"
  po_udp :: "(Endpoint \<times> bytes) list"
  po_readable :: "ConnKey \<Rightarrow> bool"
  po_failed :: "ConnKey \<Rightarrow> bool"
  po_arrivals :: "ConnKey \<Rightarrow> arrivals"
  po_sends :: "ConnKey \<Rightarrow> nat option list"

definition want_read :: "nat \<Rightarrow> ConnMap \<Rightarrow> RConn \<Rightarrow> bool" where
  "want_read cap conns c \<longleftrightarrow> \<not> c_read_done c \<and> \<not> (c_mode c = MSplice
     \<and> (case get (c_partner c) conns of None \<Rightarrow> False | Some p \<Rightarrow> \<not> c_dead p \<and> length (c_out p) \<ge> cap))"

definition polled_keys :: "nat \<Rightarrow> ConnMap \<Rightarrow> Polled \<Rightarrow> ConnKey list" where
  "polled_keys cap conns po = filter (\<lambda>k. case get k conns of
       None \<Rightarrow> False
     | Some c \<Rightarrow> \<not> c_dead c \<and> (po_readable po k \<and> want_read cap conns c \<or> po_failed po k)) (Mapping.ordered_keys conns)"

fun read_ready :: "Polled \<Rightarrow> instant \<Rightarrow> ConnKey list \<Rightarrow> Rendezvous \<Rightarrow> Rendezvous option" where
  "read_ready po now [] s = Some s"
| "read_ready po now (k # ks) s =
     (if (case get k (rz_conns s) of None \<Rightarrow> True | Some c \<Rightarrow> c_dead c) then read_ready po now ks s
      else (case read_from k now (po_arrivals po k) s of None \<Rightarrow> None | Some s \<Rightarrow> read_ready po now ks s))"

definition flush_all :: "(ConnKey \<Rightarrow> nat option list) \<Rightarrow> ConnMap \<Rightarrow> ConnMap" where
  "flush_all sends conns = Mapping.map_values (\<lambda>k c. if \<not> c_dead c \<and> c_out c \<noteq> [] then flush_conn (sends k) c else c) conns"

definition tick_if_due :: "instant \<Rightarrow> Rendezvous \<Rightarrow> Rendezvous" where
  "tick_if_due now s = (if rz_last_tick s = 0 \<or> now - rz_last_tick s \<ge> 5000
     then s\<lparr>rz_service := tick now (rz_service s), rz_last_tick := now\<rparr> else s)"

definition poll_once :: "Polled \<Rightarrow> instant \<Rightarrow> Rendezvous \<Rightarrow> (UdpOut list \<times> Rendezvous) option" where
  "poll_once po now s =
     (let keys = polled_keys (rv_splice_buffer (rz_cfg s)) (rz_conns s) po;
          s = accept_all (po_accepts po) now s;
          (out, s) = read_udp (po_udp po) now s
      in case read_ready po now keys s of
           None \<Rightarrow> None
         | Some s \<Rightarrow>
             (let s = s\<lparr>rz_conns := flush_all (po_sends po) (rz_conns s)\<rparr>
              in Some (out, tick_if_due now (reap now (hand_off s)))))"

definition worker_round :: "nat \<Rightarrow> Polled \<Rightarrow> instant \<Rightarrow> Rendezvous \<Rightarrow> UdpOut list \<times> Rendezvous" where
  "worker_round i po now s =
     (if \<not> i < length (rz_workers s) then ([], s)
      else
        (let s = on_worker i worker_take s;
             keys = polled_keys (rv_splice_buffer (rz_cfg s)) (wk_conns (rz_workers s ! i)) po;
             (out, s) = read_udp (po_udp po) now s;
             s = fold (\<lambda>k s. if (case get k (wk_conns (rz_workers s ! i)) of None \<Rightarrow> True | Some c \<Rightarrow> c_dead c) then s
                        else worker_splice i k now (po_arrivals po k) s) keys s;
             s = on_worker i (\<lambda>w. w\<lparr>wk_conns := flush_all (po_sends po) (wk_conns w)\<rparr>) s
         in (out, worker_count i (worker_reap i now s))))"

end
