(* ===== verification/Rendezvous_Inv.thy ===== *)
theory Rendezvous_Inv
  imports Rendezvous Service_Live
begin

text \<open>
  The invariant of the connections one thread carries: what each mode implies for the buffers, and for two spliced legs that are
  partners, that they belong to the two sides of one binding and that whatever was read from one has been written to the other or
  waits in its buffer, after the acknowledgement of the join and in order. With it, that reading, splicing, flushing and ending
  connections keep it.
\<close>

type_synonym table = "ConnKey \<Rightarrow> RConn option"

text \<open>What was read from a leg after its join, and the acknowledgement, are what its partner was sent or is owed.\<close>

definition flows :: "RConn \<Rightarrow> RConn \<Rightarrow> bool" where
  "flows c p \<longleftrightarrow> (\<exists>j raw. c_read c = j @ raw \<and> c_written p @ c_out p = join_ok @ raw)"

definition linked :: "RConn \<Rightarrow> RConn \<Rightarrow> bool" where
  "linked c p \<longleftrightarrow> c_mode p = MSplice \<and> c_partner p = c_key c \<and> c_partner c = c_key p \<and> c_key c \<noteq> c_key p
     \<and> c_relay_id c = c_relay_id p \<and> (\<exists>sd. c_relay_side c = Some sd \<and> c_relay_side p = Some (\<not> sd))
     \<and> (\<not> c_dead p \<longrightarrow> flows c p)"

definition conn_ok :: "nat \<Rightarrow> RConn \<Rightarrow> bool" where
  "conn_ok cap c \<longleftrightarrow> (case c_mode c of
       MNew \<Rightarrow> c_out c = [] \<and> c_written c = []
         \<and> (\<not> c_dead c \<longrightarrow> c_relay_early c = [] \<and> (\<exists>j. c_read c = j @ fr_buf (c_reader c)))
     | MControl \<Rightarrow> length (c_out c) \<le> kMaxControlBacklog \<and> (\<not> c_dead c \<longrightarrow> c_relay_early c = [])
     | MRelayWaiting \<Rightarrow> c_out c = [] \<and> c_written c = [] \<and> length (c_relay_early c) \<le> cap
         \<and> (\<not> c_dead c \<longrightarrow> (\<exists>j. c_read c = j @ c_relay_early c))
     | MSplice \<Rightarrow> length (c_out c) \<le> cap + length join_ok \<and> (\<not> c_dead c \<longrightarrow> c_relay_early c = []))"

definition table_ok :: "nat \<Rightarrow> table \<Rightarrow> bool" where
  "table_ok cap m \<longleftrightarrow> (\<forall>k c. m k = Some c \<longrightarrow> c_key c = k \<and> conn_ok cap c
     \<and> (c_mode c = MSplice \<longrightarrow> (\<forall>p. m (c_partner c) = Some p \<longrightarrow> linked c p)))"

text \<open>What the rest of the server knows of a connection.\<close>

definition skel :: "RConn \<Rightarrow> ConnKey \<times> Endpoint \<times> Mode \<times> ConnKey \<times> RelayId \<times> bool option" where
  "skel c = (c_key c, c_peer c, c_mode c, c_partner c, c_relay_id c, c_relay_side c)"

definition same_skel :: "table \<Rightarrow> table \<Rightarrow> bool" where
  "same_skel m m' \<longleftrightarrow> (\<forall>k. map_option skel (m' k) = map_option skel (m k))"

lemma table_okD:
  assumes "table_ok cap m" "m k = Some c"
  shows "c_key c = k" "conn_ok cap c" "c_mode c = MSplice \<Longrightarrow> m (c_partner c) = Some p \<Longrightarrow> linked c p"
  using assms by (auto simp: table_ok_def)

lemma linked_sym:
  assumes "table_ok cap m" "m k = Some c" "c_mode c = MSplice" "m (c_partner c) = Some p"
  shows "linked p c"
proof -
  have l: "linked c p" using table_okD(3) [OF assms] .
  then have "c_mode p = MSplice" "m (c_partner p) = Some c"
    using assms(1,2) table_okD(1) [OF assms(1,2)] by (simp_all add: linked_def)
  then show ?thesis using table_okD(3) [OF assms(1,4)] by simp
qed

lemma get_on_conn: "get k' (on_conn k f m) = (if k' = k then map_option f (get k m) else get k' m)"
  by (simp add: Mapping.lookup_map_entry')

lemma on_conn_twice: "on_conn k g (on_conn k f m) = on_conn k (g \<circ> f) m"
  by (rule mapping_eqI) (simp add: get_on_conn option.map_comp)

lemma same_skel_refl: "same_skel m m"
  by (simp add: same_skel_def)

lemma same_skel_trans: "same_skel m m1 \<Longrightarrow> same_skel m1 m2 \<Longrightarrow> same_skel m m2"
  by (simp add: same_skel_def)

lemma same_skel_point:
  assumes "\<And>k c. m k = Some c \<Longrightarrow> \<exists>c'. m' k = Some c' \<and> skel c' = skel c" "\<And>k. m k = None \<Longrightarrow> m' k = None"
  shows "same_skel m m'"
  unfolding same_skel_def
proof
  fix k show "map_option skel (m' k) = map_option skel (m k)" using assms [of k] by (cases "m k") auto
qed

text \<open>
  Changes that keep the skeleton and the binding of every connection. \<open>mild\<close> says nothing of what flows; \<open>gentle\<close> changes
  do not touch it.
\<close>

definition mild :: "nat \<Rightarrow> RConn \<Rightarrow> RConn \<Rightarrow> bool" where
  "mild cap c c' \<longleftrightarrow> skel c' = skel c \<and> (c_dead c \<longrightarrow> c_dead c') \<and> (conn_ok cap c \<longrightarrow> conn_ok cap c')"

definition gentle :: "nat \<Rightarrow> RConn \<Rightarrow> RConn \<Rightarrow> bool" where
  "gentle cap c c' \<longleftrightarrow> mild cap c c' \<and> c_read c' = c_read c \<and> c_written c' @ c_out c' = c_written c @ c_out c"

definition changed :: "(RConn \<Rightarrow> RConn \<Rightarrow> bool) \<Rightarrow> table \<Rightarrow> table \<Rightarrow> bool" where
  "changed R m m' \<longleftrightarrow> (\<forall>k. case m k of None \<Rightarrow> m' k = None | Some c \<Rightarrow> \<exists>c'. m' k = Some c' \<and> R c c')"

lemma gentle_refl: "gentle cap c c" and mild_refl: "mild cap c c"
  by (simp_all add: gentle_def mild_def)

lemma gentle_mild: "gentle cap c c' \<Longrightarrow> mild cap c c'"
  by (simp add: gentle_def)

lemma gentle_trans: "gentle cap c c' \<Longrightarrow> gentle cap c' c'' \<Longrightarrow> gentle cap c c''"
  by (auto simp: gentle_def mild_def)

lemma changedD: "changed R m m' \<Longrightarrow> m' k = Some c' \<Longrightarrow> \<exists>c. m k = Some c \<and> R c c'"
  by (cases "m k") (auto simp: changed_def split: option.splits dest: spec [of _ k])

lemma changedD2: "changed R m m' \<Longrightarrow> m k = Some c \<Longrightarrow> \<exists>c'. m' k = Some c' \<and> R c c'"
  by (auto simp: changed_def split: option.splits dest: spec [of _ k])

lemma changed_mono: "changed R m m' \<Longrightarrow> (\<And>c c'. R c c' \<Longrightarrow> S c c') \<Longrightarrow> changed S m m'"
  unfolding changed_def
proof
  fix k assume a: "\<forall>k. case m k of None \<Rightarrow> m' k = None | Some c \<Rightarrow> \<exists>c'. m' k = Some c' \<and> R c c'"
    and b: "\<And>c c'. R c c' \<Longrightarrow> S c c'"
  show "case m k of None \<Rightarrow> m' k = None | Some c \<Rightarrow> \<exists>c'. m' k = Some c' \<and> S c c'"
    using a [rule_format, of k] b by (auto split: option.splits)
qed

lemma changed_None: "changed R m m' \<Longrightarrow> m k = None \<Longrightarrow> m' k = None"
  by (auto simp: changed_def split: option.splits dest: spec [of _ k])

lemma changed_skel: "changed (mild cap) m m' \<Longrightarrow> same_skel m m'"
  by (rule same_skel_point) (auto dest!: changedD2 simp: mild_def changed_None)

lemma changed_table:
  assumes ok: "table_ok cap m" and ch: "changed (mild cap) m m'"
    and fl: "\<And>k c p c' p'. m k = Some c \<Longrightarrow> c_mode c = MSplice \<Longrightarrow> m (c_partner c) = Some p \<Longrightarrow> linked c p \<Longrightarrow> m' k = Some c'
      \<Longrightarrow> m' (c_partner c) = Some p' \<Longrightarrow> \<not> c_dead p' \<Longrightarrow> \<not> c_dead p \<Longrightarrow> flows c p \<Longrightarrow> flows c' p'"
  shows "table_ok cap m'"
  unfolding table_ok_def
proof (intro allI impI conjI)
  fix k c' assume c': "m' k = Some c'"
  obtain c where c: "m k = Some c" "mild cap c c'" using changedD [OF ch c'] by blast
  note t = table_okD [OF ok c(1)]
  show "c_key c' = k" using c(2) t(1) by (simp add: mild_def skel_def)
  show "conn_ok cap c'" using c(2) t(2) by (simp add: mild_def)
  fix p' assume s: "c_mode c' = MSplice" "m' (c_partner c') = Some p'"
  have e: "c_mode c = MSplice" "c_partner c' = c_partner c" using s(1) c(2) by (simp_all add: mild_def skel_def)
  obtain p where p: "m (c_partner c) = Some p" "mild cap p p'" using changedD [OF ch s(2)] e(2) by auto
  have l: "linked c p" using t(3) [OF e(1) p(1)] .
  then show "linked c' p'"
    using fl [OF c(1) e(1) p(1) l c'] s(2) e(2) c(2) p(2) by (auto simp: linked_def mild_def skel_def)
qed

lemma gentle_table:
  assumes "table_ok cap m" "changed (gentle cap) m m'" shows "table_ok cap m'" "same_skel m m'"
proof -
  have ch: "changed (mild cap) m m'" using assms(2) gentle_mild by (rule changed_mono)
  then show "same_skel m m'" by (rule changed_skel)
  show "table_ok cap m'"
  proof (rule changed_table [OF assms(1) ch])
    fix k c p c' p'
    assume "m k = Some c" "m (c_partner c) = Some p" "m' k = Some c'" "m' (c_partner c) = Some p'" "flows c p"
    moreover then have "gentle cap c c'" "gentle cap p p'" using changedD2 [OF assms(2)] by fastforce+
    ultimately show "flows c' p'" by (simp add: gentle_def flows_def)
  qed
qed

lemma changed_on_conn:
  assumes "\<And>c. get k m = Some c \<Longrightarrow> R c (f c)" "\<And>c. R c c" shows "changed R (Mapping.lookup m) (Mapping.lookup (on_conn k f m))"
  unfolding changed_def get_on_conn using assms by (auto split: option.split)

lemma changed_map_values:
  assumes "\<And>k c. R c (f k c)" shows "changed R (Mapping.lookup m) (Mapping.lookup (Mapping.map_values f m))"
  using assms by (auto simp: changed_def Mapping.lookup_map_values split: option.split)

lemma gentle_killed: "gentle cap c (killed c)"
  by (auto simp: gentle_def mild_def killed_def skel_def conn_ok_def split: Mode.split)

lemma gentle_flush: "gentle cap c (flush_conn tx c)"
proof (induction tx c rule: flush_conn.induct)
  case (3 n tx c)
  let ?c = "c\<lparr>c_written := c_written c @ take n (c_out c), c_out := drop n (c_out c)\<rparr>"
  have "c_out c \<noteq> [] \<Longrightarrow> gentle cap c ?c"
    by (auto simp: gentle_def mild_def skel_def conn_ok_def split: Mode.split)
  then show ?case using 3 by (auto simp: gentle_refl intro: gentle_trans)
qed (auto simp: gentle_refl gentle_killed)

lemma flush_all_ok:
  assumes "table_ok cap (Mapping.lookup m)"
  shows "table_ok cap (Mapping.lookup (flush_all tx m))" "same_skel (Mapping.lookup m) (Mapping.lookup (flush_all tx m))"
proof -
  have "changed (gentle cap) (Mapping.lookup m) (Mapping.lookup (flush_all tx m))"
    unfolding flush_all_def by (rule changed_map_values) (simp add: gentle_flush gentle_refl)
  from gentle_table [OF assms this] show "table_ok cap (Mapping.lookup (flush_all tx m))" "same_skel (Mapping.lookup m) (Mapping.lookup (flush_all tx m))" .
qed

lemma kill_ok:
  assumes "table_ok cap (Mapping.lookup m)"
  shows "table_ok cap (Mapping.lookup (on_conn k killed m))" "same_skel (Mapping.lookup m) (Mapping.lookup (on_conn k killed m))"
  using gentle_table [OF assms changed_on_conn [where f = killed and R = "gentle cap"]] gentle_killed gentle_refl by blast+

section \<open>Splicing\<close>

text \<open>A change of one connection, seen from the pairs it is in.\<close>

lemma update_one:
  assumes ok: "table_ok cap (Mapping.lookup m)" and c: "get k m = Some c" and mild: "mild cap c (f c)"
    and tab: "\<And>k'. get k' m' = (if k' = k then map_option f (get k m) else get k' m)"
    and out: "\<And>p. c_mode c = MSplice \<Longrightarrow> get (c_partner c) m = Some p \<Longrightarrow> \<not> c_dead p \<Longrightarrow> flows c p \<Longrightarrow> flows (f c) p"
    and inn: "\<And>p. c_mode c = MSplice \<Longrightarrow> get (c_partner c) m = Some p \<Longrightarrow> \<not> c_dead (f c) \<Longrightarrow> flows p c \<Longrightarrow> flows p (f c)"
  shows "table_ok cap (Mapping.lookup m')" "same_skel (Mapping.lookup m) (Mapping.lookup m')"
proof -
  have ch: "changed (mild cap) (Mapping.lookup m) (Mapping.lookup m')"
    unfolding changed_def tab using c mild mild_refl by (auto split: option.split)
  then show "same_skel (Mapping.lookup m) (Mapping.lookup m')" by (rule changed_skel)
  show "table_ok cap (Mapping.lookup m')"
  proof (rule changed_table [OF ok ch])
    fix k0 c0 p0 c' p'
    assume a: "get k0 m = Some c0" "c_mode c0 = MSplice" "get (c_partner c0) m = Some p0" "linked c0 p0"
      "get k0 m' = Some c'" "get (c_partner c0) m' = Some p'" "\<not> c_dead p'" "\<not> c_dead p0" "flows c0 p0"
    have k0: "c_key c0 = k0" using table_okD(1) [OF ok a(1)] .
    have pk: "c_key p0 = c_partner c0" "c_partner p0 = k0" "c_mode p0 = MSplice" "c_partner c0 \<noteq> k0"
      using a(4) k0 by (auto simp: linked_def)
    consider "k0 = k" | "c_partner c0 = k" | "k0 \<noteq> k" "c_partner c0 \<noteq> k" by blast
    then show "flows c' p'"
    proof cases
      case 1
      then have "c0 = c" "c' = f c" "p' = p0" using a(1,3,5,6) c pk by (auto simp: tab)
      then show ?thesis using out a by simp
    next
      case 2
      then have "p0 = c" "p' = f c" "c' = c0" using a(1,3,5,6) c pk by (auto simp: tab)
      then show ?thesis using inn [of c0] a pk by simp
    next
      case 3
      then show ?thesis using a by (simp add: tab)
    qed
  qed
qed

definition drained :: "arrivals \<Rightarrow> RConn \<Rightarrow> RConn" where
  "drained rx c = (let c = (case fst (sock_recv kReadChunk rx) of
       None \<Rightarrow> c\<lparr>c_read_done := True\<rparr> | Some d \<Rightarrow> c\<lparr>c_read := c_read c @ d\<rparr>) in if c_out c = [] then killed c else c)"

lemma get_drain: "get k' (drain_survivor k rx m) = (if k' = k then map_option (drained rx) (get k m) else get k' m)"
  by (cases "get k m"; cases "fst (sock_recv kReadChunk rx)") (auto simp: drain_survivor_def drained_def Let_def get_on_conn)

lemma drained_fields:
  "skel (drained rx c) = skel c"
  "c_out (drained rx c) = c_out c" "c_written (drained rx c) = c_written c" "c_relay_early (drained rx c) = c_relay_early c"
  "c_mode (drained rx c) = c_mode c" "c_dead c \<Longrightarrow> c_dead (drained rx c)"
  by (auto simp: drained_def skel_def killed_def Let_def split: option.split)

lemma drain_ok:
  assumes ok: "table_ok cap (Mapping.lookup m)" and c: "get k m = Some c" "c_mode c = MSplice"
    and gone: "case get (c_partner c) m of None \<Rightarrow> True | Some p \<Rightarrow> c_dead p"
  shows "table_ok cap (Mapping.lookup (drain_survivor k rx m))"
    "same_skel (Mapping.lookup m) (Mapping.lookup (drain_survivor k rx m))"
proof -
  note f = drained_fields [where rx = rx and c = c]
  have mild: "mild cap c (drained rx c)"
    using f c(2) by (auto simp: mild_def conn_ok_def)
  have inn: "flows p c \<Longrightarrow> flows p (drained rx c)" for p using f by (simp add: flows_def)
  have out: "get (c_partner c) m = Some p \<Longrightarrow> \<not> c_dead p \<Longrightarrow> flows (drained rx c) p" for p using gone by simp
  show "table_ok cap (Mapping.lookup (drain_survivor k rx m))"
    "same_skel (Mapping.lookup m) (Mapping.lookup (drain_survivor k rx m))"
    using update_one [OF ok c(1) mild get_drain out inn] by blast+
qed

lemma flows_grow:
  assumes "flows c p" "c_read c' = c_read c @ d" "c_written p' = c_written p" "c_out p' = c_out p @ d"
  shows "flows c' p'"
proof -
  obtain j raw where "c_read c = j @ raw" "c_written p @ c_out p = join_ok @ raw" using assms(1) by (auto simp: flows_def)
  then have "c_read c' = j @ (raw @ d)" "c_written p' @ c_out p' = join_ok @ (raw @ d)" using assms(2-4) by simp_all
  then show ?thesis unfolding flows_def by blast
qed

text \<open>The bytes read from one leg reach the buffer of the other, or both legs end.\<close>

lemma splice_pair:
  assumes ok: "table_ok cap (Mapping.lookup m)" and c: "get k m = Some c" "c_mode c = MSplice" "get (c_partner c) m = Some p"
    and c': "mild cap c c'" "c_read c' = c_read c @ d" "c_written c' = c_written c" "c_out c' = c_out c"
    and p': "mild cap p p'" "c_read p' = c_read p" "c_written p' = c_written p"
    and give: "c_out p' = c_out p @ d \<or> c_dead p' \<and> c_out p' = c_out p"
    and tab: "\<And>k'. get k' m' = (if k' = k then Some c' else if k' = c_partner c then Some p' else get k' m)"
  shows "table_ok cap (Mapping.lookup m')" "same_skel (Mapping.lookup m) (Mapping.lookup m')"
proof -
  have l: "linked c p" using table_okD(3) [OF ok c(1,2,3)] .
  have kk: "c_key c = k" "c_key p = c_partner c" "c_partner p = k" "c_mode p = MSplice" "c_partner c \<noteq> k"
    using l table_okD(1) [OF ok c(1)] by (auto simp: linked_def)
  have ch: "changed (mild cap) (Mapping.lookup m) (Mapping.lookup m')"
    unfolding changed_def tab using c(1,3) c'(1) p'(1) mild_refl by (auto split: option.split)
  then show "same_skel (Mapping.lookup m) (Mapping.lookup m')" by (rule changed_skel)
  show "table_ok cap (Mapping.lookup m')"
  proof (rule changed_table [OF ok ch])
    fix k0 c0 p0 c0' p0'
    assume a: "get k0 m = Some c0" "c_mode c0 = MSplice" "get (c_partner c0) m = Some p0" "linked c0 p0"
      "get k0 m' = Some c0'" "get (c_partner c0) m' = Some p0'" "\<not> c_dead p0'" "\<not> c_dead p0" "flows c0 p0"
    have k0: "c_key c0 = k0" "c_key p0 = c_partner c0" "c_partner p0 = k0" "c_partner c0 \<noteq> k0"
      using a(4) table_okD(1) [OF ok a(1)] by (auto simp: linked_def)
    consider "k0 = k" | "k0 = c_partner c" | "k0 \<noteq> k" "k0 \<noteq> c_partner c" by blast
    then show "flows c0' p0'"
    proof cases
      case 1
      have e: "c0 = c" using 1 a(1) c(1) by simp
      have e: "c0 = c" "p0 = p" "c0' = c'" "p0' = p'" using e 1 a(3,5,6) c(3) kk(5) by (simp_all add: tab)
      then have "c_out p' = c_out p @ d" using a(7) give by auto
      then show ?thesis using flows_grow [of c p c' d p'] a(9) e c'(2) p'(3) by simp
    next
      case 2
      have e: "c0 = p" using 2 a(1) c(3) by simp
      have "c0 = p" "p0 = c" "c0' = p'" "p0' = c'" using e 2 a(3,5,6) c(1) kk(3,5) by (simp_all add: tab)
      then show ?thesis using a(9) c'(3,4) p'(2) by (simp add: flows_def)
    next
      case 3
      have "c_partner c0 \<noteq> k" "c_partner c0 \<noteq> c_partner c"
      proof -
        show "c_partner c0 \<noteq> k" using 3(2) a(3) c(1) k0(3) by (metis option.inject)
        show "c_partner c0 \<noteq> c_partner c" using 3(1) a(3) c(3) k0(3) kk(3) by (metis option.inject)
      qed
      then show ?thesis using 3 a by (simp add: tab)
    qed
  qed
qed

lemma splice_read_ok:
  assumes ok: "table_ok cap (Mapping.lookup m)" and c: "get k m = Some c" "c_mode c = MSplice"
    and r: "splice_read cap k now rx (m, sv) = (m', sv')"
  shows "table_ok cap (Mapping.lookup m') \<and> same_skel (Mapping.lookup m) (Mapping.lookup m')"
proof (cases "case get (c_partner c) m of None \<Rightarrow> True | Some p \<Rightarrow> c_dead p")
  case True
  then have "m' = drain_survivor k rx m" using r c by (auto simp: splice_read_def split: option.splits)
  then show ?thesis using drain_ok [OF ok c True] by simp
next
  case False
  then obtain p where p: "get (c_partner c) m = Some p" "\<not> c_dead p" by (auto split: option.splits)
  have kp: "c_partner c \<noteq> k" using table_okD(3) [OF ok c p(1)] table_okD(1) [OF ok c(1)] by (auto simp: linked_def)
  define room where "room = (if cap > length (c_out p) then cap - length (c_out p) else 0)"
  let ?r = "fst (sock_recv (min room kReadChunk) rx)"
  consider "room = 0 \<or> ?r = Some []" | "room \<noteq> 0" "?r = None" | d where "room \<noteq> 0" "?r = Some d" "d \<noteq> []"
    by (cases ?r) auto
  then show ?thesis
  proof cases
    case 1
    then have "m' = m" using r c p by (auto simp: splice_read_def room_def [symmetric] Let_def split: if_splits)
    then show ?thesis using ok by (simp add: same_skel_refl)
  next
    case 2
    then have "m' = on_conn k killed m" using r c p by (simp add: splice_read_def room_def [symmetric] Let_def)
    then show ?thesis using kill_ok [OF ok, of k] by simp
  next
    case (3 d)
    let ?c = "c\<lparr>c_read := c_read c @ d, c_last_rx := now\<rparr>"
    have d: "length d \<le> room" using 3(2) by (cases "(min room kReadChunk, rx)" rule: sock_recv.cases) auto
    have mc: "mild cap c ?c" using c(2) by (simp add: mild_def skel_def conn_ok_def)
    have pm: "c_mode p = MSplice" using table_okD(3) [OF ok c p(1)] by (simp add: linked_def)
    have mp: "mild cap p (p\<lparr>c_out := c_out p @ d\<rparr>)"
      using d pm 3(1) by (auto simp: mild_def skel_def conn_ok_def room_def split: if_splits)
    obtain ok1 sv1 where ch: "charge (c_relay_id c) (length d) now sv = (ok1, sv1)" by fastforce
    show ?thesis
    proof (cases ok1)
      case True
      then have m': "m' = on_conn (c_partner c) (\<lambda>p. p\<lparr>c_out := c_out p @ d\<rparr>)
          (on_conn k (\<lambda>c. c\<lparr>c_read := c_read c @ d, c_last_rx := now\<rparr>) m)"
        using r c p 3 ch by (simp add: splice_read_def room_def [symmetric] Let_def)
      show ?thesis
        using splice_pair [OF ok c p(1) mc, of d "p\<lparr>c_out := c_out p @ d\<rparr>" m'] mp c(1) p(1) kp
        by (simp add: m' get_on_conn)
    next
      case False
      then have m': "m' = on_conn (c_partner c) killed (on_conn k killed
          (on_conn k (\<lambda>c. c\<lparr>c_read := c_read c @ d, c_last_rx := now\<rparr>) m))"
        using r c p 3 ch by (simp add: splice_read_def room_def [symmetric] Let_def)
      have "mild cap c (killed ?c)" using c(2) by (simp add: mild_def skel_def conn_ok_def killed_def)
      moreover have "mild cap p (killed p)" by (rule gentle_mild [OF gentle_killed])
      ultimately show ?thesis
        using splice_pair [OF ok c p(1), of "killed ?c" d "killed p" m'] c(1) p(1) kp
        by (simp add: m' get_on_conn killed_def)
    qed
  qed
qed

section \<open>Ending connections\<close>

lemma end_partner_ok:
  assumes "table_ok cap (Mapping.lookup m)"
  shows "table_ok cap (Mapping.lookup (end_partner k m)) \<and> same_skel (Mapping.lookup m) (Mapping.lookup (end_partner k m))"
    "table_ok cap (Mapping.lookup (worker_end_partner k m)) \<and> same_skel (Mapping.lookup m) (Mapping.lookup (worker_end_partner k m))"
proof -
  have "changed (gentle cap) (Mapping.lookup m)
      (Mapping.lookup (on_conn k' (\<lambda>p. if \<not> c_dead p \<and> c_out p = [] then killed p else p) m))" for k'
    by (rule changed_on_conn) (auto simp: gentle_killed gentle_refl)
  from gentle_table [OF assms this] assms
  show "table_ok cap (Mapping.lookup (end_partner k m)) \<and> same_skel (Mapping.lookup m) (Mapping.lookup (end_partner k m))"
    "table_ok cap (Mapping.lookup (worker_end_partner k m)) \<and> same_skel (Mapping.lookup m) (Mapping.lookup (worker_end_partner k m))"
    by (auto simp: end_partner_def worker_end_partner_def same_skel_refl split: option.split)
qed

lemma kill_some_ok:
  assumes "table_ok cap (Mapping.lookup m)"
  shows "table_ok cap (Mapping.lookup (Mapping.map_values (\<lambda>k c. if P k c then killed c else c) m))
    \<and> same_skel (Mapping.lookup m) (Mapping.lookup (Mapping.map_values (\<lambda>k c. if P k c then killed c else c) m))"
proof -
  have "changed (gentle cap) (Mapping.lookup m) (Mapping.lookup (Mapping.map_values (\<lambda>k c. if P k c then killed c else c) m))"
    by (rule changed_map_values) (simp add: gentle_killed gentle_refl)
  then show ?thesis using gentle_table [OF assms] by blast
qed

text \<open>A table from which connections are taken away.\<close>

lemma table_del:
  assumes "table_ok cap m" shows "table_ok cap (m(k := None))"
  using assms by (auto simp: table_ok_def split: if_splits)

lemma table_sub:
  assumes "table_ok cap m" "\<And>k. m' k = m k \<or> m' k = None" shows "table_ok cap m'"
  unfolding table_ok_def
proof (intro allI impI conjI)
  fix k c assume c: "m' k = Some c"
  then have mk: "m k = Some c" using assms(2) [of k] by simp
  note t = table_okD [OF assms(1) mk]
  show "c_key c = k" "conn_ok cap c" using t by simp_all
  fix p assume "c_mode c = MSplice" "m' (c_partner c) = Some p"
  then show "linked c p" using t(3) assms(2) [of "c_partner c"] by auto
qed

end
