(* ===== verification/Rendezvous_Laws.thy ===== *)
theory Rendezvous_Laws
  imports Rendezvous_Inv
begin

text \<open>
  The invariant of the whole runtime. A connection stands in one place: the loop, the inbox of a worker or its table. The parts of
  the invariant that look at the places only see the skeletons of the connections, so an operation that keeps them is done with
  a frame rule; the operations that accept, pair, move and end connections are treated one by one.
\<close>

section \<open>Places\<close>

datatype place = Loop | Inbox nat | Work nat

fun tab :: "place \<Rightarrow> Rendezvous \<Rightarrow> table" where
  "tab Loop s = Mapping.lookup (rz_conns s)"
| "tab (Inbox i) s = (if i < length (rz_workers s)
     then map_of (map (\<lambda>c. (c_key c, c)) (wk_inbox (rz_workers s ! i))) else Map.empty)"
| "tab (Work i) s = (if i < length (rz_workers s) then Mapping.lookup (wk_conns (rz_workers s ! i)) else Map.empty)"

abbreviation cap :: "Rendezvous \<Rightarrow> nat" where "cap s \<equiv> rv_splice_buffer (rz_cfg s)"

definition ip_of_conn :: "RConn \<Rightarrow> bytes" where
  "ip_of_conn c = ip_bytes (ep_ip (c_peer c))"

definition census :: "Rendezvous \<Rightarrow> (ConnKey \<times> bytes) set" where
  "census s = {(k, ip_of_conn c) | pl k c. tab pl s k = Some c}"

definition apart :: "Rendezvous \<Rightarrow> bool" where
  "apart s \<longleftrightarrow> (\<forall>pl k c pl'. tab pl s k = Some c \<longrightarrow>
     (tab pl' s k \<noteq> None \<longrightarrow> pl' = pl) \<and> (c_mode c = MSplice \<longrightarrow> tab pl' s (c_partner c) \<noteq> None \<longrightarrow> pl' = pl))"

definition members :: "Rendezvous \<Rightarrow> bool" where
  "members s \<longleftrightarrow> (\<forall>pl k c. tab pl s k = Some c \<longrightarrow> k < rz_next_key s \<and> wf_ep (c_peer c)
     \<and> (pl \<noteq> Loop \<longrightarrow> c_mode c = MSplice) \<and> (c_mode c = MSplice \<longrightarrow> c_partner c < rz_next_key s))"

definition counted :: "Rendezvous \<Rightarrow> bool" where
  "counted s \<longleftrightarrow> counts (rz_per_ip s) (census s) snd
     \<and> (\<forall>ip n. get ip (rz_per_ip s) = Some n \<longrightarrow> n \<le> rv_max_connections_per_ip (rz_cfg s))
     \<and> card (Mapping.keys (rz_conns s)) \<le> rv_max_connections (rz_cfg s)"

definition waits :: "Rendezvous \<Rightarrow> bool" where
  "waits s \<longleftrightarrow> (\<forall>sd rid k. get rid (rz_waiting s sd) = Some k \<longrightarrow>
     (\<exists>c. tab Loop s k = Some c \<and> c_mode c = MRelayWaiting \<and> c_relay_id c = rid \<and> c_relay_side c = Some sd))"

definition controls :: "Rendezvous \<Rightarrow> bool" where
  "controls s \<longleftrightarrow> Mapping.keys (sv_conns (rz_service s)) = {k. \<exists>c. tab Loop s k = Some c \<and> c_mode c = MControl}"

definition promised :: "table \<Rightarrow> ConnKey \<Rightarrow> ConnKey \<Rightarrow> bool" where
  "promised m a b \<longleftrightarrow> (\<forall>c. m a = Some c \<longrightarrow> c_mode c = MSplice \<and> c_partner c = b)"

definition to_hand :: "Rendezvous \<Rightarrow> bool" where
  "to_hand s \<longleftrightarrow> (\<forall>(a, b) \<in> set (rz_spliced s). rz_workers s \<noteq> [] \<and> a < rz_next_key s \<and> b < rz_next_key s \<and> a \<noteq> b
     \<and> promised (tab Loop s) a b \<and> promised (tab Loop s) b a)"

definition rz_inv :: "instant \<Rightarrow> Rendezvous \<Rightarrow> bool" where
  "rz_inv clock s \<longleftrightarrow> (\<forall>pl. table_ok (cap s) (tab pl s)) \<and> apart s \<and> members s \<and> counted s \<and> waits s \<and> controls s \<and> to_hand s
     \<and> sv_inv clock (rz_service s)"

lemma rz_invD:
  assumes "rz_inv clock s"
  shows "table_ok (cap s) (tab pl s)" "apart s" "members s" "counted s" "waits s" "controls s" "to_hand s" "sv_inv clock (rz_service s)"
  using assms by (simp_all add: rz_inv_def)

lemma skelD:
  assumes "skel c' = skel c"
  shows "c_key c' = c_key c" "c_peer c' = c_peer c" "c_mode c' = c_mode c" "c_partner c' = c_partner c"
    "c_relay_id c' = c_relay_id c" "c_relay_side c' = c_relay_side c"
  using assms by (simp_all add: skel_def)

lemma same_skel_Some: "same_skel m m' \<Longrightarrow> m' k = Some c' \<Longrightarrow> \<exists>c. m k = Some c \<and> skel c' = skel c"
  unfolding same_skel_def by (metis map_option_eq_Some option.sel)

lemma same_skel_None: "same_skel m m' \<Longrightarrow> m' k = None \<longleftrightarrow> m k = None"
  unfolding same_skel_def by (metis option.map_disc_iff)

lemma same_skel_sym: "same_skel m m' \<Longrightarrow> same_skel m' m"
  by (simp add: same_skel_def)

lemma same_skel_mode:
  assumes "same_skel m m'" shows "(\<exists>c. m' k = Some c \<and> c_mode c = md) \<longleftrightarrow> (\<exists>c. m k = Some c \<and> c_mode c = md)"
  using same_skel_Some [OF assms, of k] same_skel_Some [OF same_skel_sym [OF assms], of k] skelD(3) by metis

lemma same_skel_promised: "same_skel m m' \<Longrightarrow> promised m a b \<Longrightarrow> promised m' a b"
  unfolding promised_def using same_skel_Some skelD(3,4) by metis

section \<open>The frame rule\<close>

definition same_rest :: "Rendezvous \<Rightarrow> Rendezvous \<Rightarrow> bool" where
  "same_rest s s' \<longleftrightarrow> rz_cfg s' = rz_cfg s \<and> rz_per_ip s' = rz_per_ip s \<and> rz_next_key s' = rz_next_key s \<and> rz_waiting s' = rz_waiting s
     \<and> rz_spliced s' = rz_spliced s \<and> length (rz_workers s') = length (rz_workers s)"

lemma frame_census:
  assumes "\<And>pl. same_skel (tab pl s) (tab pl s')" shows "census s' = census s"
proof -
  have "census t \<subseteq> census u" if sk: "\<And>pl. same_skel (tab pl u) (tab pl t)" for t u
  proof
    fix x assume "x \<in> census t"
    then obtain pl k c' where x: "x = (k, ip_of_conn c')" "tab pl t k = Some c'" unfolding census_def by blast
    obtain c where c: "tab pl u k = Some c" "skel c' = skel c" using same_skel_Some [OF sk x(2)] by blast
    have "ip_of_conn c' = ip_of_conn c" using skelD(2) [OF c(2)] by (simp add: ip_of_conn_def)
    then show "x \<in> census u" using x(1) c(1) unfolding census_def by blast
  qed
  then show ?thesis using assms same_skel_sym by blast
qed

lemma frame_keys:
  assumes "same_skel (tab Loop s) (tab Loop s')" shows "Mapping.keys (rz_conns s') = Mapping.keys (rz_conns s)"
  using same_skel_None [OF assms] by (auto simp: Mapping.keys_dom_lookup dom_def)

lemma frame:
  assumes inv: "rz_inv clock s" and rest: "same_rest s s'" and sk: "\<And>pl. same_skel (tab pl s) (tab pl s')"
    and ok: "\<And>pl. table_ok (cap s) (tab pl s')"
    and sv: "sv_inv now (rz_service s')" "Mapping.keys (sv_conns (rz_service s')) = Mapping.keys (sv_conns (rz_service s))"
  shows "rz_inv now s'"
proof -
  note R = rest [unfolded same_rest_def]
  note I = rz_invD [OF inv]
  note S = same_skel_Some [OF sk]
  have "apart s'" unfolding apart_def
  proof (intro allI impI)
    fix pl k c' pl' assume "tab pl s' k = Some c'"
    then obtain c where c: "tab pl s k = Some c" "skel c' = skel c" using S by blast
    then show "(tab pl' s' k \<noteq> None \<longrightarrow> pl' = pl) \<and> (c_mode c' = MSplice \<longrightarrow> tab pl' s' (c_partner c') \<noteq> None \<longrightarrow> pl' = pl)"
      using I(2) same_skel_None [OF sk] skelD [OF c(2)] unfolding apart_def by simp
  qed
  moreover have "members s'" unfolding members_def using S I(3) skelD R by (metis members_def)
  moreover have "counted s'" using I(4) R by (simp add: counted_def frame_census [OF sk] frame_keys [OF sk])
  moreover have "waits s'" unfolding waits_def
  proof (intro allI impI)
    fix sd rid k assume "get rid (rz_waiting s' sd) = Some k"
    then have "get rid (rz_waiting s sd) = Some k" using R by simp
    then obtain c where c: "tab Loop s k = Some c" "c_mode c = MRelayWaiting" "c_relay_id c = rid" "c_relay_side c = Some sd"
      using I(5) unfolding waits_def by blast
    then show "\<exists>c. tab Loop s' k = Some c \<and> c_mode c = MRelayWaiting \<and> c_relay_id c = rid \<and> c_relay_side c = Some sd"
      using same_skel_Some [OF same_skel_sym [OF sk [of Loop]] c(1)] skelD by metis
  qed
  moreover have "controls s'"
    using I(6) sv(2) unfolding controls_def same_skel_mode [OF sk] by simp
  moreover have "to_hand s'"
  proof -
    have "rz_workers s' = [] \<longleftrightarrow> rz_workers s = []" using R by (metis length_0_conv)
    moreover have "promised (tab Loop s) a b \<Longrightarrow> promised (tab Loop s') a b" for a b
      using same_skel_promised [OF sk] by blast
    ultimately show ?thesis using I(7) R unfolding to_hand_def by (auto simp del: tab.simps)
  qed
  ultimately show ?thesis using ok sv(1) R by (simp add: rz_inv_def)
qed

lemma loop_frame:
  assumes inv: "rz_inv clock s" and rest: "same_rest s s'" "rz_workers s' = rz_workers s"
    and m: "table_ok (cap s) (tab Loop s') \<and> same_skel (tab Loop s) (tab Loop s')"
    and sv: "sv_inv now (rz_service s')" "Mapping.keys (sv_conns (rz_service s')) = Mapping.keys (sv_conns (rz_service s))"
  shows "rz_inv now s'"
proof (rule frame [OF inv rest(1) _ _ sv])
  fix pl
  have "pl \<noteq> Loop \<Longrightarrow> tab pl s' = tab pl s" using rest(2) by (cases pl) simp_all
  then show "same_skel (tab pl s) (tab pl s')" "table_ok (cap s) (tab pl s')"
    using m rz_invD(1) [OF inv, of pl] by (cases "pl = Loop"; simp add: same_skel_refl del: tab.simps)+
qed

lemma work_frame:
  assumes inv: "rz_inv clock s" and rest: "same_rest s s'" "rz_conns s' = rz_conns s"
    and i: "i < length (rz_workers s)" "rz_workers s' = (rz_workers s)[i := w']" "wk_inbox w' = wk_inbox (rz_workers s ! i)"
    and m: "table_ok (cap s) (Mapping.lookup (wk_conns w'))
      \<and> same_skel (Mapping.lookup (wk_conns (rz_workers s ! i))) (Mapping.lookup (wk_conns w'))"
    and sv: "sv_inv now (rz_service s')" "Mapping.keys (sv_conns (rz_service s')) = Mapping.keys (sv_conns (rz_service s))"
  shows "rz_inv now s'"
proof (rule frame [OF inv rest(1) _ _ sv])
  fix pl
  have "pl \<noteq> Work i \<Longrightarrow> tab pl s' = tab pl s" using i rest(2) by (cases pl) (simp_all add: nth_list_update)
  moreover have "tab (Work i) s' = Mapping.lookup (wk_conns w')" "tab (Work i) s = Mapping.lookup (wk_conns (rz_workers s ! i))"
    using i by simp_all
  ultimately show "same_skel (tab pl s) (tab pl s')" "table_ok (cap s) (tab pl s')"
    using m rz_invD(1) [OF inv, of pl] by (cases "pl = Work i"; simp add: same_skel_refl del: tab.simps)+
qed

lemma same_rest_refl: "same_rest s s"
  by (simp add: same_rest_def)

lemma later_inv: "sv_inv clock sv \<Longrightarrow> clock \<le> now \<Longrightarrow> sv_inv now sv"
  by (auto simp: sv_inv_def reg_inv_later [of clock])

lemma charge_inv:
  assumes "sv_inv clock sv" "clock \<le> now" "charge rid n now sv = (ok, sv')"
  shows "sv_inv now sv'" "Mapping.keys (sv_conns sv') = Mapping.keys (sv_conns sv)"
proof -
  obtain reg where r: "relay_charge rid (of_nat n) now (sv_reg sv) = (ok, reg)" "sv' = sv\<lparr>sv_reg := reg\<rparr>"
    using assms(3) by (auto simp: charge_def split: prod.splits)
  have "reg_inv now (sv_reg sv)" using assms(1,2) by (simp add: sv_inv_def reg_inv_later [of clock])
  then have "reg_inv now reg \<and> reg_ok {} (sv_reg sv) reg"
    using reg_inv_charge charge_reg_ok r(1) by (metis order_refl snd_conv)
  then show "sv_inv now sv'" using assms(1) r(2) by (auto simp: sv_inv_def reg_ok_def)
  show "Mapping.keys (sv_conns sv') = Mapping.keys (sv_conns sv)" using r(2) by simp
qed

section \<open>Operations that keep the skeletons\<close>

text \<open>Only the loop's table changes, and the service not at all.\<close>

lemma loop_table:
  assumes inv: "rz_inv clock s" "clock \<le> now" and m: "table_ok (cap s) (Mapping.lookup m) \<and> same_skel (tab Loop s) (Mapping.lookup m)"
  shows "rz_inv now (s\<lparr>rz_conns := m\<rparr>)"
  using m by (intro loop_frame [OF inv(1)]) (simp_all add: same_rest_def later_inv [OF rz_invD(8) [OF inv(1)] inv(2)])

lemma kill_inv: "rz_inv clock s \<Longrightarrow> clock \<le> now \<Longrightarrow> rz_inv now (kill k s)"
  unfolding kill_def using kill_ok [OF rz_invD(1) [of clock s Loop, simplified]] by (intro loop_table) auto

lemma stay_inv: "rz_inv clock s \<Longrightarrow> clock \<le> now \<Longrightarrow> rz_inv now s"
  using loop_table [of clock s now "rz_conns s"] rz_invD(1) [of clock s Loop] by (simp add: same_skel_refl)

lemma mild_one:
  assumes inv: "rz_inv clock s" "clock \<le> now" and c: "get k (rz_conns s) = Some c" "c_mode c \<noteq> MSplice" and f: "mild (cap s) c (f c)"
  shows "rz_inv now (s\<lparr>rz_conns := on_conn k f (rz_conns s)\<rparr>)"
proof (rule loop_table [OF inv])
  have ok: "table_ok (cap s) (Mapping.lookup (rz_conns s))" using rz_invD(1) [OF inv(1), of Loop] by simp
  show "table_ok (cap s) (Mapping.lookup (on_conn k f (rz_conns s)))
      \<and> same_skel (tab Loop s) (Mapping.lookup (on_conn k f (rz_conns s)))"
    using update_one [where f = f, OF ok c(1) f, of "on_conn k f (rz_conns s)"] c(2) by (simp add: get_on_conn)
qed

lemma feed_buf: "feed d rd = (True, rd') \<Longrightarrow> fr_buf rd' = fr_buf rd @ d"
  by (auto simp: feed_def Let_def split: if_splits)

lemma receive_inv:
  assumes inv: "rz_inv clock s" "clock \<le> now" and r: "receive k now rx s = (go, rx', s')"
    and k: "\<And>c. get k (rz_conns s) = Some c \<Longrightarrow> c_mode c = MNew \<or> c_mode c = MControl"
  shows "rz_inv now s'"
proof (cases "get k (rz_conns s)")
  case None
  then show ?thesis using r stay_inv [OF inv] by (simp add: receive_def)
next
  case (Some c)
  note cm = k [OF Some]
  obtain got rx1 where g: "sock_recv kReadChunk rx = (got, rx1)" by fastforce
  consider "c_dead c \<or> got = Some []" | "\<not> c_dead c" "got = None" | d where "\<not> c_dead c" "got = Some d" "d \<noteq> []"
    by (cases got) auto
  then show ?thesis
  proof cases
    case 1
    then have "s' = s" using r Some g by (auto simp: receive_def split: if_splits)
    then show ?thesis using stay_inv [OF inv] by simp
  next
    case 2
    then have "s' = kill k s" using r Some g by (auto simp: receive_def)
    then show ?thesis using kill_inv [OF inv] by simp
  next
    case (3 d)
    obtain ok rd where f: "feed d (c_reader c) = (ok, rd)" by fastforce
    let ?f = "\<lambda>c. c\<lparr>c_read := c_read c @ d, c_last_rx := now, c_reader := rd\<rparr>"
    have s': "s' = s\<lparr>rz_conns := on_conn k (if ok then ?f else killed \<circ> ?f) (rz_conns s)\<rparr>"
      using r Some g 3 f by (simp add: receive_def Let_def kill_def on_conn_twice split: if_splits)
    have "mild (cap s) c ((if ok then ?f else killed \<circ> ?f) c)"
      using cm feed_buf [of d "c_reader c" rd] f 3(1) by (auto simp: mild_def skel_def conn_ok_def killed_def)
    then show ?thesis unfolding s' using cm by (intro mild_one [OF inv Some]) auto
  qed
qed

lemma next_frame_buf: "next_frame rd = (m, rd') \<Longrightarrow> \<exists>j. fr_buf rd = j @ fr_buf rd'"
proof -
  assume "next_frame rd = (m, rd')"
  then have "fr_buf rd' = fr_buf rd \<or> fr_buf rd' = drop (2 + prefix_len (fr_buf rd)) (fr_buf rd)"
    by (auto simp: next_frame_def Let_def split: if_splits)
  then show "\<exists>j. fr_buf rd = j @ fr_buf rd'" by (metis append_Nil append_take_drop_id)
qed

lemma take_frame_inv:
  assumes inv: "rz_inv clock s" "clock \<le> now" and r: "take_frame k s = (m, s')" shows "rz_inv now s'"
proof (cases "\<exists>c. get k (rz_conns s) = Some c \<and> framing c")
  case True
  then obtain c where c: "get k (rz_conns s) = Some c" "framing c" by blast
  obtain rd where n: "next_frame (c_reader c) = (m, rd)" "s' = s\<lparr>rz_conns := on_conn k (\<lambda>c. c\<lparr>c_reader := rd\<rparr>) (rz_conns s)\<rparr>"
    using r c by (auto simp: take_frame_def split: prod.splits)
  obtain j where "fr_buf (c_reader c) = j @ fr_buf rd" using next_frame_buf [OF n(1)] by blast
  then have "mild (cap s) c (c\<lparr>c_reader := rd\<rparr>)"
    by (auto simp: mild_def skel_def conn_ok_def split: Mode.split)
  then show ?thesis unfolding n(2) using c(2) by (intro mild_one [OF inv c(1)]) (auto simp: framing_def)
next
  case False
  then have "s' = s" using r by (auto simp: take_frame_def split: option.splits if_splits)
  then show ?thesis using stay_inv [OF inv] by simp
qed

lemma break_framing_inv: "rz_inv clock s \<Longrightarrow> clock \<le> now \<Longrightarrow> rz_inv now (snd (break_framing k s))"
  by (auto simp: break_framing_def split: option.split intro: stay_inv kill_inv)

lemma sock_recv_le: "fst (sock_recv n rx) = Some d \<Longrightarrow> length d \<le> n"
  by (cases "(n, rx)" rule: sock_recv.cases) auto

lemma read_early_inv:
  assumes inv: "rz_inv clock s" "clock \<le> now" and c: "get k (rz_conns s) = Some c" "c_mode c = MRelayWaiting"
  shows "rz_inv now (read_early k rx s)"
proof -
  let ?room = "cap s - length (c_relay_early c)"
  let ?r = "fst (sock_recv (min ?room (kReadChunk - 1) + 1) rx)"
  show ?thesis
  proof (cases ?r)
    case None
    then show ?thesis using c kill_inv [OF inv] by (simp add: read_early_def Let_def)
  next
    case (Some d)
    have e: "length (c_relay_early c) \<le> cap s"
      using table_okD(2) [OF rz_invD(1) [OF inv(1), of Loop], of k c] c by (simp add: conn_ok_def)
    let ?f = "\<lambda>c. c\<lparr>c_read := c_read c @ d\<rparr>" and ?g = "\<lambda>c. c\<lparr>c_relay_early := c_relay_early c @ d\<rparr>"
    have eq: "read_early k rx s = s\<lparr>rz_conns := on_conn k ((if length d > ?room then killed else ?g) \<circ> ?f) (rz_conns s)\<rparr>"
      using Some c by (simp add: read_early_def Let_def kill_def on_conn_twice)
    have "mild (cap s) c (((if length d > ?room then killed else ?g) \<circ> ?f) c)"
      using c(2) e by (auto simp: mild_def skel_def conn_ok_def killed_def)
    then show ?thesis unfolding eq using c(2) by (intro mild_one [OF inv c(1)]) simp_all
  qed
qed

lemma splice_service:
  assumes "sv_inv clock sv" "clock \<le> now" "splice_read n k now rx (m, sv) = (m', sv')"
  shows "sv_inv now sv' \<and> Mapping.keys (sv_conns sv') = Mapping.keys (sv_conns sv)"
proof -
  have "sv' = sv \<or> (\<exists>rid len ok. charge rid len now sv = (ok, sv'))"
    using assms(3) unfolding splice_read_def Let_def
    by (auto split: option.splits if_splits prod.splits bool.splits)
  then show ?thesis using charge_inv [OF assms(1,2)] later_inv [OF assms(1,2)] by blast
qed

lemma loop_splice_inv:
  assumes inv: "rz_inv clock s" "clock \<le> now" and c: "get k (rz_conns s) = Some c" "c_mode c = MSplice"
  shows "rz_inv now (loop_splice k now rx s)"
proof -
  obtain m' sv' where r: "splice_read (cap s) k now rx (rz_conns s, rz_service s) = (m', sv')" by fastforce
  have ok: "table_ok (cap s) (Mapping.lookup (rz_conns s))" using rz_invD(1) [OF inv(1), of Loop] by simp
  show ?thesis
    using splice_read_ok [OF ok c r] splice_service [OF rz_invD(8) [OF inv(1)] inv(2) r]
    by (intro loop_frame [OF inv(1)]) (simp_all add: loop_splice_def r same_rest_def)
qed

lemma flush_inv: "rz_inv clock s \<Longrightarrow> clock \<le> now \<Longrightarrow> rz_inv now (s\<lparr>rz_conns := flush_all tx (rz_conns s)\<rparr>)"
  using flush_all_ok [OF rz_invD(1) [of clock s Loop, simplified]] by (intro loop_table) auto

lemma expire_inv: "rz_inv clock s \<Longrightarrow> clock \<le> now \<Longrightarrow> rz_inv now (reap_expired t s)"
  unfolding reap_expired_def using kill_some_ok [OF rz_invD(1) [of clock s Loop, simplified]] by (intro loop_table) auto

lemma end_partner_inv: "rz_inv clock s \<Longrightarrow> clock \<le> now \<Longrightarrow> rz_inv now (s\<lparr>rz_conns := end_partner k (rz_conns s)\<rparr>)"
  using end_partner_ok(1) [OF rz_invD(1) [of clock s Loop, simplified]] by (intro loop_table) auto

lemma service_only:
  assumes "rz_inv clock s" "same_rest s s'" "rz_workers s' = rz_workers s" "rz_conns s' = rz_conns s"
    "sv_inv now (rz_service s')" "Mapping.keys (sv_conns (rz_service s')) = Mapping.keys (sv_conns (rz_service s))"
  shows "rz_inv now s'"
  using loop_frame [OF assms(1-3) _ assms(5,6)] assms(4) rz_invD(1) [OF assms(1), of Loop] by (simp add: same_skel_refl)

lemma on_udp_conns: "sv_conns (snd (on_udp src d now sv)) = sv_conns sv"
  by (auto simp: on_udp_def Let_def split: prod.splits option.splits)

lemma udp_inv:
  assumes inv: "rz_inv clock s" "clock \<le> now" shows "rz_inv now (snd (udp_datagram (src, d) now s))"
proof (cases "rz_drop_filter s (take kMaxUdpDatagram d)")
  case True
  then show ?thesis using stay_inv [OF inv] by (simp add: udp_datagram_def)
next
  case False
  obtain out sv where u: "on_udp src (take kMaxUdpDatagram d) now (rz_service s) = (out, sv)" by fastforce
  have "snd (udp_datagram (src, d) now s) = s\<lparr>rz_service := sv\<rparr>" using False u by (simp add: udp_datagram_def)
  then show ?thesis
    using on_udp_inv [OF rz_invD(8) [OF inv(1)] inv(2), of src "take kMaxUdpDatagram d"]
      on_udp_conns [of src "take kMaxUdpDatagram d" now "rz_service s"] u
    by (intro service_only [OF inv(1)]) (simp_all add: same_rest_def)
qed

lemma tick_due_inv: "rz_inv clock s \<Longrightarrow> clock \<le> now \<Longrightarrow> rz_inv now (tick_if_due now s)"
  unfolding tick_if_due_def using tick_inv [OF rz_invD(8)] stay_inv
  by (auto intro!: service_only [of clock s] simp: same_rest_def tick_def)

text \<open>The tables of the workers.\<close>

lemma work_table:
  assumes inv: "rz_inv clock s" "clock \<le> now" and i: "i < length (rz_workers s)"
    and m: "table_ok (cap s) (Mapping.lookup m) \<and> same_skel (Mapping.lookup (wk_conns (rz_workers s ! i))) (Mapping.lookup m)"
  shows "rz_inv now (s\<lparr>rz_workers := (rz_workers s)[i := (rz_workers s ! i)\<lparr>wk_conns := m\<rparr>]\<rparr>)"
  using m i by (intro work_frame [OF inv(1), where i = i and w' = "(rz_workers s ! i)\<lparr>wk_conns := m\<rparr>"]) (simp_all add: same_rest_def later_inv [OF rz_invD(8) [OF inv(1)] inv(2)])

lemma on_worker_inv:
  assumes inv: "rz_inv clock s" "clock \<le> now"
    and m: "\<And>m. table_ok (cap s) (Mapping.lookup m) \<Longrightarrow> table_ok (cap s) (Mapping.lookup (f m)) \<and> same_skel (Mapping.lookup m) (Mapping.lookup (f m))"
  shows "rz_inv now (on_worker i (\<lambda>w. w\<lparr>wk_conns := f (wk_conns w)\<rparr>) s)"
proof (cases "i < length (rz_workers s)")
  case True
  then show ?thesis
    using m [of "wk_conns (rz_workers s ! i)"] rz_invD(1) [OF inv(1), of "Work i"]
    by (simp add: on_worker_def work_table [OF inv True])
qed (simp add: on_worker_def stay_inv [OF inv])

lemma worker_splice_inv:
  assumes inv: "rz_inv clock s" "clock \<le> now" shows "rz_inv now (worker_splice i k now rx s)"
proof (cases "i < length (rz_workers s) \<and> get k (wk_conns (rz_workers s ! i)) \<noteq> None")
  case True
  then obtain c where c: "i < length (rz_workers s)" "get k (wk_conns (rz_workers s ! i)) = Some c" by auto
  then have md: "c_mode c = MSplice" using rz_invD(3) [OF inv(1)] unfolding members_def
    by (metis place.distinct(3) tab.simps(3))
  obtain m' sv' where r: "splice_read (cap s) k now rx (wk_conns (rz_workers s ! i), rz_service s) = (m', sv')" by fastforce
  have ok: "table_ok (cap s) (Mapping.lookup (wk_conns (rz_workers s ! i)))" using rz_invD(1) [OF inv(1), of "Work i"] c by simp
  show ?thesis
    using splice_read_ok [OF ok c(2) md r] splice_service [OF rz_invD(8) [OF inv(1)] inv(2) r] c(1)
    by (intro work_frame [OF inv(1), where i = i and w' = "(rz_workers s ! i)\<lparr>wk_conns := m'\<rparr>"]) (simp_all add: worker_splice_def r same_rest_def)
next
  case False
  then have "worker_splice i k now rx s = s" by (auto simp: worker_splice_def splice_read_def)
  then show ?thesis using stay_inv [OF inv] by simp
qed

lemma count_inv:
  assumes inv: "rz_inv clock s" "clock \<le> now" shows "rz_inv now (worker_count i s)"
proof (cases "i < length (rz_workers s)")
  case True
  then show ?thesis
    using rz_invD(1) [OF inv(1), of "Work i"]
    by (intro work_frame [OF inv(1), where i = i and w' = "(rz_workers s ! i)\<lparr>wk_count := Mapping.size (wk_conns (rz_workers s ! i))\<rparr>"])
      (simp_all add: worker_count_def on_worker_def same_rest_def same_skel_refl later_inv [OF rz_invD(8) [OF inv(1)] inv(2)])
qed (simp add: worker_count_def on_worker_def stay_inv [OF inv])

end
