(* ===== verification/Rendezvous_Moves.thy ===== *)
theory Rendezvous_Moves
  imports Rendezvous_Laws
begin

text \<open>
  The operations that change what a connection is used for or where it stands: the first frame, a joining relay leg, the pairing of
  two legs, accepting, handing over to a worker, and removing.
\<close>

section \<open>Control messages\<close>

lemma deliver_inv:
  assumes inv: "rz_inv clock s" "clock \<le> now" and t: "fm_to f \<in> Mapping.keys (sv_conns (rz_service s))"
  shows "rz_inv now (deliver f s)"
proof -
  obtain c where c: "get (fm_to f) (rz_conns s) = Some c" "c_mode c = MControl"
    using t rz_invD(6) [OF inv(1)] by (auto simp: controls_def)
  let ?g = "\<lambda>c. c\<lparr>c_out := c_out c @ fm_bytes f\<rparr>"
  show ?thesis
  proof (cases "c_dead c \<or> length (c_out c) + length (fm_bytes f) > kMaxControlBacklog")
    case True
    then show ?thesis using c stay_inv [OF inv] kill_inv [OF inv] by (auto simp: deliver_def)
  next
    case False
    then have "mild (cap s) c (?g c)" using c(2) by (simp add: mild_def skel_def conn_ok_def)
    then show ?thesis using mild_one [OF inv c(1), of ?g] c False by (simp add: deliver_def)
  qed
qed

lemma deliver_service: "rz_service (deliver f s) = rz_service s"
  by (simp add: deliver_def kill_def split: option.split)

lemma fold_deliver_inv:
  "rz_inv now s \<Longrightarrow> \<forall>f \<in> set fs. fm_to f \<in> Mapping.keys (sv_conns (rz_service s)) \<Longrightarrow> rz_inv now (fold deliver fs s)"
  by (induction fs arbitrary: s) (simp_all add: deliver_service deliver_inv [OF _ order_refl])

lemma on_control_inv:
  assumes inv: "rz_inv clock s" "clock \<le> now" and g: "message_guard k msg (rz_service s)" and r: "on_control k msg now s = Some s'"
  shows "rz_inv now s'"
proof -
  obtain res sv where m: "on_message k msg now (shd (rz_draws s)) (rz_service s) = Some (res, sv)"
    using r by (auto simp: on_control_def split: option.splits)
  let ?t = "s\<lparr>rz_service := sv, rz_draws := stl (rz_draws s)\<rparr>"
  note M = on_message_inv [OF rz_invD(8) [OF inv(1)] inv(2) g m] on_message_conns [OF m]
  have t: "rz_inv now ?t" using M by (intro service_only [OF inv(1)]) (simp_all add: same_rest_def)
  have "rz_inv now (fold deliver (rs_out res) ?t)" using M by (intro fold_deliver_inv [OF t]) simp
  then show ?thesis using r m kill_inv by (auto simp: on_control_def Let_def)
qed

section \<open>Connections of the loop take on another use\<close>

lemma census_map: "census s = {(k, x). \<exists>pl. map_option ip_of_conn (tab pl s k) = Some x}"
  by (auto simp: census_def simp del: tab.simps)

lemma finite_loop: "counted s \<Longrightarrow> finite (Mapping.keys (rz_conns s))"
proof -
  assume "counted s"
  moreover have "Mapping.keys (rz_conns s) \<subseteq> fst ` census s" by (force simp: census_def in_keys intro: exI [of _ Loop])
  ultimately show ?thesis by (meson counted_def counts_def finite_imageI finite_subset)
qed

lemma peers_None: "map_option f x = map_option f y \<Longrightarrow> x = None \<longleftrightarrow> y = None"
  by (metis option.map_disc_iff)

text \<open>
  No connection comes or goes, and a leg that is spliced anew has a partner in the loop.
\<close>

lemma recast:
  assumes inv: "rz_inv clock s" and ok: "table_ok (cap s) (tab Loop s')"
    and peers: "\<And>k. map_option c_peer (get k (rz_conns s')) = map_option c_peer (get k (rz_conns s))"
    and new: "\<And>k c'. get k (rz_conns s') = Some c' \<Longrightarrow> c_mode c' = MSplice \<Longrightarrow>
      (\<exists>c. get k (rz_conns s) = Some c \<and> c_mode c = MSplice \<and> c_partner c = c_partner c') \<or> get (c_partner c') (rz_conns s) \<noteq> None"
    and rest: "rz_workers s' = rz_workers s" "rz_cfg s' = rz_cfg s" "rz_per_ip s' = rz_per_ip s" "rz_next_key s' = rz_next_key s"
    and w: "waits s'" "controls s'" "to_hand s'" "sv_inv now (rz_service s')"
  shows "rz_inv now s'"
proof -
  note I = rz_invD [OF inv]
  have other: "pl \<noteq> Loop \<Longrightarrow> tab pl s' = tab pl s" for pl using rest(1) by (cases pl) simp_all
  have dom: "tab pl s' k = None \<longleftrightarrow> tab pl s k = None" for pl k
    using other [of pl] peers_None [OF peers [of k]] by (cases "pl = Loop") auto
  have ap: "pl' = pl" if "tab pl s k \<noteq> None" "tab pl' s k \<noteq> None" for pl pl' k
    using I(2) that unfolding apart_def by blast
  have "table_ok (cap s) (tab pl s')" for pl using ok other [of pl] I(1) [of pl] by (cases "pl = Loop") auto
  moreover have "apart s'" unfolding apart_def
  proof (intro allI impI conjI)
    fix pl k c' pl' assume c': "tab pl s' k = Some c'"
    then have kn: "tab pl s k \<noteq> None" using dom by (metis option.distinct(1))
    show "pl' = pl" if "tab pl' s' k \<noteq> None" using ap [OF kn, of pl'] dom [of pl' k] that by simp
    assume q: "c_mode c' = MSplice" "tab pl' s' (c_partner c') \<noteq> None"
    show "pl' = pl"
    proof (cases "\<exists>c. tab pl s k = Some c \<and> c_mode c = MSplice \<and> c_partner c = c_partner c'")
      case True
      then show ?thesis using I(2) q dom unfolding apart_def by metis
    next
      case False
      then have "pl = Loop" using other c' q by metis
      then show ?thesis using False new [of k c'] c' q ap dom by (metis tab.simps(1))
    qed
  qed
  moreover have "members s'" unfolding members_def
  proof (intro allI impI)
    fix pl k c' assume c': "tab pl s' k = Some c'"
    have old: "tab pl s k = Some c \<Longrightarrow> k < rz_next_key s \<and> wf_ep (c_peer c) \<and> (pl \<noteq> Loop \<longrightarrow> c_mode c = MSplice)
      \<and> (c_mode c = MSplice \<longrightarrow> c_partner c < rz_next_key s)" for pl k c using I(3) by (simp add: members_def del: tab.simps)
    show "k < rz_next_key s' \<and> wf_ep (c_peer c') \<and> (pl \<noteq> Loop \<longrightarrow> c_mode c' = MSplice) \<and> (c_mode c' = MSplice \<longrightarrow> c_partner c' < rz_next_key s')"
    proof (cases "pl = Loop")
      case False
      then show ?thesis using old c' other rest(4) by metis
    next
      case True
      then obtain c where c: "get k (rz_conns s) = Some c" "c_peer c' = c_peer c" using peers [of k] c' by (cases "get k (rz_conns s)") auto
      have "c_partner c' < rz_next_key s" if sp: "c_mode c' = MSplice"
      proof -
        consider d where "get k (rz_conns s) = Some d" "c_mode d = MSplice" "c_partner d = c_partner c'"
          | d where "get (c_partner c') (rz_conns s) = Some d" using new [of k c'] c' True sp by auto
        then show ?thesis using old [of Loop] by cases fastforce+
      qed
      then show ?thesis using old [of Loop k c] c True rest(4) by simp
    qed
  qed
  moreover have "census s' = census s"
  proof -
    have "map_option ip_of_conn (tab pl s' k) = map_option ip_of_conn (tab pl s k)" for pl k
    proof (cases "pl = Loop")
      case True
      have "map_option (\<lambda>p. ip_bytes (ep_ip p)) (map_option c_peer (get k (rz_conns t))) = map_option ip_of_conn (get k (rz_conns t))" for t
        by (cases "get k (rz_conns t)") (simp_all add: ip_of_conn_def)
      then show ?thesis using peers [of k] True by (metis tab.simps(1))
    qed (simp add: other del: tab.simps)
    then show ?thesis unfolding census_map by simp
  qed
  moreover have "Mapping.keys (rz_conns s') = Mapping.keys (rz_conns s)"
    using dom [of Loop] by (auto simp: Mapping.keys_dom_lookup dom_def)
  ultimately show ?thesis using I(4) rest w by (simp add: rz_inv_def counted_def del: tab.simps)
qed

text \<open>One connection that is not spliced becomes another that is not.\<close>

lemma recast_table:
  assumes ok: "table_ok n m" and c: "m k = Some c" "c_mode c \<noteq> MSplice"
    and c': "c_key c' = k" "c_mode c' \<noteq> MSplice" "conn_ok n c'"
  shows "table_ok n (m(k \<mapsto> c'))"
proof -
  have lone: "c_partner d \<noteq> k" if "m k0 = Some d" "c_mode d = MSplice" for k0 d
    using table_okD(3) [OF ok that] c by (auto simp: linked_def)
  show ?thesis unfolding table_ok_def
  proof (intro allI impI conjI)
    fix k0 d assume d: "(m(k \<mapsto> c')) k0 = Some d"
    show "c_key d = k0" "conn_ok n d" using d c' table_okD(1,2) [OF ok, of k0 d] by (auto split: if_splits)
    fix q assume q: "c_mode d = MSplice" "(m(k \<mapsto> c')) (c_partner d) = Some q"
    then have old: "m k0 = Some d" using d c'(2) by (auto split: if_splits)
    then show "linked d q" using q lone [OF old q(1)] table_okD(3) [OF ok old q(1)] by simp
  qed
qed

text \<open>What waits and what the service knows, when the connection at \<open>k\<close> becomes \<open>c'\<close>.\<close>

lemma waitsD:
  assumes "waits s" "get rid (rz_waiting s sd) = Some k"
  shows "\<exists>c. get k (rz_conns s) = Some c \<and> c_mode c = MRelayWaiting \<and> c_relay_id c = rid \<and> c_relay_side c = Some sd"
  using assms by (simp add: waits_def)

lemma waits_less:
  assumes "waits s" "\<And>sd rid k'. get rid (rz_waiting s' sd) = Some k' \<Longrightarrow> get rid (rz_waiting s sd) = Some k' \<and> tab Loop s' k' = tab Loop s k'"
  shows "waits s'"
  using assms unfolding waits_def by metis

lemma promised_upd:
  assumes "promised m a b" "m k = Some c" "c_mode c \<noteq> MSplice" shows "promised (m(k \<mapsto> c')) a b"
  using assms by (auto simp: promised_def)

lemma to_hand_loop:
  assumes "to_hand s" "rz_workers s' = [] \<longleftrightarrow> rz_workers s = []" "rz_next_key s' = rz_next_key s"
    "set (rz_spliced s') \<subseteq> set (rz_spliced s)" "\<And>a b. promised (tab Loop s) a b \<Longrightarrow> promised (tab Loop s') a b"
  shows "to_hand s'"
  unfolding to_hand_def
proof (intro ballI, clarify)
  fix a b assume "(a, b) \<in> set (rz_spliced s')"
  then have "(a, b) \<in> set (rz_spliced s)" using assms(4) by blast
  then show "rz_workers s' \<noteq> [] \<and> a < rz_next_key s' \<and> b < rz_next_key s' \<and> a \<noteq> b
      \<and> promised (tab Loop s') a b \<and> promised (tab Loop s') b a"
    using assms(1) unfolding to_hand_def assms(2,3) using assms(5) by blast
qed

lemma recast_one:
  assumes inv: "rz_inv clock s" and c: "get k (rz_conns s) = Some c" "c_mode c \<noteq> MSplice"
    and c': "c_key c' = k" "c_peer c' = c_peer c" "c_mode c' \<noteq> MSplice" "conn_ok (cap s) c'"
    and l: "Mapping.lookup (rz_conns s') = (Mapping.lookup (rz_conns s))(k \<mapsto> c')"
    and rest: "rz_workers s' = rz_workers s" "rz_cfg s' = rz_cfg s" "rz_per_ip s' = rz_per_ip s" "rz_next_key s' = rz_next_key s"
      "rz_spliced s' = rz_spliced s"
    and w: "waits s'" "controls s'" "sv_inv now (rz_service s')"
  shows "rz_inv now s'"
proof (rule recast [OF inv])
  show "table_ok (cap s) (tab Loop s')" using recast_table [OF rz_invD(1) [OF inv, of Loop], of k c c'] c c' l by simp
  show "to_hand s'"
    by (rule to_hand_loop [OF rz_invD(7) [OF inv]]) (use rest promised_upd [of _ _ _ k c c'] c l in simp_all)
qed (use c c' l rest w in \<open>auto split: if_splits\<close>)

lemma on_open_keys: "Mapping.keys (sv_conns (on_open k peer now sv)) = insert k (Mapping.keys (sv_conns sv))"
  by (simp add: on_open_def split: prod.split)

lemma open_inv:
  assumes inv: "rz_inv clock s" "clock \<le> now" and c: "get k (rz_conns s) = Some c" "c_mode c = MNew" "\<not> c_dead c"
  shows "rz_inv now (s\<lparr>rz_conns := on_conn k (\<lambda>c. c\<lparr>c_mode := MControl\<rparr>) (rz_conns s),
     rz_service := on_open k (c_peer c) now (rz_service s)\<rparr>)" (is "rz_inv now ?s")
proof (rule recast_one [OF inv(1) c(1)])
  note I = rz_invD [OF inv(1)]
  let ?c = "c\<lparr>c_mode := MControl\<rparr>"
  have t: "c_key c = k" "conn_ok (cap s) c" using table_okD [OF I(1) [of Loop], of k c] c(1) by simp_all
  show "c_key ?c = k" "conn_ok (cap s) ?c" using t c by (auto simp: conn_ok_def)
  show l: "Mapping.lookup (rz_conns ?s) = (Mapping.lookup (rz_conns s))(k \<mapsto> ?c)" using c(1) by (auto simp: get_on_conn)
  show "waits ?s" by (rule waits_less [OF I(5)]) (use waitsD [OF I(5)] c l in fastforce)
  show "controls ?s" using I(6) c l by (auto simp: controls_def on_open_keys)
  have "wf_ep (c_peer c)" using I(3) c(1) by (metis members_def tab.simps(1))
  then show "sv_inv now (rz_service ?s)" using on_open_inv [OF I(8) inv(2)] by simp
qed (use c in simp_all)

section \<open>Relay legs\<close>

lemma on_conn_id: "(\<And>c. f c = c) \<Longrightarrow> on_conn k f m = m"
  by (rule mapping_eqI) (cases "get k m", simp_all add: get_on_conn)

lemma on_conn_commute: "k \<noteq> k' \<Longrightarrow> on_conn k f (on_conn k' g m) = on_conn k' g (on_conn k f m)"
  by (rule mapping_eqI) (simp add: get_on_conn)

lemma tab_waiting: "tab pl (s\<lparr>rz_waiting := w\<rparr>) = tab pl s"
  by (cases pl) simp_all

lemma waiting_inv:
  assumes inv: "rz_inv clock s" and w: "\<And>sd rid k. get rid (w sd) = Some k \<Longrightarrow> get rid (rz_waiting s sd) = Some k"
  shows "rz_inv clock (s\<lparr>rz_waiting := w\<rparr>)"
proof -
  have "waits (s\<lparr>rz_waiting := w\<rparr>)" by (rule waits_less [OF rz_invD(5) [OF inv]]) (use w in \<open>simp add: tab_waiting\<close>)
  then show ?thesis using inv
    by (simp add: rz_inv_def apart_def members_def counted_def census_def controls_def to_hand_def tab_waiting del: tab.simps)
qed

lemma replace_inv:
  assumes inv: "rz_inv clock s" shows "rz_inv clock (replace_leg sd rid s)"
proof (cases "get rid (rz_waiting s sd)")
  case (Some old)
  have "rz_inv clock ((kill old s)\<lparr>rz_waiting := (rz_waiting s)(sd := del rid (rz_waiting s sd))\<rparr>)"
    by (rule waiting_inv [OF kill_inv [OF inv order_refl]]) (auto simp: kill_def split: if_splits)
  then show ?thesis using Some by (simp add: replace_leg_def)
qed (simp add: replace_leg_def inv)

lemma replace_leg_conn:
  assumes inv: "rz_inv clock s" and c: "get k (rz_conns s) = Some c" "c_mode c = MNew"
  shows "get k (rz_conns (replace_leg sd rid s)) = Some c"
    "replace_leg sd rid (s\<lparr>rz_conns := on_conn k f (rz_conns s)\<rparr>)
       = (replace_leg sd rid s)\<lparr>rz_conns := on_conn k f (rz_conns (replace_leg sd rid s))\<rparr>"
proof -
  have "old \<noteq> k" if "get rid (rz_waiting s sd) = Some old" for old
    using waitsD [OF rz_invD(5) [OF inv] that] c by auto
  then show "get k (rz_conns (replace_leg sd rid s)) = Some c"
    "replace_leg sd rid (s\<lparr>rz_conns := on_conn k f (rz_conns s)\<rparr>)
       = (replace_leg sd rid s)\<lparr>rz_conns := on_conn k f (rz_conns (replace_leg sd rid s))\<rparr>"
    using c(1) by (auto simp: replace_leg_def kill_def get_on_conn on_conn_commute split: option.split)
qed

text \<open>A connection turned into a leg of a binding.\<close>

definition leg_of :: "RelayId \<Rightarrow> bool \<Rightarrow> RConn \<Rightarrow> RConn" where
  "leg_of rid sd c = c\<lparr>c_relay_early := fr_buf (c_reader c), c_reader := FrameReader_new kMaxFrame, c_relay_id := rid,
     c_relay_side := Some sd\<rparr>"

lemma wait_inv:
  assumes inv: "rz_inv clock s" "clock \<le> now" and c: "get k (rz_conns s) = Some c" "c_mode c = MNew" "\<not> c_dead c"
    and e: "length (fr_buf (c_reader c)) \<le> cap s"
  shows "rz_inv now (wait_leg k sd rid (s\<lparr>rz_conns := on_conn k (leg_of rid sd) (rz_conns s)\<rparr>))" (is "rz_inv now ?s")
proof (rule recast_one [OF inv(1) c(1)])
  note I = rz_invD [OF inv(1)]
  let ?c = "(leg_of rid sd c)\<lparr>c_mode := MRelayWaiting\<rparr>"
  have t: "c_key c = k" "conn_ok (cap s) c" using table_okD [OF I(1) [of Loop], of k c] c(1) by simp_all
  show "c_key ?c = k" "conn_ok (cap s) ?c" "c_peer ?c = c_peer c" using t c e by (auto simp: conn_ok_def leg_of_def)
  show l: "Mapping.lookup (rz_conns ?s) = (Mapping.lookup (rz_conns s))(k \<mapsto> ?c)"
    using c(1) by (auto simp: get_on_conn wait_leg_def on_conn_twice)
  show "waits ?s" unfolding waits_def
  proof (intro allI impI)
    fix sd' rid' k' assume "get rid' (rz_waiting ?s sd') = Some k'"
    then have "sd' = sd \<and> rid' = rid \<and> k' = k \<or> get rid' (rz_waiting s sd') = Some k'"
      by (auto simp: wait_leg_def split: if_splits)
    then consider "sd' = sd" "rid' = rid" "k' = k" | "get rid' (rz_waiting s sd') = Some k'" by blast
    then show "\<exists>c. tab Loop ?s k' = Some c \<and> c_mode c = MRelayWaiting \<and> c_relay_id c = rid' \<and> c_relay_side c = Some sd'"
    proof cases
      case 2
      then have "k' \<noteq> k" using waitsD [OF I(5) 2] c by auto
      then show ?thesis unfolding tab.simps l using waitsD [OF I(5) 2] by simp
    qed (unfold tab.simps l, simp add: leg_of_def)
  qed
  have "rz_service ?s = rz_service s" by (simp add: wait_leg_def)
  then show "controls ?s" using I(6) c unfolding controls_def tab.simps l by auto
  show "sv_inv now (rz_service ?s)" using later_inv [OF I(8) inv(2)] by (simp add: wait_leg_def)
qed (use c in \<open>simp_all add: wait_leg_def\<close>)

text \<open>Two connections that were not spliced become partners.\<close>

lemma couple_table:
  assumes ok: "table_ok n m" and c: "m k = Some c" "c_mode c \<noteq> MSplice" and p: "m q = Some p" "c_mode p \<noteq> MSplice"
    and c': "c_key c' = k" "c_partner c' = q" "conn_ok n c'" "linked c' p'"
    and p': "c_key p' = q" "c_partner p' = k" "conn_ok n p'" "linked p' c'"
  shows "table_ok n (m(k \<mapsto> c', q \<mapsto> p'))"
proof -
  have lone: "c_partner d \<noteq> k" "c_partner d \<noteq> q" if "m k0 = Some d" "c_mode d = MSplice" for k0 d
    using table_okD(3) [OF ok that] c p by (auto simp: linked_def)
  have kq: "k \<noteq> q" using c'(4) c'(1) p'(1) by (auto simp: linked_def)
  show ?thesis unfolding table_ok_def
  proof (intro allI impI conjI)
    fix k0 d assume d: "(m(k \<mapsto> c', q \<mapsto> p')) k0 = Some d"
    then consider "k0 = k" "d = c'" | "k0 = q" "d = p'" | "k0 \<noteq> k" "k0 \<noteq> q" "m k0 = Some d"
      by (auto split: if_splits)
    note cases = this
    show "c_key d = k0" "conn_ok n d" using c' p' table_okD(1,2) [OF ok, of k0 d] by (cases rule: cases; simp)+
    fix x assume x: "c_mode d = MSplice" "(m(k \<mapsto> c', q \<mapsto> p')) (c_partner d) = Some x"
    show "linked d x"
    proof (cases rule: cases)
      case 1
      then show ?thesis using x c' by simp
    next
      case 2
      then show ?thesis using x p' kq by simp
    next
      case 3
      then show ?thesis using x lone [OF 3(3) x(1)] table_okD(3) [OF ok 3(3) x(1)] by simp
    qed
  qed
qed

lemma couple_inv:
  assumes inv: "rz_inv clock s" and c: "get k (rz_conns s) = Some c" "c_mode c = MNew"
    and p: "get q (rz_conns s) = Some p" "c_mode p = MRelayWaiting"
    and c': "c_key c' = k" "c_partner c' = q" "c_mode c' = MSplice" "c_peer c' = c_peer c" "conn_ok (cap s) c'" "linked c' p'"
    and p': "c_key p' = q" "c_partner p' = k" "c_peer p' = c_peer p" "conn_ok (cap s) p'" "linked p' c'"
    and l: "Mapping.lookup (rz_conns s') = (Mapping.lookup (rz_conns s))(k \<mapsto> c', q \<mapsto> p')"
    and rest: "rz_workers s' = rz_workers s" "rz_cfg s' = rz_cfg s" "rz_per_ip s' = rz_per_ip s" "rz_next_key s' = rz_next_key s"
    and sp: "set (rz_spliced s') \<subseteq> set (rz_spliced s) \<union> (if rz_workers s = [] then {} else {(k, q)})"
    and w: "\<And>sd rid x. get rid (rz_waiting s' sd) = Some x \<Longrightarrow> get rid (rz_waiting s sd) = Some x \<and> x \<noteq> q"
    and sv: "sv_inv now (rz_service s')" "Mapping.keys (sv_conns (rz_service s')) = Mapping.keys (sv_conns (rz_service s))"
  shows "rz_inv now s'"
proof (rule recast [OF inv])
  note I = rz_invD [OF inv]
  have ok: "table_ok (cap s) (Mapping.lookup (rz_conns s))" using I(1) [of Loop] by simp
  have pm: "c_mode p' = MSplice" using c'(6) by (simp add: linked_def)
  have kq: "k \<noteq> q" using c(2) p(2) c(1) p(1) by auto
  show "table_ok (cap s) (tab Loop s')" unfolding tab.simps l by (rule couple_table [OF ok c(1) _ p(1)]) (use c p c' p' in simp_all)
  show "waits s'"
  proof (rule waits_less [OF I(5)])
    fix sd rid x assume "get rid (rz_waiting s' sd) = Some x"
    from w [OF this] have x: "get rid (rz_waiting s sd) = Some x" "x \<noteq> q" by simp_all
    then show "get rid (rz_waiting s sd) = Some x \<and> tab Loop s' x = tab Loop s x"
      using waitsD [OF I(5) x(1)] c unfolding tab.simps l by auto
  qed
  show "controls s'" using I(6) c p c'(3) pm unfolding controls_def sv(2) tab.simps l by auto
  have old: "promised (tab Loop s') a b" if "promised (tab Loop s) a b" for a b
    using that c p unfolding promised_def tab.simps l by auto
  have "k < rz_next_key s" "q < rz_next_key s" using I(3) c(1) p(1) by (metis members_def tab.simps(1))+
  moreover have "promised (tab Loop s') k q" "promised (tab Loop s') q k"
    using c' p' pm kq by (auto simp: promised_def l)
  ultimately show "to_hand s'" using I(7) sp old kq rest(1,4) unfolding to_hand_def by (fastforce simp del: tab.simps split: if_splits)
  show "map_option c_peer (get x (rz_conns s')) = map_option c_peer (get x (rz_conns s))" for x
    using c(1) p(1) c'(4) p'(3) by (simp add: l)
  show "(\<exists>d. get x (rz_conns s) = Some d \<and> c_mode d = MSplice \<and> c_partner d = c_partner x') \<or> get (c_partner x') (rz_conns s) \<noteq> None"
    if "get x (rz_conns s') = Some x'" "c_mode x' = MSplice" for x x'
    using that c(1) p(1) c'(2) p'(2) by (auto simp: l split: if_splits)
qed (use rest sv in simp_all)

text \<open>Moving what a leg sent early, on two connections of the loop.\<close>

lemma move_early_step:
  assumes r: "move_early a b rid now s = (ok, s')" and c: "get a (rz_conns s) = Some c"
    and sv: "sv_inv clock (rz_service s)" "clock \<le> now"
  shows "\<exists>sv. s' = s\<lparr>rz_service := sv, rz_conns := on_conn b (\<lambda>d. if ok then d\<lparr>c_out := c_out d @ c_relay_early c\<rparr> else d)
       (on_conn a (\<lambda>c. c\<lparr>c_relay_early := []\<rparr>) (rz_conns s))\<rparr>
     \<and> sv_inv now sv \<and> Mapping.keys (sv_conns sv) = Mapping.keys (sv_conns (rz_service s))"
proof (cases "c_relay_early c = []")
  case True
  then have "ok" "s' = s\<lparr>rz_conns := on_conn a (\<lambda>c. c\<lparr>c_relay_early := []\<rparr>) (rz_conns s)\<rparr>"
    using r c by (simp_all add: move_early_def Let_def)
  then show ?thesis using True later_inv [OF sv] by (intro exI [of _ "rz_service s"]) (simp add: on_conn_id)
next
  case False
  obtain ok1 sv1 where ch: "charge rid (length (c_relay_early c)) now (rz_service s) = (ok1, sv1)" by fastforce
  have i: "on_conn b (\<lambda>d. d) m = m" for m by (rule on_conn_id) simp
  have "s' = s\<lparr>rz_service := sv1, rz_conns := on_conn b (\<lambda>d. if ok then d\<lparr>c_out := c_out d @ c_relay_early c\<rparr> else d)
       (on_conn a (\<lambda>c. c\<lparr>c_relay_early := []\<rparr>) (rz_conns s))\<rparr>"
  proof (cases ok1)
    case True
    then show ?thesis using r c False ch by (auto simp: move_early_def Let_def)
  next
    case False': False
    show ?thesis using r c False ch False' by (auto simp: move_early_def Let_def i)
  qed
  then show ?thesis using charge_inv [OF sv ch] by blast
qed

definition spliced_to :: "ConnKey \<Rightarrow> bytes \<Rightarrow> bytes \<Rightarrow> bool \<Rightarrow> RConn \<Rightarrow> RConn" where
  "spliced_to other out early dead c = c\<lparr>c_mode := MSplice, c_partner := other, c_out := out, c_relay_early := early, c_dead := dead\<rparr>"

text \<open>
  Pairing succeeds with each leg owed the acknowledgement and what the other sent early, or both legs end.
\<close>

lemma pair_up_result:
  assumes c: "get k (rz_conns s) = Some c" "c_out c = []" "\<not> c_dead c" and p: "get q (rz_conns s) = Some p" "c_out p = []" "\<not> c_dead p"
    and kq: "k \<noteq> q" and sv: "sv_inv clock (rz_service s)" "clock \<le> now"
  shows "\<exists>oc op ep dead sv m spl. pair_up k q rid now s = s\<lparr>rz_service := sv, rz_conns := m, rz_spliced := spl\<rparr>
     \<and> Mapping.lookup m = (Mapping.lookup (rz_conns s))(k \<mapsto> spliced_to q oc [] dead c, q \<mapsto> spliced_to k op ep dead p)
     \<and> (oc = join_ok @ c_relay_early p \<or> dead \<and> oc = join_ok) \<and> (op = join_ok @ c_relay_early c \<or> dead \<and> op = join_ok)
     \<and> (dead \<or> ep = []) \<and> (spl = rz_spliced s \<or> rz_workers s \<noteq> [] \<and> spl = rz_spliced s @ [(k, q)])
     \<and> sv_inv now sv \<and> Mapping.keys (sv_conns sv) = Mapping.keys (sv_conns (rz_service s))"
proof -
  let ?t = "s\<lparr>rz_conns := on_conn q (joined_to k) (on_conn k (joined_to q) (rz_conns s))\<rparr>"
  obtain ok1 u where u: "move_early k q rid now ?t = (ok1, u)" by fastforce
  obtain ok2 v where v: "move_early q k rid now u = (ok2, v)" by fastforce
  have tk: "get k (rz_conns ?t) = Some (joined_to q c)" using c kq by (simp add: get_on_conn)
  have ej: "c_relay_early (joined_to q c) = c_relay_early c" by (simp add: joined_to_def)
  obtain sv1 where u': "u = ?t\<lparr>rz_service := sv1, rz_conns := on_conn q (\<lambda>d. if ok1 then d\<lparr>c_out := c_out d @ c_relay_early c\<rparr> else d)
       (on_conn k (\<lambda>c. c\<lparr>c_relay_early := []\<rparr>) (rz_conns ?t))\<rparr>"
    and sv1: "sv_inv now sv1" "Mapping.keys (sv_conns sv1) = Mapping.keys (sv_conns (rz_service s))"
    using move_early_step [OF u tk, of clock] sv unfolding ej by auto
  define p1 where "p1 = (joined_to k p)\<lparr>c_out := c_out (joined_to k p) @ (if ok1 then c_relay_early c else [])\<rparr>"
  have uq: "get q (rz_conns u) = Some p1" using p kq by (simp add: u' get_on_conn p1_def)
  obtain sv2 where v': "v = u\<lparr>rz_service := sv2, rz_conns := on_conn k (\<lambda>d. if ok2 then d\<lparr>c_out := c_out d @ c_relay_early p1\<rparr> else d)
       (on_conn q (\<lambda>c. c\<lparr>c_relay_early := []\<rparr>) (rz_conns u))\<rparr>"
    and sv2: "sv_inv now sv2" "Mapping.keys (sv_conns sv2) = Mapping.keys (sv_conns (rz_service s))"
    using move_early_step [OF v uq, of now] sv1 by (auto simp: u')
  have e: "c_relay_early p1 = c_relay_early p" by (simp add: p1_def joined_to_def)
  have pu: "pair_up k q rid now s = (if \<not> ok1 then kill q (kill k u) else if \<not> ok2 then kill q (kill k v)
      else if rz_workers v = [] then v else v\<lparr>rz_spliced := rz_spliced v @ [(k, q)]\<rparr>)"
    using u v by (simp add: pair_up_def Let_def split: bool.split)
  note red = spliced_to_def joined_to_def killed_def kill_def get_on_conn
  consider "\<not> ok1" | "ok1" "\<not> ok2" | "ok1" "ok2" by blast
  then show ?thesis
  proof cases
    case 1
    have "Mapping.lookup (rz_conns (kill q (kill k u))) = (Mapping.lookup (rz_conns s))
        (k \<mapsto> spliced_to q join_ok [] True c, q \<mapsto> spliced_to k join_ok (c_relay_early p) True p)"
      using c p kq 1 by (intro ext) (auto simp: u' red)
    moreover have "pair_up k q rid now s = s\<lparr>rz_service := sv1, rz_conns := rz_conns (kill q (kill k u)), rz_spliced := rz_spliced s\<rparr>"
      using pu 1 by (simp add: u' kill_def)
    ultimately show ?thesis using sv1 by blast
  next
    case 2
    have "Mapping.lookup (rz_conns (kill q (kill k v))) = (Mapping.lookup (rz_conns s))
        (k \<mapsto> spliced_to q join_ok [] True c, q \<mapsto> spliced_to k (join_ok @ c_relay_early c) [] True p)"
      using c p kq 2 by (intro ext) (auto simp: u' v' red)
    moreover have "pair_up k q rid now s = s\<lparr>rz_service := sv2, rz_conns := rz_conns (kill q (kill k v)), rz_spliced := rz_spliced s\<rparr>"
      using pu 2 by (simp add: u' v' kill_def)
    ultimately show ?thesis using sv2 by blast
  next
    case 3
    have "Mapping.lookup (rz_conns v) = (Mapping.lookup (rz_conns s))
        (k \<mapsto> spliced_to q (join_ok @ c_relay_early p) [] False c, q \<mapsto> spliced_to k (join_ok @ c_relay_early c) [] False p)"
      using c p kq 3 e by (intro ext) (auto simp: u' v' red)
    moreover obtain spl where "pair_up k q rid now s = s\<lparr>rz_service := sv2, rz_conns := rz_conns v, rz_spliced := spl\<rparr>"
      "spl = rz_spliced s \<or> rz_workers s \<noteq> [] \<and> spl = rz_spliced s @ [(k, q)]"
      using pu 3 by (cases "rz_workers s = []") (simp_all add: u' v')
    ultimately show ?thesis using sv2 by blast
  qed
qed

lemma del_waiting: "get rid' ((w(sd := del rid (w sd))) sd') = Some x \<longleftrightarrow> get rid' (w sd') = Some x \<and> \<not> (sd' = sd \<and> rid' = rid)"
  by auto

lemma pair_inv:
  assumes inv: "rz_inv clock s" "clock \<le> now" and c: "get k (rz_conns s) = Some c" "c_mode c = MNew" "\<not> c_dead c"
    and e: "length (fr_buf (c_reader c)) \<le> cap s"
    and q: "get rid (rz_waiting s (\<not> sd)) = Some q" "get q (rz_conns s) = Some p" "\<not> c_dead p"
  shows "rz_inv now (pair_up k q rid now (s\<lparr>rz_conns := on_conn k (leg_of rid sd) (rz_conns s),
     rz_waiting := (rz_waiting s)((\<not> sd) := del rid (rz_waiting s (\<not> sd)))\<rparr>))"
    (is "rz_inv now (pair_up k q rid now ?t)")
proof -
  note I = rz_invD [OF inv(1)]
  have t: "c_key c = k" "conn_ok (cap s) c" "c_key p = q" "conn_ok (cap s) p"
    using table_okD [OF I(1) [of Loop]] c(1) q(2) by simp_all
  have p: "c_mode p = MRelayWaiting" "c_relay_id p = rid" "c_relay_side p = Some (\<not> sd)" using waitsD [OF I(5) q(1)] q(2) by simp_all
  have kq: "k \<noteq> q" using c p q(2) by auto
  have tk: "get k (rz_conns ?t) = Some (leg_of rid sd c)" "get q (rz_conns ?t) = Some p" using c q(2) kq by (simp_all add: get_on_conn)
  have out: "c_out (leg_of rid sd c) = []" "\<not> c_dead (leg_of rid sd c)" "c_out p = []" using t c p by (simp_all add: conn_ok_def leg_of_def)
  have sv: "sv_inv clock (rz_service ?t)" using I(8) by simp
  obtain oc op ep dead sv m spl where r: "pair_up k q rid now ?t = ?t\<lparr>rz_service := sv, rz_conns := m, rz_spliced := spl\<rparr>"
     "Mapping.lookup m = (Mapping.lookup (rz_conns ?t))(k \<mapsto> spliced_to q oc [] dead (leg_of rid sd c), q \<mapsto> spliced_to k op ep dead p)"
     "oc = join_ok @ c_relay_early p \<or> dead \<and> oc = join_ok" "op = join_ok @ c_relay_early (leg_of rid sd c) \<or> dead \<and> op = join_ok"
     "dead \<or> ep = []" "spl = rz_spliced ?t \<or> rz_workers ?t \<noteq> [] \<and> spl = rz_spliced ?t @ [(k, q)]"
     "sv_inv now sv" "Mapping.keys (sv_conns sv) = Mapping.keys (sv_conns (rz_service ?t))"
    using pair_up_result [OF tk(1) out(1,2) tk(2) out(3) q(3) kq sv inv(2), of rid] by blast
  let ?c = "spliced_to q oc [] dead (leg_of rid sd c)" and ?p = "spliced_to k op ep dead p"
  have l: "Mapping.lookup m = (Mapping.lookup (rz_conns s))(k \<mapsto> ?c, q \<mapsto> ?p)"
    unfolding r(2) by (rule ext) (simp add: get_on_conn)
  obtain j1 j2 where early: "c_read c = j1 @ fr_buf (c_reader c)" "c_read p = j2 @ c_relay_early p" "length (c_relay_early p) \<le> cap s"
    using t c p q(3) by (auto simp: conn_ok_def)
  have written: "c_written c = []" "c_written p = []" using t c p by (simp_all add: conn_ok_def)
  show ?thesis unfolding r(1)
  proof (rule couple_inv [OF inv(1) c(1,2) q(2) p(1)])
    show "conn_ok (cap s) ?c" "conn_ok (cap s) ?p"
      using r(3-5) early e by (auto simp: conn_ok_def spliced_to_def leg_of_def)
    show "linked ?c ?p" "linked ?p ?c"
      using r(3,4) early written t p kq by (auto simp: linked_def spliced_to_def leg_of_def flows_def)
    show "set (rz_spliced (?t\<lparr>rz_service := sv, rz_conns := m, rz_spliced := spl\<rparr>)) \<subseteq> set (rz_spliced s) \<union> (if rz_workers s = [] then {} else {(k, q)})"
      using r(6) by auto
    show "get rid' (rz_waiting s sd') = Some x \<and> x \<noteq> q"
      if "get rid' (rz_waiting (?t\<lparr>rz_service := sv, rz_conns := m, rz_spliced := spl\<rparr>) sd') = Some x" for sd' rid' x
    proof -
      have old: "get rid' (rz_waiting s sd') = Some x" and ne: "\<not> (sd' = (\<not> sd) \<and> rid' = rid)"
        using that by (simp_all add: del_waiting del: fun_upd_apply)
      have "x \<noteq> q" using waitsD [OF I(5) old] q(2) p ne by auto
      then show ?thesis using old by simp
    qed
  qed (use t c l r(7,8) in \<open>simp_all add: spliced_to_def leg_of_def\<close>)
qed

lemma join_leg_inv:
  assumes inv: "rz_inv clock s" "clock \<le> now" and c: "get k (rz_conns s) = Some c" "c_mode c = MNew" "\<not> c_dead c"
    and e: "length (fr_buf (c_reader c)) \<le> cap s"
  shows "rz_inv now (join_leg k sd rid now (s\<lparr>rz_conns := on_conn k (leg_of rid sd) (rz_conns s)\<rparr>))"
proof -
  define t where "t = replace_leg sd rid s"
  have inv': "rz_inv clock t" unfolding t_def by (rule replace_inv [OF inv(1)])
  have tk: "get k (rz_conns t) = Some c" and cap: "cap t = cap s"
    using replace_leg_conn(1) [OF inv(1) c(1,2)] by (simp_all add: t_def) (simp add: replace_leg_def kill_def split: option.split)
  let ?u = "t\<lparr>rz_conns := on_conn k (leg_of rid sd) (rz_conns t)\<rparr>" and ?w = "(rz_waiting t)((\<not> sd) := del rid (rz_waiting t (\<not> sd)))"
  have jl: "join_leg k sd rid now (s\<lparr>rz_conns := on_conn k (leg_of rid sd) (rz_conns s)\<rparr>) =
      (case get rid (rz_waiting t (\<not> sd)) of None \<Rightarrow> wait_leg k sd rid ?u
       | Some p \<Rightarrow> (case get p (rz_conns ?u) of None \<Rightarrow> wait_leg k sd rid (?u\<lparr>rz_waiting := ?w\<rparr>)
          | Some pc \<Rightarrow> if c_dead pc then wait_leg k sd rid (?u\<lparr>rz_waiting := ?w\<rparr>) else pair_up k p rid now (?u\<lparr>rz_waiting := ?w\<rparr>)))"
    unfolding join_leg_def replace_leg_conn(2) [OF inv(1) c(1,2)] t_def [symmetric] by (simp add: Let_def split: option.split)
  have w1: "rz_inv now (wait_leg k sd rid ?u)" using wait_inv [OF inv' inv(2) tk c(2,3)] e cap by simp
  have "rz_inv clock (t\<lparr>rz_waiting := ?w\<rparr>)" by (rule waiting_inv [OF inv']) (simp add: del_waiting del: fun_upd_apply)
  then have "rz_inv now (wait_leg k sd rid ((t\<lparr>rz_waiting := ?w\<rparr>)\<lparr>rz_conns := on_conn k (leg_of rid sd) (rz_conns (t\<lparr>rz_waiting := ?w\<rparr>))\<rparr>))"
    by (rule wait_inv [OF _ inv(2)]) (use tk c e cap in simp_all)
  moreover have "(t\<lparr>rz_waiting := ?w\<rparr>)\<lparr>rz_conns := on_conn k (leg_of rid sd) (rz_conns (t\<lparr>rz_waiting := ?w\<rparr>))\<rparr> = ?u\<lparr>rz_waiting := ?w\<rparr>"
    by (cases t) simp
  ultimately have w2: "rz_inv now (wait_leg k sd rid (?u\<lparr>rz_waiting := ?w\<rparr>))" by metis
  show ?thesis unfolding jl
  proof (simp only: w1 split: option.split, intro conjI allI impI)
    fix p assume p: "get rid (rz_waiting t (\<not> sd)) = Some p"
    then have "p \<noteq> k" using waitsD [OF rz_invD(5) [OF inv'] p] tk c by auto
    then have gp: "get p (rz_conns ?u) = get p (rz_conns t)" by (simp add: get_on_conn)
    show "rz_inv now (wait_leg k sd rid (?u\<lparr>rz_waiting := ?w\<rparr>))" by (rule w2)
    fix pc assume "get p (rz_conns ?u) = Some pc"
    then show "rz_inv now (if c_dead pc then wait_leg k sd rid (?u\<lparr>rz_waiting := ?w\<rparr>) else pair_up k p rid now (?u\<lparr>rz_waiting := ?w\<rparr>))"
      using w2 pair_inv [OF inv' inv(2) tk c(2,3) _ p, of pc] gp e cap by simp
  qed simp
qed

lemma on_relay_join_inv:
  assumes inv: "rz_inv clock s" "clock \<le> now" and c: "get k (rz_conns s) = Some c" "c_mode c = MNew" "\<not> c_dead c"
  shows "rz_inv now (on_relay_join k msg now s)"
proof -
  let ?e = "fr_buf (c_reader c)"
  let ?f = "\<lambda>c. c\<lparr>c_relay_early := ?e, c_reader := FrameReader_new kMaxFrame\<rparr>"
  have early: "(case get k (rz_conns s) of None \<Rightarrow> [] | Some c \<Rightarrow> fst (take_rest (c_reader c))) = ?e" using c(1) by (simp add: take_rest_def)
  let ?s = "s\<lparr>rz_conns := on_conn k ?f (rz_conns s)\<rparr>"
  have big: "rz_inv now (kill k ?s)"
  proof -
    have "mild (cap s) c ((killed \<circ> ?f) c)" using c by (auto simp: mild_def skel_def killed_def conn_ok_def)
    then have "rz_inv now (s\<lparr>rz_conns := on_conn k (killed \<circ> ?f) (rz_conns s)\<rparr>)"
      using c(2) by (intro mild_one [OF inv c(1)]) simp_all
    then show ?thesis by (simp add: kill_def on_conn_twice)
  qed
  have leg: "on_conn k (\<lambda>c. c\<lparr>c_relay_id := rid, c_relay_side := Some sd\<rparr>) (rz_conns ?s) = on_conn k (leg_of rid sd) (rz_conns s)" for rid sd
    using c(1) by (intro mapping_eqI) (simp add: get_on_conn leg_of_def)
  have join: "rz_inv now (join_leg k sd rid now (?s\<lparr>rz_conns := on_conn k (\<lambda>c. c\<lparr>c_relay_id := rid, c_relay_side := Some sd\<rparr>) (rz_conns ?s)\<rparr>))"
    if "length ?e \<le> cap s" for rid sd
    using join_leg_inv [OF inv c that, of sd rid] unfolding leg by simp
  show ?thesis
    unfolding on_relay_join_def early Let_def
    using kill_inv [OF inv, of k] big join by (simp split: prod.split option.split)
qed

text \<open>The service as it hears the next message of a connection: a new one is opened first.\<close>

definition heard :: "ConnKey \<Rightarrow> instant \<Rightarrow> Rendezvous \<Rightarrow> Service" where
  "heard k now s = (case get k (rz_conns s) of
       None \<Rightarrow> rz_service s
     | Some c \<Rightarrow> if c_mode c = MNew then on_open k (c_peer c) now (rz_service s) else rz_service s)"

lemma use_frame_inv:
  assumes inv: "rz_inv clock s" "clock \<le> now" and c: "\<And>c. get k (rz_conns s) = Some c \<Longrightarrow> \<not> c_dead c"
    and g: "message_guard k msg (heard k now s)"
    and r: "use_frame k msg now s = Some s'"
  shows "rz_inv now s'"
proof -
  consider "rz_drop_filter s msg \<or> get k (rz_conns s) = None"
    | d where "\<not> rz_drop_filter s msg" "get k (rz_conns s) = Some d" by blast
  then show ?thesis
  proof cases
    case 1
    then have "s' = s" using r by (cases "rz_drop_filter s msg") (simp_all add: use_frame_def on_frame_def)
    then show ?thesis using stay_inv [OF inv] by simp
  next
    case (2 d)
    note run = r [unfolded use_frame_def on_frame_def] 2
    show ?thesis
    proof (cases "c_mode d")
      case MNew
      show ?thesis
      proof (cases "peek_type msg = Some MT_RelayJoin")
        case True
        then have "s' = on_relay_join k msg now s" using run MNew by simp
        then show ?thesis using on_relay_join_inv [OF inv 2(2) MNew c [OF 2(2)]] by simp
      next
        case False
        let ?o = "s\<lparr>rz_conns := on_conn k (\<lambda>c. c\<lparr>c_mode := MControl\<rparr>) (rz_conns s), rz_service := on_open k (c_peer d) now (rz_service s)\<rparr>"
        have "on_control k msg now ?o = Some s'" using run MNew False by simp
        then show ?thesis by (rule on_control_inv [OF open_inv [OF inv 2(2) MNew c [OF 2(2)]] order_refl, rotated]) (use g 2(2) MNew in \<open>simp add: heard_def\<close>)
      qed
    next
      case MControl
      then have "on_control k msg now s = Some s'" using run by simp
      then show ?thesis by (rule on_control_inv [OF inv, rotated]) (use g 2(2) MControl in \<open>simp add: heard_def\<close>)
    qed (use run stay_inv [OF inv] in auto)
  qed
qed

section \<open>Accepting\<close>

lemma fresh_key:
  assumes "members s" shows "tab pl s (rz_next_key s) = None"
  using assms unfolding members_def by (metis not_None_eq less_irrefl)

lemma table_put:
  assumes ok: "table_ok n m" and k: "m k = None" "\<And>k' d. m k' = Some d \<Longrightarrow> c_mode d = MSplice \<Longrightarrow> c_partner d \<noteq> k"
    and c: "c_key c = k" "c_mode c \<noteq> MSplice" "conn_ok n c"
  shows "table_ok n (m(k \<mapsto> c))"
  unfolding table_ok_def
proof (intro allI impI conjI)
  fix k0 d assume d: "(m(k \<mapsto> c)) k0 = Some d"
  show "c_key d = k0" "conn_ok n d" using d c table_okD(1,2) [OF ok, of k0 d] by (auto split: if_splits)
  fix q assume q: "c_mode d = MSplice" "(m(k \<mapsto> c)) (c_partner d) = Some q"
  then have "m k0 = Some d" using d c(2) by (auto split: if_splits)
  then show "linked d q" using q k(2) [of k0 d] table_okD(3) [OF ok, of k0 d q] by simp
qed

lemma census_insert:
  assumes fresh: "\<And>pl. tab pl s k = None" and T: "\<And>pl. tab pl s' = (if pl = Loop then (tab Loop s)(k \<mapsto> c) else tab pl s)"
  shows "census s' = insert (k, ip_of_conn c) (census s)"
proof -
  have at: "map_option ip_of_conn (tab pl s' k) = (if pl = Loop then Some (ip_of_conn c) else None)" for pl
    using fresh [of pl] by (simp add: T del: tab.simps)
  have off: "k' \<noteq> k \<Longrightarrow> tab pl s' k' = tab pl s k'" for pl k' by (simp add: T del: tab.simps)
  show ?thesis unfolding census_map
  proof (intro set_eqI, clarify)
    fix k' x
    show "(k', x) \<in> {(k, x). \<exists>pl. map_option ip_of_conn (tab pl s' k) = Some x}
        \<longleftrightarrow> (k', x) \<in> insert (k, ip_of_conn c) {(k, x). \<exists>pl. map_option ip_of_conn (tab pl s k) = Some x}"
    proof (cases "k' = k")
      case True
      show ?thesis by (simp add: True at fresh del: tab.simps map_option_eq_Some) blast
    next
      case False
      show ?thesis by (simp add: False off [OF False] del: tab.simps)
    qed
  qed
qed

lemma accept_inv:
  assumes inv: "rz_inv clock s" "clock \<le> now" and peer: "wf_ep peer" and wrap: "rz_next_key s < rz_next_key s + 1"
  shows "rz_inv now (accept_one (Some peer) now s)"
proof -
  note I = rz_invD [OF inv(1)]
  let ?ip = "ip_bytes (ep_ip peer)" and ?k = "rz_next_key s" and ?c = "RConn_new (rz_next_key s) peer now"
  define n where "n = (case get ?ip (rz_per_ip s) of None \<Rightarrow> 0 | Some n \<Rightarrow> n)"
  show ?thesis
  proof (cases "open_connections s \<ge> rv_max_connections (rz_cfg s) \<or> n \<ge> rv_max_connections_per_ip (rz_cfg s)")
    case True
    have z: "get ?ip (rz_per_ip s) = None" if "n = 0"
      using that I(4) unfolding n_def counted_def counts_def by (auto simp: Let_def split: option.splits if_splits)
    have "del ?ip (rz_per_ip s) = rz_per_ip s" if "n = 0" by (rule mapping_eqI) (use z [OF that] in auto)
    then have "accept_one (Some peer) now s = s" using True by (simp add: accept_one_def n_def [symmetric] Let_def)
    then show ?thesis using stay_inv [OF inv] by simp
  next
    case False
    let ?s = "s\<lparr>rz_per_ip := increment ?ip (rz_per_ip s), rz_next_key := ?k + 1, rz_conns := put ?k ?c (rz_conns s)\<rparr>"
    have eq: "accept_one (Some peer) now s = ?s" using False by (simp add: accept_one_def n_def [symmetric] Let_def)
    have T: "tab pl ?s = (if pl = Loop then (tab Loop s)(?k \<mapsto> ?c) else tab pl s)" for pl
      by (cases pl) (auto simp: fun_eq_iff)
    note fresh = fresh_key [OF I(3)]
    have mem: "k < ?k" "wf_ep (c_peer d)" "pl \<noteq> Loop \<Longrightarrow> c_mode d = MSplice" "c_mode d = MSplice \<Longrightarrow> c_partner d < ?k" if "tab pl s k = Some d" for pl k d
      using I(3) that unfolding members_def by blast+
    have new: "c_mode ?c = MNew" "c_key ?c = ?k" "c_peer ?c = peer" "conn_ok n ?c" for n
      by (simp_all add: RConn_new_def conn_ok_def FrameReader_new_def)
    have "c_partner d \<noteq> ?k" if "tab Loop s k = Some d" "c_mode d = MSplice" for k d using mem(4) [OF that] by simp
    then have "table_ok (cap s) ((tab Loop s)(?k \<mapsto> ?c))"
      by (intro table_put [OF I(1) fresh]) (simp_all add: new)
    then have "table_ok (cap s) (tab pl ?s)" for pl using I(1) [of pl] by (simp add: T del: tab.simps)
    moreover have "apart ?s"
    proof -
      have "tab pl ?s k = Some d \<Longrightarrow> (tab pl' ?s k \<noteq> None \<longrightarrow> pl' = pl) \<and> (c_mode d = MSplice \<longrightarrow> tab pl' ?s (c_partner d) \<noteq> None \<longrightarrow> pl' = pl)" for pl k d pl'
        using I(2) [unfolded apart_def, rule_format, of pl k d pl'] fresh [of pl] fresh [of pl'] new(1) mem(4) [of pl k d]
        by (auto simp: T simp del: tab.simps split: if_splits)
      then show ?thesis unfolding apart_def by blast
    qed
    moreover have "members ?s" unfolding members_def T
    proof (intro allI impI)
      fix pl k d assume d: "(if pl = Loop then (tab Loop s)(?k \<mapsto> ?c) else tab pl s) k = Some d"
      have up: "x < ?k \<Longrightarrow> x < ?k + 1" for x using wrap by (rule less_trans [rotated])
      show "k < rz_next_key ?s \<and> wf_ep (c_peer d) \<and> (pl \<noteq> Loop \<longrightarrow> c_mode d = MSplice) \<and> (c_mode d = MSplice \<longrightarrow> c_partner d < rz_next_key ?s)"
      proof (cases "pl = Loop \<and> k = ?k")
        case True
        then show ?thesis using d new(1,3) wrap peer by simp
      next
        case False
        then have "tab pl s k = Some d" using d by (auto simp del: tab.simps split: if_splits)
        then show ?thesis using mem up by (simp del: tab.simps)
      qed
    qed
    moreover have "counted ?s"
    proof -
      have ce: "census ?s = insert (?k, ?ip) (census s)"
        using census_insert [of s "rz_next_key s" ?s ?c] fresh new(3) T by (simp add: ip_of_conn_def del: tab.simps)
      have "(?k, ?ip) \<notin> census s" using fresh by (auto simp: census_def simp del: tab.simps)
      then have "counts (increment ?ip (rz_per_ip s)) (insert (?k, ?ip) (census s)) snd"
        using counts_insert [of "rz_per_ip s" "census s" snd "(?k, ?ip)"] I(4) by (simp add: counted_def)
      moreover have "x \<le> rv_max_connections_per_ip (rz_cfg s)" if "get ip (increment ?ip (rz_per_ip s)) = Some x" for ip x
        using that I(4) False by (auto simp: counted_def increment_def n_def split: if_splits)
      moreover have "card (insert ?k (Mapping.keys (rz_conns s))) \<le> rv_max_connections (rz_cfg s)"
        using False finite_loop [OF I(4)] by (auto simp: open_connections_def card_insert_if size_card)
      ultimately show ?thesis by (simp add: counted_def ce)
    qed
    moreover have "waits ?s"
      by (rule waits_less [OF I(5)]) (use waitsD [OF I(5)] fresh [of Loop] in fastforce)
    moreover have "controls ?s" using I(6) fresh [of Loop] new(1) unfolding controls_def T by (auto simp del: tab.simps)
    moreover have "to_hand ?s"
      using I(7) wrap unfolding to_hand_def promised_def T by (auto simp del: tab.simps split: if_splits intro: less_trans)
    ultimately show ?thesis using later_inv [OF I(8) inv(2)] unfolding eq by (simp add: rz_inv_def del: tab.simps)
  qed
qed

end
