(* ===== verification/Rendezvous_Leave.thy ===== *)
theory Rendezvous_Leave
  imports Rendezvous_Moves
begin

text \<open>
  Connections that leave a place: removed when they have ended, or carried over to a worker. Two rules say what any removal and
  any move must establish; the operations of the loop and of the workers are instances.
\<close>

section \<open>Removing\<close>

lemma remove_inv:
  assumes inv: "rz_inv clock s" and c: "tab pl0 s k = Some c"
    and T: "\<And>pl. tab pl s' = (if pl = pl0 then (tab pl s)(k := None) else tab pl s)"
    and rest: "rz_cfg s' = rz_cfg s" "rz_next_key s' = rz_next_key s" "rz_spliced s' = rz_spliced s"
      "rz_workers s' = [] \<longleftrightarrow> rz_workers s = []" "rz_per_ip s' = decrement (ip_of_conn c) (rz_per_ip s)"
    and w: "waits s'" "controls s'" "sv_inv now (rz_service s')"
  shows "rz_inv now s'"
proof -
  note I = rz_invD [OF inv]
  have sub: "tab pl s' k' = Some d \<Longrightarrow> tab pl s k' = Some d" for pl k' d using T by (auto simp del: tab.simps split: if_splits)
  have gone: "tab pl s' k = None" for pl
  proof (cases "pl = pl0")
    case False
    then have "tab pl s k = None" using I(2) c unfolding apart_def by blast
    then show ?thesis using T [of pl] by simp
  qed (simp add: T)
  have off: "k' \<noteq> k \<Longrightarrow> tab pl s' k' = tab pl s k'" for pl k' by (simp add: T)
  have "table_ok (cap s) (tab pl s')" for pl using table_del [OF I(1)] I(1) [of pl] by (simp add: T del: tab.simps)
  moreover have "apart s'" using I(2) sub unfolding apart_def by (metis not_None_eq)
  moreover have "members s'" using I(3) sub rest(2) unfolding members_def by metis
  moreover have "counted s'"
  proof -
    have ce: "census s' = census s - {(k, ip_of_conn c)}"
      unfolding census_map
    proof (intro set_eqI, clarify)
      fix k' x
      have "tab pl s k = Some d \<Longrightarrow> d = c" for pl d using I(2) c unfolding apart_def by (metis option.inject option.distinct(1))
      then show "(k', x) \<in> {(k, x). \<exists>pl. map_option ip_of_conn (tab pl s' k) = Some x}
          \<longleftrightarrow> (k', x) \<in> {(k, x). \<exists>pl. map_option ip_of_conn (tab pl s k) = Some x} - {(k, ip_of_conn c)}"
        using off [of k'] by (cases "k' = k") (auto simp: gone simp del: tab.simps)
    qed
    have "(k, ip_of_conn c) \<in> census s" using c unfolding census_def by blast
    then have "counts (rz_per_ip s') (census s') snd"
      using counts_remove [of "rz_per_ip s" "census s" snd "(k, ip_of_conn c)"] I(4) rest(5) by (simp add: counted_def ce)
    moreover have "n \<le> rv_max_connections_per_ip (rz_cfg s)" if "get ip (rz_per_ip s') = Some n" for ip n
    proof -
      have "\<exists>n'. get ip (rz_per_ip s) = Some n' \<and> n \<le> n'"
        using that unfolding rest(5) decrement_def by (auto split: option.splits if_splits)
      then show ?thesis using I(4) by (auto simp: counted_def intro: le_trans)
    qed
    moreover have "card (Mapping.keys (rz_conns s')) \<le> card (Mapping.keys (rz_conns s))"
      by (rule card_mono [OF finite_loop [OF I(4)]]) (use sub [of Loop] in \<open>auto simp: in_keys\<close>)
    ultimately show ?thesis using I(4) rest(1) by (auto simp: counted_def)
  qed
  moreover have "to_hand s'"
  proof (rule to_hand_loop [OF I(7) rest(4,2)])
    show "promised (tab Loop s') a b" if "promised (tab Loop s) a b" for a b using that sub [of Loop] unfolding promised_def by blast
  qed (simp add: rest(3))
  ultimately show ?thesis using w rest(1) by (simp add: rz_inv_def del: tab.simps)
qed

lemma leave_waiting_spec:
  "leave_waiting c s = s\<lparr>rz_waiting := rz_waiting (leave_waiting c s)\<rparr>"
  "get rid (rz_waiting (leave_waiting c s) sd) = Some x \<Longrightarrow> get rid (rz_waiting s sd) = Some x
     \<and> \<not> (x = c_key c \<and> c_mode c = MRelayWaiting \<and> c_relay_id c = rid \<and> c_relay_side c = Some sd)"
proof -
  show "leave_waiting c s = s\<lparr>rz_waiting := rz_waiting (leave_waiting c s)\<rparr>"
    by (simp add: leave_waiting_def split: option.split)
  assume "get rid (rz_waiting (leave_waiting c s) sd) = Some x"
  then show "get rid (rz_waiting s sd) = Some x
      \<and> \<not> (x = c_key c \<and> c_mode c = MRelayWaiting \<and> c_relay_id c = rid \<and> c_relay_side c = Some sd)"
    by (cases "c_relay_side c"; cases "the (c_relay_side c)"; cases sd) (auto simp: leave_waiting_def del_waiting simp del: fun_upd_apply split: if_splits)
qed

lemma on_close_keys: "Mapping.keys (sv_conns (on_close k sv)) = Mapping.keys (sv_conns sv) - {k}"
  by (simp add: on_close_def split: prod.split)

lemma reap_one_inv:
  assumes inv: "rz_inv clock s" "clock \<le> now" shows "rz_inv now (reap_one k s)"
proof (cases "\<exists>c. get k (rz_conns s) = Some c \<and> (c_dead c \<or> splice_orphan c (rz_conns s))")
  case False
  then have "reap_one k s = s" by (auto simp: reap_one_def split: option.split)
  then show ?thesis using stay_inv [OF inv] by simp
next
  case True
  then obtain c where c: "get k (rz_conns s) = Some c" "c_dead c \<or> splice_orphan c (rz_conns s)" by blast
  note I = rz_invD [OF inv(1)]
  have key: "c_key c = k" using table_okD(1) [OF I(1) [of Loop]] c(1) by simp
  define sv where "sv = (if c_mode c = MControl then on_close k (rz_service s) else rz_service s)"
  define w where "w = rz_waiting (leave_waiting c (s\<lparr>rz_service := sv\<rparr>))"
  let ?s = "s\<lparr>rz_service := sv, rz_waiting := w, rz_per_ip := decrement (ip_of_conn c) (rz_per_ip s), rz_conns := del k (rz_conns s)\<rparr>"
  have svs: "(if c_mode c = MControl then s\<lparr>rz_service := on_close (c_key c) (rz_service s)\<rparr> else s) = s\<lparr>rz_service := sv\<rparr>"
    by (simp add: sv_def key)
  have lw: "leave_waiting c (s\<lparr>rz_service := sv\<rparr>) = s\<lparr>rz_service := sv, rz_waiting := w\<rparr>"
    unfolding w_def by (rule leave_waiting_spec(1))
  have eq: "reap_one k s = ?s" using c by (cases "c_dead c") (simp_all add: reap_one_def Let_def svs lw release_def ip_of_conn_def)
  have W: "get rid (rz_waiting s sd) = Some x \<and> x \<noteq> k" if "get rid (w sd) = Some x" for rid sd x
  proof -
    have old: "get rid (rz_waiting s sd) = Some x"
      "\<not> (x = c_key c \<and> c_mode c = MRelayWaiting \<and> c_relay_id c = rid \<and> c_relay_side c = Some sd)"
      using leave_waiting_spec(2) [OF that [unfolded w_def]] by simp_all
    then show ?thesis using waitsD [OF I(5) old(1)] c(1) key by auto
  qed
  show ?thesis unfolding eq
  proof (rule remove_inv [OF inv(1), of Loop k c])
    show "tab pl ?s = (if pl = Loop then (tab pl s)(k := None) else tab pl s)" for pl by (cases pl) (auto simp: fun_eq_iff)
    show "waits ?s" by (rule waits_less [OF I(5)]) (use W in auto)
    show "controls ?s" using I(6) c(1) by (auto simp: controls_def sv_def on_close_keys)
    show "sv_inv now (rz_service ?s)" using later_inv [OF I(8) inv(2)] on_close_inv by (simp add: sv_def)
  qed (use c in simp_all)
qed

lemma worker_reap_inv:
  assumes inv: "rz_inv clock s" "clock \<le> now" and i: "i < length (rz_workers s)" shows "rz_inv now (worker_reap_one i k s)"
proof -
  let ?w = "rz_workers s ! i"
  note I = rz_invD [OF inv(1)]
  have "worker_reap_one i k s = s \<or> (\<exists>c. get k (wk_conns ?w) = Some c
      \<and> worker_reap_one i k s = (release c s)\<lparr>rz_workers := (rz_workers s)[i := ?w\<lparr>wk_conns := del k (wk_conns ?w)\<rparr>]\<rparr>)"
    by (cases "get k (wk_conns ?w)") (simp_all add: worker_reap_one_def Let_def)
  then consider "worker_reap_one i k s = s" | c where "get k (wk_conns ?w) = Some c"
      "worker_reap_one i k s = (release c s)\<lparr>rz_workers := (rz_workers s)[i := ?w\<lparr>wk_conns := del k (wk_conns ?w)\<rparr>]\<rparr>"
    by blast
  then show ?thesis
  proof cases
    case 1
    then show ?thesis using stay_inv [OF inv] by simp
  next
    case (2 c)
    let ?s = "(release c s)\<lparr>rz_workers := (rz_workers s)[i := ?w\<lparr>wk_conns := del k (wk_conns ?w)\<rparr>]\<rparr>"
    have T: "tab pl ?s = (if pl = Work i then (tab pl s)(k := None) else tab pl s)" for pl
      using i by (cases pl) (auto simp: fun_eq_iff release_def nth_list_update)
    show ?thesis unfolding 2(2)
    proof (rule remove_inv [OF inv(1), of "Work i" k c, OF _ T])
      show "waits ?s" by (rule waits_less [OF I(5)]) (simp_all add: release_def)
      show "controls ?s" using I(6) by (simp add: controls_def release_def)
    qed (use 2 i later_inv [OF I(8) inv(2)] in \<open>simp_all add: release_def ip_of_conn_def\<close>)
  qed
qed

section \<open>Moving\<close>

text \<open>
  Some spliced connections of one place move to another that is not the loop, partners together.
\<close>

lemma relocate_inv:
  assumes inv: "rz_inv clock s" and pq: "P \<noteq> Q" "Q \<noteq> Loop"
    and away: "\<And>k. tab P s' k = (if k \<in> K then None else tab P s k)"
    and into: "\<And>k. tab Q s' k = (if k \<in> K \<and> tab P s k \<noteq> None then tab P s k else tab Q s k)"
    and other: "\<And>pl. pl \<noteq> P \<Longrightarrow> pl \<noteq> Q \<Longrightarrow> tab pl s' = tab pl s"
    and pairs: "\<And>k c. tab P s k = Some c \<Longrightarrow> c_mode c = MSplice \<Longrightarrow> tab P s (c_partner c) \<noteq> None \<Longrightarrow> k \<in> K \<longleftrightarrow> c_partner c \<in> K"
    and legs: "\<And>k c. k \<in> K \<Longrightarrow> tab P s k = Some c \<Longrightarrow> c_mode c = MSplice"
    and rest: "rz_cfg s' = rz_cfg s" "rz_next_key s' = rz_next_key s" "rz_per_ip s' = rz_per_ip s"
      "set (rz_spliced s') \<subseteq> set (rz_spliced s)" "rz_workers s' = [] \<longleftrightarrow> rz_workers s = []"
    and w: "waits s'" "controls s'" "sv_inv now (rz_service s')"
  shows "rz_inv now s'"
proof -
  note I = rz_invD [OF inv]
  define mv where "mv pl k = (if pl = P \<and> k \<in> K then Q else pl)" for pl k
  have ap: "tab pl s k = Some c \<Longrightarrow> tab pl' s k = Some d \<Longrightarrow> pl' = pl"
    "tab pl s k = Some c \<Longrightarrow> c_mode c = MSplice \<Longrightarrow> tab pl' s (c_partner c) = Some d \<Longrightarrow> pl' = pl" for pl pl' k c d
    using I(2) unfolding apart_def by (metis option.distinct(1))+
  have fwd: "tab (mv pl k) s' k = Some c" if c: "tab pl s k = Some c" for pl k c
  proof -
    consider "pl = P" | "pl = Q" "tab P s k = None" | "pl \<noteq> P" "pl \<noteq> Q" using ap(1) [OF c, of P] pq(1) by (cases "tab P s k") auto
    then show ?thesis using c pq away [of k] into [of k] other [of pl] by cases (auto simp: mv_def simp del: tab.simps)
  qed
  have bwd: "\<exists>pl. tab pl s k = Some c \<and> mv pl k = pl'" if c: "tab pl' s' k = Some c" for pl' k c
  proof -
    consider "pl' = P" | "pl' = Q" "k \<in> K \<and> tab P s k \<noteq> None" | "pl' = Q" "\<not> (k \<in> K \<and> tab P s k \<noteq> None)" | "pl' \<noteq> P" "pl' \<noteq> Q" by blast
    then show ?thesis
    proof cases
      case 1
      then show ?thesis using c away [of k] by (intro exI [of _ P]) (auto simp: mv_def simp del: tab.simps split: if_splits)
    next
      case 2
      then show ?thesis using c into [of k] by (intro exI [of _ P]) (simp add: mv_def del: tab.simps)
    next
      case 3
      then show ?thesis using c into [of k] pq(1) by (intro exI [of _ Q]) (auto simp: mv_def simp del: tab.simps split: if_splits)
    next
      case 4
      then show ?thesis using c other [of pl'] by (intro exI [of _ pl']) (simp add: mv_def del: tab.simps)
    qed
  qed
  have loop: "tab Loop s k = Some c" if c: "tab Loop s' k = Some c" for k c
    using bwd [OF c] pq(2) by (auto simp: mv_def simp del: tab.simps split: if_splits)
  have "table_ok (cap s) (tab pl' s')" for pl' unfolding table_ok_def
  proof (intro allI impI conjI)
    fix k c assume "tab pl' s' k = Some c"
    then obtain pl where pl: "tab pl s k = Some c" "mv pl k = pl'" using bwd by blast
    show "c_key c = k" "conn_ok (cap s) c" using table_okD(1,2) [OF I(1) pl(1)] .
    fix p assume p: "c_mode c = MSplice" "tab pl' s' (c_partner c) = Some p"
    then obtain plp where "tab plp s (c_partner c) = Some p" using bwd by blast
    then show "linked c p" using ap(2) [OF pl(1) p(1)] table_okD(3) [OF I(1) pl(1) p(1)] by simp
  qed
  moreover have "apart s'" unfolding apart_def
  proof (intro allI impI conjI)
    fix pl' k c pl'' assume "tab pl' s' k = Some c"
    then obtain pl where pl: "tab pl s k = Some c" "mv pl k = pl'" using bwd by blast
    show "pl'' = pl'" if at: "tab pl'' s' k \<noteq> None"
      using at bwd [of pl'' k] ap(1) [OF pl(1)] pl(2) by (auto simp del: tab.simps)
    show "pl'' = pl'" if q: "c_mode c = MSplice" "tab pl'' s' (c_partner c) \<noteq> None"
    proof -
      obtain p pl2 where p: "tab pl2 s (c_partner c) = Some p" "mv pl2 (c_partner c) = pl''" using q(2) bwd by blast
      have "pl2 = pl" using ap(2) [OF pl(1) q(1) p(1)] .
      then show ?thesis using p pl pairs [of k c] q(1) by (auto simp: mv_def simp del: tab.simps split: if_splits)
    qed
  qed
  moreover have "members s'" unfolding members_def rest(2)
  proof (intro allI impI)
    fix pl' k c assume "tab pl' s' k = Some c"
    then obtain pl where pl: "tab pl s k = Some c" "mv pl k = pl'" using bwd by blast
    then show "k < rz_next_key s \<and> wf_ep (c_peer c) \<and> (pl' \<noteq> Loop \<longrightarrow> c_mode c = MSplice) \<and> (c_mode c = MSplice \<longrightarrow> c_partner c < rz_next_key s)"
      using I(3) legs [of k c] unfolding members_def mv_def by (metis)
  qed
  moreover have "census s' = census s" unfolding census_def using fwd bwd by blast
  moreover have "card (Mapping.keys (rz_conns s')) \<le> card (Mapping.keys (rz_conns s))"
    by (rule card_mono [OF finite_loop [OF I(4)]]) (use loop in \<open>auto simp: in_keys\<close>)
  moreover have "to_hand s'"
  proof (rule to_hand_loop [OF I(7) rest(5,2,4)])
    show "promised (tab Loop s') a b" if "promised (tab Loop s) a b" for a b using that loop unfolding promised_def by blast
  qed
  ultimately show ?thesis using I(4) w rest by (auto simp: rz_inv_def counted_def simp del: tab.simps)
qed

lemma hand_off_pair_inv:
  assumes inv: "rz_inv clock s" "clock \<le> now" and ab: "(a, b) \<in> set (rz_spliced s)"
  shows "rz_inv now (hand_off_pair (a, b) s)" "rz_spliced (hand_off_pair (a, b) s) = rz_spliced s"
proof -
  show "rz_spliced (hand_off_pair (a, b) s) = rz_spliced s"
    by (simp add: hand_off_pair_def Let_def split: option.split)
  note I = rz_invD [OF inv(1)]
  have h: "rz_workers s \<noteq> []" "a \<noteq> b" "promised (tab Loop s) a b" "promised (tab Loop s) b a" using I(7) ab unfolding to_hand_def by blast+
  have "hand_off_pair (a, b) s = s \<or> (\<exists>ca cb. get a (rz_conns s) = Some ca \<and> get b (rz_conns s) = Some cb \<and> \<not> c_dead ca \<and> \<not> c_dead cb)"
    by (cases "get a (rz_conns s)"; cases "get b (rz_conns s)") (simp_all add: hand_off_pair_def)
  then consider "hand_off_pair (a, b) s = s"
    | ca cb where "get a (rz_conns s) = Some ca" "get b (rz_conns s) = Some cb" "\<not> c_dead ca" "\<not> c_dead cb" by blast
  then show "rz_inv now (hand_off_pair (a, b) s)"
  proof cases
    case 1
    then show ?thesis using stay_inv [OF inv] by simp
  next
    case (2 ca cb)
    define i where "i = rz_next_worker s mod length (rz_workers s)"
    have i: "i < length (rz_workers s)" using h(1) by (simp add: i_def)
    let ?w = "rz_workers s ! i"
    let ?s = "s\<lparr>rz_next_worker := rz_next_worker s + 1, rz_workers := (rz_workers s)[i := ?w\<lparr>wk_inbox := wk_inbox ?w @ [ca, cb]\<rparr>],
        rz_conns := del b (del a (rz_conns s))\<rparr>"
    have eq: "hand_off_pair (a, b) s = ?s" using 2 by (simp add: hand_off_pair_def Let_def i_def)
    have key: "c_key ca = a" "c_key cb = b" using table_okD(1) [OF I(1) [of Loop]] 2(1,2) by simp_all
    have leg: "c_mode ca = MSplice" "c_partner ca = b" "c_mode cb = MSplice" "c_partner cb = a"
      using h(3,4) 2(1,2) by (simp_all add: promised_def)
    have out: "tab (Inbox i) s a = None" "tab (Inbox i) s b = None"
      using I(2) 2(1,2) unfolding apart_def by (metis not_None_eq place.distinct(1) tab.simps(1))+
    show ?thesis unfolding eq
    proof (rule relocate_inv [OF inv(1), of Loop "Inbox i" ?s "{a, b}"])
      show "tab (Inbox i) ?s k = (if k \<in> {a, b} \<and> tab Loop s k \<noteq> None then tab Loop s k else tab (Inbox i) s k)" for k
        using i out 2 key h(2) by (auto simp: map_add_def split: option.splits)
      show "tab pl ?s = tab pl s" if "pl \<noteq> Loop" "pl \<noteq> Inbox i" for pl using that i by (cases pl) (auto simp: nth_list_update)
      show "k \<in> {a, b} \<longleftrightarrow> c_partner c \<in> {a, b}" if c: "tab Loop s k = Some c" "c_mode c = MSplice" "tab Loop s (c_partner c) \<noteq> None" for k c
      proof -
        obtain p where p: "tab Loop s (c_partner c) = Some p" using c(3) by blast
        have "linked c p" "c_key c = k" using table_okD [OF I(1) c(1)] c(2) p by blast+
        then show ?thesis using c p 2 leg by (auto simp: linked_def)
      qed
      show "waits ?s"
      proof (rule waits_less [OF I(5)])
        fix sd rid k assume "get rid (rz_waiting ?s sd) = Some k"
        then have k: "get rid (rz_waiting s sd) = Some k" by simp
        show "get rid (rz_waiting s sd) = Some k \<and> tab Loop ?s k = tab Loop s k"
          using k waitsD [OF I(5) k] 2 leg by auto
      qed
      show "controls ?s" using I(6) 2 leg by (auto simp: controls_def)
    qed (use i 2 leg later_inv [OF I(8) inv(2)] in auto)
  qed
qed

lemma hand_off_fold:
  assumes "rz_inv now s" "set ps \<subseteq> set (rz_spliced s)"
  shows "rz_inv now (fold hand_off_pair ps s)"
  using assms
proof (induction ps arbitrary: s)
  case (Cons p ps)
  obtain a b where p: "p = (a, b)" by fastforce
  then have "(a, b) \<in> set (rz_spliced s)" using Cons.prems(2) by simp
  from hand_off_pair_inv [OF Cons.prems(1) order_refl this] show ?case using Cons.IH [of "hand_off_pair p s"] Cons.prems(2) p by simp
qed simp

lemma tab_spliced: "tab pl (s\<lparr>rz_spliced := x\<rparr>) = tab pl s"
  by (cases pl) simp_all

lemma hand_off_inv:
  assumes inv: "rz_inv clock s" "clock \<le> now" shows "rz_inv now (hand_off s)"
proof -
  have t: "rz_inv now (fold hand_off_pair (rz_spliced s) s)" (is "rz_inv now ?t") by (rule hand_off_fold [OF stay_inv [OF inv]]) simp
  then have "rz_inv now (?t\<lparr>rz_spliced := []\<rparr>)"
    unfolding rz_inv_def apart_def members_def counted_def census_def waits_def controls_def to_hand_def tab_spliced by simp
  then show ?thesis by (simp add: hand_off_def)
qed

lemma get_taken:
  "get k (fold (\<lambda>c m. if get (c_key c) m = None then put (c_key c) c m else m) xs m)
     = (case get k m of Some c \<Rightarrow> Some c | None \<Rightarrow> map_of (map (\<lambda>c. (c_key c, c)) xs) k)"
  by (induction xs arbitrary: m) (auto split: option.splits)

lemma worker_take_inv:
  assumes inv: "rz_inv clock s" "clock \<le> now" shows "rz_inv now (on_worker i worker_take s)"
proof (cases "i < length (rz_workers s)")
  case True
  note I = rz_invD [OF inv(1)]
  let ?s = "s\<lparr>rz_workers := (rz_workers s)[i := worker_take (rz_workers s ! i)]\<rparr>"
  have one: "tab (Inbox i) s k = None \<or> tab (Work i) s k = None" for k
    using I(2) unfolding apart_def by (metis not_None_eq place.distinct(5))
  have "rz_inv now ?s"
  proof (rule relocate_inv [OF inv(1), of "Inbox i" "Work i" ?s UNIV])
    show "tab (Work i) ?s k = (if k \<in> UNIV \<and> tab (Inbox i) s k \<noteq> None then tab (Inbox i) s k else tab (Work i) s k)" for k
      using one [of k] True by (auto simp: worker_take_def get_taken split: option.splits)
    show "tab pl ?s = tab pl s" if "pl \<noteq> Inbox i" "pl \<noteq> Work i" for pl using that True by (cases pl) (auto simp: nth_list_update)
    show "c_mode c = MSplice" if "tab (Inbox i) s k = Some c" for k c using I(3) that unfolding members_def by blast
    show "waits ?s" using I(5) by (simp add: waits_def)
    show "controls ?s" using I(6) by (simp add: controls_def)
  qed (use True later_inv [OF I(8) inv(2)] in \<open>auto simp: worker_take_def\<close>)
  then show ?thesis using True by (simp add: on_worker_def)
qed (simp add: on_worker_def stay_inv [OF inv])

end
