(* ===== verification/Rendezvous_System.thy ===== *)
theory Rendezvous_System
  imports Rendezvous_Leave
begin

text \<open>
  The runtime as a system of steps. The threads share the service behind a lock and everything else belongs to one thread, so
  what they do is an interleaving of the steps below: what the loop or a worker does to one connection, to one datagram, or to
  its own tables. The invariant holds in every state an interleaving reaches, and the rounds of the loop and of the workers are
  runs of these steps.
\<close>

datatype rz_event =
    RvAccept "Endpoint option"
  | RvUdp Endpoint bytes
  | RvReceive ConnKey arrivals
  | RvFrame ConnKey
  | RvBroken ConnKey
  | RvEarly ConnKey arrivals
  | RvSplice ConnKey arrivals
  | RvFlush "ConnKey \<Rightarrow> nat option list"
  | RvHandOff
  | RvExpire
  | RvPartner ConnKey
  | RvReap ConnKey
  | RvTick
  | RvTake nat
  | RvWorkSplice nat ConnKey arrivals
  | RvWorkFlush nat "ConnKey \<Rightarrow> nat option list"
  | RvWorkIdle nat
  | RvWorkPartner nat ConnKey
  | RvWorkReap nat ConnKey
  | RvWorkCount nat

definition in_mode :: "Mode list \<Rightarrow> ConnKey \<Rightarrow> Rendezvous \<Rightarrow> bool" where
  "in_mode ms k s \<longleftrightarrow> (case get k (rz_conns s) of None \<Rightarrow> False | Some c \<Rightarrow> c_mode c \<in> set ms)"

definition frame_step :: "ConnKey \<Rightarrow> instant \<Rightarrow> Rendezvous \<Rightarrow> Rendezvous option" where
  "frame_step k now s = (case take_frame k s of (None, s) \<Rightarrow> Some s | (Some m, s) \<Rightarrow> use_frame k m now s)"

text \<open>A step that is not enabled, and a message whose handling does not return, have no result.\<close>

fun rz_apply :: "rz_event \<Rightarrow> instant \<Rightarrow> Rendezvous \<Rightarrow> Rendezvous option" where
  "rz_apply (RvAccept remote) now s = Some (accept_one remote now s)"
| "rz_apply (RvUdp src d) now s = Some (snd (udp_datagram (src, d) now s))"
| "rz_apply (RvReceive k rx) now s = (if in_mode [MNew, MControl] k s then Some (snd (snd (receive k now rx s))) else None)"
| "rz_apply (RvFrame k) now s = frame_step k now s"
| "rz_apply (RvBroken k) now s = Some (snd (break_framing k s))"
| "rz_apply (RvEarly k rx) now s = (if in_mode [MRelayWaiting] k s then Some (read_early k rx s) else None)"
| "rz_apply (RvSplice k rx) now s = (if in_mode [MSplice] k s then Some (loop_splice k now rx s) else None)"
| "rz_apply (RvFlush tx) now s = Some (s\<lparr>rz_conns := flush_all tx (rz_conns s)\<rparr>)"
| "rz_apply RvHandOff now s = Some (hand_off s)"
| "rz_apply RvExpire now s = Some (reap_expired now s)"
| "rz_apply (RvPartner k) now s = Some (s\<lparr>rz_conns := end_partner k (rz_conns s)\<rparr>)"
| "rz_apply (RvReap k) now s = Some (reap_one k s)"
| "rz_apply RvTick now s = Some (tick_if_due now s)"
| "rz_apply (RvTake i) now s = Some (on_worker i worker_take s)"
| "rz_apply (RvWorkSplice i k rx) now s = Some (worker_splice i k now rx s)"
| "rz_apply (RvWorkFlush i tx) now s = Some (on_worker i (\<lambda>w. w\<lparr>wk_conns := flush_all tx (wk_conns w)\<rparr>) s)"
| "rz_apply (RvWorkIdle i) now s = Some (on_worker i (\<lambda>w. w\<lparr>wk_conns := worker_idle (rz_cfg s) now (wk_conns w)\<rparr>) s)"
| "rz_apply (RvWorkPartner i k) now s = Some (on_worker i (\<lambda>w. w\<lparr>wk_conns := worker_end_partner k (wk_conns w)\<rparr>) s)"
| "rz_apply (RvWorkReap i k) now s = (if i < length (rz_workers s) then Some (worker_reap_one i k s) else None)"
| "rz_apply (RvWorkCount i) now s = Some (worker_count i s)"

type_synonym rz_state = "instant \<times> Rendezvous"

definition rz_step :: "rz_event \<times> instant \<Rightarrow> rz_state \<Rightarrow> rz_state option" where
  "rz_step e s = map_option (Pair (snd e)) (rz_apply (fst e) (snd e) (snd s))"

text \<open>
  The clock does not go back, the operating system reports well-formed addresses, the key counter has not run through its 64
  bits, and a registration meets the assumptions of the control service.
\<close>

definition rz_guard :: "rz_event \<times> instant \<Rightarrow> rz_state \<Rightarrow> bool" where
  "rz_guard e s \<longleftrightarrow> fst s \<le> snd e \<and> (case fst e of
       RvAccept (Some peer) \<Rightarrow> wf_ep peer \<and> rz_next_key (snd s) < rz_next_key (snd s) + 1
     | RvFrame k \<Rightarrow> (case fst (take_frame k (snd s)) of
         None \<Rightarrow> True | Some m \<Rightarrow> message_guard k m (heard k (snd e) (snd s)))
     | _ \<Rightarrow> True)"

definition rz_start :: "rz_state \<Rightarrow> bool" where
  "rz_start s \<longleftrightarrow> (\<exists>cfg secret dropped draws. s = (0, Rendezvous_new cfg secret dropped draws))"

abbreviation rz_reach :: "rz_state \<Rightarrow> bool" where
  "rz_reach \<equiv> reach rz_step rz_guard rz_start"

section \<open>The invariant in every reachable state\<close>

lemma tab_new: "tab pl (Rendezvous_new cfg secret dropped draws) = Map.empty"
  by (cases pl) (auto simp: Rendezvous_new_def Worker_new_def fun_eq_iff)

lemma rz_inv_new: "rz_inv 0 (Rendezvous_new cfg secret dropped draws)" (is "rz_inv 0 ?s")
proof -
  have f: "rz_per_ip ?s = Mapping.empty" "rz_conns ?s = Mapping.empty" "rz_waiting ?s = (\<lambda>_. Mapping.empty)" "rz_spliced ?s = []"
    "rz_service ?s = Service_new (Registry_new (rv_registry cfg) secret) (rv_control cfg)" "rz_cfg ?s = cfg"
    by (simp_all add: Rendezvous_new_def)
  have "sv_conns (rz_service ?s) = Mapping.empty" by (simp add: f Service_new_def)
  then show ?thesis using sv_inv_new [of "rv_registry cfg" secret "rv_control cfg"]
    by (simp add: rz_inv_def table_ok_def apart_def members_def counted_def census_def waits_def controls_def to_hand_def tab_new f
        del: tab.simps)
qed

lemma frame_step_inv:
  assumes inv: "rz_inv clock s" "clock \<le> now" and r: "frame_step k now s = Some s'"
    and g: "\<And>m. fst (take_frame k s) = Some m \<Longrightarrow> message_guard k m (heard k now s)"
  shows "rz_inv now s'"
proof -
  obtain m t where t: "take_frame k s = (m, t)" by fastforce
  note T = take_frame_inv [OF inv t]
  show ?thesis
  proof (cases m)
    case None
    then show ?thesis using T r t by (simp add: frame_step_def)
  next
    case (Some msg)
    then obtain c rd where c: "get k (rz_conns s) = Some c" "framing c" "t = s\<lparr>rz_conns := on_conn k (\<lambda>c. c\<lparr>c_reader := rd\<rparr>) (rz_conns s)\<rparr>"
      using t by (auto simp: take_frame_def split: option.splits if_splits prod.splits)
    have "heard k now t = heard k now s" using c(1) by (simp add: heard_def c(3) get_on_conn)
    then have "message_guard k msg (heard k now t)" using g t Some by simp
    moreover have "\<not> c_dead d" if "get k (rz_conns t) = Some d" for d using that c by (auto simp: get_on_conn framing_def)
    moreover have "use_frame k msg now t = Some s'" using r t Some by (simp add: frame_step_def)
    ultimately show ?thesis using use_frame_inv [OF T order_refl] by blast
  qed
qed

lemma rz_apply_inv:
  assumes inv: "rz_inv clock s" "clock \<le> now" and g: "rz_guard (e, now) (clock, s)" and r: "rz_apply e now s = Some s'"
  shows "rz_inv now s'"
proof (cases e)
  case (RvAccept remote)
  then show ?thesis using r g accept_inv [OF inv] stay_inv [OF inv] by (cases remote) (auto simp: rz_guard_def accept_one_def)
next
  case (RvReceive k rx)
  then have m: "in_mode [MNew, MControl] k s" "s' = snd (snd (receive k now rx s))" using r by (auto split: if_splits)
  obtain go rx' where "receive k now rx s = (go, rx', s')" using m(2) by (metis prod.collapse)
  then show ?thesis by (rule receive_inv [OF inv]) (use m(1) in \<open>simp add: in_mode_def\<close>)
next
  case (RvFrame k)
  then have "frame_step k now s = Some s'" using r by simp
  then show ?thesis by (rule frame_step_inv [OF inv]) (use g RvFrame in \<open>simp add: rz_guard_def\<close>)
next
  case (RvWorkReap i k)
  then show ?thesis using r worker_reap_inv [OF inv] by (auto split: if_splits)
next
  case (RvWorkFlush i tx)
  then show ?thesis using r on_worker_inv [OF inv, of "flush_all tx"] flush_all_ok by auto
next
  case (RvWorkIdle i)
  then show ?thesis using r on_worker_inv [OF inv, of "worker_idle (rz_cfg s) now" i] kill_some_ok by (auto simp: worker_idle_def)
next
  case (RvWorkPartner i k)
  then show ?thesis using r on_worker_inv [OF inv, of "worker_end_partner k" i] end_partner_ok(2) by auto
qed (use r in \<open>auto simp: in_mode_def split: if_splits option.splits
    intro: udp_inv [OF inv] break_framing_inv [OF inv] read_early_inv [OF inv] loop_splice_inv [OF inv] flush_inv [OF inv]
      hand_off_inv [OF inv] expire_inv [OF inv] end_partner_inv [OF inv] reap_one_inv [OF inv] tick_due_inv [OF inv]
      worker_take_inv [OF inv] worker_splice_inv [OF inv] count_inv [OF inv]\<close>)

interpretation rz: guarded_system rz_step rz_guard "\<lambda>s. rz_inv (fst s) (snd s)"
proof unfold_locales
  fix s e s'
  assume inv: "rz_inv (fst s) (snd s)" and g: "rz_guard e s" and st: "rz_step e s = Some s'"
  obtain u where u: "rz_apply (fst e) (snd e) (snd s) = Some u" "s' = (snd e, u)" using st by (auto simp: rz_step_def)
  have "fst s \<le> snd e" using g by (simp add: rz_guard_def)
  then show "rz_inv (fst s') (snd s')" using rz_apply_inv [OF inv _ _ u(1)] g u(2) by simp
qed

lemma rz_reach_inv: "rz_reach (clock, s) \<Longrightarrow> rz_inv clock s"
proof -
  assume "rz_reach (clock, s)"
  moreover have "rz_start t \<Longrightarrow> rz_inv (fst t) (snd t)" for t using rz_inv_new by (auto simp: rz_start_def)
  ultimately show "rz_inv clock s" using rz.reach_inv [of rz_start "(clock, s)"] by simp
qed

section \<open>Rounds are runs of steps\<close>

text \<open>What a thread does at one instant.\<close>

definition does :: "instant \<Rightarrow> Rendezvous \<Rightarrow> Rendezvous \<Rightarrow> bool" where
  "does now s s' \<longleftrightarrow> (\<exists>es. run (\<lambda>e. rz_apply e now) es s = Some s')"

lemma does_refl: "does now s s"
  unfolding does_def by (rule exI [of _ "[]"]) simp

lemma does_trans:
  assumes "does now s t" "does now t u" shows "does now s u"
proof -
  obtain es es' where "run (\<lambda>e. rz_apply e now) es s = Some t" "run (\<lambda>e. rz_apply e now) es' t = Some u"
    using assms by (auto simp: does_def)
  then have "run (\<lambda>e. rz_apply e now) (es @ es') s = Some u" by (simp add: run_append)
  then show ?thesis unfolding does_def by blast
qed

lemma does_step: "rz_apply e now s = Some s' \<Longrightarrow> does now s s'"
  unfolding does_def by (rule exI [of _ "[e]"]) simp

lemma does_fold:
  assumes "P s" "\<And>x s. P s \<Longrightarrow> does now s (f x s) \<and> P (f x s)" shows "does now s (fold f xs s)"
  using assms(1)
proof (induction xs arbitrary: s)
  case (Cons x xs)
  then show ?case using assms(2) [of s x] by (auto intro: does_trans)
qed (simp add: does_refl)

lemma run_timed:
  "run (\<lambda>e. rz_apply e now) es s = Some s' \<Longrightarrow> run rz_step (map (\<lambda>e. (e, now)) es) (clock, s) = Some (if es = [] then clock else now, s')"
proof (induction es arbitrary: s clock)
  case (Cons e es)
  then obtain t where "rz_apply e now s = Some t" "run (\<lambda>e. rz_apply e now) es t = Some s'" by (auto split: option.splits)
  then show ?case using Cons.IH [of t now] by (simp add: rz_step_def)
qed simp

lemma does_accept: "does now s (accept_all remotes now s)"
proof -
  have "does now t (accept_one r now t)" for r t by (rule does_step [of "RvAccept r"]) simp
  then show ?thesis unfolding accept_all_def by (intro does_fold [of "\<lambda>_. True"]) simp_all
qed

lemma does_udp: "udp_loop gs now s = (out, s') \<Longrightarrow> does now s s'"
proof (induction gs now s arbitrary: out s' rule: udp_loop.induct)
  case (2 g gs now s)
  obtain src d where g: "g = (src, d)" by fastforce
  obtain o1 t where t: "udp_datagram g now s = (o1, t)" by fastforce
  obtain o2 where u: "udp_loop gs now t = (o2, s')" using 2(2) t by (auto split: prod.splits)
  have "does now s t" by (rule does_step [of "RvUdp src d"]) (use t g in simp)
  then show ?case using 2(1) [OF refl t [symmetric] u] by (rule does_trans)
qed (simp add: does_refl)

definition unjoined :: "ConnKey \<Rightarrow> Rendezvous \<Rightarrow> bool" where
  "unjoined k s \<longleftrightarrow> (\<forall>c. get k (rz_conns s) = Some c \<longrightarrow> c_mode c = MNew \<or> c_mode c = MControl)"

lemma does_receive:
  assumes u: "unjoined k s" and r: "receive k now rx s = (go, rx', s')" shows "does now s s'"
proof (cases "get k (rz_conns s)")
  case None
  then show ?thesis using r by (simp add: receive_def does_refl)
next
  case (Some c)
  then have "in_mode [MNew, MControl] k s" using u by (simp add: unjoined_def in_mode_def)
  then show ?thesis by (intro does_step [of "RvReceive k rx"]) (simp add: r)
qed

lemma does_frames: "frames k now s = Some s' \<Longrightarrow> does now s s'"
proof (induction k now s arbitrary: s' rule: frames.induct)
  case (1 k now s)
  obtain m t where t: "take_frame k s = (m, t)" by fastforce
  show ?case
  proof (cases m)
    case None
    then show ?thesis using 1(2) t by (intro does_step [of "RvFrame k"]) (simp add: frame_step_def frames.simps)
  next
    case (Some msg)
    then obtain u where u: "use_frame k msg now t = Some u" "frames k now u = Some s'"
      using 1(2) t by (auto simp: frames.simps [of k now s] split: option.splits)
    have "does now s u" using t Some u(1) by (intro does_step [of "RvFrame k"]) (simp add: frame_step_def)
    then show ?thesis using 1(1) [OF t [symmetric] Some u(1) u(2)] by (rule does_trans)
  qed
qed

lemma break_framing_unjoined: "break_framing k s = (True, s') \<Longrightarrow> unjoined k s'"
  by (auto simp: break_framing_def unjoined_def kill_def killed_def get_on_conn split: option.splits if_splits) (metis Mode.exhaust)+

lemma does_read_rounds: "unjoined k s \<Longrightarrow> read_rounds n k now rx s = Some s' \<Longrightarrow> does now s s'"
proof (induction n arbitrary: rx s)
  case (Suc n)
  obtain go rx' t where t: "receive k now rx s = (go, rx', t)" by (metis prod_cases3)
  have st: "does now s t" using does_receive [OF Suc.prems(1) t] .
  show ?case
  proof (cases go)
    case False
    then show ?thesis using st t Suc.prems(2) by simp
  next
    case True
    then obtain u where u: "frames k now t = Some u" using t Suc.prems(2) by (auto split: option.splits)
    obtain on v where v: "break_framing k u = (on, v)" by fastforce
    have sv: "does now s v"
      using st does_frames [OF u] does_step [of "RvBroken k" now u v] v by (auto intro: does_trans)
    show ?thesis
    proof (cases on)
      case on: True
      then have "read_rounds n k now rx' v = Some s'" using True t u v Suc.prems(2) by simp
      then show ?thesis using Suc.IH [OF break_framing_unjoined] v on sv by (auto intro: does_trans)
    qed (use True t u v Suc.prems(2) sv in simp)
  qed
qed (simp add: does_refl)

lemma does_read_from:
  assumes "read_from k now rx s = Some s'" shows "does now s s'"
proof (cases "get k (rz_conns s)")
  case None
  then show ?thesis using assms by (simp add: read_from_def does_refl)
next
  case (Some c)
  show ?thesis
  proof (cases "c_mode c")
    case MSplice
    then show ?thesis using assms Some by (intro does_step [of "RvSplice k rx"]) (simp add: read_from_def in_mode_def)
  next
    case MRelayWaiting
    then show ?thesis using assms Some by (intro does_step [of "RvEarly k rx"]) (simp add: read_from_def in_mode_def)
  qed (use assms Some in \<open>auto simp: read_from_def unjoined_def intro!: does_read_rounds\<close>)
qed

lemma does_read_ready: "read_ready po now ks s = Some s' \<Longrightarrow> does now s s'"
proof (induction po now ks s rule: read_ready.induct)
  case (2 po now k ks s)
  show ?case
  proof (cases "case get k (rz_conns s) of None \<Rightarrow> True | Some c \<Rightarrow> c_dead c")
    case True
    then show ?thesis using 2(1) [OF True] 2(3) by simp
  next
    case False
    then obtain t where t: "read_from k now (po_arrivals po k) s = Some t" "read_ready po now ks t = Some s'"
      using 2(3) by (auto split: option.splits)
    show ?thesis using does_read_from [OF t(1)] 2(2) [OF False t] by (rule does_trans)
  qed
qed (simp add: does_refl)

lemma does_reap: "does now s (reap now s)"
proof -
  let ?t = "reap_expired now s"
  have partner: "does now t (t\<lparr>rz_conns := fold end_partner ks (rz_conns t)\<rparr>)" for ks t
  proof (induction ks arbitrary: t)
    case (Cons k ks)
    have "does now t (t\<lparr>rz_conns := end_partner k (rz_conns t)\<rparr>)" by (rule does_step [of "RvPartner k"]) simp
    then show ?case using Cons [of "t\<lparr>rz_conns := end_partner k (rz_conns t)\<rparr>"] by (auto intro: does_trans)
  qed (simp add: does_refl)
  have reaped: "does now t (fold reap_one ks t)" for ks t
    by (rule does_fold [of "\<lambda>_. True"]) (auto intro: does_step [of "RvReap k" for k])
  have "does now s ?t" by (rule does_step [of RvExpire]) simp
  then show ?thesis unfolding reap_def Let_def using partner reaped by (blast intro: does_trans)
qed

lemma does_poll_once:
  assumes "poll_once po now s = Some (out, s')" shows "does now s s'"
proof -
  define a where "a = accept_all (po_accepts po) now s"
  obtain o1 u where u: "read_udp (po_udp po) now a = (o1, u)" by fastforce
  obtain v where v: "read_ready po now (polled_keys (rv_splice_buffer (rz_cfg s)) (rz_conns s) po) u = Some v"
    "s' = tick_if_due now (reap now (hand_off (v\<lparr>rz_conns := flush_all (po_sends po) (rz_conns v)\<rparr>)))"
    using assms u by (auto simp: poll_once_def Let_def a_def [symmetric] split: option.splits)
  have "does now s a" unfolding a_def by (rule does_accept)
  moreover have "does now a u" using u does_udp by (simp add: read_udp_def)
  moreover note does_read_ready [OF v(1)]
  moreover have "does now v (v\<lparr>rz_conns := flush_all (po_sends po) (rz_conns v)\<rparr>)" (is "does now v ?w")
    by (rule does_step [of "RvFlush (po_sends po)"]) simp
  moreover have "does now ?w (hand_off ?w)" by (rule does_step [of RvHandOff]) simp
  moreover have "does now (hand_off ?w) (reap now (hand_off ?w))" by (rule does_reap)
  moreover have "does now (reap now (hand_off ?w)) s'" by (rule does_step [of RvTick]) (simp add: v(2))
  ultimately show ?thesis by (blast intro: does_trans)
qed

lemma on_worker_twice: "on_worker i f (on_worker i g s) = on_worker i (f \<circ> g) s"
  by (simp add: on_worker_def)

lemma does_worker_partners: "does now s (on_worker i (\<lambda>w. w\<lparr>wk_conns := fold worker_end_partner ks (wk_conns w)\<rparr>) s)"
proof (induction ks arbitrary: s)
  case Nil
  have "on_worker i (\<lambda>w. w\<lparr>wk_conns := fold worker_end_partner [] (wk_conns w)\<rparr>) s = s" by (simp add: on_worker_def)
  then show ?case by (simp add: does_refl)
next
  case (Cons k ks)
  let ?g = "\<lambda>w. w\<lparr>wk_conns := worker_end_partner k (wk_conns w)\<rparr>"
  have "does now s (on_worker i ?g s)" by (rule does_step [of "RvWorkPartner i k"]) simp
  moreover have "on_worker i (\<lambda>w. w\<lparr>wk_conns := fold worker_end_partner (k # ks) (wk_conns w)\<rparr>) s
      = on_worker i (\<lambda>w. w\<lparr>wk_conns := fold worker_end_partner ks (wk_conns w)\<rparr>) (on_worker i ?g s)"
    unfolding on_worker_twice by (simp add: comp_def)
  ultimately show ?case using Cons [of "on_worker i ?g s"] by (auto intro: does_trans)
qed

lemma worker_reap_length: "length (rz_workers (worker_reap_one i k s)) = length (rz_workers s)"
  by (simp add: worker_reap_one_def Let_def release_def split: option.split)

lemma does_worker_reap: "does now s (worker_reap i now s)"
proof -
  define t where "t = on_worker i (\<lambda>w. w\<lparr>wk_conns := worker_idle (rz_cfg s) now (wk_conns w)\<rparr>) s"
  define u where "u = on_worker i (\<lambda>w. w\<lparr>wk_conns := fold worker_end_partner (Mapping.ordered_keys (wk_conns w)) (wk_conns w)\<rparr>) t"
  have st: "does now s t" unfolding t_def by (rule does_step [of "RvWorkIdle i"]) simp
  have tu: "does now t u"
  proof -
    have "u = on_worker i (\<lambda>w. w\<lparr>wk_conns := fold worker_end_partner (Mapping.ordered_keys (wk_conns (rz_workers t ! i))) (wk_conns w)\<rparr>) t"
      by (simp add: u_def on_worker_def)
    then show ?thesis by (simp add: does_worker_partners)
  qed
  have "does now u (fold (worker_reap_one i) ks u)" if "i < length (rz_workers u)" for ks
    by (rule does_fold [of "\<lambda>s. i < length (rz_workers s)", OF that])
      (auto simp: worker_reap_length intro: does_step [of "RvWorkReap i k" for k])
  moreover have "worker_reap i now s = (if i < length (rz_workers u)
      then fold (worker_reap_one i) (Mapping.ordered_keys (wk_conns (rz_workers u ! i))) u else u)"
    by (simp add: worker_reap_def Let_def t_def u_def)
  ultimately show ?thesis using does_trans [OF st tu] by (auto intro: does_trans)
qed

lemma does_worker_round:
  assumes "worker_round i po now s = (out, s')" shows "does now s s'"
proof (cases "i < length (rz_workers s)")
  case False
  then show ?thesis using assms by (simp add: worker_round_def does_refl)
next
  case True
  define t where "t = on_worker i worker_take s"
  obtain o1 u where u: "read_udp (po_udp po) now t = (o1, u)" by fastforce
  define f where "f = (\<lambda>k s. if (case get k (wk_conns (rz_workers s ! i)) of None \<Rightarrow> True | Some c \<Rightarrow> c_dead c) then s
      else worker_splice i k now (po_arrivals po k) s)"
  define v where "v = fold f (polled_keys (rv_splice_buffer (rz_cfg t)) (wk_conns (rz_workers t ! i)) po) u"
  let ?w = "on_worker i (\<lambda>w. w\<lparr>wk_conns := flush_all (po_sends po) (wk_conns w)\<rparr>) v"
  have s': "s' = worker_count i (worker_reap i now ?w)"
    using assms True u by (simp add: worker_round_def Let_def t_def v_def f_def)
  have "does now s t" unfolding t_def by (rule does_step [of "RvTake i"]) simp
  moreover have "does now t u" using u does_udp by (simp add: read_udp_def)
  moreover have "does now u v" unfolding v_def
    by (rule does_fold [of "\<lambda>_. True"])
      (auto simp: f_def does_refl intro: does_step [of "RvWorkSplice i k (po_arrivals po k)" for k])
  moreover have "does now v ?w" by (rule does_step [of "RvWorkFlush i (po_sends po)"]) simp
  moreover have "does now ?w (worker_reap i now ?w)" by (rule does_worker_reap)
  moreover have "does now (worker_reap i now ?w) s'" by (rule does_step [of "RvWorkCount i"]) (simp add: s')
  ultimately show ?thesis by (blast intro: does_trans)
qed

section \<open>What the invariant says\<close>

lemma census_ip_bound:
  assumes "counted s" shows "card {k. (k, ip) \<in> census s} \<le> rv_max_connections_per_ip (rz_cfg s)"
proof -
  have c: "counts (rz_per_ip s) (census s) snd" using assms by (simp add: counted_def)
  have "{k. (k, ip) \<in> census s} = fst ` {x \<in> census s. snd x = ip}" by force
  moreover have "inj_on fst {x \<in> census s. snd x = ip}" by (auto simp: inj_on_def)
  ultimately have "card {k. (k, ip) \<in> census s} = card {x \<in> census s. snd x = ip}" by (simp add: card_image)
  also have "\<dots> = (case get ip (rz_per_ip s) of None \<Rightarrow> 0 | Some n \<Rightarrow> n)" using counts_get [OF c] by simp
  finally show ?thesis using assms by (auto simp: counted_def split: option.split)
qed

end
