(* ===== verification/Sample_Rendezvous.thy ===== *)
theory Sample_Rendezvous
  imports Rendezvous_System Sample
begin

text \<open>
  A runtime with two spliced legs of one binding, on which the theorems on relayed streams are instantiated, and a first round
  of the loop.
\<close>

definition demo_leg :: "ConnKey \<Rightarrow> ConnKey \<Rightarrow> bool \<Rightarrow> bytes \<Rightarrow> bytes \<Rightarrow> bytes \<Rightarrow> RConn" where
  "demo_leg k other sd got sent out = (RConn_new k demo_src 5000)\<lparr>c_mode := MSplice, c_partner := other, c_relay_id := 5,
     c_relay_side := Some sd, c_read := got, c_written := sent, c_out := out\<rparr>"

text \<open>The first leg sent its join and two bytes; the second has been sent the acknowledgement and still waits for the bytes.\<close>

definition demo_one :: RConn where "demo_one = demo_leg 1 2 False [9, 1, 2] [] join_ok"
definition demo_two :: RConn where "demo_two = demo_leg 2 1 True [8] join_ok [1, 2]"

definition demo_new :: Rendezvous where
  "demo_new = Rendezvous_new RendezvousConfig_default (replicate 32 0) (\<lambda>_. False) (sconst demo_draws)"

definition demo_pair :: Rendezvous where
  "demo_pair = demo_new\<lparr>rz_conns := put 2 demo_two (put 1 demo_one Mapping.empty),
     rz_per_ip := put (ip_bytes (ep_ip demo_src)) 2 Mapping.empty, rz_next_key := 3\<rparr>"

lemma demo_new_fields:
  "rz_workers demo_new = []" "rz_cfg demo_new = RendezvousConfig_default" "rz_waiting demo_new = (\<lambda>_. Mapping.empty)"
  "rz_spliced demo_new = []" "rz_conns demo_new = Mapping.empty" "rz_per_ip demo_new = Mapping.empty" "rz_next_key demo_new = 1"
  by (simp_all add: demo_new_def Rendezvous_new_def RendezvousConfig_default_def)

lemma demo_new_start: "rz_start (0, demo_new)"
  unfolding rz_start_def demo_new_def by blast

lemma demo_legs:
  "c_key demo_one = 1" "c_partner demo_one = 2" "c_mode demo_one = MSplice" "c_peer demo_one = demo_src" "\<not> c_dead demo_one"
  "c_key demo_two = 2" "c_partner demo_two = 1" "c_mode demo_two = MSplice" "c_peer demo_two = demo_src" "\<not> c_dead demo_two"
  "conn_ok (256 * 1024) demo_one" "conn_ok (256 * 1024) demo_two" "linked demo_one demo_two" "linked demo_two demo_one"
  by (auto simp: demo_one_def demo_two_def demo_leg_def RConn_new_def conn_ok_def linked_def flows_def)

lemma demo_tab:
  "tab pl demo_pair k = (if pl = Loop \<and> k = 1 then Some demo_one else if pl = Loop \<and> k = 2 then Some demo_two else None)"
  by (cases pl) (auto simp: demo_pair_def demo_new_fields)

lemma demo_census: "census demo_pair = {(1, ip_bytes (ep_ip demo_src)), (2, ip_bytes (ep_ip demo_src))}"
  by (auto simp: census_def demo_tab demo_legs ip_of_conn_def simp del: tab.simps split: if_splits)

lemma demo_pair_inv: "rz_inv 0 demo_pair"
proof -
  have f: "rz_cfg demo_pair = RendezvousConfig_default" "rz_waiting demo_pair = (\<lambda>_. Mapping.empty)" "rz_spliced demo_pair = []"
    "rz_service demo_pair = rz_service demo_new" "rz_next_key demo_pair = 3"
    "rz_per_ip demo_pair = put (ip_bytes (ep_ip demo_src)) 2 Mapping.empty" "Mapping.keys (rz_conns demo_pair) = {1, 2}"
    by (auto simp: demo_pair_def demo_new_fields)
  have cap: "cap demo_pair = 256 * 1024" by (simp add: f RendezvousConfig_default_def)
  have "table_ok (cap demo_pair) (tab pl demo_pair)" for pl
    unfolding cap table_ok_def demo_tab using demo_legs by auto
  moreover have "apart demo_pair" "members demo_pair"
    using demo_legs demo_src_wf by (auto simp: apart_def members_def demo_tab f simp del: tab.simps split: if_splits)
  moreover have "counted demo_pair"
  proof -
    have "{x \<in> {(1::ConnKey, ip_bytes (ep_ip demo_src)), (2, ip_bytes (ep_ip demo_src))}. snd x = ip}
        = (if ip = ip_bytes (ep_ip demo_src) then {(1, ip_bytes (ep_ip demo_src)), (2, ip_bytes (ep_ip demo_src))} else {})" for ip by auto
    then show ?thesis unfolding counted_def counts_def demo_census by (simp add: f RendezvousConfig_default_def)
  qed
  moreover have "waits demo_pair" "to_hand demo_pair" by (simp_all add: waits_def to_hand_def f)
  moreover have "controls demo_pair" "sv_inv 0 (rz_service demo_pair)"
    using sv_inv_new demo_legs
    by (auto simp: controls_def demo_tab f simp del: tab.simps split: if_splits)
      (simp_all add: demo_new_def Rendezvous_new_def Service_new_def)
  ultimately show ?thesis by (simp add: rz_inv_def del: tab.simps)
qed

text \<open>The first connection.\<close>

lemma demo_accept:
  "accept_one (Some demo_src) 10 demo_new = demo_new\<lparr>rz_per_ip := put (ip_bytes (ep_ip demo_src)) 1 Mapping.empty, rz_next_key := 2,
     rz_conns := put 1 (RConn_new 1 demo_src 10) Mapping.empty\<rparr>"
  by (simp add: accept_one_def demo_new_fields open_connections_def RendezvousConfig_default_def Mapping.size_def increment_def)

lemma demo_accepted_reach: "rz_reach (10, accept_one (Some demo_src) 10 demo_new)"
  by (rule reach.step [OF reach.start [where init = rz_start, OF demo_new_start], of _ "(RvAccept (Some demo_src), 10)"])
    (simp_all add: rz_guard_def rz_step_def demo_src_wf demo_new_fields)

lemma demo_accepted_conns:
  "get k (rz_conns (accept_one (Some demo_src) 10 demo_new)) = (if k = 1 then Some (RConn_new 1 demo_src 10) else None)"
  "rz_cfg (accept_one (Some demo_src) 10 demo_new) = RendezvousConfig_default" "c_mode (RConn_new 1 demo_src 10) = MNew"
  by (auto simp: demo_accept demo_new_fields RConn_new_def)

text \<open>Every socket takes one byte.\<close>

lemma demo_flush:
  "\<exists>s' c p. run_ok rz_step rz_guard [(RvFlush (\<lambda>_. [Some 1]), 10)] (0, demo_pair)
     \<and> run rz_step [(RvFlush (\<lambda>_. [Some 1]), 10)] (0, demo_pair) = Some (10, s')
     \<and> tab Loop s' 1 = Some c \<and> c_mode c = MSplice \<and> c_partner c = 2 \<and> tab Loop s' 2 = Some p \<and> \<not> c_dead p
     \<and> c_read c = [9, 1, 2] \<and> c_out p = [2]"
proof -
  have j: "join_ok \<noteq> []" by (simp add: join_ok_def frame_def empty_message_bytes ser_Header_def kMaxFrame_def)
  show ?thesis
    by (simp add: rz_guard_def rz_step_def demo_pair_def flush_all_def Mapping.lookup_map_values demo_one_def demo_two_def
        demo_leg_def RConn_new_def j)
qed

text \<open>A round in which one connection arrives and nothing else happens.\<close>

definition demo_polled :: Polled where
  "demo_polled = \<lparr>po_accepts = [Some demo_src], po_udp = [], po_readable = (\<lambda>_. False), po_failed = (\<lambda>_. False),
     po_arrivals = (\<lambda>_. []), po_sends = (\<lambda>_. [])\<rparr>"

lemma demo_round: "\<exists>out s'. poll_once demo_polled 10 demo_new = Some (out, s') \<and> get 1 (rz_conns s') \<noteq> None"
proof -
  let ?a = "accept_one (Some demo_src) 10 demo_new" and ?c = "RConn_new 1 demo_src 10"
  let ?m = "put (1 :: ConnKey) ?c Mapping.empty"
  have c: "c_out ?c = []" "\<not> c_dead ?c" "c_mode ?c = MNew" "c_opened ?c = 10" by (simp_all add: RConn_new_def)
  have conns: "rz_conns ?a = ?m" "rz_spliced ?a = []" "rz_cfg ?a = RendezvousConfig_default"
    by (simp_all add: demo_accept demo_new_fields)
  have keys: "Mapping.ordered_keys (?m) = [1]" by (simp add: Mapping.ordered_keys_def)
  have flush: "flush_all (\<lambda>_. []) (?m) = ?m"
    by (rule mapping_eqI) (simp add: flush_all_def Mapping.lookup_map_values c)
  have expired: "reap_expired 10 ?a = ?a"
  proof -
    have "Mapping.map_values (\<lambda>_ c. if \<not> c_dead c \<and> expired RendezvousConfig_default (?m) 10 c then killed c else c)
        (?m) = ?m"
      by (rule mapping_eqI) (simp add: Mapping.lookup_map_values c expired_def splice_idle_def RendezvousConfig_default_def)
    then have "reap_expired 10 ?a = ?a\<lparr>rz_conns := ?m\<rparr>" unfolding reap_expired_def conns by simp
    then show ?thesis by (simp add: demo_accept)
  qed
  have "reap 10 ?a = ?a"
    by (simp add: reap_def expired conns keys end_partner_def reap_one_def c splice_orphan_def)
  moreover have "?a\<lparr>rz_conns := ?m, rz_spliced := []\<rparr> = ?a" unfolding demo_accept by (simp add: demo_new_def Rendezvous_new_def)
  ultimately have "reap 10 (?a\<lparr>rz_conns := ?m, rz_spliced := []\<rparr>) = ?a" by (simp only:)
  then have "poll_once demo_polled 10 demo_new = Some ([], tick_if_due 10 ?a)"
    using flush conns
    by (simp add: poll_once_def demo_polled_def polled_keys_def accept_all_def read_udp_def hand_off_def demo_new_fields Mapping.ordered_keys_def)
  then show ?thesis by (simp add: tick_if_due_def conns)
qed

text \<open>A registration read from its bytes.\<close>

definition demo_head :: Header where
  "demo_head = \<lparr>h_type = MT_Register, h_version = ctl_kVersion, h_flags = 0, h_txn_id = 9\<rparr>"

lemma demo_decodes: "\<exists>r. run_state (Register_decode demo_head) (Reader (ser_Register demo_msg)) = (Some demo_msg, r)"
proof -
  have "wf_Register demo_head demo_msg"
    by (simp add: wf_Register_def demo_head_def demo_msg_def demo_topic_def kTopicIdLen_def kMaxMeta_def)
  then have "fst (run_state (Register_decode demo_head) (Reader (ser_Register demo_msg @ []))) = Some demo_msg"
    by (rule reads_Reader [OF register.decode_ser])
  then show ?thesis by (metis append_Nil2 prod.collapse)
qed

end
