(* ===== verification/Spec2Isabelle.thy ===== *)
theory Spec2Isabelle
  imports Sample Sample_Channel Sample_Path Sample_Config Sample_Rendezvous
begin

text \<open>
  uConnect connects devices that share a topic. A node keeps one TCP control connection to a rendezvous server, registers records
  there, looks up peers, and is introduced to them; it then reaches a peer by NAT hole punching, directly over TCP, or through a
  relay of the server, and talks to it over a record channel (TCP) and a datagram channel (UDP) whose keys come from one Noise
  handshake. This development models the protocol library and the whole server, and proves what makes each part correct and what
  their composition guarantees. Paths below are relative to the repository.

  \<^bold>\<open>Shared vocabulary.\<close> \<open>Prelude\<close>: bytes and machine integers as words, strings of bytes as lists, the byte orders, and the
  collections \<open>wabs_simps\<close>, \<open>reads_intros\<close>, \<open>keeps_intros\<close> that carry the codec proofs. \<open>Maps\<close>: hash maps and ordered maps as
  mappings, and the counting maps behind every quota, with the law that they count a set. \<open>Transitions\<close>: runs, reachable
  states, and the locales \<open>guarded_system\<close> and \<open>total_system\<close>, interpreted on the registry (\<open>Registry_System\<close>), the control service
  (\<open>Service_System\<close>, \<open>Service_Live\<close>), the datagram channel (\<open>Channels\<close>), a punching attempt (\<open>Punch_Laws\<close>) and the server's runtime (\<open>Rendezvous_System\<close>).

  \<^bold>\<open>Wire layer\<close> (\<open>include/uconnect/types.hpp\<close>, \<open>src/wire\<close>). \<open>Types\<close>, \<open>Buffer\<close>: values, and the bounded cursors with their sticky
  error flag; a reader never leaves its buffer. \<open>Codec\<close>: the locale \<open>wire_codec\<close> (an encoder and a decoder that invert each other and
  stay in bounds), interpreted on every message of \<open>Messages\<close>, \<open>Control\<close> and \<open>Control_Codecs\<close>. \<open>Framing\<close>: length-prefixed framing;
  the messages read do not depend on how the stream is cut.

  \<^bold>\<open>Cryptography\<close> (\<open>src/crypto\<close>, \<open>third_party/poly1305.c\<close>). \<open>Primitives\<close>, \<open>Poly1305\<close>, \<open>Aead\<close>, \<open>Blake2s\<close>, \<open>Kdf\<close>, \<open>Noise\<close>: the
  code's own loops over 32- and 64-bit words, equal to the mathematical definitions where there is one (the tag of RFC 8439), the
  AEAD's round trip, and the two handshake patterns. The Curve25519 function is a parameter \<open>curve\<close> of the definitions that use it;
  agreement of two handshakes is stated under the hypothesis that it commutes.

  \<^bold>\<open>Channels\<close> (\<open>src/session\<close>). \<open>Session\<close>, \<open>Session_Laws\<close>: the datagram channel with its replay window (refined to the set of
  accepted numbers), its key ratchet and its generations. \<open>Tcp_Session\<close>, \<open>Tcp_Laws\<close>: the record channel from handshake to close,
  with the epochs of datagram keys. \<open>Channels\<close> puts both ends together.

  \<^bold>\<open>Paths\<close> (\<open>src/path\<close>, \<open>server/stun\<close>). \<open>Punch\<close>, \<open>Punch_Laws\<close>: hole punching as a state machine with its timers; it settles by its
  deadline and only authenticated answers validate a path. \<open>Stun\<close>, \<open>Stun_Laws\<close>: the STUN client and the NAT classification.

  \<^bold>\<open>Server\<close> (\<open>server\<close>). \<open>Registry\<close>: records, topics, listing, relay bindings; \<open>Registry_Inv\<close> and \<open>Registry_Fresh\<close> its invariant,
  \<open>Registry_Laws\<close> and \<open>Registry_Queries\<close> its behaviour. \<open>Control_Service\<close>: the handler of every message and datagram, the token
  buckets; \<open>Service_Laws\<close>, \<open>Service_System\<close> and \<open>Service_Live\<close> what it promises. \<open>Yaml\<close>, \<open>Config\<close>: the configuration file and the
  command line; \<open>Yaml_Laws\<close>, \<open>Config_Laws\<close>, \<open>Config_Sources\<close> (locale \<open>field_store\<close>, interpreted on the schema) show that what is
  printed is read back, which source of a value wins, and that no mistake passes. \<open>Rendezvous\<close>: the runtime around the service:
  connections and their modes, relay legs, the splice, worker threads, timeouts, one round of the loop and of a worker.
  \<open>Rendezvous_Inv\<close> has the invariant of the connections of one thread, \<open>Rendezvous_Laws\<close>, \<open>Rendezvous_Moves\<close> and \<open>Rendezvous_Leave\<close>
  that of the whole and its preservation, by a frame rule for what leaves the skeletons of the connections alone, a rule for
  connections that take on another use, one for removals and one for moves between threads. \<open>Rendezvous_System\<close> has the interleaved
  steps of all threads and shows that rounds are runs of them.

  \<^bold>\<open>Examples.\<close> The theories \<open>Sample\<close>, \<open>Sample_Channel\<close>, \<open>Sample_Path\<close>, \<open>Sample_Config\<close>, \<open>Sample_Rendezvous\<close> hold the concrete states and
  inputs on which the theorems of this theory are instantiated.

  \<^bold>\<open>Correspondence.\<close> A class is a record of its members and each method a function from the old state to the result and the new
  state, in the order of the sources and with their early returns; containers are lists, mappings or associations; an instant is a
  number of milliseconds on one clock. Loops are recursive functions with a termination proof; none uses fuel. The one kind of loop
  that need not end, drawing random values until one is new, takes its draws from a list and has no result when they run out;
  \<open>service_always_answers\<close> shows that enough distinct values suffice. Integers keep their width where they can wrap: packet numbers, generations,
  keys of connections, budgets, ports.

  \<^bold>\<open>Parameters.\<close> What is not code of the repository is an argument: the curve, random bytes and draws, the order
  \<^verbatim>\<open>std::stable_sort\<close> leaves, the file system of the configuration reader, what the operating system reports of a socket. The
  assumptions on them are hypotheses of the theorems that use them and each is met by a concrete function in the witness.
  Guards of runs: the clock does not go back, addresses of the operating system are canonical, 64-bit counters have not run
  through, and two devices do not collide in the hash that names them.

  \<^bold>\<open>Not modelled.\<close> \<open>src/api/node.cpp\<close>, the client's threads and callbacks around the state machines above; \<open>src/io/socket.cpp\<close>, the wrappers of
  system calls; \<open>src/capi\<close> and \<open>include/uconnect/uconnect_c.h\<close>, the C binding of the node's interface; \<open>server/main.cpp\<close>, \<open>tools\<close>, \<open>examples\<close>, \<open>web\<close>, \<open>deploy\<close> and
  \<open>tests\<close>; \<open>third_party/x25519.c\<close>, field arithmetic that is a parameter here; in \<open>src/crypto/random.cpp\<close> the system's random source.
  Times at which a thread is scheduled and data races are outside the model: the threads interleave at the granularity of the
  critical sections of the sources.
\<close>

section \<open>Wire layer\<close>

text \<open>
  C29. The framed stream is independent of how the transport cuts it: whatever chunks the bytes of a
  sequence of framed messages arrive in, the reader yields exactly those messages in order, and it
  is not broken at the end.
\<close>

theorem framed_stream_delivers:
  assumes "concat cs = concat (map frame ms)" "list_all (\<lambda>m. length m \<le> kMaxFrame) ms"
  shows "fst (read_stream (FrameReader_new kMaxFrame) cs) = ms
    \<and> \<not> fr_broken (snd (read_stream (FrameReader_new kMaxFrame) cs))"
  using read_stream_deframe [OF fr_idle_new, of kMaxFrame cs] deframe_frames [OF assms(2), of "[]"] assms(1)
  by (simp add: FrameReader_new_def deframe.simps [of _ "[]"])

theorem framed_stream_delivers_witness:
  "fst (read_stream (FrameReader_new kMaxFrame) [[0], [2, 7], [8, 0, 1], [9]]) = [[7, 8], [9]]"
  using framed_stream_delivers [of "[[0], [2, 7], [8, 0, 1], [9]]" "[[7, 8], [9]]"]
  by (simp add: frame_def kMaxFrame_def)

text \<open>
  Two deliveries of the same bytes are indistinguishable, malformed streams included: the same
  messages come out and the reader is broken after one exactly when it is after the other.
\<close>

theorem framing_segmentation_independent:
  assumes "concat cs = concat ds"
  shows "fst (read_stream (FrameReader_new mx) cs) = fst (read_stream (FrameReader_new mx) ds)
    \<and> fr_broken (snd (read_stream (FrameReader_new mx) cs)) = fr_broken (snd (read_stream (FrameReader_new mx) ds))"
  using read_stream_deframe [OF fr_idle_new, of mx cs] read_stream_deframe [OF fr_idle_new, of mx ds] assms
  by simp

theorem framing_segmentation_independent_witness:
  "fr_broken (snd (read_stream (FrameReader_new 4) [[0], [9], [1]])) = fr_broken (snd (read_stream (FrameReader_new 4) [[0, 9, 1]]))"
  using framing_segmentation_independent [of "[[0], [9], [1]]" "[[0, 9, 1]]" 4] by simp

text \<open>
  C31. A lookup reply survives the wire: header and body are read back from the message the server
  builds, for every reply whose fields are within the wire limits and that fits a frame.
\<close>

theorem lookup_reply_roundtrip:
  assumes "wf_LookupOk m" "8 + length (ser_LookupOk m) \<le> kMaxFrame"
  shows "\<exists>r r'. run_state (Header_decode ctl_kVersion)
      (Reader (ctl_message LookupOk_encode MT_LookupOk txn m fl)) = (Some (ctl_header MT_LookupOk txn fl), r)
    \<and> run_state LookupOk_decode r = (Some m, r') \<and> r_ok r'"
  using lookup_ok.parse_message [OF assms(1) _ assms(2)] by (simp add: classify_def)

theorem lookup_reply_roundtrip_witness:
  "\<exists>r r'. run_state (Header_decode ctl_kVersion)
      (Reader (ctl_message LookupOk_encode MT_LookupOk 7
        \<lparr>lo_id = replicate 16 3, lo_mode = Keyed, lo_total = 5, lo_entries =
           [\<lparr>pe_dev_id = replicate 16 1, pe_age_secs = 2, pe_stale = False, pe_cands = [], pe_meta = [9]\<rparr>]\<rparr> 0))
      = (Some (ctl_header MT_LookupOk 7 0), r)
    \<and> run_state LookupOk_decode r = (Some
        \<lparr>lo_id = replicate 16 3, lo_mode = Keyed, lo_total = 5, lo_entries =
           [\<lparr>pe_dev_id = replicate 16 1, pe_age_secs = 2, pe_stale = False, pe_cands = [], pe_meta = [9]\<rparr>]\<rparr>, r') \<and> r_ok r'"
  by (rule lookup_reply_roundtrip) code_simp+

section \<open>The rendezvous server\<close>

text \<open>
  C1. Whatever connections open and close, whatever messages and datagrams arrive and
  however the timer ticks, from an empty server on, the service's invariant holds: the registry's maps
  agree with each other, every counter counts what it says, every quota is kept, everything stored can
  be put on the wire, and everything stored belongs to an open connection.
\<close>

theorem service_invariant:
  assumes "sv_reach (clock, s)"
  shows "sv_inv clock s"
  using assms by (rule sv_reach_inv)

theorem service_invariant_witness:
  "\<exists>clock s. run sv_step demo_run (0, Service_new demo_empty ControlConfig_default) = Some (clock, s) \<and> sv_inv clock s"
  using demo_run_ok(2) service_invariant [OF demo_run_reach] by auto



text \<open>
  Nothing outlives its connection: in every reachable state, the owner of
  each record and both parties to each relay binding are open connections.
\<close>

theorem service_owners_connected:
  assumes "sv_reach (clock, s)"
  shows "(\<forall>d e. get d (rg_by_dev (sv_reg s)) = Some e \<longrightarrow> get (en_owner e) (sv_conns s) \<noteq> None)
    \<and> (\<forall>i rl. get i (rg_relays (sv_reg s)) = Some rl \<longrightarrow>
        get (fst (ry_owner rl)) (sv_conns s) \<noteq> None \<and> get (snd (ry_owner rl)) (sv_conns s) \<noteq> None)"
proof -
  have "parties (sv_reg s) \<subseteq> Mapping.keys (sv_conns s)" using sv_reach_inv [OF assms] by (simp add: sv_inv_def)
  then show ?thesis unfolding parties_def rec_owners_def relay_parties_def get_None_keys by blast
qed

theorem service_owners_connected_witness:
  "\<exists>clock s. run sv_step demo_run (0, Service_new demo_empty ControlConfig_default) = Some (clock, s)
     \<and> (\<forall>d e. get d (rg_by_dev (sv_reg s)) = Some e \<longrightarrow> get (en_owner e) (sv_conns s) \<noteq> None)"
  using demo_run_ok(2) service_owners_connected [OF demo_run_reach] by fastforce

text \<open>
  A message makes the service write only to open connections, and it never
  opens or closes one.
\<close>

theorem messages_stay_inside:
  assumes "sv_reach (clock, s)" "clock \<le> now" "message_guard key msg s" "on_message key msg now dw s = Some (x, s')"
  shows "(\<forall>f \<in> set (rs_out x). get (fm_to f) (sv_conns s) \<noteq> None) \<and> Mapping.keys (sv_conns s') = Mapping.keys (sv_conns s)"
  using on_message_inv [OF sv_reach_inv [OF assms(1)] assms(2-4)] on_message_conns [OF assms(4)] by (simp add: get_None_keys)

theorem messages_stay_inside_witness:
  "\<exists>x s'. on_message 1 demo_keepalive 2000 demo_draws demo_service = Some (x, s') \<and> rs_out x = [demo_ok]
    \<and> get (fm_to demo_ok) (sv_conns demo_service) \<noteq> None"
  using messages_stay_inside [OF demo_service_reach _ demo_keepalive_guard demo_answer [of demo_draws]]
  unfolding demo_answer by simp

text \<open>
  C16. The datagram path cannot be used to amplify traffic: whatever the datagram and the state, at
  most one datagram is sent in answer and it is no longer than the one that caused it.
\<close>

theorem udp_no_amplification:
  "length (fst (on_udp src dgram now s)) \<le> 1
   \<and> sum_list (map (\<lambda>o'. length (ud_data o')) (fst (on_udp src dgram now s))) \<le> length dgram"
  using on_udp_one on_udp_small by blast



section \<open>The registry\<close>

text \<open>
  C18. The limits of the configuration hold in every reachable state: the number of records, of
  topics and of relay bindings, the records of one address in all and in one topic, and the bytes a binding
  has carried.
\<close>

theorem registry_quotas:
  assumes "reg_reach (clock, r)"
  shows "card (Mapping.keys (rg_by_dev r)) \<le> rc_max_entries (rg_cfg r)
    \<and> card (Mapping.keys (rg_topics r)) \<le> rc_max_topics (rg_cfg r)
    \<and> (\<forall>k. card {d. \<exists>e. get d (rg_by_dev r) = Some e \<and> ip_key (en_bound_addr e) = k} \<le> max 1 (rc_max_per_ip_total (rg_cfg r)))
    \<and> (\<forall>t k. card {d. \<exists>e. get d (rg_by_dev r) = Some e \<and> en_topic_id e = t \<and> ip_key (en_bound_addr e) = k}
          \<le> max 1 (rc_max_per_ip_per_topic (rg_cfg r)))
    \<and> card (Mapping.keys (rg_relays r)) \<le> rc_max_relays (rg_cfg r)
    \<and> (\<forall>i rl. get i (rg_relays r) = Some rl \<longrightarrow> ry_bytes rl \<le> rc_relay_max_bytes (rg_cfg r))"
proof -
  have "quota_inv (rg_cfg r) (rg_per_ip_total r) (ent r) (shape r)" "relay_inv r"
    using reg_reach_inv [OF assms] by (simp_all add: reg_inv_def core_inv_def)
  then show ?thesis unfolding quota_inv_def relay_inv_def ent_sets by blast
qed

theorem registry_quotas_witness:
  "reg_reach (5000, demo_reg) \<and> card (Mapping.keys (rg_by_dev demo_reg)) \<le> 1000000"
  using registry_quotas [OF demo_reg_reach] demo_reg_reach by (simp add: demo_fields RegistryConfig_default_def)

text \<open>
  C20. The count of live peers shown for a topic is exact: after the expiry that every listing
  and statistics request runs, the counter of a topic is the number of its records seen within the staleness period.
\<close>

theorem fresh_counts_exact:
  assumes "reg_reach (clock, r)" "clock \<le> now" "get t (rg_topics (expire_fresh now r)) = Some ts"
  shows "tst_fresh ts = of_nat (card (fresh_members r t now))"
  using reg_reach_inv [OF assms(1)] assms(2,3)
  by (auto simp: reg_inv_def fresh_inv_def intro: fresh_counter core_inv_topics)

theorem fresh_counts_exact_witness:
  "\<exists>ts. get demo_topic (rg_topics (expire_fresh 6000 demo_reg)) = Some ts \<and> tst_fresh ts = 1"
proof -
  have "shape (expire_fresh 6000 demo_reg) demo_topic = shape demo_reg demo_topic" by (simp add: shape_lists)
  then obtain ts where ts: "get demo_topic (rg_topics (expire_fresh 6000 demo_reg)) = Some ts"
    by (auto simp: shape_def demo_fields)
  have "fresh_members demo_reg demo_topic 6000 = {demo_dev}"
    by (auto simp: fresh_members_def demo_fields demo_entry_def is_fresh_def RegistryConfig_default_def)
  then show ?thesis using fresh_counts_exact [OF demo_reg_reach _ ts] ts by simp
qed

text \<open>
  C21. A lookup returns a duplicate-free sample of the topic's records, of the size asked for (30 when
  nothing is asked, never more than 100) or the whole topic, with the live records before the stale ones.
\<close>

theorem lookup_sample:
  assumes "reg_reach (clock, r)" "get t (rg_topics r) = Some ts" "wf_draws (length (tst_members ts)) dw"
    "lookup t m w now dw r = Some (x, r')"
  shows "length (lr_entries x) = min (unat (clamp_max m)) (length (tst_members ts))
    \<and> distinct (map pe_dev_id (lr_entries x))
    \<and> pe_dev_id ` set (lr_entries x) \<subseteq> {d. \<exists>e. get d (rg_by_dev r) = Some e \<and> en_topic_id e = t}
    \<and> (\<exists>k. \<forall>i < length (lr_entries x). pe_stale (lr_entries x ! i) = (k \<le> i))"
proof -
  have "in_topic (ent r) t \<subseteq> {d. \<exists>e. get d (rg_by_dev r) = Some e \<and> en_topic_id e = t}"
    by (auto simp: in_topic_def ent_def)
  then show ?thesis using lookup_result [OF reg_reach_inv [OF assms(1)] assms(2-4)] by blast
qed

theorem lookup_sample_witness:
  "\<exists>x r'. lookup demo_topic 0 True 6000 demo_draws demo_reg = Some (x, r') \<and> length (lr_entries x) = 1
     \<and> distinct (map pe_dev_id (lr_entries x))"
proof -
  have t: "get demo_topic (rg_topics demo_reg) = Some demo_state" "length (tst_members demo_state) = 1"
    by (simp_all add: demo_fields demo_state_def)
  have dw: "wf_draws (length (tst_members demo_state)) demo_draws"
    by (auto simp: t wf_draws_def demo_draws_def)
  have m: "clamp_max 0 = 30" by code_simp
  obtain x r' where "lookup demo_topic 0 True 6000 demo_draws demo_reg = Some (x, r')"
    using lookup_returns [OF t(1), of 0 demo_draws True 6000] by (auto simp: t m demo_draws_def)
  then show ?thesis using lookup_sample [OF demo_reg_reach t(1) dw] by (fastforce simp: t m)
qed

text \<open>
  C22. The directory can be read in full: a client that follows the cursor until it is 0 sees every
  listed topic exactly once, in order of creation, whatever page size it asks for, and stops after at most as many
  requests as there are topics.
\<close>

theorem listing_pages_complete:
  assumes "reg_reach (clock, r)" "length (listed_keys r cursor) < fuel"
  shows "all_pages fuel cursor l now r = Some (map (listed_summary (expire_fresh now r)) (listed_keys r cursor))"
  using all_pages_complete [OF _ assms(2)] reg_reach_inv [OF assms(1)] by (simp add: reg_inv_def)

theorem listing_pages_complete_witness:
  "all_pages 5 0 0 6000 demo_reg = Some [listed_summary (expire_fresh 6000 demo_reg) 1]"
proof -
  have k: "listed_keys demo_reg 0 = [1]" by (simp add: listed_keys_def demo_fields Mapping.ordered_keys_def)
  show ?thesis using listing_pages_complete [OF demo_reg_reach, of 0 5 0 6000] by (simp add: k)
qed

text \<open>
  While a topic lives its mode and its place in the listing never change, and a topic that
  was hidden stays hidden, through every operation.
\<close>

theorem topic_mode_sticks:
  assumes "reg_reach (clock, r)" "reg_guard (op, now, dw) (clock, r)" "reg_apply op now dw r = Some r'"
    "get t (rg_topics r) = Some a" "get t (rg_topics r') = Some b"
  shows "tst_mode b = tst_mode a \<and> tst_order b = tst_order a \<and> (tst_listed b \<longrightarrow> tst_listed a)"
proof -
  have "shape r t = Some (unfresh a)" "shape r' t = Some (unfresh b)" using assms(4,5) by (simp_all add: shape_def)
  with sticky_apply [OF reg_reach_inv [OF assms(1)] assms(2,3)]
  have "tst_mode (unfresh b) = tst_mode (unfresh a) \<and> tst_order (unfresh b) = tst_order (unfresh a)
      \<and> (tst_listed (unfresh b) \<longrightarrow> tst_listed (unfresh a))"
    unfolding sticky_def by blast
  then show ?thesis by simp
qed

theorem topic_mode_sticks_witness:
  "\<exists>b. get demo_topic (rg_topics (snd (refresh demo_dev 1 6000 demo_reg))) = Some b \<and> tst_mode b = Keyed \<and> tst_order b = 1"
proof -
  let ?r = "snd (refresh demo_dev 1 6000 demo_reg)"
  have "shape ?r demo_topic = shape demo_reg demo_topic"
    by (simp add: refresh_def demo_fields demo_entry_def shape_lists)
  then obtain b where b: "get demo_topic (rg_topics ?r) = Some b" by (auto simp: shape_def demo_fields)
  have "tst_mode b = tst_mode demo_state \<and> tst_order b = tst_order demo_state \<and> (tst_listed b \<longrightarrow> tst_listed demo_state)"
    by (rule topic_mode_sticks [OF demo_reg_reach, of "OpRefresh demo_dev 1" 6000 demo_draws ?r demo_topic])
      (simp_all add: reg_guard_def demo_fields b)
  with b show ?thesis by (simp add: demo_state_def)
qed

text \<open>
  C23. Closing a connection removes exactly the records it owns and the relay bindings it is a party to,
  leaves every other record and binding as it was, and reports the number of records removed.
\<close>

theorem close_drops_exactly:
  assumes "reg_reach (clock, r)"
  shows "(\<forall>d. get d (rg_by_dev (snd (drop_owner ow r))) = None
            \<longleftrightarrow> (case get d (rg_by_dev r) of None \<Rightarrow> True | Some e \<Rightarrow> en_owner e = ow))
    \<and> (\<forall>i. get i (rg_relays (snd (drop_owner ow r)))
        = (case get i (rg_relays r) of None \<Rightarrow> None
           | Some rl \<Rightarrow> if fst (ry_owner rl) = ow \<or> snd (ry_owner rl) = ow then None else Some rl))
    \<and> fst (drop_owner ow r) = card {d. \<exists>e. get d (rg_by_dev r) = Some e \<and> en_owner e = ow}"
proof -
  note D = drop_owner_spec [OF reg_reach_inv [OF assms], of ow]
  have own: "owned_by (ent r) ow = {d. \<exists>e. get d (rg_by_dev r) = Some e \<and> en_owner e = ow}"
    by (auto simp: owned_by_def ent_def)
  have "get d (rg_by_dev (snd (drop_owner ow r))) = None \<longleftrightarrow> d \<in> owned_by (ent r) ow \<or> get d (rg_by_dev r) = None" for d
    using D(2) [of d] by (auto simp: ent_def split: if_splits)
  then show ?thesis using D(3,4) by (auto simp: own split: option.split)
qed

theorem close_drops_exactly_witness:
  "fst (drop_owner 1 demo_reg) = 1 \<and> get demo_dev (rg_by_dev (snd (drop_owner 1 demo_reg))) = None"
proof -
  have "{d. \<exists>e. get d (rg_by_dev demo_reg) = Some e \<and> en_owner e = 1} = {demo_dev}"
    by (auto simp: demo_fields demo_entry_def)
  then show ?thesis using close_drops_exactly [OF demo_reg_reach, of 1] by (simp add: demo_fields demo_entry_def)
qed



text \<open>
  C25. However many datagrams are charged to a relay binding, the bytes it lets through add up to at most its
  budget, as numbers: the 64-bit counter never wraps around the limit.
\<close>

theorem relay_stays_in_budget:
  assumes "get i (rg_relays r) = Some rl" "ry_bytes rl \<le> rc_relay_max_bytes (rg_cfg r)"
    "unat (rc_relay_max_bytes (rg_cfg r)) < 2 ^ 63" "\<forall>(n, now) \<in> set cs. unat n < 2 ^ 63"
  shows "unat (ry_bytes rl) + fst (charges i cs r) \<le> unat (rc_relay_max_bytes (rg_cfg r))"
  using assms by (rule charges_within)

theorem relay_stays_in_budget_witness:
  "fst (charges 5 [(100, 6000), (200, 7000)] demo_relays) \<le> 33554432"
  using relay_stays_in_budget [of demo_relays 5 demo_relay "[(100, 6000), (200, 7000)]"]
  by (simp add: demo_relays_def demo_relay_def RegistryConfig_default_def)

text \<open>
  C26. The relay is no open proxy: a datagram is forwarded only when it comes from the address one side
  has bound with its token, only to the address the other side has bound, and only within the budget.
\<close>

theorem relay_only_between_parties:
  assumes "udp_forward i src n now r = (Some dst, r')"
  shows "\<exists>rl one. get i (rg_relays r) = Some rl \<and> ry_kind rl = RK_Udp \<and> \<not> ry_exhausted rl
    \<and> bound_to src (side one (ry_udp rl)) \<and> side (\<not> one) (ry_udp rl) = Some dst
    \<and> ry_bytes rl + n \<le> rc_relay_max_bytes (rg_cfg r)"
  using udp_forward_bound [OF assms] by metis

theorem relay_only_between_parties_witness:
  "\<exists>r'. udp_forward 5 demo_src 100 6000 demo_relays = (Some (demo_src\<lparr>ep_port := 5000\<rparr>), r')
     \<and> (\<exists>rl one. get 5 (rg_relays demo_relays) = Some rl \<and> bound_to demo_src (side one (ry_udp rl)))"
proof -
  have "fst (udp_forward 5 demo_src 100 6000 demo_relays) = Some (demo_src\<lparr>ep_port := 5000\<rparr>)"
    by (simp add: udp_forward_def demo_relays_def demo_relay_def udp_from_def bound_to_def relay_charge_def side_def
        RegistryConfig_default_def)
  then obtain r' where "udp_forward 5 demo_src 100 6000 demo_relays = (Some (demo_src\<lparr>ep_port := 5000\<rparr>), r')"
    by (metis prod.collapse)
  with relay_only_between_parties [OF this] show ?thesis by blast
qed

text \<open>
  The answer to a lookup is always a frame with the sample itself: cut to the frame size it can be
  encoded, so the fallback error for an oversized reply is never sent.
\<close>

theorem lookup_reply_is_sample:
  assumes "sv_reach (clock, s)" "length (lk_id m) = kTopicIdLen"
    "lookup (lk_id m) (lk_max m) (lk_want_meta m) now dw (sv_reg s) = Some (x, r')"
  shows "ctl_message LookupOk_encode MT_LookupOk txn \<lparr>lo_id = lk_id m, lo_mode = lr_mode x, lo_total = lr_total x,
           lo_entries = take (fit_count lookup_base 0 (lr_entries x)) (lr_entries x)\<rparr> 0 \<noteq> []"
  using lookup_reply_fits [OF _ assms(2,3)] sv_reach_inv [OF assms(1)] by (simp add: sv_inv_def)

theorem lookup_reply_is_sample_witness:
  "\<exists>x r'. lookup (replicate 16 7) 0 True 2000 demo_draws (sv_reg demo_service) = Some (x, r')
    \<and> ctl_message LookupOk_encode MT_LookupOk 9 \<lparr>lo_id = replicate 16 7, lo_mode = lr_mode x, lo_total = lr_total x,
         lo_entries = take (fit_count lookup_base 0 (lr_entries x)) (lr_entries x)\<rparr> 0 \<noteq> []"
proof -
  let ?m = "\<lparr>lk_id = replicate 16 7, lk_max = 0, lk_want_meta = True\<rparr> :: Lookup"
  obtain x r' where "lookup (replicate 16 7) 0 True 2000 demo_draws (sv_reg demo_service) = Some (x, r')"
    by (simp add: lookup_def demo_service_def bump_lookups_def)
  with lookup_reply_is_sample [OF demo_service_reach, of ?m 2000 demo_draws x r' 9] show ?thesis
    by (auto simp: kTopicIdLen_def)
qed

section \<open>The secured connection\<close>

text \<open>
  C2. Two peers that agree on topic, key epoch, pre-shared key and attempt always reach an established
  connection in one round trip, over any Diffie-Hellman function that commutes and does not give the all-zero
  output: each holds the other's keys, the handshake hash and exported secret are the same, and nothing is left
  unread.
\<close>

theorem connection_established:
  assumes "dh_ok curve base a b" "length self = 16" "length peer = 16" "length attempt = 16" "length pad = 16"
    "i = tcp_initiate curve base a pad cfg topic ep psk self peer attempt now"
    "r = tcp_respond cfg' topic ep psk peer self attempt now'"
    "r' = on_bytes curve base b (t_out i) now1 r"
    "i' = on_bytes curve base c (t_out r') now2 (snd (take_output i))"
  shows "mirrored i' r' \<and> t_in i' = [] \<and> t_in r' = [] \<and> t_out i' = []
    \<and> t_events i' = [TEstablished] \<and> t_events r' = [TEstablished]"
  using assms by (rule tcp_handshake)

theorem connection_established_witness:
  "mirrored demo_i' demo_r' \<and> t_events demo_i' = [TEstablished] \<and> t_events demo_r' = [TEstablished]"
  using connection_established [OF demo_dh _ _ _ _ demo_connection] by simp

text \<open>
  C3. From the two constructors to the delivered records: after the handshake, whatever records the
  initiator sends and however the transport cuts its bytes, the responder's application sees exactly those records, in
  order, after the event that the connection is up; rekeying included.
\<close>

theorem connection_delivers_records:
  assumes "dh_ok curve base a b" "length self = 16" "length peer = 16" "length attempt = 16" "length pad = 16"
    "i = tcp_initiate curve base a pad cfg topic ep psk self peer attempt now"
    "r = tcp_respond cfg topic ep psk peer self attempt now'"
    "r' = on_bytes curve base b (t_out i) now1 r"
    "i' = on_bytes curve base c (t_out r') now2 (snd (take_output i))"
    "tc_max_record cfg + 17 < 2 ^ 32" "list_all (\<lambda>(k, x). k \<ge> kFirstUserKind \<and> length x \<le> tc_max_record cfg) rs"
    "x @ concat xs = t_out (send_all now3 rs i')"
  shows "t_events (fold (\<lambda>c. on_bytes curve base sk c now4) xs (on_bytes curve base sk x now4 r'))
    = TEstablished # map (\<lambda>(k, x). TRecord k x) rs"
  using assms by (rule connection_records)

theorem connection_delivers_records_witness:
  "let out = t_out (send_all 1300 [(16, [1, 2, 3]), (17, [])] demo_i')
   in t_events (fold (\<lambda>c. on_bytes demo_curve demo_base [] c 1400) [drop 5 out]
        (on_bytes demo_curve demo_base [] (take 5 out) 1400 demo_r'))
        = [TEstablished, TRecord 16 [1, 2, 3], TRecord 17 []]"
proof -
  let ?out = "t_out (send_all 1300 [(16, [1, 2, 3]), (17, [])] demo_i')"
  have o: "take 5 ?out @ concat [drop 5 ?out] = ?out" by simp
  show ?thesis
    using connection_delivers_records [OF demo_dh _ _ _ _ demo_connection _ _ o]
    unfolding Let_def by (simp add: TcpSessionConfig_default_def kFirstUserKind_def)
qed

text \<open>
  C13. The connection does not depend on how its bytes arrive, during the handshake and after it,
  well-formed or not: fed in pieces or at once, the session ends in the same state, up to bytes left unread in a closed one.
\<close>

theorem stream_segmentation_irrelevant:
  "t_norm (fold (\<lambda>c. on_bytes curve base sk c now) cs (on_bytes curve base sk c now s)) =
     t_norm (on_bytes curve base sk (c @ concat cs) now s)"
  by (rule on_bytes_chunks)

text \<open>
  C14. Both ends of a connection derive the same keys for a datagram channel: where one obtains keys for an
  epoch, so does the other, with sending and receiving exchanged and the same probe key and connection id, and both are
  again in step.
\<close>

theorem datagram_keys_match:
  assumes "mirrored i r" "datagram_keys e i = (Some k, i')"
  shows "\<exists>k' r'. datagram_keys e r = (Some k', r') \<and> dk_send k = dk_recv k' \<and> dk_recv k = dk_send k'
    \<and> dk_probe k = dk_probe k' \<and> dk_conn_id k = dk_conn_id k' \<and> mirrored i' r'"
  using assms by (rule datagram_keys_agree)

theorem datagram_keys_match_witness:
  "\<exists>k i' k' r'. datagram_keys 3 demo_i' = (Some k, i') \<and> datagram_keys 3 demo_r' = (Some k', r') \<and> dk_send k = dk_recv k'"
proof -
  have "fst (datagram_keys 3 demo_i') \<noteq> None"
    using demo_mirrored by (simp add: datagram_keys_def demo_epoch mirrored_def max_datagram_epoch_skip_def split: prod.split)
  then obtain k i' where k: "datagram_keys 3 demo_i' = (Some k, i')" by (cases "datagram_keys 3 demo_i'") auto
  with datagram_keys_match [OF demo_mirrored k] show ?thesis by blast
qed

text \<open>
  C15. The keys of a datagram channel are handed out once: the epochs for which a session returns keys,
  whatever epochs are asked for, are strictly increasing.
\<close>

theorem datagram_epochs_never_reused: "sorted_wrt (<) (epochs es s)"
  using epochs_increasing by blast

section \<open>The datagram channel\<close>

text \<open>
  C10. Through any sequence of operations within the width of its counters, an established channel holds
  the ratchet's key for its sending generation, and for receiving the key of the highest packet accepted and the one before it.
\<close>

theorem channel_keys_in_step:
  assumes "run_ok chan_step chan_guard ops (Session_new cfg peer path a b conn now)"
    "run chan_step ops (Session_new cfg peer path a b conn now) = Some s" "s_state s = Established"
  shows "keys_inv (CipherState_of a) (CipherState_of b) s"
  using chan.run_inv [OF _ assms(1,2), of "CipherState_of a" "CipherState_of b"] keys_inv_new assms(3)
  by (simp add: chan_inv_def)

theorem channel_keys_in_step_witness:
  "\<exists>s. run chan_step [OpConfigure 10, OpSetPath ep_default 1500, OpPollEvent] demo_a = Some s
     \<and> keys_inv (CipherState_of (replicate 32 1)) (CipherState_of (replicate 32 2)) s"
proof -
  let ?ops = "[OpConfigure 10, OpSetPath ep_default 1500, OpPollEvent]"
  have ok: "run_ok chan_step chan_guard ?ops demo_a" and "\<exists>s. run chan_step ?ops demo_a = Some s \<and> s_state s = Established"
    by (simp_all add: chan_step_def chan_guard_def demo_a_def Session_new_def configure_rekey_shift_def set_path_def
        sess_poll_event_def)
  then show ?thesis using channel_keys_in_step [OF ok [unfolded demo_a_def]] unfolding demo_a_def by blast
qed

text \<open>
  C9. A payload sent over the datagram channel is delivered: when the receiver's window still admits its number and
  its generation is within reach, the packet the sender produced makes the receiver's application see exactly that payload,
  whatever the ratchet positions of the two ends.
\<close>

theorem datagram_arrives:
  assumes "keys_inv sr rr s" "sess_send p now s = (Some c, s')" "keys_inv sr' sr r" "s_state r = Established"
    "s_conn_id r = s_conn_id s" "sc_rekey_shift (s_cfg r) = sc_rekey_shift (s_cfg s)" "6 \<le> sc_rekey_shift (s_cfg r)"
    "fst (rw_accept c (s_replay r))" "in_reach c now' r"
  shows "s_events (on_datagram from (out_data (last (s_out s'))) now' r) =
    s_events r @ (if ep_eq from (s_path r) then [] else [EvPathChanged from]) @ [EvData p]"
  using assms by (rule datagram_delivered)

theorem datagram_arrives_witness:
  "\<exists>s'. sess_send [1, 2, 3] 2000 demo_a = (Some 0, s')
    \<and> s_events (on_datagram ep_default (out_data (last (s_out s'))) 2100 demo_b) = [EvData [1, 2, 3]]"
proof -
  obtain s' where s': "sess_send [1, 2, 3] 2000 demo_a = (Some 0, s')" using demo_sent by blast
  have "in_reach 0 2100 demo_b" "fst (rw_accept 0 (s_replay demo_b))"
    by (simp_all add: in_reach_def ReplayWindow_new_def rw_accept_def)
  from datagram_arrives [OF demo_keys(1) s' demo_keys(2) _ _ _ _ this(2,1), of ep_default] s' show ?thesis
    by (simp add: SessionConfig_default_def ep_eq_def ip_eq_def)
qed

text \<open>
  C8. A datagram that was not sealed with the channel's key for its number, or whose number the channel has
  already accepted, changes no key, no window, no counter, no path and produces no event: only the
  time at which the next far jump may be tried can move.
\<close>

theorem forged_and_replayed_ignored:
  assumes "keys_inv sr rr s"
    "forged rr s d \<or> (\<exists>ty t. sess_parse d = Some (ty, t) \<and> \<not> fst (rw_accept (tr_counter t) (s_replay s)))"
  shows "\<exists>j. on_datagram from d now s = s\<lparr>s_next_far_jump := j\<rparr>"
  using assms forged_datagram_ignored replayed_datagram_ignored by blast

theorem forged_and_replayed_ignored_witness:
  "\<exists>j. on_datagram ep_default [1, 2, 3] 2000 demo_b = demo_b\<lparr>s_next_far_jump := j\<rparr>"
proof -
  have "sess_parse [1, 2, 3] = None" by code_simp
  then have "forged (CipherState_of (replicate 32 1)) demo_b [1, 2, 3]" by (simp add: forged_def)
  then show ?thesis using forged_and_replayed_ignored [OF demo_keys(2)] by blast
qed



text \<open>
  C12. The 64-bit replay window implements its specification, the set of numbers accepted so far: a number is accepted
  exactly when it is not in the set and not 64 or more below its maximum, and the window then represents the set with it.
\<close>

theorem replay_window_refines:
  assumes "rw_rel rw A"
  shows "fst (rw_accept c rw) = window_spec (unat c) A
    \<and> rw_rel (snd (rw_accept c rw)) (if window_spec (unat c) A then insert (unat c) A else A)"
  using assms by (rule rw_accept_refines)

theorem replay_window_refines_witness:
  "fst (rw_accept 5 ReplayWindow_new) \<and> rw_rel (snd (rw_accept 5 ReplayWindow_new)) {5}"
  using replay_window_refines [OF rw_rel_new, of 5] by (simp add: window_spec_def)

section \<open>Cryptography\<close>

text \<open>
  C27. The cipher's decryption inverts its encryption and accepts nothing else: into a buffer that is large enough it
  returns the plaintext exactly when the ciphertext is the one encryption produces for it, and
  otherwise reports failure and has overwritten the plaintext area with zeros.
\<close>

theorem aead_opens_only_seals:
  assumes "length ct \<le> length out + kTagLen"
  shows "(\<forall>pt. aead_decrypt key n ad ct out = (True, pt @ drop (length pt) out) \<and> length ct = length pt + kTagLen
        \<longleftrightarrow> ct = aead_encrypt key n ad pt [])
    \<and> (\<not> fst (aead_decrypt key n ad ct out) \<longrightarrow> kTagLen \<le> length ct \<longrightarrow>
        take (length ct - kTagLen) (snd (aead_decrypt key n ad ct out)) = replicate (length ct - kTagLen) 0)"
proof -
  note D = aead_decrypt_opened [OF assms, of key n ad]
  have "aead_decrypt key n ad ct out = (True, pt @ drop (length pt) out) \<and> length ct = length pt + kTagLen
      \<longleftrightarrow> aead_open key n ad ct = Some pt" for pt
    using opened_length [of key n ad ct] unfolding D kTagLen_def
    by (cases "aead_open key n ad ct") (auto dest: append_eq_append_conv [THEN iffD1, rotated])
  then show ?thesis using D by (auto simp: opened_iff aead_encrypt_seal split: option.splits)
qed

theorem aead_opens_only_seals_witness:
  "aead_decrypt (replicate 32 1) 5 [] (aead_encrypt (replicate 32 1) 5 [] [7, 8] []) [0, 0] = (True, [7, 8])"
proof -
  let ?ct = "aead_encrypt (replicate 32 1) 5 [] [7, 8] []"
  have "length ?ct \<le> length [0, 0 :: byte] + kTagLen" by (simp add: aead_encrypt_seal kTagLen_def)
  from aead_opens_only_seals [OF this, THEN conjunct1, THEN spec, of "replicate 32 1" 5 "[]" "[7, 8]"] show ?thesis by simp
qed

text \<open>
  C28. The incremental computation of the authentication tag, with its partial blocks and padding calls, is the one-shot
  authenticator over the string RFC 8439 lays down, whatever the uninitialised block buffer held.
\<close>

theorem aead_tag_is_rfc8439:
  assumes "length buf = 16"
  shows "poly1305_tag_in buf key nonce ad ct = poly1305_mac (chacha20_block key 0 nonce) (aead_layout ad ct)"
  using assms by (rule poly1305_tag_layout)

theorem aead_tag_is_rfc8439_witness:
  "poly1305_tag_in (replicate 16 9) (replicate 32 1) (replicate 12 0) [1] [2, 3]
     = poly1305_mac (chacha20_block (replicate 32 1) 0 (replicate 12 0)) (aead_layout [1] [2, 3])"
  using aead_tag_is_rfc8439 [of "replicate 16 9" "replicate 32 1" "replicate 12 0" "[1]" "[2, 3]"] by simp

text \<open>
  Two short authentication strings read aloud are equal only if the 24 bits derived from the two handshake
  hashes are, so a listener compares all of them.
\<close>

theorem sas_tells_apart:
  "sas_string h1 = sas_string h2 \<longleftrightarrow> hkdf h1 [] kInfoSas 3 = hkdf h2 [] kInfoSas 3"
  unfolding sas_string_def
  using sas_words_inj [OF sas_bits_less sas_bits_less] sas_bits_inj [of "hkdf h1 [] kInfoSas 3" "hkdf h2 [] kInfoSas 3"] by auto

section \<open>Finding a path\<close>

text \<open>
  C32. Whatever datagrams arrive and however the timer runs, a punching session keeps its candidates in
  order of priority, never sends more probes to one than the configured number, is in the nominated state exactly when it
  has a nominated path, nominates only a validated path, and once something is validated either has nominated or has a deadline for it.
\<close>

theorem punch_session_sound:
  assumes "punch_reach s"
  shows "sorted_wrt (\<ge>) (map pp_priority (ps_pairs s))
    \<and> (\<forall>p. p \<in> set (ps_pairs s) \<longrightarrow> pp_attempts p \<le> max 0 (pc_max_attempts_per_pair (ps_cfg s)))
    \<and> (ps_state s = PNominated \<longleftrightarrow> nominated_path s \<noteq> None)
    \<and> (\<forall>b. ps_nominated s = Some b \<longrightarrow> b < length (ps_pairs s) \<and> pp_validated (ps_pairs s ! b))
    \<and> (list_ex pp_validated (ps_pairs s) \<longrightarrow> ps_nominated s \<noteq> None \<or> ps_nominate_at s \<noteq> None)"
  using punch_reach_inv [OF assms]
  by (auto simp: punch_inv_def pairs_inv_def list_all_iff few_attempts_def nominated_path_def split: option.split)

theorem punch_session_sound_witness:
  "punch_reach demo_probing \<and> sorted_wrt (\<ge>) (map pp_priority (ps_pairs demo_probing)) \<and> nominated_path demo_probing = None"
  using punch_session_sound [OF demo_probing_reach] demo_probing_reach demo_probing_fields(1) by simp

text \<open>
  C33. An attempt always ends: while it is probing it asks to be woken no later than its deadline, and the first
  wake-up at or after the deadline nominates a path if any was validated and fails otherwise.
\<close>

theorem punch_settles:
  assumes "punch_reach s" "ps_state s = PProbing"
  shows "(\<exists>t. punch_next_timeout s = Some t \<and> t \<le> ps_started s + pc_total_timeout (ps_cfg s))
    \<and> (\<forall>now. ps_started s + pc_total_timeout (ps_cfg s) \<le> now \<longrightarrow>
         ps_state (punch_on_timeout now s) = (if list_ex pp_validated (ps_pairs s) then PNominated else PFailed))"
  using next_timeout_bound [OF assms(2)] deadline_settles [OF punch_reach_inv [OF assms(1)] assms(2)] by blast

theorem punch_settles_witness: "ps_state (punch_on_timeout 9000 demo_probing) = PFailed"
proof -
  have "\<not> list_ex pp_validated (ps_pairs demo_probing)"
    using tracks_maps(4) [OF demo_probing_pairs] by (simp add: demo_punch_pairs Pair_default_def)
  then show ?thesis
    using punch_settles [OF demo_probing_reach demo_probing_fields(1), THEN conjunct2, THEN spec, of 9000]
    by (simp add: demo_probing_fields PunchConfig_default_def)
qed

text \<open>
  C34. A path is validated only by proof: the one input that turns a candidate valid is a datagram that decodes as a
  probe answer with the candidate's transaction id and, when the session has a key, the tag that only a holder of the key can
  compute, and the validated address is the one it came from.
\<close>

theorem only_proof_validates:
  assumes "punch_reach s" "i < length (ps_pairs s)" "\<not> pp_validated (ps_pairs s ! i)"
    "pp_validated (ps_pairs (punch_apply op s) ! i)"
  shows "\<exists>src d now h r ok. op = PDatagram src d now
    \<and> run_state (Header_decode kVersion) (Reader d) = (Some h, r) \<and> h_type h = MT_ProbeOk
    \<and> fst (run_state ProbeOk_decode r) = Some ok \<and> po_txn ok = pp_txn (ps_pairs s ! i)
    \<and> (ps_probe_key s = None \<or> po_tag ok = probe_tag (ps_probe_key s) (po_txn ok) True)
    \<and> cand_ep (pp_remote (ps_pairs (punch_apply op s) ! i)) = src"
proof -
  obtain src d now where o: "op = PDatagram src d now" "proves s d i"
    "cand_ep (pp_remote (ps_pairs (punch_apply op s) ! i)) = src"
    using validated_by_answer [OF punch_reach_inv [OF assms(1)] assms(2-4)] by blast
  obtain h r ok where p: "run_state (Header_decode kVersion) (Reader d) = (Some h, r)" "h_type h = MT_ProbeOk"
    "fst (run_state ProbeOk_decode r) = Some ok" "ps_probe_key s = None \<or> po_tag ok = probe_tag (ps_probe_key s) (po_txn ok) True"
    "find_txn 0 (po_txn ok) (ps_pairs s) = Some i"
    using o(2) unfolding proves_def by blast
  have "po_txn ok = pp_txn (ps_pairs s ! i)" using find_txn_Some [OF p(5)] by simp
  with o p show ?thesis by blast
qed

theorem only_proof_validates_witness:
  "\<exists>d h r. \<not> pp_validated (ps_pairs demo_probing ! 0)
    \<and> pp_validated (ps_pairs (punch_apply (PDatagram demo_peer d 1050) demo_probing) ! 0)
    \<and> run_state (Header_decode kVersion) (Reader d) = (Some h, r) \<and> h_type h = MT_ProbeOk"
proof -
  obtain rep :: PunchOut where r: "pp_validated (ps_pairs (punch_on_datagram demo_peer (px_data rep) 1050 demo_probing) ! 0)"
    by (rule demo_exchange)
  then show ?thesis
    using only_proof_validates [OF demo_probing_reach _ demo_pair(4), of "PDatagram demo_peer (px_data rep) 1050"] demo_pair
    by fastforce
qed

text \<open>
  C35. Two peers that share the key validate a path with one exchange: the receiver's answer to a probe that arrives
  from any address makes the sender mark that candidate valid, with the address the answer came from.
\<close>

theorem probe_exchange_validates:
  assumes "length (pp_txn (ps_pairs s ! i)) = kProbeTxnLen" "wf_ep seen" "i < length (ps_pairs s)"
    "distinct (map pp_txn (ps_pairs s))" "\<not> pp_validated (ps_pairs s ! i)"
  shows "\<exists>rep. answer_probe seen
        (encode_probe (pp_txn (ps_pairs s ! i)) (probe_tag (ps_probe_key s) (pp_txn (ps_pairs s ! i)) False) n) (ps_probe_key s) m
        = Some rep \<and> px_to rep = seen
     \<and> pp_validated (ps_pairs (punch_on_datagram src (px_data rep) now s) ! i)
     \<and> cand_ep (pp_remote (ps_pairs (punch_on_datagram src (px_data rep) now s) ! i)) = src"
  using assms by (rule exchange_validates)

theorem probe_exchange_validates_witness:
  "\<exists>rep. answer_probe demo_peer (encode_probe (replicate 16 1) (probe_tag (Some (replicate 32 9)) (replicate 16 1) False) 1)
        (Some (replicate 32 9)) 1 = Some rep
     \<and> pp_validated (ps_pairs (punch_on_datagram demo_peer (px_data rep) 1050 demo_probing) ! 0)"
  using probe_exchange_validates [of demo_probing 0 demo_peer 1 1 demo_peer 1050] demo_pair demo_peer_wf
  by (auto simp: demo_probing_fields kProbeTxnLen_def)

section \<open>STUN\<close>



text \<open>
  C37. An address is believed only from an answer to our own request: it came from the server that was asked, as a
  success response with the cookie, our transaction id and a length that is within the datagram.
\<close>

theorem stun_answers_request:
  assumes "binding is_open send_to txn moments server = Some ep"
  shows "is_open \<and> send_to server (make_binding_request txn)
    \<and> (\<exists>rx \<in> set (concat moments). ep_eq (rx_from rx) server \<and> parse_binding_response (rx_data rx) txn = Some ep
        \<and> read_u16 (rx_data rx) 0 = kBindingSuccessResponse \<and> read_u32 (rx_data rx) 4 = kMagicCookie
        \<and> take 12 (drop 8 (rx_data rx)) = txn \<and> 20 + unat (read_u16 (rx_data rx) 2) \<le> length (rx_data rx))"
proof -
  have b: "is_open" "send_to server (make_binding_request txn)" "await_answer server txn moments = Some ep"
    using assms by (simp_all add: binding_def split: if_splits)
  obtain rx where rx: "rx \<in> set (concat moments)" "ep_eq (rx_from rx) server" "parse_binding_response (rx_data rx) txn = Some ep"
    using await_answer_Some [OF b(3)] by auto
  with parse_checks [OF rx(3)] b show ?thesis by blast
qed

theorem stun_answers_request_witness:
  "\<exists>ep. binding True (\<lambda>_ _. True) (replicate 12 5)
      [[\<lparr>rx_from = demo_peer, rx_data = [1, 2]\<rparr>], [\<lparr>rx_from = demo_peer, rx_data = stun_response (replicate 12 5)
        [(kXorMappedAddress, xor_mapped_value (replicate 12 5) demo_peer)]\<rparr>]] demo_peer = Some ep \<and> ep = demo_peer"
proof -
  let ?d = "stun_response (replicate 12 5) [(kXorMappedAddress, xor_mapped_value (replicate 12 5) demo_peer)]"
  have wf: "wf_ep demo_peer" by (simp add: demo_peer_def wf_ep_def wf_ip_def ip_v4_def addr_len_def)
  have p: "parse_binding_response ?d (replicate 12 5) = Some demo_peer"
    using stun_roundtrip [OF wf, of "replicate 12 5" "[]" "[]"] length_xor_mapped [OF wf, of "replicate 12 5"]
    by (simp add: stun_response_def length_stun_attr align4_def)
  have "binding True (\<lambda>_ _. True) (replicate 12 5)
      [[\<lparr>rx_from = demo_peer, rx_data = [1, 2]\<rparr>], [\<lparr>rx_from = demo_peer, rx_data = ?d\<rparr>]] demo_peer = Some demo_peer"
    by (simp add: binding_def p parse_binding_response_def [of "[1, 2]"] kHeaderSize_def ep_eq_def ip_eq_def)
  with stun_answers_request [OF this] show ?thesis by blast
qed

text \<open>
  The NAT is called endpoint-dependent exactly when two servers saw different addresses, open exactly when all saw one
  of the host's own addresses and port, endpoint-independent when all saw the same other address, and nothing is concluded from
  fewer than two answers; the servers asked are pairwise different.
\<close>

theorem nat_classification:
  "sorted_wrt (\<lambda>a b. \<not> ep_eq a b) (distinct_destinations host_of kServers [])
   \<and> classify_mapping os port ips =
     (if length os < 2 then MUnknown
      else if list_ex (\<lambda>a. list_ex (\<lambda>b. \<not> ep_eq a b) os) os then EndpointDependent
      else if list_ex (\<lambda>ip. ep_eq (hd os) \<lparr>ep_ip = ip, ep_port = port\<rparr>) ips then MOpen
      else EndpointIndependent)"
  using classify_spec [of os port ips] destinations_distinct [of "[]" host_of kServers] by (simp add: list_ex_iff)

section \<open>Configuration\<close>

text \<open>
  C38. A printed configuration is read back: for every configuration whose values are in range, reading what
  \<open>to_yaml\<close> prints, on top of any configuration, gives that configuration again, whatever text the bind address holds; the
  one member without a key in the file, the number of remembered UDP sources, keeps the value it had.
\<close>

theorem config_roundtrip:
  assumes "validate_config cfg = None" "config_typed cfg"
  shows "apply_config (to_yaml cfg) c =
    Inr (cfg\<lparr>rv_control := (rv_control cfg)\<lparr>cc_max_udp_sources := cc_max_udp_sources (rv_control c)\<rparr>\<rparr>)"
  using assms by (rule config_read_back)

theorem config_roundtrip_witness:
  "validate_config RendezvousConfig_default = None
   \<and> apply_config (to_yaml RendezvousConfig_default) RendezvousConfig_default = Inr RendezvousConfig_default"
  using config_roundtrip [OF demo_valid demo_typed, of RendezvousConfig_default] demo_valid
  by (simp add: RendezvousConfig_default_def)

text \<open>
  C39. The command line is applied as documented: when it is accepted, every numeric field of the schema is in its range, and its
  value is the one the last flag that sets it gives; failing a flag, the one the file gives, wherever on the line the file is
  named; failing both, the default.
\<close>

theorem config_precedence:
  assumes "parse_server_args file args = Inr opts" "f \<in> set schema" "f_kind f \<noteq> KText"
  shows "\<exists>o' path ss vs. scan_args ServerOptions_default None [] args = Inr (o', path, ss) \<and> file_values file path vs
    \<and> f_lo f \<le> f_get f (so_cfg opts) \<and> f_get f (so_cfg opts) \<le> f_hi f
    \<and> (case map_of (rev (flag_values ss)) (f_path f) of
         Some s \<Rightarrow> parse_value (f_kind f) s = Some (f_get f (so_cfg opts))
       | None \<Rightarrow>
           (case map_of (rev vs) (f_path f) of
              Some s \<Rightarrow> parse_value (f_kind f) s = Some (f_get f (so_cfg opts))
            | None \<Rightarrow> f_get f (so_cfg opts) = f_get f RendezvousConfig_default))"
proof -
  obtain o' path ss vs where a: "scan_args ServerOptions_default None [] args = Inr (o', path, ss)" "file_values file path vs"
    "run_values schema (vs @ flag_values ss) RendezvousConfig_default = Some (so_cfg opts)" "validate_config (so_cfg opts) = None"
    using assms(1) by (rule server_args_values)
  have "f_lo f \<le> f_get f (so_cfg opts)" "f_get f (so_cfg opts) \<le> f_hi f"
    using a(4) assms(2,3) by (auto simp: validate_config_def validate_fields_iff list_all_iff field_valid_def in_range_None)
  with a(1,2) config.last_setting [OF a(3) assms(2,3)] show ?thesis
    by (intro exI [of _ o'] exI [of _ path] exI [of _ ss] exI [of _ vs]) (auto simp: map_add_def split: option.splits)
qed

theorem config_precedence_witness:
  "\<exists>opts. parse_server_args demo_file demo_args = Inr opts \<and> f_get (hd schema) (so_cfg opts) \<le> 65535"
  using config_precedence [OF demo_parsed, of "hd schema"] demo_parsed hd_in_set [of schema]
  by (auto simp: schema_def uc_field_def)



section \<open>The runtime of the server\<close>

text \<open>
  C5. In every state that any interleaving of the loop's and the workers' steps reaches: a connection is
  carried by one thread only; the control service knows exactly the connections the loop uses for control, so the owner of every record and
  both parties of every relay binding are such connections; and whoever waits for the other end of a relay binding is a connection of the loop that joined
  that binding on that side.
\<close>

theorem rendezvous_sound:
  assumes "rz_reach (clock, s)"
  shows "(\<forall>pl pl' k. tab pl s k \<noteq> None \<and> tab pl' s k \<noteq> None \<longrightarrow> pl = pl')
    \<and> Mapping.keys (sv_conns (rz_service s)) = {k. \<exists>c. get k (rz_conns s) = Some c \<and> c_mode c = MControl}
    \<and> parties (sv_reg (rz_service s)) \<subseteq> {k. \<exists>c. get k (rz_conns s) = Some c \<and> c_mode c = MControl}
    \<and> (\<forall>sd rid k. get rid (rz_waiting s sd) = Some k \<longrightarrow>
         (\<exists>c. get k (rz_conns s) = Some c \<and> c_mode c = MRelayWaiting \<and> c_relay_id c = rid \<and> c_relay_side c = Some sd))"
proof -
  note I = rz_invD [OF rz_reach_inv [OF assms]]
  have "pl = pl'" if "tab pl s k \<noteq> None" "tab pl' s k \<noteq> None" for pl pl' k using I(2) that unfolding apart_def by blast
  moreover have "Mapping.keys (sv_conns (rz_service s)) = {k. \<exists>c. get k (rz_conns s) = Some c \<and> c_mode c = MControl}"
    using I(6) by (simp add: controls_def)
  moreover have "parties (sv_reg (rz_service s)) \<subseteq> Mapping.keys (sv_conns (rz_service s))" using I(8) by (simp add: sv_inv_def)
  ultimately show ?thesis using waitsD [OF I(5)] by blast
qed

theorem rendezvous_sound_witness:
  "rz_reach (10, accept_one (Some demo_src) 10 demo_new) \<and> get 1 (rz_conns (accept_one (Some demo_src) 10 demo_new)) \<noteq> None
   \<and> Mapping.keys (sv_conns (rz_service (accept_one (Some demo_src) 10 demo_new))) = {}"
  using rendezvous_sound [OF demo_accepted_reach] demo_accepted_reach demo_accepted_conns by (auto split: if_splits)







text \<open>The candidates and the flag of a registration that was accepted.\<close>

lemma read_cands_le: "fst (run_state read_cands r) = Some cs \<Longrightarrow> length cs \<le> kMaxCandidates"
  by (auto simp: read_cands_def rd_ok_def State_Monad.return_def split: prod.splits if_splits)
    (metis length_read_loop le_trans not_less)

lemma Register_decode_typed:
  assumes "fst (run_state (Register_decode h) r) = Some m" shows "wf_Register h m"
proof -
  obtain i r1 where 1: "run_state (rd_array kTopicIdLen) r = (i, r1)" by fastforce
  obtain md r2 where 2: "run_state read_mode r1 = (md, r2)" by fastforce
  obtain ke r3 where 3: "run_state rd_u8 r2 = (ke, r3)" by fastforce
  obtain cs r4 where 4: "run_state read_cands r3 = (cs, r4)" by fastforce
  obtain mt r5 where 5: "run_state read_meta r4 = (mt, r5)" by fastforce
  have "cs = Some (rg_host_cands m) \<and> rg_unlisted m = (h_flags h AND kUnlisted \<noteq> 0)"
    using assms 1 2 3 4 5 by (auto simp: Register_decode_def State_Monad.return_def split: option.splits)
  then show ?thesis using Register_decode_wf [OF assms] read_cands_le [of r3] 4 by (simp add: wf_Register_def)
qed

text \<open>
  C30. Whatever bytes arrive as a registration, when they are accepted the result is a well-formed one: an identifier of
  its length, at most the allowed number of candidates, each with a canonical address, bounded metadata, the
  hidden flag as the header has it; nothing beyond the bytes was read, and writing the result and reading it again gives it back.
\<close>

theorem register_decodes_typed:
  assumes "run_state (Register_decode h) (Reader bs) = (Some m, r)"
  shows "wf_Register h m \<and> r_ok r \<and> r_pos r \<le> length bs
    \<and> fst (run_state (Register_decode h) (Reader (ser_Register m @ rest))) = Some m"
proof -
  have "wf_Register h m" using Register_decode_typed [of h "Reader bs" m] assms by simp
  then show ?thesis using register.decode_within [OF assms] reads_Reader [OF register.decode_ser] by simp
qed

theorem register_decodes_typed_witness:
  "\<exists>r. run_state (Register_decode demo_head) (Reader (ser_Register demo_msg)) = (Some demo_msg, r) \<and> wf_Register demo_head demo_msg"
proof -
  obtain r where r: "run_state (Register_decode demo_head) (Reader (ser_Register demo_msg)) = (Some demo_msg, r)"
    using demo_decodes by blast
  then show ?thesis using register_decodes_typed [OF r] by blast
qed

end
